(* ===== verification/Efp_Prelude.thy ===== *)
theory Efp_Prelude
  imports Main "HOL-Library.Word" "HOL-Library.Monad_Syntax" "HOL-Library.Signed_Division"
begin

unbundle bit_operations_syntax

text \<open>
  Shared vocabulary of the development.

  \<^item> Machine integers: \<open>u8 .. u64\<close> are words of their width. A \<open>size_t\<close> is a \<open>nat\<close>;
    where the code subtracts or adds sizes that are not ordered by an earlier guard, the
    wrap-around at 64 bits is written out (\<open>size_sub\<close>, \<open>size_add\<close>). \<open>int64_t\<close> clock values and
    delivery orders are \<open>int\<close>: a signed overflow would be undefined behaviour in C++ and needs
    clocks or sequence numbers near the bounds of 64 bits.
  \<^item> Memory: a buffer is a list; an access outside of it is \<open>None\<close>, the value that stands for
    undefined behaviour throughout the development. A theorem that an operation is \<open>Some\<close> is
    therefore a memory-safety theorem.
  \<^item> The steady clock is a stream of readings, consumed by \<open>nowUs\<close>.
  \<^item> \<open>std::map\<close> is an association list sorted by key, with the interface \<open>ordered_map\<close>.
\<close>

section \<open>Integers and bytes\<close>

type_synonym u8 = "8 word"
type_synonym u16 = "16 word"
type_synonym u32 = "32 word"
type_synonym u64 = "64 word"
type_synonym bytes = "u8 list"

named_theorems mem_simps \<open>reads and writes of buffers\<close>
named_theorems wire_simps \<open>layout of the packed headers\<close>

definition size_sub :: "nat \<Rightarrow> nat \<Rightarrow> nat" where
  "size_sub a b = (if b \<le> a then a - b else a + 2 ^ 64 - b)"

definition size_add :: "nat \<Rightarrow> nat \<Rightarrow> nat" where
  "size_add a b = (a + b) mod 2 ^ 64"

lemma size_sub_le [simp]: "b \<le> a \<Longrightarrow> size_sub a b = a - b"
  by (simp add: size_sub_def)

lemma size_add_less [simp]: "a + b < 2 ^ 64 \<Longrightarrow> size_add a b = a + b"
  by (simp add: size_add_def)

text \<open>
  Division of \<open>int64_t\<close> truncates. One step of a moving average stays between the old value and the
  sample.
\<close>

lemma sdiv_shrinks:
  fixes k x :: int
  assumes "0 < k"
  shows "0 \<le> x \<Longrightarrow> 0 \<le> x sdiv k \<and> x sdiv k \<le> x" "x \<le> 0 \<Longrightarrow> x \<le> x sdiv k \<and> x sdiv k \<le> 0"
proof -
  have "\<bar>x\<bar> div k \<le> \<bar>x\<bar>" "0 \<le> \<bar>x\<bar> div k"
    using assms zdiv_mono2 [of "\<bar>x\<bar>" 1 k] by (simp_all add: pos_imp_zdiv_nonneg_iff)
  then show "0 \<le> x \<Longrightarrow> 0 \<le> x sdiv k \<and> x sdiv k \<le> x" "x \<le> 0 \<Longrightarrow> x \<le> x sdiv k \<and> x sdiv k \<le> 0"
    using assms by (auto simp: signed_divide_int_def sgn_if)
qed

lemma average_between:
  fixes k j d :: int
  assumes "0 < k"
  shows "min j d \<le> j + (d - j) sdiv k \<and> j + (d - j) sdiv k \<le> max j d"
  using sdiv_shrinks [OF assms, of "d - j"] by (cases "j \<le> d") auto

subsection \<open>Little-endian fields\<close>

fun le_enc :: "nat \<Rightarrow> nat \<Rightarrow> bytes" where
  "le_enc 0 v = []"
| "le_enc (Suc n) v = word_of_nat v # le_enc n (v div 256)"

fun le_dec :: "bytes \<Rightarrow> nat" where
  "le_dec [] = 0"
| "le_dec (b # bs) = unat b + 256 * le_dec bs"

lemma length_le_enc [simp]: "length (le_enc n v) = n"
  by (induction n arbitrary: v) auto

lemma le_dec_enc [simp]: "le_dec (le_enc n v) = v mod 256 ^ n"
proof (induction n arbitrary: v)
  case 0
  then show ?case by simp
next
  case (Suc n)
  have "v mod 256 ^ Suc n = v mod 256 + 256 * (v div 256 mod 256 ^ n)"
    by (simp add: mod_mult2_eq)
  with Suc show ?case by (simp add: unat_of_nat take_bit_eq_mod)
qed

lemma unat_bounds: "unat (a :: u8) < 256" "unat (b :: u16) < 65536" "unat (c :: u32) < 4294967296"
  "unat (d :: u64) < 18446744073709551616"
  using unsigned_less [of a, where ?'a = nat] unsigned_less [of b, where ?'a = nat]
    unsigned_less [of c, where ?'a = nat] unsigned_less [of d, where ?'a = nat] by simp_all

lemma le_dec_bound: "le_dec bs < 256 ^ length bs"
proof (induction bs)
  case Nil
  then show ?case by simp
next
  case (Cons b bs)
  have "unat b < 256" by (rule unat_bounds)
  moreover from Cons have "le_dec bs + 1 \<le> 256 ^ length bs" by simp
  ultimately show ?case by simp
qed

lemma le_enc_dec [simp]: "le_enc (length bs) (le_dec bs) = bs"
proof (induction bs)
  case Nil
  then show ?case by simp
next
  case (Cons b bs)
  have b: "unat b < 256" by (rule unat_bounds)
  then have "(unat b + 256 * le_dec bs) div 256 = le_dec bs" by simp
  moreover have "(word_of_nat (unat b + 256 * le_dec bs) :: u8) = b"
    by (rule unsigned_word_eqI [where ?'a = nat])
      (use b in \<open>simp only: unat_of_nat, simp add: take_bit_eq_mod\<close>)
  ultimately show ?case using Cons by simp
qed

definition le16 :: "u16 \<Rightarrow> bytes" where "le16 w = le_enc 2 (unat w)"
definition le32 :: "u32 \<Rightarrow> bytes" where "le32 w = le_enc 4 (unat w)"
definition le64 :: "u64 \<Rightarrow> bytes" where "le64 w = le_enc 8 (unat w)"

definition rd8 :: "nat \<Rightarrow> bytes \<Rightarrow> u8" where "rd8 off bs = bs ! off"
definition rd16 :: "nat \<Rightarrow> bytes \<Rightarrow> u16" where "rd16 off bs = word_of_nat (le_dec (take 2 (drop off bs)))"
definition rd32 :: "nat \<Rightarrow> bytes \<Rightarrow> u32" where "rd32 off bs = word_of_nat (le_dec (take 4 (drop off bs)))"
definition rd64 :: "nat \<Rightarrow> bytes \<Rightarrow> u64" where "rd64 off bs = word_of_nat (le_dec (take 8 (drop off bs)))"

lemma length_le [simp]: "length (le16 a) = 2" "length (le32 b) = 4" "length (le64 c) = 8"
  by (simp_all add: le16_def le32_def le64_def)

lemma unat_mod16: "unat (a :: u16) mod 65536 = unat a"
  by (rule mod_less [OF unat_bounds(2)])

lemma unat_mod32: "unat (a :: u32) mod 4294967296 = unat a"
  by (rule mod_less [OF unat_bounds(3)])

lemma unat_mod64: "unat (a :: u64) mod 18446744073709551616 = unat a"
  by (rule mod_less [OF unat_bounds(4)])

lemma rd_le [simp]: "rd16 0 (le16 a @ xs) = a" "rd32 0 (le32 b @ xs) = b" "rd64 0 (le64 c @ xs) = c"
  "rd16 0 (le16 a) = a" "rd32 0 (le32 b) = b" "rd64 0 (le64 c) = c"
  by (simp_all add: rd16_def rd32_def rd64_def le16_def le32_def le64_def unat_mod16 unat_mod32 unat_mod64)

lemma rd_Cons [wire_simps]:
  "rd8 0 (x # xs) = x" "0 < n \<Longrightarrow> rd8 n (x # xs) = rd8 (n - 1) xs"
  "0 < n \<Longrightarrow> rd16 n (x # xs) = rd16 (n - 1) xs" "0 < n \<Longrightarrow> rd32 n (x # xs) = rd32 (n - 1) xs"
  "0 < n \<Longrightarrow> rd64 n (x # xs) = rd64 (n - 1) xs"
  by (simp_all add: rd8_def rd16_def rd32_def rd64_def drop_Cons')

lemma rd_skip [wire_simps]:
  "length xs \<le> n \<Longrightarrow> rd8 n (xs @ ys) = rd8 (n - length xs) ys"
  "length xs \<le> n \<Longrightarrow> rd16 n (xs @ ys) = rd16 (n - length xs) ys"
  "length xs \<le> n \<Longrightarrow> rd32 n (xs @ ys) = rd32 (n - length xs) ys"
  "length xs \<le> n \<Longrightarrow> rd64 n (xs @ ys) = rd64 (n - length xs) ys"
  by (simp_all add: rd8_def rd16_def rd32_def rd64_def nth_append)

text \<open>Reading the fields of a header and writing them again gives the bytes back, field by field.\<close>

lemma le_rd:
  "n + 2 \<le> length bs \<Longrightarrow> le16 (rd16 n bs) = take 2 (drop n bs)"
  "n + 4 \<le> length bs \<Longrightarrow> le32 (rd32 n bs) = take 4 (drop n bs)"
  "n + 8 \<le> length bs \<Longrightarrow> le64 (rd64 n bs) = take 8 (drop n bs)"
proof -
  have enc: "le_enc k (le_dec (take k (drop n bs)) mod 256 ^ k) = take k (drop n bs)" if "n + k \<le> length bs" for k
  proof -
    have len: "length (take k (drop n bs)) = k" using that by simp
    with le_dec_bound [of "take k (drop n bs)"] have "le_dec (take k (drop n bs)) < 256 ^ k" by simp
    then show ?thesis using le_enc_dec [of "take k (drop n bs)"] by (simp only: mod_less len)
  qed
  show "n + 2 \<le> length bs \<Longrightarrow> le16 (rd16 n bs) = take 2 (drop n bs)"
    using enc [of 2] by (simp add: le16_def rd16_def unat_of_nat take_bit_eq_mod)
  show "n + 4 \<le> length bs \<Longrightarrow> le32 (rd32 n bs) = take 4 (drop n bs)"
    using enc [of 4] by (simp add: le32_def rd32_def unat_of_nat take_bit_eq_mod)
  show "n + 8 \<le> length bs \<Longrightarrow> le64 (rd64 n bs) = take 8 (drop n bs)"
    using enc [of 8] by (simp add: le64_def rd64_def unat_of_nat take_bit_eq_mod)
qed

lemma take_drop_chain: "m = n + k \<Longrightarrow> take k (drop n bs) @ drop m bs = drop n bs"
  using append_take_drop_id [of k "drop n bs"] by (simp add: add.commute)

lemma enc_dec_chain:
  "length bs = Suc n \<Longrightarrow> [rd8 n bs] = drop n bs"
  "m = Suc n \<Longrightarrow> n < length bs \<Longrightarrow> rd8 n bs # drop m bs = drop n bs"
  "m = n + 2 \<Longrightarrow> m \<le> length bs \<Longrightarrow> le16 (rd16 n bs) @ drop m bs = drop n bs"
  "m = n + 4 \<Longrightarrow> m \<le> length bs \<Longrightarrow> le32 (rd32 n bs) @ drop m bs = drop n bs"
  "m = n + 8 \<Longrightarrow> m \<le> length bs \<Longrightarrow> le64 (rd64 n bs) @ drop m bs = drop n bs"
  "length bs = n + 2 \<Longrightarrow> le16 (rd16 n bs) = drop n bs"
  "length bs = n + 4 \<Longrightarrow> le32 (rd32 n bs) = drop n bs"
  "length bs = n + 8 \<Longrightarrow> le64 (rd64 n bs) = drop n bs"
  using Cons_nth_drop_Suc [of n bs] by (simp_all add: rd8_def le_rd take_drop_chain)

lemma rd_take:
  "n < w \<Longrightarrow> rd8 n (take w bs) = rd8 n bs"
  "n + 2 \<le> w \<Longrightarrow> rd16 n (take w bs) = rd16 n bs"
  "n + 4 \<le> w \<Longrightarrow> rd32 n (take w bs) = rd32 n bs"
  "n + 8 \<le> w \<Longrightarrow> rd64 n (take w bs) = rd64 n bs"
  by (simp_all add: rd8_def rd16_def rd32_def rd64_def drop_take min_def)

section \<open>Memory\<close>

definition mem_load :: "nat \<Rightarrow> 'a list \<Rightarrow> nat \<Rightarrow> 'a list option" where
  "mem_load n m off = (if off + n \<le> length m then Some (take n (drop off m)) else None)"

definition mem_write :: "'a list \<Rightarrow> nat \<Rightarrow> 'a list \<Rightarrow> 'a list option" where
  "mem_write m off xs =
     (if off + length xs \<le> length m then Some (take off m @ xs @ drop (off + length xs) m) else None)"

definition mem_move :: "'a list \<Rightarrow> nat \<Rightarrow> nat \<Rightarrow> nat \<Rightarrow> 'a list option" where
  "mem_move m to from n = do { xs \<leftarrow> mem_load n m from; mem_write m to xs }"

lemma mem_load_Some [mem_simps]: "off + n \<le> length m \<Longrightarrow> mem_load n m off = Some (take n (drop off m))"
  by (simp add: mem_load_def)

lemma mem_write_Some [mem_simps]:
  "off + length xs \<le> length m \<Longrightarrow> mem_write m off xs = Some (take off m @ xs @ drop (off + length xs) m)"
  by (simp add: mem_write_def)

lemma mem_write_ex: "off + length xs \<le> length m \<Longrightarrow> \<exists>m'. mem_write m off xs = Some m'"
  by (simp add: mem_write_def)

lemma mem_load_length: "mem_load n m off = Some xs \<Longrightarrow> length xs = n \<and> off + n \<le> length m"
  by (auto simp: mem_load_def split: if_splits)

lemma mem_write_length: "mem_write m off xs = Some m' \<Longrightarrow> length m' = length m"
  by (auto simp: mem_write_def split: if_splits)

text \<open>A region read back after a write: the written bytes, or the old ones where the two are disjoint.\<close>

definition region :: "nat \<Rightarrow> nat \<Rightarrow> 'a list \<Rightarrow> 'a list" where
  "region off n m = take n (drop off m)"

lemma region_write_same:
  "mem_write m off xs = Some m' \<Longrightarrow> n = length xs \<Longrightarrow> region off n m' = xs"
  by (auto simp: region_def mem_write_def split: if_splits)

lemma region_write_before:
  assumes "mem_write m off xs = Some m'" "o' + n \<le> off"
  shows "region o' n m' = region o' n m"
proof -
  from assms have "m' = take off m @ xs @ drop (off + length xs) m" "off \<le> length m"
    by (auto simp: mem_write_def split: if_splits)
  moreover have "n \<le> length (drop o' (take off m))"
    using assms(2) \<open>off \<le> length m\<close> by simp
  ultimately have "region o' n m' = take n (drop o' (take off m))"
    using assms(2) by (auto simp: region_def)
  then show ?thesis
    using assms(2) by (simp add: region_def drop_take)
qed

lemma region_write_after:
  assumes "mem_write m off xs = Some m'" "off + length xs \<le> o'"
  shows "region o' n m' = region o' n m"
proof -
  from assms have m': "m' = take off m @ xs @ drop (off + length xs) m" and "off \<le> length m"
    by (auto simp: mem_write_def split: if_splits)
  then have "drop o' m' = drop o' m"
    using assms(2) by simp
  then show ?thesis by (simp add: region_def)
qed

lemma length_region: "off + n \<le> length m \<Longrightarrow> length (region off n m) = n"
  by (simp add: region_def)

lemma region_all: "length m = n \<Longrightarrow> region 0 n m = m"
  by (simp add: region_def)

lemma region_append: "region off (a + b) m = region off a m @ region (off + a) b m"
  by (simp add: region_def take_add add.commute)

lemma region_map: "region off n (map f m) = map f (region off n m)"
  by (simp add: region_def take_map drop_map)

section \<open>The steady clock\<close>

type_synonym clock = "nat \<Rightarrow> int"

definition nowUs :: "clock \<Rightarrow> int \<times> clock" where
  "nowUs c = (c 0, \<lambda>n. c (Suc n))"

definition steady :: "clock \<Rightarrow> bool" where
  "steady c \<longleftrightarrow> (\<forall>n. c n \<le> c (Suc n))"

lemma steady_tick: "steady c \<Longrightarrow> steady (snd (nowUs c)) \<and> fst (nowUs c) \<le> fst (nowUs (snd (nowUs c)))"
  by (simp add: steady_def nowUs_def)

section \<open>Ordered maps\<close>

text \<open>The interface of \<open>std::map\<close> the receiver uses: update, erase, iteration in key order, size.\<close>

locale ordered_map =
  fixes lookup :: "'m \<Rightarrow> 'k::linorder \<Rightarrow> 'v option"
    and update :: "'k \<Rightarrow> 'v \<Rightarrow> 'm \<Rightarrow> 'm"
    and erase :: "'k \<Rightarrow> 'm \<Rightarrow> 'm"
    and entries :: "'m \<Rightarrow> ('k \<times> 'v) list"
    and wf :: "'m \<Rightarrow> bool"
  assumes lookup_update: "wf m \<Longrightarrow> lookup (update k v m) k' = (if k' = k then Some v else lookup m k')"
    and lookup_erase: "wf m \<Longrightarrow> lookup (erase k m) k' = (if k' = k then None else lookup m k')"
    and wf_update: "wf m \<Longrightarrow> wf (update k v m)"
    and wf_erase: "wf m \<Longrightarrow> wf (erase k m)"
    and entries_sorted: "wf m \<Longrightarrow> sorted_wrt (<) (map fst (entries m))"
    and entries_lookup: "wf m \<Longrightarrow> (k, v) \<in> set (entries m) \<longleftrightarrow> lookup m k = Some v"
begin

lemma entries_distinct: "wf m \<Longrightarrow> distinct (map fst (entries m))"
  using entries_sorted strict_sorted_iff by blast

lemma erase_update: "wf m \<Longrightarrow> lookup (erase k (update k v m)) k' = lookup (erase k m) k'"
  by (simp add: lookup_update lookup_erase wf_update)

lemma entries_update:
  "wf m \<Longrightarrow> set (entries (update k v m)) = insert (k, v) {(k', v') \<in> set (entries m). k' \<noteq> k}"
  by (auto simp: entries_lookup lookup_update wf_update split: if_splits)

lemma entries_erase:
  "wf m \<Longrightarrow> set (entries (erase k m)) = {(k', v') \<in> set (entries m). k' \<noteq> k}"
  by (auto simp: entries_lookup lookup_erase wf_erase split: if_splits)

end

fun om_update :: "'k::linorder \<Rightarrow> 'v \<Rightarrow> ('k \<times> 'v) list \<Rightarrow> ('k \<times> 'v) list" where
  "om_update k v [] = [(k, v)]"
| "om_update k v ((k', v') # m) =
     (if k < k' then (k, v) # (k', v') # m
      else if k = k' then (k, v) # m
      else (k', v') # om_update k v m)"

fun om_erase :: "'k \<Rightarrow> ('k \<times> 'v) list \<Rightarrow> ('k \<times> 'v) list" where
  "om_erase k [] = []"
| "om_erase k ((k', v') # m) = (if k = k' then m else (k', v') # om_erase k m)"

definition om_wf :: "('k::linorder \<times> 'v) list \<Rightarrow> bool" where
  "om_wf m \<longleftrightarrow> sorted_wrt (<) (map fst m)"

lemma om_wf_simps [simp]: "om_wf []" "om_wf ((k, v) # m) \<longleftrightarrow> (\<forall>(k', v') \<in> set m. k < k') \<and> om_wf m"
  by (auto simp: om_wf_def)

lemma om_update_keys: "fst ` set (om_update k v m) = insert k (fst ` set m)"
  by (induction k v m rule: om_update.induct) auto

lemma om_erase_keys: "set (om_erase k m) \<subseteq> set m"
  by (induction k m rule: om_erase.induct) auto

lemma om_wf_update: "om_wf m \<Longrightarrow> om_wf (om_update k v m)"
proof (induction k v m rule: om_update.induct)
  case (2 k v k' v' m)
  have "\<forall>(a, b) \<in> set (om_update k v m). k' < a" if "k' < k" "\<forall>(a, b) \<in> set m. k' < a"
  proof -
    have "\<forall>a \<in> fst ` set (om_update k v m). k' < a"
      using that by (auto simp: om_update_keys)
    then show ?thesis by force
  qed
  with 2 show ?case by (auto dest: less_trans)
qed simp

lemma om_wf_erase: "om_wf m \<Longrightarrow> om_wf (om_erase k m)"
  using om_erase_keys by (induction k m rule: om_erase.induct) fastforce+

lemma map_of_om_update: "om_wf m \<Longrightarrow> map_of (om_update k v m) k' = (if k' = k then Some v else map_of m k')"
  by (induction k v m rule: om_update.induct) auto

lemma map_of_None_less: "\<forall>(a, b) \<in> set m. k < a \<Longrightarrow> map_of m (k :: 'k::linorder) = None"
  by (induction m) auto

lemma map_of_om_erase: "om_wf m \<Longrightarrow> map_of (om_erase k m) k' = (if k' = k then None else map_of m k')"
  by (induction k m rule: om_erase.induct) (auto simp: map_of_None_less)

interpretation om: ordered_map map_of om_update om_erase "\<lambda>m. m" om_wf
proof unfold_locales
  fix m :: "('k::linorder \<times> 'v) list" and k v
  assume wf: "om_wf m"
  then show "sorted_wrt (<) (map fst m)" by (simp add: om_wf_def)
  then have "distinct (map fst m)" by (simp add: strict_sorted_iff)
  then show "(k, v) \<in> set m \<longleftrightarrow> map_of m k = Some v" by simp
qed (simp_all add: map_of_om_update map_of_om_erase om_wf_update om_wf_erase)

section \<open>Machines that never get stuck\<close>

text \<open>
  The contract between a component and any client that calls its operations in any order: under the
  invariant each operation is defined (no undefined behaviour) and keeps the invariant. Whatever is
  proved here about runs holds for every component that is shown to satisfy the contract.
\<close>

fun run_ops :: "('op \<Rightarrow> 's \<Rightarrow> ('r \<times> 's) option) \<Rightarrow> 'op list \<Rightarrow> 's \<Rightarrow> 's option" where
  "run_ops step [] s = Some s"
| "run_ops step (x # xs) s = (case step x s of None \<Rightarrow> None | Some (r, s') \<Rightarrow> run_ops step xs s')"

lemma run_ops_append:
  "run_ops step (xs @ ys) s = Option.bind (run_ops step xs s) (run_ops step ys)"
  by (induction xs arbitrary: s) (auto split: option.splits)

locale safe_machine =
  fixes inv :: "'s \<Rightarrow> bool"
    and step :: "'op \<Rightarrow> 's \<Rightarrow> ('r \<times> 's) option"
  assumes step_safe: "inv s \<Longrightarrow> \<exists>r s'. step x s = Some (r, s') \<and> inv s'"
begin

lemma run_safe: "inv s \<Longrightarrow> \<exists>s'. run_ops step xs s = Some s' \<and> inv s'"
proof (induction xs arbitrary: s)
  case Nil
  then show ?case by simp
next
  case (Cons x xs)
  from step_safe [OF Cons.prems, of x] obtain r s' where "step x s = Some (r, s')" "inv s'" by blast
  with Cons.IH [of s'] show ?case by simp
qed

lemma run_prefix_safe: "inv s \<Longrightarrow> run_ops step (xs @ ys) s = Some t \<Longrightarrow> \<exists>s'. run_ops step xs s = Some s' \<and> inv s'"
  using run_safe by blast

end

end
