(* ===== verification/Efp_Wire.thy ===== *)
theory Efp_Wire
  imports Efp_Prelude
begin

text \<open>
  The packet formats of \<^verbatim>\<open>efp_internal.h\<close>: one record per packed header, in the order of its
  fields, with the bytes \<open>memcpy\<close> copies out of it (\<open>enc_\<dots>\<close>, little-endian, as on the supported
  x86-64 and ARM64 hosts) and the fields a cast of the packet's first bytes reads (\<open>dec_\<dots>\<close>). A cast
  reads memory, so \<open>view_\<dots>\<close> is undefined when the header does not lie inside the packet. The
  locale \<open>codec\<close> states what the sender and the receiver rely on for every header.
\<close>

section \<open>Codecs\<close>

locale codec =
  fixes enc :: "'a \<Rightarrow> bytes" and dec :: "bytes \<Rightarrow> 'a" and width :: nat
  assumes dec_enc: "dec (enc h @ rest) = h"
    and length_enc: "length (enc h) = width"
    and enc_dec: "length bs = width \<Longrightarrow> enc (dec bs) = bs"
    and dec_take: "width \<le> length bs \<Longrightarrow> dec (take width bs) = dec bs"
begin

lemma dec_enc_id: "dec (enc h) = h"
  using dec_enc [of h "[]"] by simp

lemma enc_inject: "enc a = enc b \<longleftrightarrow> a = b"
  using dec_enc_id by metis

lemma enc_append_inject: "enc a @ xs = enc b @ ys \<longleftrightarrow> a = b \<and> xs = ys"
  using dec_enc length_enc by (metis append_eq_append_conv)

lemma take_dec: "width \<le> length bs \<Longrightarrow> enc (dec bs) = take width bs"
  using enc_dec [of "take width bs"] by (simp add: dec_take)

lemma load_enc: "off = length xs \<Longrightarrow> mem_load width (xs @ enc h @ ys) off = Some (enc h)"
  by (simp add: mem_load_def length_enc)

lemma view_enc: "map_option dec (mem_load width (enc h @ rest) 0) = Some h"
  using load_enc [of 0 "[]" h rest] by (simp add: dec_enc_id)

lemma view_array:
  assumes "i < length hs"
  shows "map_option dec (mem_load width (xs @ concat (map enc hs)) (length xs + i * width)) = Some (hs ! i)"
proof -
  let ?pre = "xs @ concat (map enc (take i hs))"
  have len: "length (concat (map enc ks)) = length ks * width" for ks
    by (induction ks) (simp_all add: length_enc)
  have "xs @ concat (map enc hs) = ?pre @ enc (hs ! i) @ concat (map enc (drop (Suc i) hs))"
    using id_take_nth_drop [OF assms] by (metis append_assoc concat.simps(2) concat_append list.simps(9) map_append)
  moreover have "length xs + i * width = length ?pre"
    using assms len [of "take i hs"] by (simp add: min_def)
  ultimately show ?thesis
    using load_enc [of _ ?pre "hs ! i" "concat (map enc (drop (Suc i) hs))"] by (simp add: dec_enc_id)
qed

lemma length_array: "length (concat (map enc hs)) = length hs * width"
  by (induction hs) (simp_all add: length_enc)

text \<open>A cast reads a header exactly where the bytes of that header lie.\<close>

lemma view_iff: "map_option dec (mem_load width d off) = Some h \<longleftrightarrow> mem_load width d off = Some (enc h)"
  using enc_dec dec_enc_id by (auto simp: mem_load_def)

lemma view_None: "map_option dec (mem_load width d off) = None \<longleftrightarrow> length d < off + width"
  by (auto simp: mem_load_def)

end

section \<open>Frame types and flags\<close>

text \<open>
  The four low bits of the first byte. The enumeration names 0 to 4; a cast of any other value is a
  value of the enumeration without a name.
\<close>

datatype FrameType = TYPE0 | TYPE1 | TYPE2 | TYPE3 | TYPE4 | TYPE_UNNAMED u8

fun frameTypeValue :: "FrameType \<Rightarrow> u8" where
  "frameTypeValue TYPE0 = 0"
| "frameTypeValue TYPE1 = 1"
| "frameTypeValue TYPE2 = 2"
| "frameTypeValue TYPE3 = 3"
| "frameTypeValue TYPE4 = 4"
| "frameTypeValue (TYPE_UNNAMED v) = v"

definition frameTypeOf :: "u8 \<Rightarrow> FrameType" where
  "frameTypeOf v = (if v = 0 then TYPE0 else if v = 1 then TYPE1 else if v = 2 then TYPE2
     else if v = 3 then TYPE3 else if v = 4 then TYPE4 else TYPE_UNNAMED v)"

datatype Type0Subtype = RESERVED | NACK | RTT_PROBE | RTT_RESPONSE

fun type0SubtypeValue :: "Type0Subtype \<Rightarrow> u8" where
  "type0SubtypeValue RESERVED = 0"
| "type0SubtypeValue NACK = 1"
| "type0SubtypeValue RTT_PROBE = 2"
| "type0SubtypeValue RTT_RESPONSE = 3"

definition FLAG_NONE :: u8 where "FLAG_NONE = 0"
definition FLAG_INLINE_PAYLOAD :: u8 where "FLAG_INLINE_PAYLOAD = 16"
definition FLAG_PRIORITY_0 :: u8 where "FLAG_PRIORITY_0 = 0"
definition FLAG_PRIORITY_1 :: u8 where "FLAG_PRIORITY_1 = 32"
definition FLAG_PRIORITY_2 :: u8 where "FLAG_PRIORITY_2 = 64"
definition FLAG_PRIORITY_3 :: u8 where "FLAG_PRIORITY_3 = 96"
definition FLAG_RESERVED :: u8 where "FLAG_RESERVED = 128"

definition getFrameType :: "u8 \<Rightarrow> FrameType" where
  "getFrameType aFirstByte = frameTypeOf (aFirstByte AND 0x0F)"

definition getFlags :: "u8 \<Rightarrow> u8" where
  "getFlags aFirstByte = aFirstByte AND 0xF0"

definition makeFrameTypeByte :: "FrameType \<Rightarrow> u8 \<Rightarrow> u8" where
  "makeFrameTypeByte aType aFlags = frameTypeValue aType OR (aFlags AND 0xF0)"

definition named_type :: "FrameType \<Rightarrow> bool" where
  "named_type t \<longleftrightarrow> t \<in> {TYPE0, TYPE1, TYPE2, TYPE3, TYPE4}"

lemma low_nibble_make: "v AND 0xF0 = 0 \<Longrightarrow> (v OR (f AND 0xF0)) AND 0x0F = (v :: u8)"
proof -
  assume v: "v AND 0xF0 = 0"
  have "(v OR (f AND 0xF0)) AND 0x0F = v AND 0x0F"
    by (simp add: and.assoc bit.conj_disj_distrib2)
  also have "v AND 0x0F = v"
  proof -
    have "(0x0F OR 0xF0 :: u8) = - 1" by simp
    then have "v = v AND (0x0F OR 0xF0)" by (simp only: bit.conj_one_right)
    also have "\<dots> = (v AND 0x0F) OR (v AND 0xF0)" by (simp only: bit.conj_disj_distrib)
    finally show ?thesis using v by simp
  qed
  finally show ?thesis .
qed

lemma frameTypeByte_split:
  assumes "named_type t"
  shows "getFrameType (makeFrameTypeByte t f) = t" "getFlags (makeFrameTypeByte t f) = f AND 0xF0"
proof -
  have v: "frameTypeValue t AND 0xF0 = 0"
    using assms by (auto simp: named_type_def)
  have "getFrameType (makeFrameTypeByte t f) = frameTypeOf (frameTypeValue t)"
    using low_nibble_make [OF v] by (simp add: getFrameType_def makeFrameTypeByte_def)
  also have "\<dots> = t" using assms by (auto simp: named_type_def frameTypeOf_def)
  finally show "getFrameType (makeFrameTypeByte t f) = t" .
  show "getFlags (makeFrameTypeByte t f) = f AND 0xF0"
    using v by (simp add: getFlags_def makeFrameTypeByte_def bit.conj_disj_distrib2 and.assoc)
qed

lemma frameTypeByte [simp]:
  "getFrameType (makeFrameTypeByte TYPE0 f) = TYPE0" "getFrameType (makeFrameTypeByte TYPE1 f) = TYPE1"
  "getFrameType (makeFrameTypeByte TYPE2 f) = TYPE2" "getFrameType (makeFrameTypeByte TYPE3 f) = TYPE3"
  "getFrameType (makeFrameTypeByte TYPE4 f) = TYPE4"
  "getFlags (makeFrameTypeByte TYPE1 f) = f AND 0xF0" "getFlags (makeFrameTypeByte TYPE2 f) = f AND 0xF0"
  "getFlags (makeFrameTypeByte TYPE3 f) = f AND 0xF0"
  by (simp_all add: frameTypeByte_split named_type_def)

section \<open>The packed headers\<close>

record FrameType1 =
  t1_mFrameType :: u8
  t1_mStreamId :: u8
  t1_mSuperFrameNo :: u16
  t1_mFragmentNo :: u16
  t1_mOfFragmentNo :: u16

definition enc_type1 :: "FrameType1 \<Rightarrow> bytes" where
  "enc_type1 h = t1_mFrameType h # t1_mStreamId h # le16 (t1_mSuperFrameNo h) @
     le16 (t1_mFragmentNo h) @ le16 (t1_mOfFragmentNo h)"

definition dec_type1 :: "bytes \<Rightarrow> FrameType1" where
  "dec_type1 bs = \<lparr>t1_mFrameType = rd8 0 bs, t1_mStreamId = rd8 1 bs, t1_mSuperFrameNo = rd16 2 bs,
     t1_mFragmentNo = rd16 4 bs, t1_mOfFragmentNo = rd16 6 bs\<rparr>"

record FrameType2 =
  t2_mFrameType :: u8
  t2_mStreamId :: u8
  t2_mPayloadType :: u8
  t2_mSizeOfData :: u16
  t2_mSuperFrameNo :: u16
  t2_mOfFragmentNo :: u16
  t2_mType1PacketSize :: u16
  t2_mPts :: u64
  t2_mDtsPtsDiff :: u32
  t2_mPayloadCode :: u32

definition enc_type2 :: "FrameType2 \<Rightarrow> bytes" where
  "enc_type2 h = t2_mFrameType h # t2_mStreamId h # t2_mPayloadType h # le16 (t2_mSizeOfData h) @
     le16 (t2_mSuperFrameNo h) @ le16 (t2_mOfFragmentNo h) @ le16 (t2_mType1PacketSize h) @
     le64 (t2_mPts h) @ le32 (t2_mDtsPtsDiff h) @ le32 (t2_mPayloadCode h)"

definition dec_type2 :: "bytes \<Rightarrow> FrameType2" where
  "dec_type2 bs = \<lparr>t2_mFrameType = rd8 0 bs, t2_mStreamId = rd8 1 bs, t2_mPayloadType = rd8 2 bs,
     t2_mSizeOfData = rd16 3 bs, t2_mSuperFrameNo = rd16 5 bs, t2_mOfFragmentNo = rd16 7 bs,
     t2_mType1PacketSize = rd16 9 bs, t2_mPts = rd64 11 bs, t2_mDtsPtsDiff = rd32 19 bs,
     t2_mPayloadCode = rd32 23 bs\<rparr>"

record FrameType3 =
  t3_mFrameType :: u8
  t3_mStreamId :: u8
  t3_mSuperFrameNo :: u16
  t3_mType1PacketSize :: u16
  t3_mOfFragmentNo :: u16

definition enc_type3 :: "FrameType3 \<Rightarrow> bytes" where
  "enc_type3 h = t3_mFrameType h # t3_mStreamId h # le16 (t3_mSuperFrameNo h) @
     le16 (t3_mType1PacketSize h) @ le16 (t3_mOfFragmentNo h)"

definition dec_type3 :: "bytes \<Rightarrow> FrameType3" where
  "dec_type3 bs = \<lparr>t3_mFrameType = rd8 0 bs, t3_mStreamId = rd8 1 bs, t3_mSuperFrameNo = rd16 2 bs,
     t3_mType1PacketSize = rd16 4 bs, t3_mOfFragmentNo = rd16 6 bs\<rparr>"

record FrameType4 =
  t4_mFrameType :: u8
  t4_mFrameCount :: u8

definition enc_type4 :: "FrameType4 \<Rightarrow> bytes" where
  "enc_type4 h = [t4_mFrameType h, t4_mFrameCount h]"

definition dec_type4 :: "bytes \<Rightarrow> FrameType4" where
  "dec_type4 bs = \<lparr>t4_mFrameType = rd8 0 bs, t4_mFrameCount = rd8 1 bs\<rparr>"

record NackEntry =
  ne_mStreamId :: u8
  ne_mSuperFrameNo :: u16
  ne_mFragmentNo :: u16
  ne_mFragmentCount :: u8

definition enc_nackEntry :: "NackEntry \<Rightarrow> bytes" where
  "enc_nackEntry h = ne_mStreamId h # le16 (ne_mSuperFrameNo h) @ le16 (ne_mFragmentNo h) @ [ne_mFragmentCount h]"

definition dec_nackEntry :: "bytes \<Rightarrow> NackEntry" where
  "dec_nackEntry bs = \<lparr>ne_mStreamId = rd8 0 bs, ne_mSuperFrameNo = rd16 1 bs,
     ne_mFragmentNo = rd16 3 bs, ne_mFragmentCount = rd8 5 bs\<rparr>"

record FrameType0Nack =
  nk_mFrameType :: u8
  nk_mSubtype :: u8
  nk_mNackCount :: u8

definition enc_nack :: "FrameType0Nack \<Rightarrow> bytes" where
  "enc_nack h = [nk_mFrameType h, nk_mSubtype h, nk_mNackCount h]"

definition dec_nack :: "bytes \<Rightarrow> FrameType0Nack" where
  "dec_nack bs = \<lparr>nk_mFrameType = rd8 0 bs, nk_mSubtype = rd8 1 bs, nk_mNackCount = rd8 2 bs\<rparr>"

record FrameType0RttProbe =
  rp_mFrameType :: u8
  rp_mSubtype :: u8
  rp_mSequenceNo :: u16
  rp_mTimestampUs :: u64

definition enc_rttProbe :: "FrameType0RttProbe \<Rightarrow> bytes" where
  "enc_rttProbe h = rp_mFrameType h # rp_mSubtype h # le16 (rp_mSequenceNo h) @ le64 (rp_mTimestampUs h)"

definition dec_rttProbe :: "bytes \<Rightarrow> FrameType0RttProbe" where
  "dec_rttProbe bs = \<lparr>rp_mFrameType = rd8 0 bs, rp_mSubtype = rd8 1 bs, rp_mSequenceNo = rd16 2 bs,
     rp_mTimestampUs = rd64 4 bs\<rparr>"

record FrameType0RttResponse =
  rr_mFrameType :: u8
  rr_mSubtype :: u8
  rr_mSequenceNo :: u16
  rr_mTimestampUs :: u64
  rr_mReceiverTimeUs :: u64

definition enc_rttResponse :: "FrameType0RttResponse \<Rightarrow> bytes" where
  "enc_rttResponse h = rr_mFrameType h # rr_mSubtype h # le16 (rr_mSequenceNo h) @
     le64 (rr_mTimestampUs h) @ le64 (rr_mReceiverTimeUs h)"

definition dec_rttResponse :: "bytes \<Rightarrow> FrameType0RttResponse" where
  "dec_rttResponse bs = \<lparr>rr_mFrameType = rd8 0 bs, rr_mSubtype = rd8 1 bs, rr_mSequenceNo = rd16 2 bs,
     rr_mTimestampUs = rd64 4 bs, rr_mReceiverTimeUs = rd64 12 bs\<rparr>"

lemmas enc_defs = enc_type1_def enc_type2_def enc_type3_def enc_type4_def enc_nackEntry_def enc_nack_def
  enc_rttProbe_def enc_rttResponse_def

lemmas dec_defs = dec_type1_def dec_type2_def dec_type3_def dec_type4_def dec_nackEntry_def dec_nack_def
  dec_rttProbe_def dec_rttResponse_def

section \<open>Every header is a codec\<close>

interpretation type1: codec enc_type1 dec_type1 8
  by unfold_locales (simp_all add: enc_defs dec_defs wire_simps enc_dec_chain rd_take)

interpretation type2: codec enc_type2 dec_type2 27
  by unfold_locales (simp_all add: enc_defs dec_defs wire_simps enc_dec_chain rd_take)

interpretation type3: codec enc_type3 dec_type3 8
  by unfold_locales (simp_all add: enc_defs dec_defs wire_simps enc_dec_chain rd_take)

interpretation type4: codec enc_type4 dec_type4 2
  by unfold_locales (simp_all add: enc_defs dec_defs wire_simps enc_dec_chain rd_take)

interpretation nackEntry: codec enc_nackEntry dec_nackEntry 6
  by unfold_locales (simp_all add: enc_defs dec_defs wire_simps enc_dec_chain rd_take)

interpretation nackHeader: codec enc_nack dec_nack 3
  by unfold_locales (simp_all add: enc_defs dec_defs wire_simps enc_dec_chain rd_take)

interpretation rttProbe: codec enc_rttProbe dec_rttProbe 12
  by unfold_locales (simp_all add: enc_defs dec_defs wire_simps enc_dec_chain rd_take)

interpretation rttResponse: codec enc_rttResponse dec_rttResponse 20
  by unfold_locales (simp_all add: enc_defs dec_defs wire_simps enc_dec_chain rd_take)

text \<open>The casts \<open>(const FrameTypeN* )(apData + off)\<close>.\<close>

definition view_type1 :: "bytes \<Rightarrow> nat \<Rightarrow> FrameType1 option" where
  "view_type1 d off = map_option dec_type1 (mem_load 8 d off)"

definition view_type2 :: "bytes \<Rightarrow> nat \<Rightarrow> FrameType2 option" where
  "view_type2 d off = map_option dec_type2 (mem_load 27 d off)"

definition view_type3 :: "bytes \<Rightarrow> nat \<Rightarrow> FrameType3 option" where
  "view_type3 d off = map_option dec_type3 (mem_load 8 d off)"

definition view_type4 :: "bytes \<Rightarrow> nat \<Rightarrow> FrameType4 option" where
  "view_type4 d off = map_option dec_type4 (mem_load 2 d off)"

definition view_nack :: "bytes \<Rightarrow> nat \<Rightarrow> FrameType0Nack option" where
  "view_nack d off = map_option dec_nack (mem_load 3 d off)"

definition view_nackEntry :: "bytes \<Rightarrow> nat \<Rightarrow> NackEntry option" where
  "view_nackEntry d off = map_option dec_nackEntry (mem_load 6 d off)"

lemma view_type1_0 [mem_simps]: "8 \<le> length d \<Longrightarrow> view_type1 d 0 = Some (dec_type1 d)"
  by (simp add: view_type1_def mem_load_def type1.dec_take)

lemma view_type2_0 [mem_simps]: "27 \<le> length d \<Longrightarrow> view_type2 d 0 = Some (dec_type2 d)"
  by (simp add: view_type2_def mem_load_def type2.dec_take)

lemma view_type3_0 [mem_simps]: "8 \<le> length d \<Longrightarrow> view_type3 d 0 = Some (dec_type3 d)"
  by (simp add: view_type3_def mem_load_def type3.dec_take)

lemma view_type4_0 [mem_simps]: "2 \<le> length d \<Longrightarrow> view_type4 d 0 = Some (dec_type4 d)"
  by (simp add: view_type4_def mem_load_def type4.dec_take)

lemma view_nack_0 [mem_simps]: "3 \<le> length d \<Longrightarrow> view_nack d 0 = Some (dec_nack d)"
  by (simp add: view_nack_def mem_load_def nackHeader.dec_take)

lemma view_nackEntry_Some [mem_simps]:
  "off + 6 \<le> length d \<Longrightarrow> view_nackEntry d off = Some (dec_nackEntry (take 6 (drop off d)))"
  by (simp add: view_nackEntry_def mem_load_def)

end
