(* ===== verification/Efp_WireProps.thy ===== *)
theory Efp_WireProps
  imports Efp_Wire
begin

text \<open>
  The properties of the packet formats, for headers with arbitrary field values at any offset of a
  packet. The facts of the locale \<open>codec\<close> carry them, interpreted for every header.
\<close>

lemmas view_defs = view_type1_def view_type2_def view_type3_def view_type4_def view_nack_def view_nackEntry_def

text \<open>
  A cast of packet bytes to a header gives a header exactly where the bytes of that header lie, and
  is out of bounds exactly where fewer bytes than the header has are left: writing a header and reading
  it back gives it unchanged, and no two headers have the same bytes.
\<close>

lemma headers_survive_the_wire:
  "(view_type1 d off = Some h1 \<longleftrightarrow> mem_load 8 d off = Some (enc_type1 h1)) \<and> (view_type1 d off = None \<longleftrightarrow> length d < off + 8) \<and>
   (view_type2 d off = Some h2 \<longleftrightarrow> mem_load 27 d off = Some (enc_type2 h2)) \<and> (view_type2 d off = None \<longleftrightarrow> length d < off + 27) \<and>
   (view_type3 d off = Some h3 \<longleftrightarrow> mem_load 8 d off = Some (enc_type3 h3)) \<and> (view_type3 d off = None \<longleftrightarrow> length d < off + 8) \<and>
   (view_type4 d off = Some h4 \<longleftrightarrow> mem_load 2 d off = Some (enc_type4 h4)) \<and> (view_type4 d off = None \<longleftrightarrow> length d < off + 2) \<and>
   (view_nack d off = Some hn \<longleftrightarrow> mem_load 3 d off = Some (enc_nack hn)) \<and> (view_nack d off = None \<longleftrightarrow> length d < off + 3) \<and>
   (view_nackEntry d off = Some he \<longleftrightarrow> mem_load 6 d off = Some (enc_nackEntry he)) \<and> (view_nackEntry d off = None \<longleftrightarrow> length d < off + 6)"
  unfolding view_defs
  by (intro conjI type1.view_iff type1.view_None type2.view_iff type2.view_None type3.view_iff type3.view_None
      type4.view_iff type4.view_None nackHeader.view_iff nackHeader.view_None nackEntry.view_iff nackEntry.view_None)

text \<open>
  The first byte of a packet keeps frame type and flags apart: what \<open>makeFrameTypeByte\<close> combines,
  \<open>getFrameType\<close> and \<open>getFlags\<close> take apart again, for every named type and any flags, of which only the
  four high bits travel; each priority and the inline flag survive, in any combination.
\<close>

lemma first_byte_keeps_type_and_flags:
  "map (\<lambda>t. getFrameType (makeFrameTypeByte t f)) [TYPE0, TYPE1, TYPE2, TYPE3, TYPE4] = [TYPE0, TYPE1, TYPE2, TYPE3, TYPE4] \<and>
   map (\<lambda>t. getFlags (makeFrameTypeByte t f)) [TYPE0, TYPE1, TYPE2, TYPE3, TYPE4] = replicate 5 (f AND 0xF0) \<and>
   map (\<lambda>p. getFlags (makeFrameTypeByte TYPE2 (p OR FLAG_INLINE_PAYLOAD))) [FLAG_PRIORITY_0, FLAG_PRIORITY_1, FLAG_PRIORITY_2, FLAG_PRIORITY_3] =
     map (\<lambda>p. p OR FLAG_INLINE_PAYLOAD) [FLAG_PRIORITY_0, FLAG_PRIORITY_1, FLAG_PRIORITY_2, FLAG_PRIORITY_3]"
  by (simp add: frameTypeByte_split named_type_def FLAG_PRIORITY_0_def FLAG_PRIORITY_1_def FLAG_PRIORITY_2_def FLAG_PRIORITY_3_def
      FLAG_INLINE_PAYLOAD_def numeral_eq_Suc)

end
