(* ===== verification/Efp_Types.thy ===== *)
theory Efp_Types
  imports Efp_Wire
begin

text \<open>
  The public types of \<^verbatim>\<open>efp.h\<close>: constants, result codes, modes, statistics and the assembled
  \<open>SuperFrame\<close> with its heap buffer. A cell of a buffer is \<open>None\<close> until it is written: the
  allocation functions used (\<open>posix_memalign\<close>, \<open>_aligned_malloc\<close>) do not initialise memory. The
  floating-point rate fields of the statistics are left out: no code writes them.
\<close>

section \<open>Constants, results, modes\<close>

definition VERSION_MAJOR :: u8 where "VERSION_MAJOR = 1"
definition VERSION_MINOR :: u8 where "VERSION_MINOR = 1"

definition VERSION :: u16 where
  "VERSION = (push_bit 8 (ucast VERSION_MAJOR)) OR ucast VERSION_MINOR"

definition DEFAULT_BUFFER_SIZE :: u16 where "DEFAULT_BUFFER_SIZE = 8191"
definition MAX_SUPERFRAME_SIZE :: nat where "MAX_SUPERFRAME_SIZE = 100 * 1024 * 1024"
definition MAX_FRAGMENTS_PER_SUPERFRAME :: nat where "MAX_FRAGMENTS_PER_SUPERFRAME = 8192"

text \<open>\<open>std::has_single_bit\<close> of the promoted sum.\<close>

definition ValidBufferSize :: "u16 \<Rightarrow> bool" where
  "ValidBufferSize n = (let v = unat n + 1 in v \<in> (\<lambda>k. 2 ^ k) ` {..16})"

datatype Result =
    MEMORY_ALLOCATION_ERROR | BUFFER_OUT_OF_BOUNDS | BUFFER_OUT_OF_RESOURCES | FRAME_SIZE_MISMATCH
  | TOO_LARGE_FRAME | TOO_LARGE_EMBEDDED_DATA | INVALID_PARAMETER | RECEIVER_NOT_RUNNING
  | INTERNAL_ERROR | NOT_IMPLEMENTED | OK | DUPLICATE_FRAGMENT | FRAGMENT_TOO_OLD | FRAME_TIMEOUT

fun resultCode :: "Result \<Rightarrow> int" where
  "resultCode MEMORY_ALLOCATION_ERROR = -10"
| "resultCode BUFFER_OUT_OF_BOUNDS = -9"
| "resultCode BUFFER_OUT_OF_RESOURCES = -8"
| "resultCode FRAME_SIZE_MISMATCH = -7"
| "resultCode TOO_LARGE_FRAME = -6"
| "resultCode TOO_LARGE_EMBEDDED_DATA = -5"
| "resultCode INVALID_PARAMETER = -4"
| "resultCode RECEIVER_NOT_RUNNING = -3"
| "resultCode INTERNAL_ERROR = -2"
| "resultCode NOT_IMPLEMENTED = -1"
| "resultCode OK = 0"
| "resultCode DUPLICATE_FRAGMENT = 1"
| "resultCode FRAGMENT_TOO_OLD = 2"
| "resultCode FRAME_TIMEOUT = 3"

datatype SubFragmentMode = SINGLE | HALF | QUARTER | EIGHTH

fun subFragmentValue :: "SubFragmentMode \<Rightarrow> u8" where
  "subFragmentValue SINGLE = 1"
| "subFragmentValue HALF = 2"
| "subFragmentValue QUARTER = 4"
| "subFragmentValue EIGHTH = 8"

datatype ReceiverMode = THREADED | RUN_TO_COMPLETION

section \<open>Statistics\<close>

record SenderStatistics =
  ss_mRetentionBufferBytes :: u64
  ss_mRetentionBufferFragments :: u32
  ss_mFragmentsSent :: u64
  ss_mBundlesSent :: u64
  ss_mNacksReceived :: u64
  ss_mRetransmittedFragments :: u64
  ss_mRetransmitQueueSize :: u32

record ReceiverStatistics =
  rs_mFragmentsReceived :: u64
  rs_mBundlesReceived :: u64
  rs_mNacksSent :: u64
  rs_mCompleteFrames :: u64
  rs_mBrokenFrames :: u64
  rs_mDuplicateFragments :: u64
  rs_mPendingBuckets :: u32

definition zeroSenderStatistics :: SenderStatistics where
  "zeroSenderStatistics = \<lparr>ss_mRetentionBufferBytes = 0, ss_mRetentionBufferFragments = 0,
     ss_mFragmentsSent = 0, ss_mBundlesSent = 0, ss_mNacksReceived = 0,
     ss_mRetransmittedFragments = 0, ss_mRetransmitQueueSize = 0\<rparr>"

definition zeroReceiverStatistics :: ReceiverStatistics where
  "zeroReceiverStatistics = \<lparr>rs_mFragmentsReceived = 0, rs_mBundlesReceived = 0, rs_mNacksSent = 0,
     rs_mCompleteFrames = 0, rs_mBrokenFrames = 0, rs_mDuplicateFragments = 0, rs_mPendingBuckets = 0\<rparr>"

section \<open>SuperFrame\<close>

type_synonym cell = "u8 option"

record SuperFrame =
  sf_mpData :: "cell list option"
  sf_mSize :: nat
  sf_mPayloadType :: u8
  sf_mPayloadCode :: u32
  sf_mPts :: u64
  sf_mDts :: u64
  sf_mStreamId :: u8
  sf_mSourceId :: u8
  sf_mFlags :: u8
  sf_mSuperFrameNo :: u16
  sf_mBroken :: bool

text \<open>
  The constructor: \<open>allocOk\<close> is the answer of the allocator. A null pointer is \<open>None\<close>, and the
  constructor leaves it null for size 0.
\<close>

definition newSuperFrame :: "nat \<Rightarrow> bool \<Rightarrow> SuperFrame" where
  "newSuperFrame aAllocSize allocOk =
     (let ok = 0 < aAllocSize \<and> allocOk
      in \<lparr>sf_mpData = (if ok then Some (replicate aAllocSize None) else None),
          sf_mSize = (if ok then aAllocSize else 0), sf_mPayloadType = 0, sf_mPayloadCode = - 1,
          sf_mPts = - 1, sf_mDts = - 1, sf_mStreamId = 0, sf_mSourceId = 0, sf_mFlags = 0,
          sf_mSuperFrameNo = 0, sf_mBroken = True\<rparr>)"

text \<open>\<open>memcpy\<close> and \<open>memmove\<close> into the frame's buffer.\<close>

definition sf_write :: "SuperFrame \<Rightarrow> nat \<Rightarrow> bytes \<Rightarrow> SuperFrame option" where
  "sf_write f off xs = do { m \<leftarrow> sf_mpData f; m' \<leftarrow> mem_write m off (map Some xs); Some (f\<lparr>sf_mpData := Some m'\<rparr>) }"

definition sf_move :: "SuperFrame \<Rightarrow> nat \<Rightarrow> nat \<Rightarrow> nat \<Rightarrow> SuperFrame option" where
  "sf_move f to from n = do { m \<leftarrow> sf_mpData f; m' \<leftarrow> mem_move m to from n; Some (f\<lparr>sf_mpData := Some m'\<rparr>) }"

text \<open>The first \<open>mSize\<close> bytes, what a callback may read: undefined when a byte was never written.\<close>

definition sf_contents :: "SuperFrame \<Rightarrow> bytes option" where
  "sf_contents f = do { m \<leftarrow> sf_mpData f; cs \<leftarrow> mem_load (sf_mSize f) m 0;
     if None \<in> set cs then None else Some (map the cs) }"

lemma sf_contentsI:
  "sf_mpData f = Some m \<Longrightarrow> region 0 (sf_mSize f) m = map Some xs \<Longrightarrow> sf_mSize f \<le> length m \<Longrightarrow>
   sf_contents f = Some xs"
  by (simp add: sf_contents_def mem_load_def region_def comp_def)

end
