(* ===== verification/Efp_Retention.thy ===== *)
theory Efp_Retention
  imports Efp_Types
begin

text \<open>
  The state of \<open>Sender\<close> (\<^verbatim>\<open>efp.h\<close>) and its retention store: the copies of sent fragments that a
  NACK can ask for, their eviction by age and by size, and the retransmit queue. \<open>mCallback\<close> is
  the transport: each call appends the packet and its stream to \<open>s_out\<close>. The mutex serialises the
  public operations, so a run is a sequence of them. \<open>std::unordered_map\<close> is a finite map.
\<close>

section \<open>State\<close>

record RetainedFragment =
  rf_mTimestampUs :: int
  rf_mSuperFrameNo :: u16
  rf_mFragmentNo :: u16
  rf_mStreamId :: u8
  rf_mRetryCount :: u8
  rf_mGeneration :: u64
  rf_mData :: bytes

record RetentionOrderEntry =
  ro_mKey :: u32
  ro_mGeneration :: u64

record RetransmitRequest =
  rq_mKey :: u32
  rq_mGeneration :: u64

record Sender =
  s_mMtu :: u16
  s_mSuperFrameNo :: u16
  s_mSubFragmentMode :: SubFragmentMode
  s_mRetentionMs :: u32
  s_mRetentionMaxBytes :: nat
  s_mRetentionBufferBytes :: nat
  s_mSendBuffer :: bytes
  s_mBundleBuffer :: bytes
  s_mRetentionBuffer :: "u32 \<rightharpoonup> RetainedFragment"
  s_mRetentionOrder :: "RetentionOrderEntry list"
  s_mRetransmitQueue :: "RetransmitRequest list"
  s_mQueuedRetransmits :: "u64 set"
  s_mRetentionGeneration :: u64
  s_mStatistics :: SenderStatistics
  s_clock :: clock
  s_out :: "(bytes \<times> u8) list"

definition newSender :: "u16 \<Rightarrow> SubFragmentMode \<Rightarrow> u32 \<Rightarrow> nat \<Rightarrow> clock \<Rightarrow> Sender" where
  "newSender aMtu aSubFragmentMode aRetentionMs aRetentionMaxBytes clk =
     (let mtu = (if aMtu < 256 then 256 else aMtu)
      in \<lparr>s_mMtu = mtu, s_mSuperFrameNo = 0, s_mSubFragmentMode = aSubFragmentMode,
          s_mRetentionMs = aRetentionMs, s_mRetentionMaxBytes = aRetentionMaxBytes,
          s_mRetentionBufferBytes = 0, s_mSendBuffer = replicate (unat mtu) 0,
          s_mBundleBuffer = (if aSubFragmentMode \<noteq> SINGLE then replicate (unat mtu) 0 else []),
          s_mRetentionBuffer = Map.empty, s_mRetentionOrder = [], s_mRetransmitQueue = [],
          s_mQueuedRetransmits = {}, s_mRetentionGeneration = 0,
          s_mStatistics = zeroSenderStatistics, s_clock = clk, s_out = []\<rparr>)"

definition getSenderStatistics :: "Sender \<Rightarrow> SenderStatistics" where
  "getSenderStatistics s = (s_mStatistics s)
     \<lparr>ss_mRetentionBufferFragments := word_of_nat (card (dom (s_mRetentionBuffer s))),
      ss_mRetentionBufferBytes := word_of_nat (s_mRetentionBufferBytes s),
      ss_mRetransmitQueueSize := word_of_nat (card (s_mQueuedRetransmits s))\<rparr>"

section \<open>Operations of the store\<close>

definition makeRetentionKey :: "u16 \<Rightarrow> u16 \<Rightarrow> u32" where
  "makeRetentionKey aSuperFrameNo aFragmentNo = push_bit 16 (ucast aSuperFrameNo) OR ucast aFragmentNo"

definition s_nowUs :: "Sender \<Rightarrow> int \<times> Sender" where
  "s_nowUs s = (case nowUs (s_clock s) of (t, c) \<Rightarrow> (t, s\<lparr>s_clock := c\<rparr>))"

text \<open>The \<open>while\<close> loop of \<open>evictOldRetention\<close>: every iteration that does not leave the loop pops a record.\<close>

function evict_loop :: "int \<Rightarrow> nat \<Rightarrow> Sender \<Rightarrow> Sender" where
  "evict_loop lCutoffUs aRequiredBytes s =
     (case s_mRetentionOrder s of
        [] \<Rightarrow> s
      | lOldest # rest \<Rightarrow>
          (case s_mRetentionBuffer s (ro_mKey lOldest) of
             None \<Rightarrow> evict_loop lCutoffUs aRequiredBytes (s\<lparr>s_mRetentionOrder := rest\<rparr>)
           | Some frag \<Rightarrow>
               if rf_mGeneration frag \<noteq> ro_mGeneration lOldest
               then evict_loop lCutoffUs aRequiredBytes (s\<lparr>s_mRetentionOrder := rest\<rparr>)
               else
                 let lExpired = rf_mTimestampUs frag < lCutoffUs;
                     lWouldExceedLimit = aRequiredBytes > s_mRetentionMaxBytes s \<or>
                       s_mRetentionBufferBytes s > s_mRetentionMaxBytes s - aRequiredBytes
                 in if \<not> lExpired \<and> \<not> lWouldExceedLimit then s
                    else evict_loop lCutoffUs aRequiredBytes
                      (s\<lparr>s_mRetentionBufferBytes :=
                           size_sub (s_mRetentionBufferBytes s) (length (rf_mData frag)),
                         s_mRetentionBuffer := (s_mRetentionBuffer s)(ro_mKey lOldest := None),
                         s_mQueuedRetransmits := s_mQueuedRetransmits s - {ro_mGeneration lOldest},
                         s_mRetentionOrder := rest\<rparr>)))"
  by pat_completeness auto
termination
  by (relation "measure (\<lambda>(c, r, s). length (s_mRetentionOrder s))") auto

declare evict_loop.simps [simp del]

definition evictOldRetention :: "nat \<Rightarrow> Sender \<Rightarrow> Sender" where
  "evictOldRetention aRequiredBytes s =
     (let (lNow, s) = s_nowUs s;
          lCutoffUs = lNow - uint (s_mRetentionMs s) * 1000
      in evict_loop lCutoffUs aRequiredBytes s)"

definition retainFragment :: "u16 \<Rightarrow> u16 \<Rightarrow> u8 \<Rightarrow> bytes \<Rightarrow> Sender \<Rightarrow> Sender" where
  "retainFragment aSuperFrameNo aFragmentNo aStreamId apData s =
     (let aSize = length apData in
      if s_mRetentionMs s = 0 \<or> aSize > s_mRetentionMaxBytes s then s
      else
        let lKey = makeRetentionKey aSuperFrameNo aFragmentNo;
            lExistingSize = (case s_mRetentionBuffer s lKey of None \<Rightarrow> 0 | Some f \<Rightarrow> length (rf_mData f));
            s = evictOldRetention (if aSize > lExistingSize then aSize - lExistingSize else 0) s;
            s = (case s_mRetentionBuffer s lKey of
                   None \<Rightarrow> s
                 | Some f \<Rightarrow>
                     s\<lparr>s_mRetentionBufferBytes := size_sub (s_mRetentionBufferBytes s) (length (rf_mData f)),
                       s_mQueuedRetransmits := s_mQueuedRetransmits s - {rf_mGeneration f}\<rparr>);
            (lStamp, s) = s_nowUs s;
            lGeneration = s_mRetentionGeneration s + 1;
            lFrag = \<lparr>rf_mTimestampUs = lStamp, rf_mSuperFrameNo = aSuperFrameNo,
                     rf_mFragmentNo = aFragmentNo, rf_mStreamId = aStreamId, rf_mRetryCount = 0,
                     rf_mGeneration = lGeneration, rf_mData = apData\<rparr>
        in s\<lparr>s_mRetentionGeneration := lGeneration,
             s_mRetentionBufferBytes := s_mRetentionBufferBytes s + aSize,
             s_mRetentionBuffer := (s_mRetentionBuffer s)(lKey \<mapsto> lFrag),
             s_mRetentionOrder := s_mRetentionOrder s @ [\<lparr>ro_mKey = lKey, ro_mGeneration = lGeneration\<rparr>]\<rparr>)"

text \<open>
  The head of the queue, taken when the fragment it names is still retained in the same
  generation: \<open>Some\<close> of its data and stream.
\<close>

definition getRetransmitFragment :: "Sender \<Rightarrow> (bytes \<times> u8) option \<times> Sender" where
  "getRetransmitFragment s =
     (case s_mRetransmitQueue s of
        [] \<Rightarrow> (None, s)
      | lRequest # rest \<Rightarrow>
          let s = s\<lparr>s_mRetransmitQueue := rest,
                    s_mQueuedRetransmits := s_mQueuedRetransmits s - {rq_mGeneration lRequest}\<rparr>
          in (case s_mRetentionBuffer s (rq_mKey lRequest) of
                None \<Rightarrow> (None, s)
              | Some f \<Rightarrow>
                  if rf_mGeneration f \<noteq> rq_mGeneration lRequest then (None, s)
                  else
                    (Some (rf_mData f, rf_mStreamId f),
                     s\<lparr>s_mRetentionBuffer := (s_mRetentionBuffer s)
                          (rq_mKey lRequest \<mapsto> f\<lparr>rf_mRetryCount := rf_mRetryCount f + 1\<rparr>),
                       s_mStatistics := (s_mStatistics s)
                         \<lparr>ss_mRetransmittedFragments := ss_mRetransmittedFragments (s_mStatistics s) + 1\<rparr>\<rparr>)))"

text \<open>\<open>processRetransmits\<close>: requests whose fragment is gone are skipped and do not count.\<close>

function retransmit_loop :: "nat \<Rightarrow> nat \<Rightarrow> Sender \<Rightarrow> nat \<times> Sender" where
  "retransmit_loop aMaxCount lCount s =
     (case s_mRetransmitQueue s of
        [] \<Rightarrow> (lCount, s)
      | lRequest # rest \<Rightarrow>
          if \<not> lCount < aMaxCount then (lCount, s)
          else
            let s = s\<lparr>s_mRetransmitQueue := rest,
                      s_mQueuedRetransmits := s_mQueuedRetransmits s - {rq_mGeneration lRequest}\<rparr>
            in (case s_mRetentionBuffer s (rq_mKey lRequest) of
                  None \<Rightarrow> retransmit_loop aMaxCount lCount s
                | Some f \<Rightarrow>
                    if rf_mGeneration f \<noteq> rq_mGeneration lRequest then retransmit_loop aMaxCount lCount s
                    else retransmit_loop aMaxCount (Suc lCount)
                      (s\<lparr>s_out := s_out s @ [(rf_mData f, rf_mStreamId f)],
                         s_mRetentionBuffer := (s_mRetentionBuffer s)
                           (rq_mKey lRequest \<mapsto> f\<lparr>rf_mRetryCount := rf_mRetryCount f + 1\<rparr>),
                         s_mStatistics := (s_mStatistics s)
                           \<lparr>ss_mRetransmittedFragments := ss_mRetransmittedFragments (s_mStatistics s) + 1\<rparr>\<rparr>)))"
  by pat_completeness auto
termination
  by (relation "measure (\<lambda>(m, c, s). length (s_mRetransmitQueue s))") auto

declare retransmit_loop.simps [simp del]

definition processRetransmits :: "nat \<Rightarrow> Sender \<Rightarrow> nat \<times> Sender" where
  "processRetransmits aMaxCount s = retransmit_loop aMaxCount 0 s"

section \<open>NACKs\<close>

text \<open>One fragment of a NACK entry: queued when it is retained for that stream and not queued yet.\<close>

definition queueRetransmit :: "u8 \<Rightarrow> u32 \<Rightarrow> Sender \<Rightarrow> Sender" where
  "queueRetransmit aStreamId lKey s =
     (case s_mRetentionBuffer s lKey of
        None \<Rightarrow> s
      | Some f \<Rightarrow>
          if rf_mStreamId f = aStreamId \<and> rf_mGeneration f \<notin> s_mQueuedRetransmits s
          then s\<lparr>s_mQueuedRetransmits := insert (rf_mGeneration f) (s_mQueuedRetransmits s),
                 s_mRetransmitQueue := s_mRetransmitQueue s @ [\<lparr>rq_mKey = lKey, rq_mGeneration = rf_mGeneration f\<rparr>]\<rparr>
          else s)"

text \<open>The inner loop over \<open>lJ = 0 .. mFragmentCount\<close>.\<close>

definition nack_range :: "NackEntry \<Rightarrow> Sender \<Rightarrow> Sender" where
  "nack_range lEntry s =
     fold (\<lambda>lJ. queueRetransmit (ne_mStreamId lEntry)
             (makeRetentionKey (ne_mSuperFrameNo lEntry) (ne_mFragmentNo lEntry + word_of_nat lJ)))
       [0 ..< Suc (unat (ne_mFragmentCount lEntry))] s"

fun nack_entries :: "bytes \<Rightarrow> nat \<Rightarrow> nat \<Rightarrow> Sender \<Rightarrow> (Result \<times> Sender) option" where
  "nack_entries aData lI 0 s = Some (OK, s\<lparr>s_mStatistics := (s_mStatistics s)
     \<lparr>ss_mNacksReceived := ss_mNacksReceived (s_mStatistics s) + 1\<rparr>\<rparr>)"
| "nack_entries aData lI (Suc n) s = do {
     lEntry \<leftarrow> view_nackEntry aData (3 + lI * 6);
     if unat (ne_mFragmentNo lEntry) + unat (ne_mFragmentCount lEntry) > 65535
     then Some (BUFFER_OUT_OF_BOUNDS, s)
     else nack_entries aData (Suc lI) n (nack_range lEntry s)
   }"

definition receiveNack :: "bytes \<Rightarrow> Sender \<Rightarrow> (Result \<times> Sender) option" where
  "receiveNack aData s =
     (if length aData < 3 then Some (FRAME_SIZE_MISMATCH, s)
      else do {
        lpHeader \<leftarrow> view_nack aData 0;
        if getFrameType (nk_mFrameType lpHeader) \<noteq> TYPE0 then Some (INVALID_PARAMETER, s)
        else if nk_mSubtype lpHeader \<noteq> type0SubtypeValue NACK then Some (INVALID_PARAMETER, s)
        else if length aData \<noteq> 3 + unat (nk_mNackCount lpHeader) * 6 then Some (FRAME_SIZE_MISMATCH, s)
        else nack_entries aData 0 (unat (nk_mNackCount lpHeader)) s
      })"

section \<open>Invariants of the store\<close>

definition live_order :: "Sender \<Rightarrow> RetentionOrderEntry \<Rightarrow> bool" where
  "live_order s e \<longleftrightarrow> (\<exists>f. s_mRetentionBuffer s (ro_mKey e) = Some f \<and> rf_mGeneration f = ro_mGeneration e)"

definition live_request :: "Sender \<Rightarrow> RetransmitRequest \<Rightarrow> bool" where
  "live_request s q = (case s_mRetentionBuffer s (rq_mKey q) of None \<Rightarrow> False | Some f \<Rightarrow> rf_mGeneration f = rq_mGeneration q)"

definition retained_bytes :: "(u32 \<rightharpoonup> RetainedFragment) \<Rightarrow> nat" where
  "retained_bytes m = (\<Sum>k \<in> dom m. length (rf_mData (the (m k))))"

text \<open>
  The accounting invariant: the byte counter is the sum of the retained packets, every retained
  packet is filed under its own key and has an ordering record, so that eviction can find it.
\<close>

definition store_inv :: "Sender \<Rightarrow> bool" where
  "store_inv s \<longleftrightarrow> finite (dom (s_mRetentionBuffer s)) \<and>
     s_mRetentionBufferBytes s = retained_bytes (s_mRetentionBuffer s) \<and>
     (\<forall>k f. s_mRetentionBuffer s k = Some f \<longrightarrow>
        \<lparr>ro_mKey = k, ro_mGeneration = rf_mGeneration f\<rparr> \<in> set (s_mRetentionOrder s) \<and>
        k = makeRetentionKey (rf_mSuperFrameNo f) (rf_mFragmentNo f))"

text \<open>
  The queue invariant: generations identify retained packets and are never in the future, a request
  names the key its generation was retained under, each generation is queued at most once, and \<open>mQueuedRetransmits\<close> holds exactly the queued generations that are still
  retained.
\<close>

definition queue_inv :: "Sender \<Rightarrow> bool" where
  "queue_inv s \<longleftrightarrow>
     (\<forall>k f. s_mRetentionBuffer s k = Some f \<longrightarrow> rf_mGeneration f \<le> s_mRetentionGeneration s) \<and>
     (\<forall>k f k' f'. s_mRetentionBuffer s k = Some f \<longrightarrow> s_mRetentionBuffer s k' = Some f' \<longrightarrow>
        rf_mGeneration f = rf_mGeneration f' \<longrightarrow> k = k') \<and>
     (\<forall>q \<in> set (s_mRetransmitQueue s). rq_mGeneration q \<le> s_mRetentionGeneration s) \<and>
     (\<forall>q \<in> set (s_mRetransmitQueue s). \<forall>k f. s_mRetentionBuffer s k = Some f \<longrightarrow>
        rf_mGeneration f = rq_mGeneration q \<longrightarrow> k = rq_mKey q) \<and>
     distinct (map rq_mGeneration (s_mRetransmitQueue s)) \<and>
     s_mQueuedRetransmits s = rq_mGeneration ` set (filter (live_request s) (s_mRetransmitQueue s))"

lemma store_inv_new: "store_inv (newSender mtu mode ms mx clk)"
  by (simp add: store_inv_def newSender_def Let_def retained_bytes_def)

lemma queue_inv_new: "queue_inv (newSender mtu mode ms mx clk)"
  by (simp add: queue_inv_def newSender_def Let_def)

lemma retained_bytes_remove:
  assumes "finite (dom m)" "m k = Some f"
  shows "retained_bytes m = length (rf_mData f) + retained_bytes (m(k := None))"
proof -
  have "retained_bytes m = length (rf_mData (the (m k))) + (\<Sum>j \<in> dom m - {k}. length (rf_mData (the (m j))))"
    unfolding retained_bytes_def using assms by (intro sum.remove) auto
  moreover have "(\<Sum>j \<in> dom m - {k}. length (rf_mData (the (m j)))) = retained_bytes (m(k := None))"
    unfolding retained_bytes_def by (intro sum.cong) auto
  ultimately show ?thesis using assms by simp
qed

lemma retained_bytes_insert:
  assumes "finite (dom m)"
  shows "retained_bytes (m(k \<mapsto> f)) = length (rf_mData f) + retained_bytes (m(k := None))"
  using retained_bytes_remove [of "m(k \<mapsto> f)" k f] assms by (simp add: fun_upd_upd)

lemma retained_bytes_ge:
  "finite (dom m) \<Longrightarrow> m k = Some f \<Longrightarrow> length (rf_mData f) \<le> retained_bytes m"
  using retained_bytes_remove [of m k f] by simp

subsection \<open>Eviction\<close>

definition evict_head :: "RetainedFragment \<Rightarrow> RetentionOrderEntry \<Rightarrow> RetentionOrderEntry list \<Rightarrow> Sender \<Rightarrow> Sender" where
  "evict_head frag e rest s =
     s\<lparr>s_mRetentionBufferBytes := size_sub (s_mRetentionBufferBytes s) (length (rf_mData frag)),
       s_mRetentionBuffer := (s_mRetentionBuffer s)(ro_mKey e := None),
       s_mQueuedRetransmits := s_mQueuedRetransmits s - {ro_mGeneration e},
       s_mRetentionOrder := rest\<rparr>"

text \<open>Whatever dropping a stale record and erasing the oldest packet keep, the loop keeps.\<close>

text \<open>What each turn of the loop keeps, it keeps; an entry is evicted because it is too old or in the way.\<close>

lemma evict_loop_reasons:
  assumes "P s"
    and stale: "\<And>s e rest. P s \<Longrightarrow> s_mRetentionOrder s = e # rest \<Longrightarrow> \<not> live_order s e \<Longrightarrow>
      P (s\<lparr>s_mRetentionOrder := rest\<rparr>)"
    and erase: "\<And>s e rest f. P s \<Longrightarrow> s_mRetentionOrder s = e # rest \<Longrightarrow>
      s_mRetentionBuffer s (ro_mKey e) = Some f \<Longrightarrow> rf_mGeneration f = ro_mGeneration e \<Longrightarrow>
      rf_mTimestampUs f < c \<or> s_mRetentionMaxBytes s < r \<or> s_mRetentionMaxBytes s - r < s_mRetentionBufferBytes s \<Longrightarrow>
      P (evict_head f e rest s)"
  shows "P (evict_loop c r s)"
  using assms(1)
proof (induction "length (s_mRetentionOrder s)" arbitrary: s)
  case 0
  then show ?case by (simp add: evict_loop.simps [of c r s])
next
  case (Suc n)
  then obtain e rest where ord: "s_mRetentionOrder s = e # rest" by (cases "s_mRetentionOrder s") auto
  show ?case
  proof (cases "live_order s e")
    case False
    have "P (s\<lparr>s_mRetentionOrder := rest\<rparr>)" by (rule stale [OF Suc.prems ord False])
    with Suc.hyps ord have "P (evict_loop c r (s\<lparr>s_mRetentionOrder := rest\<rparr>))" by simp
    with False ord show ?thesis
      by (auto simp: evict_loop.simps [of c r s] live_order_def split: option.splits)
  next
    case True
    then obtain f where f: "s_mRetentionBuffer s (ro_mKey e) = Some f" "rf_mGeneration f = ro_mGeneration e"
      by (auto simp: live_order_def)
    have "P (evict_loop c r (evict_head f e rest s))"
      if "rf_mTimestampUs f < c \<or> s_mRetentionMaxBytes s < r \<or> s_mRetentionMaxBytes s - r < s_mRetentionBufferBytes s"
      using Suc.hyps(1) [of "evict_head f e rest s"] Suc.hyps(2) ord erase [OF Suc.prems ord f that] by (simp add: evict_head_def)
    with f ord Suc.prems show ?thesis
      by (auto simp: evict_loop.simps [of c r s] evict_head_def Let_def)
  qed
qed

lemma evict_loop_keeps:
  assumes "P s"
    and "\<And>s e rest. P s \<Longrightarrow> s_mRetentionOrder s = e # rest \<Longrightarrow> \<not> live_order s e \<Longrightarrow> P (s\<lparr>s_mRetentionOrder := rest\<rparr>)"
    and "\<And>s e rest f. P s \<Longrightarrow> s_mRetentionOrder s = e # rest \<Longrightarrow>
      s_mRetentionBuffer s (ro_mKey e) = Some f \<Longrightarrow> rf_mGeneration f = ro_mGeneration e \<Longrightarrow> P (evict_head f e rest s)"
  shows "P (evict_loop c r s)"
  by (rule evict_loop_reasons [where P = P, OF assms])

lemma evict_loop_stops:
  fixes c r s
  defines "s' \<equiv> evict_loop c r s"
  shows "s_mRetentionOrder s' = [] \<or>
    (\<exists>e rest f. s_mRetentionOrder s' = e # rest \<and> s_mRetentionBuffer s' (ro_mKey e) = Some f \<and>
       rf_mGeneration f = ro_mGeneration e \<and> c \<le> rf_mTimestampUs f \<and>
       r \<le> s_mRetentionMaxBytes s' \<and> s_mRetentionBufferBytes s' \<le> s_mRetentionMaxBytes s' - r)"
  unfolding s'_def
proof (induction c r s rule: evict_loop.induct)
  case (1 c r s)
  show ?case
    using 1 by (subst (1 2 3 4 5 6) evict_loop.simps)
      (auto simp: Let_def not_less split: list.splits option.splits)
qed

end
