(* ===== verification/Efp_RetentionInv.thy ===== *)
theory Efp_RetentionInv
  imports Efp_Retention
begin

text \<open>
  The retention store keeps its invariants: eviction and retention preserve the byte accounting
  (\<open>store_inv\<close>) and the agreement of the retransmit queue with its index (\<open>queue_inv\<close>), evicting makes
  the room it was asked for, and a new packet is stored within the byte limit.
\<close>

section \<open>Eviction and retention\<close>

lemma evict_head_simps [simp]:
  "s_mRetentionBuffer (evict_head f e rest s) = (s_mRetentionBuffer s)(ro_mKey e := None)"
  "s_mRetentionBufferBytes (evict_head f e rest s) = size_sub (s_mRetentionBufferBytes s) (length (rf_mData f))"
  "s_mQueuedRetransmits (evict_head f e rest s) = s_mQueuedRetransmits s - {ro_mGeneration e}"
  "s_mRetentionOrder (evict_head f e rest s) = rest"
  "s_mRetransmitQueue (evict_head f e rest s) = s_mRetransmitQueue s"
  "s_mRetentionGeneration (evict_head f e rest s) = s_mRetentionGeneration s"
  by (simp_all add: evict_head_def)

text \<open>Fields that eviction never touches, and the store only shrinks.\<close>

definition same_sender :: "Sender \<Rightarrow> Sender \<Rightarrow> bool" where
  "same_sender s t \<longleftrightarrow> s_mMtu t = s_mMtu s \<and> s_mSuperFrameNo t = s_mSuperFrameNo s \<and>
     s_mSubFragmentMode t = s_mSubFragmentMode s \<and> s_mRetentionMs t = s_mRetentionMs s \<and>
     s_mRetentionMaxBytes t = s_mRetentionMaxBytes s \<and> s_mSendBuffer t = s_mSendBuffer s \<and>
     s_mBundleBuffer t = s_mBundleBuffer s \<and> s_mRetransmitQueue t = s_mRetransmitQueue s \<and>
     s_mStatistics t = s_mStatistics s \<and> s_out t = s_out s"

lemma same_sender_refl [simp]: "same_sender s s"
  by (simp add: same_sender_def)

lemma same_sender_trans: "same_sender s t \<Longrightarrow> same_sender t u \<Longrightarrow> same_sender s u"
  by (simp add: same_sender_def)

lemma evict_loop_frame:
  "same_sender s (evict_loop c r s) \<and> s_clock (evict_loop c r s) = s_clock s \<and>
   s_mRetentionGeneration (evict_loop c r s) = s_mRetentionGeneration s \<and>
   s_mRetentionBuffer (evict_loop c r s) \<subseteq>\<^sub>m s_mRetentionBuffer s"
  by (rule evict_loop_keeps [where P = "\<lambda>t. same_sender s t \<and> s_clock t = s_clock s \<and>
        s_mRetentionGeneration t = s_mRetentionGeneration s \<and> s_mRetentionBuffer t \<subseteq>\<^sub>m s_mRetentionBuffer s"])
    (auto simp: same_sender_def evict_head_def map_le_def)

lemma store_inv_stale:
  "store_inv s \<Longrightarrow> s_mRetentionOrder s = e # rest \<Longrightarrow> \<not> live_order s e \<Longrightarrow> store_inv (s\<lparr>s_mRetentionOrder := rest\<rparr>)"
  unfolding store_inv_def live_order_def
  by (simp, metis RetentionOrderEntry.select_convs(1,2))

lemma store_inv_erase:
  assumes inv: "store_inv s" and ord: "s_mRetentionOrder s = e # rest"
    and f: "s_mRetentionBuffer s (ro_mKey e) = Some f" "rf_mGeneration f = ro_mGeneration e"
  shows "store_inv (evict_head f e rest s)"
proof -
  have fin: "finite (dom (s_mRetentionBuffer s))" using inv by (simp add: store_inv_def)
  have "s_mRetentionBufferBytes (evict_head f e rest s) = retained_bytes (s_mRetentionBuffer (evict_head f e rest s))"
    using inv retained_bytes_remove [OF fin f(1)] by (simp add: store_inv_def)
  with inv ord fin show ?thesis
    unfolding store_inv_def
    by (simp, metis RetentionOrderEntry.select_convs(1))
qed

lemma evict_loop_store_inv: "store_inv s \<Longrightarrow> store_inv (evict_loop c r s)"
  by (rule evict_loop_keeps [where P = store_inv, OF _ store_inv_stale store_inv_erase])

lemma live_request_evict_head:
  "live_request (evict_head f e rest s) q \<longleftrightarrow> live_request s q \<and> rq_mKey q \<noteq> ro_mKey e"
  by (auto simp: live_request_def split: option.splits)

lemma evict_loop_queue_inv: "queue_inv s \<Longrightarrow> queue_inv (evict_loop c r s)"
proof (rule evict_loop_keeps [where P = queue_inv], assumption)
  fix s :: Sender and e :: RetentionOrderEntry and rest
  assume "queue_inv s"
  then show "queue_inv (s\<lparr>s_mRetentionOrder := rest\<rparr>)"
    by (simp add: queue_inv_def live_request_def cong: filter_cong)
next
  fix s :: Sender and e :: RetentionOrderEntry and rest f
  assume inv: "queue_inv s"
    and f: "s_mRetentionBuffer s (ro_mKey e) = Some f" "rf_mGeneration f = ro_mGeneration e"
  have gen: "rq_mKey q = ro_mKey e \<longleftrightarrow> rq_mGeneration q = ro_mGeneration e" if "live_request s q" for q
  proof -
    from that obtain g where "s_mRetentionBuffer s (rq_mKey q) = Some g" "rf_mGeneration g = rq_mGeneration q"
      by (auto simp: live_request_def split: option.splits)
    with inv f show ?thesis unfolding queue_inv_def by (metis option.inject)
  qed
  have "rq_mGeneration ` set (filter (live_request s) (s_mRetransmitQueue s)) - {ro_mGeneration e} =
    rq_mGeneration ` set (filter (live_request (evict_head f e rest s)) (s_mRetransmitQueue s))"
    using gen by (auto simp: live_request_evict_head)
  moreover have "s_mRetentionBuffer s k = Some g \<Longrightarrow> rf_mGeneration g \<le> s_mRetentionGeneration s" for k g
    using inv by (auto simp: queue_inv_def)
  ultimately show "queue_inv (evict_head f e rest s)"
    using inv unfolding queue_inv_def by (simp add: fun_upd_apply)
qed

lemma s_nowUs_frame:
  "same_sender s (snd (s_nowUs s))" "s_mRetentionBuffer (snd (s_nowUs s)) = s_mRetentionBuffer s"
  "s_mRetentionBufferBytes (snd (s_nowUs s)) = s_mRetentionBufferBytes s"
  "s_mRetentionOrder (snd (s_nowUs s)) = s_mRetentionOrder s"
  "s_mQueuedRetransmits (snd (s_nowUs s)) = s_mQueuedRetransmits s"
  "s_mRetentionGeneration (snd (s_nowUs s)) = s_mRetentionGeneration s"
  "fst (s_nowUs s) = s_clock s 0" "s_clock (snd (s_nowUs s)) = (\<lambda>n. s_clock s (Suc n))"
  by (simp_all add: s_nowUs_def nowUs_def same_sender_def)

lemma s_nowUs_eq: "s_nowUs s = (s_clock s 0, s\<lparr>s_clock := \<lambda>n. s_clock s (Suc n)\<rparr>)"
  by (simp add: s_nowUs_def nowUs_def)

lemma store_inv_cong:
  "s_mRetentionBuffer t = s_mRetentionBuffer s \<Longrightarrow> s_mRetentionBufferBytes t = s_mRetentionBufferBytes s \<Longrightarrow>
   s_mRetentionOrder t = s_mRetentionOrder s \<Longrightarrow> store_inv t = store_inv s"
  by (simp add: store_inv_def)

lemma queue_inv_cong:
  "s_mRetentionBuffer t = s_mRetentionBuffer s \<Longrightarrow> s_mRetransmitQueue t = s_mRetransmitQueue s \<Longrightarrow>
   s_mQueuedRetransmits t = s_mQueuedRetransmits s \<Longrightarrow> s_mRetentionGeneration t = s_mRetentionGeneration s \<Longrightarrow>
   queue_inv t = queue_inv s"
  by (simp add: queue_inv_def live_request_def cong: filter_cong)

lemma evictOldRetention_eq:
  "evictOldRetention r s = evict_loop (s_clock s 0 - uint (s_mRetentionMs s) * 1000) r
     (s\<lparr>s_clock := \<lambda>n. s_clock s (Suc n)\<rparr>)"
  by (simp add: evictOldRetention_def s_nowUs_eq)

lemma evictOldRetention_store_inv: "store_inv s \<Longrightarrow> store_inv (evictOldRetention r s)"
  unfolding evictOldRetention_eq by (intro evict_loop_store_inv) (simp add: store_inv_def)

lemma evictOldRetention_queue_inv: "queue_inv s \<Longrightarrow> queue_inv (evictOldRetention r s)"
  unfolding evictOldRetention_eq by (intro evict_loop_queue_inv) (simp cong: queue_inv_cong)

lemma evictOldRetention_frame:
  "same_sender s (evictOldRetention r s)" "s_clock (evictOldRetention r s) = (\<lambda>n. s_clock s (Suc n))"
  "s_mRetentionGeneration (evictOldRetention r s) = s_mRetentionGeneration s"
  "s_mRetentionBuffer (evictOldRetention r s) \<subseteq>\<^sub>m s_mRetentionBuffer s"
  using evict_loop_frame [of "s\<lparr>s_clock := \<lambda>n. s_clock s (Suc n)\<rparr>"
      "s_clock s 0 - uint (s_mRetentionMs s) * 1000" r]
  by (simp_all add: evictOldRetention_eq same_sender_def)

text \<open>After eviction the required bytes fit below the limit, or nothing is retained.\<close>

lemma store_inv_empty: "store_inv s \<Longrightarrow> s_mRetentionOrder s = [] \<Longrightarrow> s_mRetentionBufferBytes s = 0"
proof -
  assume inv: "store_inv s" "s_mRetentionOrder s = []"
  then have "s_mRetentionBuffer s = Map.empty"
    by (metis emptyE list.set(1) not_None_eq store_inv_def)
  with inv show ?thesis by (simp add: store_inv_def retained_bytes_def)
qed

lemma evictOldRetention_room:
  assumes "store_inv s" "r \<le> s_mRetentionMaxBytes s"
  shows "s_mRetentionBufferBytes (evictOldRetention r s) + r \<le> s_mRetentionMaxBytes s"
proof -
  let ?t = "evictOldRetention r s"
  have "s_mRetentionMaxBytes ?t = s_mRetentionMaxBytes s"
    using evictOldRetention_frame(1) [of s r] by (simp add: same_sender_def)
  then show ?thesis
    using evict_loop_stops [of "s_clock s 0 - uint (s_mRetentionMs s) * 1000" r
        "s\<lparr>s_clock := \<lambda>n. s_clock s (Suc n)\<rparr>"]
      store_inv_empty [OF evictOldRetention_store_inv [OF assms(1)], of r] assms(2)
    by (auto simp: evictOldRetention_eq)
qed

subsection \<open>Retaining a fragment\<close>

definition retained_copy :: "u16 \<Rightarrow> u16 \<Rightarrow> u8 \<Rightarrow> bytes \<Rightarrow> int \<Rightarrow> u64 \<Rightarrow> RetainedFragment" where
  "retained_copy sf fn st d t g = \<lparr>rf_mTimestampUs = t, rf_mSuperFrameNo = sf, rf_mFragmentNo = fn,
     rf_mStreamId = st, rf_mRetryCount = 0, rf_mGeneration = g, rf_mData = d\<rparr>"

lemma retained_copy_simps [simp]:
  "rf_mTimestampUs (retained_copy sf fn st d t g) = t" "rf_mSuperFrameNo (retained_copy sf fn st d t g) = sf"
  "rf_mFragmentNo (retained_copy sf fn st d t g) = fn" "rf_mStreamId (retained_copy sf fn st d t g) = st"
  "rf_mGeneration (retained_copy sf fn st d t g) = g" "rf_mData (retained_copy sf fn st d t g) = d"
  by (simp_all add: retained_copy_def)

definition retain_required :: "u16 \<Rightarrow> u16 \<Rightarrow> bytes \<Rightarrow> Sender \<Rightarrow> nat" where
  "retain_required sf fn d s = length d -
     (case s_mRetentionBuffer s (makeRetentionKey sf fn) of None \<Rightarrow> 0 | Some f \<Rightarrow> length (rf_mData f))"

text \<open>What \<open>retainFragment\<close> does when retention is on, field by field.\<close>

lemma retainFragment_on:
  fixes s sf fn st d
  defines "k \<equiv> makeRetentionKey sf fn"
  defines "t \<equiv> evictOldRetention (retain_required sf fn d s) s"
  defines "u \<equiv> retainFragment sf fn st d s"
  assumes on: "s_mRetentionMs s \<noteq> 0" "length d \<le> s_mRetentionMaxBytes s"
  shows "same_sender s u"
    and "s_mRetentionGeneration u = s_mRetentionGeneration s + 1"
    and "s_mRetentionBuffer u = (s_mRetentionBuffer t)
      (k \<mapsto> retained_copy sf fn st d (s_clock s 1) (s_mRetentionGeneration s + 1))"
    and "s_mRetentionOrder u = s_mRetentionOrder t @ [\<lparr>ro_mKey = k, ro_mGeneration = s_mRetentionGeneration s + 1\<rparr>]"
    and "s_mRetentionBufferBytes u = length d + (case s_mRetentionBuffer t k of None \<Rightarrow> s_mRetentionBufferBytes t
      | Some f \<Rightarrow> size_sub (s_mRetentionBufferBytes t) (length (rf_mData f)))"
    and "s_mQueuedRetransmits u = s_mQueuedRetransmits t - (case s_mRetentionBuffer t k of None \<Rightarrow> {} | Some f \<Rightarrow> {rf_mGeneration f})"
    and "s_clock u = (\<lambda>n. s_clock s (Suc (Suc n)))"
proof -
  have req: "(if length d > (case s_mRetentionBuffer s k of None \<Rightarrow> 0 | Some f \<Rightarrow> length (rf_mData f))
     then length d - (case s_mRetentionBuffer s k of None \<Rightarrow> 0 | Some f \<Rightarrow> length (rf_mData f)) else 0)
     = retain_required sf fn d s"
    by (simp add: retain_required_def k_def split: option.splits)
  have u: "u = (let v = (case s_mRetentionBuffer t k of None \<Rightarrow> t
         | Some f \<Rightarrow> t\<lparr>s_mRetentionBufferBytes := size_sub (s_mRetentionBufferBytes t) (length (rf_mData f)),
             s_mQueuedRetransmits := s_mQueuedRetransmits t - {rf_mGeneration f}\<rparr>);
       w = v\<lparr>s_clock := \<lambda>n. s_clock v (Suc n)\<rparr>; g = s_mRetentionGeneration w + 1
     in w\<lparr>s_mRetentionGeneration := g, s_mRetentionBufferBytes := s_mRetentionBufferBytes w + length d,
         s_mRetentionBuffer := (s_mRetentionBuffer w)(k \<mapsto> retained_copy sf fn st d (s_clock v 0) g),
         s_mRetentionOrder := s_mRetentionOrder w @ [\<lparr>ro_mKey = k, ro_mGeneration = g\<rparr>]\<rparr>)"
    using on unfolding u_def retainFragment_def Let_def k_def [symmetric] req t_def [symmetric]
    by (simp add: s_nowUs_eq retained_copy_def not_less)
  note fr = evictOldRetention_frame [where s = s and r = "retain_required sf fn d s", folded t_def]
  show "same_sender s u" using fr(1) by (auto simp: u Let_def same_sender_def split: option.splits)
  show "s_mRetentionGeneration u = s_mRetentionGeneration s + 1"
    and "s_mRetentionBuffer u = (s_mRetentionBuffer t)
      (k \<mapsto> retained_copy sf fn st d (s_clock s 1) (s_mRetentionGeneration s + 1))"
    and "s_mRetentionOrder u = s_mRetentionOrder t @ [\<lparr>ro_mKey = k, ro_mGeneration = s_mRetentionGeneration s + 1\<rparr>]"
    and "s_mRetentionBufferBytes u = length d + (case s_mRetentionBuffer t k of None \<Rightarrow> s_mRetentionBufferBytes t
      | Some f \<Rightarrow> size_sub (s_mRetentionBufferBytes t) (length (rf_mData f)))"
    and "s_mQueuedRetransmits u = s_mQueuedRetransmits t - (case s_mRetentionBuffer t k of None \<Rightarrow> {} | Some f \<Rightarrow> {rf_mGeneration f})"
    and "s_clock u = (\<lambda>n. s_clock s (Suc (Suc n)))"
    using fr(2,3) by (auto simp: u Let_def split: option.splits)
qed

lemma retainFragment_off:
  "s_mRetentionMs s = 0 \<or> s_mRetentionMaxBytes s < length d \<Longrightarrow> retainFragment sf fn st d s = s"
  by (auto simp: retainFragment_def)

lemma retainFragment_frame: "same_sender s (retainFragment sf fn st d s)"
  using retainFragment_off retainFragment_on(1) same_sender_refl by (metis not_le)

lemma store_inv_dropped:
  assumes "store_inv t"
  shows "(case s_mRetentionBuffer t k of None \<Rightarrow> s_mRetentionBufferBytes t
      | Some f \<Rightarrow> size_sub (s_mRetentionBufferBytes t) (length (rf_mData f))) =
    retained_bytes ((s_mRetentionBuffer t)(k := None))"
proof (cases "s_mRetentionBuffer t k")
  case None
  then have "(s_mRetentionBuffer t)(k := None) = s_mRetentionBuffer t" by (simp add: fun_upd_idem)
  with None assms show ?thesis by (simp add: store_inv_def)
next
  case (Some f)
  with assms retained_bytes_remove [of "s_mRetentionBuffer t" k f] show ?thesis by (simp add: store_inv_def)
qed

lemma retainFragment_store_inv:
  assumes "store_inv s"
  shows "store_inv (retainFragment sf fn st d s)"
proof (cases "s_mRetentionMs s = 0 \<or> s_mRetentionMaxBytes s < length d")
  case True
  with assms show ?thesis by (simp add: retainFragment_off)
next
  case False
  then have on: "s_mRetentionMs s \<noteq> 0" "length d \<le> s_mRetentionMaxBytes s" by auto
  let ?t = "evictOldRetention (retain_required sf fn d s) s"
  have t: "store_inv ?t" using assms by (rule evictOldRetention_store_inv)
  then have "finite (dom (s_mRetentionBuffer ?t))" by (simp add: store_inv_def)
  with t show ?thesis
    using store_inv_dropped [OF t, of "makeRetentionKey sf fn"] retained_bytes_insert
    by (auto simp: store_inv_def retainFragment_on [OF on])
qed

lemma word_less_inc: "g \<noteq> - 1 \<Longrightarrow> a \<le> g \<Longrightarrow> a < g + 1" for g :: "'a::len word"
  using inc_less_eq_self_iff_eq [of g] by (simp add: not_le less_le_trans le_less_trans)

lemma retainFragment_queue_inv:
  assumes inv: "queue_inv s" and gen: "s_mRetentionGeneration s \<noteq> - 1"
  shows "queue_inv (retainFragment sf fn st d s)"
proof (cases "s_mRetentionMs s = 0 \<or> s_mRetentionMaxBytes s < length d")
  case True
  with inv show ?thesis by (simp add: retainFragment_off)
next
  case False
  then have on: "s_mRetentionMs s \<noteq> 0" "length d \<le> s_mRetentionMaxBytes s" by auto
  let ?t = "evictOldRetention (retain_required sf fn d s) s" and ?u = "retainFragment sf fn st d s"
    and ?k = "makeRetentionKey sf fn" and ?g = "s_mRetentionGeneration s + 1"
  have t: "queue_inv ?t" using inv by (rule evictOldRetention_queue_inv)
  note fr = evictOldRetention_frame [where s = s and r = "retain_required sf fn d s"]
  have queue: "s_mRetransmitQueue ?u = s_mRetransmitQueue ?t"
    using fr(1) retainFragment_on(1) [OF on, of sf fn st] by (simp add: same_sender_def)
  have less: "g < ?g" if "g \<le> s_mRetentionGeneration ?t" for g
    using that gen fr(3) by (simp add: word_less_inc)
  have live: "live_request ?u q \<longleftrightarrow> live_request ?t q \<and> rq_mKey q \<noteq> ?k" if "q \<in> set (s_mRetransmitQueue ?t)" for q
  proof -
    have "rq_mGeneration q < ?g" using that t less by (auto simp: queue_inv_def)
    then show ?thesis by (auto simp: live_request_def retainFragment_on [OF on] split: option.splits)
  qed
  have old: "rq_mKey q = ?k \<longleftrightarrow> rq_mGeneration q = rf_mGeneration f"
    if "s_mRetentionBuffer ?t ?k = Some f" "live_request ?t q" for f q
    using that t unfolding queue_inv_def live_request_def by (auto split: option.splits)
  have "s_mQueuedRetransmits ?u = rq_mGeneration ` {q \<in> set (s_mRetransmitQueue ?t). live_request ?t q \<and> rq_mKey q \<noteq> ?k}"
  proof (cases "s_mRetentionBuffer ?t ?k")
    case None
    then have "live_request ?t q \<Longrightarrow> rq_mKey q \<noteq> ?k" for q by (auto simp: live_request_def)
    with None t show ?thesis by (auto simp: retainFragment_on [OF on] queue_inv_def)
  next
    case (Some f)
    with t old show ?thesis by (auto simp: retainFragment_on [OF on] queue_inv_def)
  qed
  also have "\<dots> = rq_mGeneration ` set (filter (live_request ?u) (s_mRetransmitQueue ?u))"
    using live by (auto simp: queue)
  finally have queued: "s_mQueuedRetransmits ?u = rq_mGeneration ` set (filter (live_request ?u) (s_mRetransmitQueue ?u))" .
  have new: "rf_mGeneration f < ?g \<and> rf_mGeneration f \<noteq> ?g" if "s_mRetentionBuffer ?t j = Some f" for j f
  proof -
    have "rf_mGeneration f < ?g" using t that less by (auto simp: queue_inv_def)
    then show ?thesis by simp
  qed
  have "rq_mGeneration q \<le> ?g" if "q \<in> set (s_mRetransmitQueue ?t)" for q
    using t that less by (auto simp: queue_inv_def intro: less_imp_le)
  moreover have "j = rq_mKey q" if "q \<in> set (s_mRetransmitQueue ?t)" "s_mRetentionBuffer ?u j = Some f"
      "rf_mGeneration f = rq_mGeneration q" for q j f
  proof (cases "j = ?k")
    case True
    have "rq_mGeneration q < ?g" using that(1) t less by (auto simp: queue_inv_def)
    with True that show ?thesis by (auto simp: retainFragment_on [OF on])
  next
    case False
    with that t show ?thesis unfolding queue_inv_def by (auto simp: retainFragment_on [OF on])
  qed
  moreover have "rf_mGeneration f \<le> ?g" if "s_mRetentionBuffer ?u j = Some f" for j f
    using that new by (auto simp: retainFragment_on [OF on] split: if_splits intro: less_imp_le)
  moreover have "j = j'" if "s_mRetentionBuffer ?u j = Some f" "s_mRetentionBuffer ?u j' = Some f'"
      "rf_mGeneration f = rf_mGeneration f'" for j j' f f'
  proof (cases "j = ?k \<or> j' = ?k")
    case True
    with that new [of j f] new [of j' f'] show ?thesis
      by (auto simp: retainFragment_on [OF on] split: if_splits)
  next
    case False
    with that t show ?thesis unfolding queue_inv_def by (auto simp: retainFragment_on [OF on])
  qed
  ultimately show ?thesis
    using t queued unfolding queue_inv_def by (simp add: retainFragment_on(2) [OF on] queue)
qed

text \<open>
  The limit on retained bytes. A packet whose key is free, or whose old copy survives the eviction
  that makes room for it, is stored within the limit; otherwise the limit can be exceeded, by less
  than the size of the old copy that eviction dropped.
\<close>

lemma retainFragment_limit:
  assumes "store_inv s" and on: "s_mRetentionMs s \<noteq> 0" "length d \<le> s_mRetentionMaxBytes s"
    and "s_mRetentionBuffer s (makeRetentionKey sf fn) = None \<or>
      s_mRetentionBuffer (evictOldRetention (retain_required sf fn d s) s) (makeRetentionKey sf fn) \<noteq> None"
  shows "s_mRetentionBufferBytes (retainFragment sf fn st d s) \<le> s_mRetentionMaxBytes s"
proof -
  let ?k = "makeRetentionKey sf fn" and ?r = "retain_required sf fn d s"
  let ?t = "evictOldRetention ?r s"
  have inv: "store_inv ?t" using assms(1) by (rule evictOldRetention_store_inv)
  have "?r \<le> s_mRetentionMaxBytes s" using on by (simp add: retain_required_def split: option.splits)
  with assms(1) have room: "s_mRetentionBufferBytes ?t + ?r \<le> s_mRetentionMaxBytes s"
    by (rule evictOldRetention_room)
  show ?thesis
  proof (cases "s_mRetentionBuffer ?t ?k")
    case None
    with assms(4) have "?r = length d" by (simp add: retain_required_def)
    with None room show ?thesis by (simp add: retainFragment_on [OF on])
  next
    case (Some f)
    then have "s_mRetentionBuffer s ?k = Some f"
      using evictOldRetention_frame(4) [of ?r s] by (auto simp: map_le_def dom_def)
    then have "?r = length d - length (rf_mData f)" by (simp add: retain_required_def)
    moreover have "length (rf_mData f) \<le> s_mRetentionBufferBytes ?t"
      using inv Some retained_bytes_ge by (auto simp: store_inv_def)
    ultimately show ?thesis using Some room by (simp add: retainFragment_on [OF on])
  qed
qed

lemma retainFragment_limit_weak:
  assumes "store_inv s" and on: "s_mRetentionMs s \<noteq> 0" "length d \<le> s_mRetentionMaxBytes s"
  shows "s_mRetentionBufferBytes (retainFragment sf fn st d s) \<le> s_mRetentionMaxBytes s +
    (case s_mRetentionBuffer s (makeRetentionKey sf fn) of None \<Rightarrow> 0 | Some f \<Rightarrow> length (rf_mData f))"
proof -
  let ?k = "makeRetentionKey sf fn" and ?r = "retain_required sf fn d s"
  let ?t = "evictOldRetention ?r s"
  have inv: "store_inv ?t" using assms(1) by (rule evictOldRetention_store_inv)
  have "?r \<le> s_mRetentionMaxBytes s" using on by (simp add: retain_required_def split: option.splits)
  with assms(1) have room: "s_mRetentionBufferBytes ?t + ?r \<le> s_mRetentionMaxBytes s"
    by (rule evictOldRetention_room)
  show ?thesis
  proof (cases "s_mRetentionBuffer ?t ?k")
    case None
    with room show ?thesis by (auto simp: retainFragment_on [OF on] retain_required_def split: option.splits)
  next
    case (Some f)
    then show ?thesis using retainFragment_limit [OF assms, of sf fn st] by simp
  qed
qed

end
