(* ===== verification/Efp_Retransmit.thy ===== *)
theory Efp_Retransmit
  imports Efp_RetentionInv
begin

text \<open>
  NACKs and retransmission: what \<open>receiveNack\<close> does on every packet, which fragments it queues, and
  what \<open>processRetransmits\<close> and \<open>getRetransmitFragment\<close> take from the queue. Both keep the
  invariants of the store.
\<close>

lemma queue_invD:
  assumes "queue_inv s"
  shows "s_mRetentionBuffer s k = Some f \<Longrightarrow> rf_mGeneration f \<le> s_mRetentionGeneration s"
    and "s_mRetentionBuffer s k = Some f \<Longrightarrow> s_mRetentionBuffer s k' = Some f' \<Longrightarrow>
      rf_mGeneration f = rf_mGeneration f' \<Longrightarrow> k = k'"
    and "q \<in> set (s_mRetransmitQueue s) \<Longrightarrow> rq_mGeneration q \<le> s_mRetentionGeneration s"
    and "q \<in> set (s_mRetransmitQueue s) \<Longrightarrow> s_mRetentionBuffer s k = Some f \<Longrightarrow>
      rf_mGeneration f = rq_mGeneration q \<Longrightarrow> k = rq_mKey q"
    and "distinct (map rq_mGeneration (s_mRetransmitQueue s))"
    and "s_mQueuedRetransmits s = rq_mGeneration ` set (filter (live_request s) (s_mRetransmitQueue s))"
proof -
  note inv = assms [unfolded queue_inv_def]
  show "s_mRetentionBuffer s k = Some f \<Longrightarrow> rf_mGeneration f \<le> s_mRetentionGeneration s"
    using inv [THEN conjunct1] by simp
  show "s_mRetentionBuffer s k = Some f \<Longrightarrow> s_mRetentionBuffer s k' = Some f' \<Longrightarrow>
      rf_mGeneration f = rf_mGeneration f' \<Longrightarrow> k = k'"
    using inv [THEN conjunct2, THEN conjunct1] by simp
  show "q \<in> set (s_mRetransmitQueue s) \<Longrightarrow> rq_mGeneration q \<le> s_mRetentionGeneration s"
    using inv [THEN conjunct2, THEN conjunct2, THEN conjunct1] by simp
  show "q \<in> set (s_mRetransmitQueue s) \<Longrightarrow> s_mRetentionBuffer s k = Some f \<Longrightarrow>
      rf_mGeneration f = rq_mGeneration q \<Longrightarrow> k = rq_mKey q"
    using inv [THEN conjunct2, THEN conjunct2, THEN conjunct2, THEN conjunct1] by simp
  show "distinct (map rq_mGeneration (s_mRetransmitQueue s))"
    and "s_mQueuedRetransmits s = rq_mGeneration ` set (filter (live_request s) (s_mRetransmitQueue s))"
    using inv by (simp_all only:)
qed

lemma queue_invI:
  assumes "\<And>k f. s_mRetentionBuffer s k = Some f \<Longrightarrow> rf_mGeneration f \<le> s_mRetentionGeneration s"
    and "\<And>k f k' f'. s_mRetentionBuffer s k = Some f \<Longrightarrow> s_mRetentionBuffer s k' = Some f' \<Longrightarrow>
      rf_mGeneration f = rf_mGeneration f' \<Longrightarrow> k = k'"
    and "\<And>q. q \<in> set (s_mRetransmitQueue s) \<Longrightarrow> rq_mGeneration q \<le> s_mRetentionGeneration s"
    and "\<And>q k f. q \<in> set (s_mRetransmitQueue s) \<Longrightarrow> s_mRetentionBuffer s k = Some f \<Longrightarrow>
      rf_mGeneration f = rq_mGeneration q \<Longrightarrow> k = rq_mKey q"
    and "distinct (map rq_mGeneration (s_mRetransmitQueue s))"
    and "s_mQueuedRetransmits s = rq_mGeneration ` set (filter (live_request s) (s_mRetransmitQueue s))"
  shows "queue_inv s"
  unfolding queue_inv_def using assms(1-5) by (intro conjI assms(6)) simp_all

section \<open>Queueing a retransmit\<close>

lemma queueRetransmit_frame:
  "s_mRetentionBuffer (queueRetransmit st k s) = s_mRetentionBuffer s"
  "s_mRetentionBufferBytes (queueRetransmit st k s) = s_mRetentionBufferBytes s"
  "s_mRetentionOrder (queueRetransmit st k s) = s_mRetentionOrder s"
  "s_mRetentionGeneration (queueRetransmit st k s) = s_mRetentionGeneration s"
  "s_mStatistics (queueRetransmit st k s) = s_mStatistics s"
  "s_out (queueRetransmit st k s) = s_out s"
  "s_clock (queueRetransmit st k s) = s_clock s"
  "s_mMtu (queueRetransmit st k s) = s_mMtu s"
  "s_mSuperFrameNo (queueRetransmit st k s) = s_mSuperFrameNo s"
  "s_mSubFragmentMode (queueRetransmit st k s) = s_mSubFragmentMode s"
  "s_mSendBuffer (queueRetransmit st k s) = s_mSendBuffer s"
  "s_mBundleBuffer (queueRetransmit st k s) = s_mBundleBuffer s"
  "s_mRetentionMs (queueRetransmit st k s) = s_mRetentionMs s"
  "s_mRetentionMaxBytes (queueRetransmit st k s) = s_mRetentionMaxBytes s"
  by (simp_all add: queueRetransmit_def split: option.splits)

definition requested_generations :: "Sender \<Rightarrow> (u8 \<times> u32) set \<Rightarrow> u64 set" where
  "requested_generations s R =
     {rf_mGeneration f | f k. s_mRetentionBuffer s k = Some f \<and> (rf_mStreamId f, k) \<in> R}"

lemma queueRetransmit_queued:
  "s_mQueuedRetransmits (queueRetransmit st k s) = s_mQueuedRetransmits s \<union> requested_generations s {(st, k)}"
  by (auto simp: queueRetransmit_def requested_generations_def split: option.splits)

lemma queueRetransmit_queue_inv: "queue_inv s \<Longrightarrow> queue_inv (queueRetransmit st k s)"
proof -
  assume inv: "queue_inv s"
  show "queue_inv (queueRetransmit st k s)"
  proof (cases "s_mRetentionBuffer s k")
    case None
    with inv show ?thesis by (simp add: queueRetransmit_def)
  next
    case (Some f)
    show ?thesis
    proof (cases "rf_mStreamId f = st \<and> rf_mGeneration f \<notin> s_mQueuedRetransmits s")
      case False
      with Some inv show ?thesis by (auto simp: queueRetransmit_def)
    next
      case True
      let ?q = "\<lparr>rq_mKey = k, rq_mGeneration = rf_mGeneration f\<rparr>" and ?t = "queueRetransmit st k s"
      have t: "s_mRetransmitQueue ?t = s_mRetransmitQueue s @ [?q]"
          "s_mQueuedRetransmits ?t = insert (rf_mGeneration f) (s_mQueuedRetransmits s)"
        using Some True by (simp_all add: queueRetransmit_def)
      have live: "live_request ?t = live_request s" "live_request s ?q"
        using Some by (auto simp: live_request_def queueRetransmit_frame fun_eq_iff)
      have "rf_mGeneration f \<notin> rq_mGeneration ` set (s_mRetransmitQueue s)"
      proof
        assume "rf_mGeneration f \<in> rq_mGeneration ` set (s_mRetransmitQueue s)"
        then obtain q where q: "q \<in> set (s_mRetransmitQueue s)" "rq_mGeneration q = rf_mGeneration f" by auto
        with Some queue_invD(4) [OF inv] have "rq_mKey q = k" by metis
        with q Some have "live_request s q" by (simp add: live_request_def)
        with q(1) have "rq_mGeneration q \<in> s_mQueuedRetransmits s" by (simp add: queue_invD(6) [OF inv])
        with q(2) have "rf_mGeneration f \<in> s_mQueuedRetransmits s" by simp
        with True show False by simp
      qed
      with inv True t live Some show ?thesis
        by (simp add: queue_inv_def queueRetransmit_frame)
    qed
  qed
qed

text \<open>Queueing changes only the queue and its index; the operations on them read everything else.\<close>

definition same_store :: "Sender \<Rightarrow> Sender \<Rightarrow> bool" where
  "same_store s t \<longleftrightarrow> s_mRetentionBuffer t = s_mRetentionBuffer s \<and>
     s_mRetentionBufferBytes t = s_mRetentionBufferBytes s \<and> s_mRetentionOrder t = s_mRetentionOrder s \<and>
     s_mRetentionGeneration t = s_mRetentionGeneration s \<and> s_clock t = s_clock s \<and> s_out t = s_out s \<and>
     s_mMtu t = s_mMtu s \<and> s_mSuperFrameNo t = s_mSuperFrameNo s \<and>
     s_mSubFragmentMode t = s_mSubFragmentMode s \<and> s_mSendBuffer t = s_mSendBuffer s \<and>
     s_mBundleBuffer t = s_mBundleBuffer s \<and> s_mRetentionMs t = s_mRetentionMs s \<and>
     s_mRetentionMaxBytes t = s_mRetentionMaxBytes s"

lemma same_store_refl: "same_store s s"
  by (simp add: same_store_def)

lemma same_store_trans: "same_store s t \<Longrightarrow> same_store t u \<Longrightarrow> same_store s u"
  by (simp add: same_store_def)

lemma same_store_requested: "same_store s t \<Longrightarrow> requested_generations t R = requested_generations s R"
  by (simp add: same_store_def requested_generations_def)

lemma same_store_inv: "same_store s t \<Longrightarrow> store_inv t = store_inv s"
  by (simp add: same_store_def store_inv_def)

lemma queueRetransmit_same_store: "same_store s (queueRetransmit st k s)"
  by (simp add: same_store_def queueRetransmit_frame)

section \<open>Processing a NACK\<close>

definition nack_keys :: "NackEntry \<Rightarrow> (u8 \<times> u32) list" where
  "nack_keys e = map (\<lambda>j. (ne_mStreamId e, makeRetentionKey (ne_mSuperFrameNo e) (ne_mFragmentNo e + word_of_nat j)))
     [0 ..< Suc (unat (ne_mFragmentCount e))]"

fun queue_all :: "(u8 \<times> u32) list \<Rightarrow> Sender \<Rightarrow> Sender" where
  "queue_all [] s = s"
| "queue_all ((st, k) # ks) s = queue_all ks (queueRetransmit st k s)"

lemma queue_all_append: "queue_all (xs @ ys) s = queue_all ys (queue_all xs s)"
  by (induction xs s rule: queue_all.induct) simp_all

lemma queue_all_same_store: "same_store s (queue_all ks s)"
  by (induction ks s rule: queue_all.induct)
    (auto simp: same_store_refl intro: same_store_trans queueRetransmit_same_store)

lemma queue_all_queue_inv: "queue_inv s \<Longrightarrow> queue_inv (queue_all ks s)"
  by (induction ks s rule: queue_all.induct) (simp_all add: queueRetransmit_queue_inv)

lemma queue_all_statistics: "s_mStatistics (queue_all ks s) = s_mStatistics s"
  by (induction ks s rule: queue_all.induct) (simp_all add: queueRetransmit_frame)

lemma queue_all_queued:
  "s_mQueuedRetransmits (queue_all ks s) = s_mQueuedRetransmits s \<union> requested_generations s (set ks)"
proof (induction ks s rule: queue_all.induct)
  case (1 s)
  show ?case by (simp add: requested_generations_def)
next
  case (2 st k ks s)
  have "requested_generations s (set ((st, k) # ks)) = requested_generations s {(st, k)} \<union> requested_generations s (set ks)"
    by (auto simp: requested_generations_def)
  with 2 show ?case
    by (auto simp: queueRetransmit_queued same_store_requested [OF queueRetransmit_same_store])
qed

lemma nack_range_keys: "nack_range e s = queue_all (nack_keys e) s"
proof -
  have "fold (\<lambda>j. queueRetransmit st (f j)) js s = queue_all (map (\<lambda>j. (st, f j)) js) s" for st js and f :: "nat \<Rightarrow> u32"
    by (induction js arbitrary: s) simp_all
  then show ?thesis by (simp add: nack_range_def nack_keys_def del: upt_Suc)
qed

definition nack_decode :: "bytes \<Rightarrow> NackEntry list" where
  "nack_decode d = map (\<lambda>i. dec_nackEntry (take 6 (drop (3 + i * 6) d))) [0 ..< unat (nk_mNackCount (dec_nack d))]"

definition nack_in_range :: "NackEntry \<Rightarrow> bool" where
  "nack_in_range e \<longleftrightarrow> unat (ne_mFragmentNo e) + unat (ne_mFragmentCount e) \<le> 65535"

definition nack_wellformed :: "bytes \<Rightarrow> bool" where
  "nack_wellformed d \<longleftrightarrow> 3 \<le> length d \<and> getFrameType (nk_mFrameType (dec_nack d)) = TYPE0 \<and>
     nk_mSubtype (dec_nack d) = type0SubtypeValue NACK \<and> length d = 3 + unat (nk_mNackCount (dec_nack d)) * 6"

definition count_nack :: "Sender \<Rightarrow> Sender" where
  "count_nack s = s\<lparr>s_mStatistics := (s_mStatistics s)\<lparr>ss_mNacksReceived := ss_mNacksReceived (s_mStatistics s) + 1\<rparr>\<rparr>"

fun nack_process :: "NackEntry list \<Rightarrow> Sender \<Rightarrow> Result \<times> Sender" where
  "nack_process [] s = (OK, count_nack s)"
| "nack_process (e # es) s = (if nack_in_range e then nack_process es (nack_range e s) else (BUFFER_OUT_OF_BOUNDS, s))"

lemma nack_entries_process:
  "3 + (i + n) * 6 \<le> length d \<Longrightarrow> nack_entries d i n s =
     Some (nack_process (map (\<lambda>i. dec_nackEntry (take 6 (drop (3 + i * 6) d))) [i ..< i + n]) s)"
proof (induction n arbitrary: i s)
  case 0
  then show ?case by (simp add: count_nack_def)
next
  case (Suc n)
  let ?e = "dec_nackEntry (take 6 (drop (3 + i * 6) d))"
  have "view_nackEntry d (3 + i * 6) = Some ?e"
    using Suc.prems by (simp add: mem_simps)
  moreover have "[i ..< i + Suc n] = i # [Suc i ..< Suc i + n]"
    by (simp add: upt_conv_Cons)
  ultimately show ?case
    using Suc.IH [of "Suc i"] Suc.prems by (simp add: nack_in_range_def del: upt_Suc)
qed

lemma receiveNack_spec:
  "receiveNack d s = Some
     (if nack_wellformed d then nack_process (nack_decode d) s
      else (if length d < 3 then FRAME_SIZE_MISMATCH
             else if getFrameType (nk_mFrameType (dec_nack d)) \<noteq> TYPE0 \<or> nk_mSubtype (dec_nack d) \<noteq> type0SubtypeValue NACK
             then INVALID_PARAMETER else FRAME_SIZE_MISMATCH, s))"
proof (cases "length d < 3")
  case True
  then show ?thesis by (simp add: receiveNack_def nack_wellformed_def)
next
  case False
  then have v: "view_nack d 0 = Some (dec_nack d)" by (simp add: mem_simps)
  show ?thesis
    using False nack_entries_process [of 0 "unat (nk_mNackCount (dec_nack d))" d s]
    by (auto simp: receiveNack_def v nack_wellformed_def nack_decode_def)
qed

lemma nack_process_spec:
  "nack_process es s =
    (if list_all nack_in_range es then (OK, count_nack (queue_all (concat (map nack_keys es)) s))
     else (BUFFER_OUT_OF_BOUNDS, queue_all (concat (map nack_keys (takeWhile nack_in_range es))) s))"
  by (induction es arbitrary: s) (simp_all add: nack_range_keys queue_all_append)

lemma count_nack_frame:
  "same_store s (count_nack s)" "s_mRetransmitQueue (count_nack s) = s_mRetransmitQueue s"
  "s_mQueuedRetransmits (count_nack s) = s_mQueuedRetransmits s" "queue_inv (count_nack s) = queue_inv s"
  by (simp_all add: count_nack_def same_store_def queue_inv_def live_request_def cong: filter_cong)

lemma receiveNack_keeps:
  assumes "receiveNack d s = Some (r, s')"
  shows "same_store s s'" "queue_inv s \<Longrightarrow> queue_inv s'" "store_inv s \<Longrightarrow> store_inv s'"
proof -
  have "same_store s (count_nack (queue_all ks s))" for ks
    using queue_all_same_store count_nack_frame(1) by (rule same_store_trans)
  with assms queue_all_same_store show st: "same_store s s'"
    by (auto simp: receiveNack_spec nack_process_spec same_store_refl split: if_splits)
  from assms queue_all_queue_inv show "queue_inv s \<Longrightarrow> queue_inv s'"
    by (auto simp: receiveNack_spec nack_process_spec count_nack_frame split: if_splits)
  show "store_inv s \<Longrightarrow> store_inv s'" using same_store_inv [OF st] by simp
qed

text \<open>An accepted NACK queues exactly the requested fragments that are retained for their stream.\<close>

lemma receiveNack_queued:
  assumes "receiveNack d s = Some (OK, s')"
  shows "nack_wellformed d" "list_all nack_in_range (nack_decode d)"
    "s_mQueuedRetransmits s' = s_mQueuedRetransmits s \<union>
       requested_generations s (set (concat (map nack_keys (nack_decode d))))"
  using assms
  by (auto simp: receiveNack_spec nack_process_spec queue_all_queued count_nack_frame split: if_splits)

section \<open>Retransmitting\<close>

definition request_copy :: "Sender \<Rightarrow> RetransmitRequest \<Rightarrow> bytes \<times> u8" where
  "request_copy s q = (case s_mRetentionBuffer s (rq_mKey q) of None \<Rightarrow> ([], 0) | Some f \<Rightarrow> (rf_mData f, rf_mStreamId f))"

definition same_copies :: "Sender \<Rightarrow> Sender \<Rightarrow> bool" where
  "same_copies s t \<longleftrightarrow> (\<forall>k. map_option (\<lambda>f. f\<lparr>rf_mRetryCount := 0\<rparr>) (s_mRetentionBuffer t k) =
     map_option (\<lambda>f. f\<lparr>rf_mRetryCount := 0\<rparr>) (s_mRetentionBuffer s k))"


lemma same_copies_bump:
  "s_mRetentionBuffer s k = Some f \<Longrightarrow>
   s_mRetentionBuffer t = (s_mRetentionBuffer s)(k \<mapsto> f\<lparr>rf_mRetryCount := n\<rparr>) \<Longrightarrow> same_copies s t"
  by (simp add: same_copies_def)

lemma same_copies_request:
  assumes "same_copies s t"
  shows "live_request t q = live_request s q" "request_copy t q = request_copy s q"
proof -
  have "map_option (\<lambda>f. f\<lparr>rf_mRetryCount := 0\<rparr>) (s_mRetentionBuffer t (rq_mKey q)) =
     map_option (\<lambda>f. f\<lparr>rf_mRetryCount := 0\<rparr>) (s_mRetentionBuffer s (rq_mKey q))" (is "map_option ?z ?a = map_option ?z ?b")
    using assms by (simp add: same_copies_def)
  moreover have "rf_mGeneration (?z f) = rf_mGeneration f" "rf_mData (?z f) = rf_mData f" "rf_mStreamId (?z f) = rf_mStreamId f" for f
    by simp_all
  ultimately show "live_request t q = live_request s q" "request_copy t q = request_copy s q"
    unfolding live_request_def request_copy_def by (cases ?a; cases ?b; simp; metis)+
qed

definition pop_request :: "Sender \<Rightarrow> Sender" where
  "pop_request s = s\<lparr>s_mRetransmitQueue := tl (s_mRetransmitQueue s),
     s_mQueuedRetransmits := s_mQueuedRetransmits s - {rq_mGeneration (hd (s_mRetransmitQueue s))}\<rparr>"

definition retransmit_bump :: "RetransmitRequest \<Rightarrow> RetainedFragment \<Rightarrow> Sender \<Rightarrow> Sender" where
  "retransmit_bump q f s = s\<lparr>
     s_mRetentionBuffer := (s_mRetentionBuffer s)(rq_mKey q \<mapsto> f\<lparr>rf_mRetryCount := rf_mRetryCount f + 1\<rparr>),
     s_mStatistics := (s_mStatistics s)
       \<lparr>ss_mRetransmittedFragments := ss_mRetransmittedFragments (s_mStatistics s) + 1\<rparr>\<rparr>"

text \<open>One iteration: the head is popped, and when it is live its copy is the next one sent.\<close>

lemma retransmit_loop_step:
  "retransmit_loop m c s =
     (case s_mRetransmitQueue s of [] \<Rightarrow> (c, s)
      | q # rest \<Rightarrow> if \<not> c < m then (c, s)
          else if live_request s q then
            (let f = the (s_mRetentionBuffer s (rq_mKey q)); t = (pop_request s)\<lparr>s_out := s_out s @ [request_copy s q]\<rparr>
             in retransmit_loop m (Suc c) (retransmit_bump q f t))
          else retransmit_loop m c (pop_request s))"
  by (subst retransmit_loop.simps)
    (auto simp: Let_def pop_request_def retransmit_bump_def live_request_def request_copy_def
      split: list.splits option.splits)

lemma getRetransmitFragment_step:
  "getRetransmitFragment s =
     (case s_mRetransmitQueue s of [] \<Rightarrow> (None, s)
      | q # rest \<Rightarrow> if live_request s q
          then (Some (request_copy s q), retransmit_bump q (the (s_mRetentionBuffer s (rq_mKey q))) (pop_request s))
          else (None, pop_request s))"
  by (auto simp: getRetransmitFragment_def Let_def pop_request_def retransmit_bump_def live_request_def
      request_copy_def split: list.splits option.splits)

lemma pop_request_inv:
  assumes "queue_inv s" "s_mRetransmitQueue s = q # rest"
  shows "queue_inv (pop_request s)"
proof -
  have "\<forall>x \<in> set rest. rq_mGeneration x \<noteq> rq_mGeneration q"
    using queue_invD(5) [OF assms(1)] assms(2) by (auto simp: image_iff)
  moreover have "live_request (pop_request s) = live_request s"
    by (simp add: fun_eq_iff live_request_def pop_request_def)
  ultimately show ?thesis
    using assms by (auto simp: queue_inv_def pop_request_def)
qed

lemma retransmit_bump_frame:
  "s_mRetransmitQueue (retransmit_bump q f s) = s_mRetransmitQueue s"
  "s_mQueuedRetransmits (retransmit_bump q f s) = s_mQueuedRetransmits s"
  "s_mRetentionGeneration (retransmit_bump q f s) = s_mRetentionGeneration s"
  "s_mRetentionOrder (retransmit_bump q f s) = s_mRetentionOrder s"
  "s_mRetentionBufferBytes (retransmit_bump q f s) = s_mRetentionBufferBytes s"
  "s_out (retransmit_bump q f s) = s_out s" "s_clock (retransmit_bump q f s) = s_clock s"
  by (simp_all add: retransmit_bump_def)

lemma retransmit_bump_inv:
  assumes "s_mRetentionBuffer s (rq_mKey q) = Some f"
  shows "queue_inv s \<Longrightarrow> queue_inv (retransmit_bump q f s)"
    and "store_inv s \<Longrightarrow> store_inv (retransmit_bump q f s)"
    and "same_copies s (retransmit_bump q f s)"
proof -
  let ?t = "retransmit_bump q f s" and ?f = "f\<lparr>rf_mRetryCount := rf_mRetryCount f + 1\<rparr>"
  have t: "s_mRetentionBuffer ?t = (s_mRetentionBuffer s)(rq_mKey q \<mapsto> ?f)"
    by (simp add: retransmit_bump_def)
  show copies: "same_copies s ?t" using assms t by (rule same_copies_bump)
  have old: "\<exists>h. s_mRetentionBuffer s k = Some h \<and> rf_mGeneration h = rf_mGeneration g \<and> rf_mData h = rf_mData g \<and>
      rf_mSuperFrameNo h = rf_mSuperFrameNo g \<and> rf_mFragmentNo h = rf_mFragmentNo g"
    if "s_mRetentionBuffer ?t k = Some g" for k g
    using that assms by (auto simp: t split: if_splits)
  have live: "live_request ?t = live_request s"
    using same_copies_request(1) [OF copies] by (simp add: fun_eq_iff)
  show "queue_inv ?t" if inv: "queue_inv s"
  proof (rule queue_invI, unfold retransmit_bump_frame live)
    show "rf_mGeneration g \<le> s_mRetentionGeneration s" if "s_mRetentionBuffer ?t k = Some g" for k g
      using old [OF that] queue_invD(1) [OF inv] by metis
    show "k = k'" if "s_mRetentionBuffer ?t k = Some g" "s_mRetentionBuffer ?t k' = Some g'"
        "rf_mGeneration g = rf_mGeneration g'" for k g k' g'
      using old [OF that(1)] old [OF that(2)] that(3) queue_invD(2) [OF inv] by metis
    show "k = rq_mKey r" if "r \<in> set (s_mRetransmitQueue s)" "s_mRetentionBuffer ?t k = Some g"
        "rf_mGeneration g = rq_mGeneration r" for r k g
      using old [OF that(2)] that(1,3) queue_invD(4) [OF inv] by metis
  qed (use queue_invD [OF inv] in simp_all)
  have bytes: "retained_bytes (s_mRetentionBuffer ?t) = retained_bytes (s_mRetentionBuffer s)"
    if "finite (dom (s_mRetentionBuffer s))"
    using that assms retained_bytes_insert [of "s_mRetentionBuffer s" "rq_mKey q" ?f]
      retained_bytes_remove [of "s_mRetentionBuffer s" "rq_mKey q" f] by (simp add: t)
  show "store_inv ?t" if inv: "store_inv s"
  proof -
    have "\<lparr>ro_mKey = k, ro_mGeneration = rf_mGeneration g\<rparr> \<in> set (s_mRetentionOrder s) \<and>
        k = makeRetentionKey (rf_mSuperFrameNo g) (rf_mFragmentNo g)" if "s_mRetentionBuffer ?t k = Some g" for k g
      using old [OF that] inv unfolding store_inv_def by metis
    moreover have "finite (dom (s_mRetentionBuffer ?t))"
      using inv by (simp add: t store_inv_def)
    ultimately show ?thesis
      using inv bytes unfolding store_inv_def retransmit_bump_frame by simp
  qed
qed

text \<open>
  \<open>processRetransmits\<close> sends the copies of the live requests in queue order, at most \<open>aMaxCount\<close> of
  them, and reports how many.
\<close>

lemma pop_request_copies: "same_copies s ((pop_request s)\<lparr>s_out := out\<rparr>)" "same_copies s (pop_request s)"
  by (simp_all add: same_copies_def pop_request_def)

lemma same_copies_trans: "same_copies s t \<Longrightarrow> same_copies t u \<Longrightarrow> same_copies s u"
  by (simp add: same_copies_def)

lemma live_request_Some: "live_request s q \<Longrightarrow> \<exists>f. s_mRetentionBuffer s (rq_mKey q) = Some f"
  by (auto simp: live_request_def split: option.splits)

lemma retransmit_loop_out:
  "retransmit_loop m c s = (c', s') \<Longrightarrow>
     s_out s' = s_out s @ map (request_copy s) (take (m - c) (filter (live_request s) (s_mRetransmitQueue s))) \<and>
     c' = c + min (m - c) (length (filter (live_request s) (s_mRetransmitQueue s)))"
proof (induction "length (s_mRetransmitQueue s)" arbitrary: c s)
  case 0
  then show ?case by (simp add: retransmit_loop_step)
next
  case (Suc n)
  then obtain q rest where q: "s_mRetransmitQueue s = q # rest" "n = length rest" by (cases "s_mRetransmitQueue s") auto
  show ?case
  proof (cases "c < m")
    case False
    with Suc.prems q show ?thesis by (simp add: retransmit_loop_step)
  next
    case True
    show ?thesis
    proof (cases "live_request s q")
      case False
      let ?t = "pop_request s"
      have "retransmit_loop m c ?t = (c', s')" using Suc.prems q True False by (simp add: retransmit_loop_step)
      moreover have "live_request ?t = live_request s" "request_copy ?t = request_copy s"
        using same_copies_request [OF pop_request_copies(2), of s] by auto
      moreover have "s_mRetransmitQueue ?t = rest" "s_out ?t = s_out s" using q by (simp_all add: pop_request_def)
      ultimately show ?thesis using Suc.hyps(1) [of ?t c] q False by simp
    next
      case live: True
      then obtain f where f: "s_mRetentionBuffer s (rq_mKey q) = Some f" using live_request_Some by blast
      define t where "t = retransmit_bump q f
        ((pop_request s)\<lparr>s_out := s_out s @ [request_copy s q]\<rparr>)"
      have "same_copies s t"
        unfolding t_def
        by (rule same_copies_trans [OF pop_request_copies(1)], rule retransmit_bump_inv(3))
          (simp add: pop_request_def f)
      then have copies: "live_request t = live_request s" "request_copy t = request_copy s"
        using same_copies_request by blast+
      have t: "s_mRetransmitQueue t = rest" "s_out t = s_out s @ [request_copy s q]"
        using q by (simp_all add: t_def retransmit_bump_frame pop_request_def)
      have "retransmit_loop m c s = retransmit_loop m (Suc c) t"
        unfolding retransmit_loop_step [of m c s] q(1) t_def Let_def list.case f option.sel
        using True live by (simp only: if_True not_True_eq_False if_False)
      with Suc.prems have "retransmit_loop m (Suc c) t = (c', s')" by (simp only:)
      then have "s_out s' = s_out s @ request_copy s q # map (request_copy s) (take (m - Suc c) (filter (live_request s) rest)) \<and>
          c' = Suc c + min (m - Suc c) (length (filter (live_request s) rest))"
        using Suc.hyps(1) [of t "Suc c"] q(2) by (simp add: copies t)
      moreover have "m - c = Suc (m - Suc c)" using True by simp
      ultimately show ?thesis by (simp add: q(1) live)
    qed
  qed
qed

lemma retransmit_loop_keeps:
  assumes "retransmit_loop m c s = (c', s')"
    and pop: "\<And>s q rest. P s \<Longrightarrow> s_mRetransmitQueue s = q # rest \<Longrightarrow> P (pop_request s)"
    and send: "\<And>s out. P s \<Longrightarrow> P (s\<lparr>s_out := out\<rparr>)"
    and bump: "\<And>s q f. P s \<Longrightarrow> s_mRetentionBuffer s (rq_mKey q) = Some f \<Longrightarrow> P (retransmit_bump q f s)"
    and "P s"
  shows "P s'"
  using assms(1,5)
proof (induction "length (s_mRetransmitQueue s)" arbitrary: c s)
  case 0
  then show ?case by (simp add: retransmit_loop_step)
next
  case (Suc n)
  then obtain q rest where q: "s_mRetransmitQueue s = q # rest" "n = length rest" by (cases "s_mRetransmitQueue s") auto
  have popped: "P (pop_request s)" "s_mRetransmitQueue (pop_request s) = rest"
    using pop [OF Suc.prems(2) q(1)] q by (simp_all add: pop_request_def)
  let ?o = "(pop_request s)\<lparr>s_out := s_out s @ [request_copy s q]\<rparr>"
  let ?t = "retransmit_bump q (the (s_mRetentionBuffer s (rq_mKey q))) ?o"
  have "P ?t" if "live_request s q"
  proof -
    from that obtain f where f: "s_mRetentionBuffer s (rq_mKey q) = Some f" using live_request_Some by blast
    have "P (retransmit_bump q f ?o)" by (intro bump send popped) (simp add: pop_request_def f)
    then show ?thesis by (simp only: f option.sel)
  qed
  moreover have "n = length (s_mRetransmitQueue ?t)" using q popped by (simp add: retransmit_bump_frame)
  ultimately show ?case
    using Suc.prems q popped Suc.hyps(1) [of ?t "Suc c"] Suc.hyps(1) [of "pop_request s" c]
    by (auto simp: retransmit_loop_step [of m c s] Let_def split: if_splits)
qed

lemma processRetransmits_inv:
  assumes "processRetransmits m s = (c, s')"
  shows "queue_inv s \<Longrightarrow> queue_inv s'" "store_inv s \<Longrightarrow> store_inv s'"
proof -
  have loop: "retransmit_loop m 0 s = (c, s')" using assms by (simp add: processRetransmits_def)
  show "queue_inv s \<Longrightarrow> queue_inv s'"
    by (rule retransmit_loop_keeps [where P = queue_inv, OF loop])
      (simp_all add: pop_request_inv retransmit_bump_inv(1) cong: queue_inv_cong)
  show "store_inv s \<Longrightarrow> store_inv s'"
    by (rule retransmit_loop_keeps [where P = store_inv, OF loop])
      (simp_all add: retransmit_bump_inv(2) pop_request_def cong: store_inv_cong)
qed

end
