(* ===== verification/Efp_Sender.thy ===== *)
theory Efp_Sender
  imports Efp_Retransmit
begin

text \<open>
  \<open>Sender::send\<close> (\<^verbatim>\<open>efp.h\<close>): the choice between one Type2 packet and a sequence of fragments, the
  arithmetic that splits the payload, and the two transmission modes. Packets are built in
  \<open>mSendBuffer\<close> or \<open>mBundleBuffer\<close> by \<open>memcpy\<close>; reading the payload and writing the buffers out of
  bounds is undefined (\<open>None\<close>).
\<close>

section \<open>Building packets\<close>

definition send_write :: "nat \<Rightarrow> bytes \<Rightarrow> Sender \<Rightarrow> Sender option" where
  "send_write off xs s = do { b \<leftarrow> mem_write (s_mSendBuffer s) off xs; Some (s\<lparr>s_mSendBuffer := b\<rparr>) }"

definition bundle_write :: "nat \<Rightarrow> bytes \<Rightarrow> Sender \<Rightarrow> Sender option" where
  "bundle_write off xs s = do { b \<leftarrow> mem_write (s_mBundleBuffer s) off xs; Some (s\<lparr>s_mBundleBuffer := b\<rparr>) }"

definition mCallback :: "bytes \<Rightarrow> u8 \<Rightarrow> Sender \<Rightarrow> Sender" where
  "mCallback d aStreamId s = s\<lparr>s_out := s_out s @ [(d, aStreamId)]\<rparr>"

definition count_fragment :: "Sender \<Rightarrow> Sender" where
  "count_fragment s = s\<lparr>s_mStatistics := (s_mStatistics s)\<lparr>ss_mFragmentsSent := ss_mFragmentsSent (s_mStatistics s) + 1\<rparr>\<rparr>"

definition invokeCallback :: "nat \<Rightarrow> u8 \<Rightarrow> Sender \<Rightarrow> Sender option" where
  "invokeCallback aSize aStreamId s = do {
     d \<leftarrow> mem_load aSize (s_mSendBuffer s) 0;
     Some (count_fragment (mCallback d aStreamId s)) }"

definition invokeBundleCallback :: "nat \<Rightarrow> u8 \<Rightarrow> Sender \<Rightarrow> Sender option" where
  "invokeBundleCallback aSize aStreamId s = do {
     d \<leftarrow> mem_load aSize (s_mBundleBuffer s) 0;
     let s = mCallback d aStreamId s;
     Some (s\<lparr>s_mStatistics := (s_mStatistics s)\<lparr>ss_mBundlesSent := ss_mBundlesSent (s_mStatistics s) + 1\<rparr>\<rparr>) }"

text \<open>\<open>retainFragment\<close> copies its bytes out of the packet buffer.\<close>

definition retain_from_send :: "u16 \<Rightarrow> u16 \<Rightarrow> u8 \<Rightarrow> nat \<Rightarrow> Sender \<Rightarrow> Sender option" where
  "retain_from_send sf fn st aSize s = do {
     d \<leftarrow> mem_load aSize (s_mSendBuffer s) 0;
     Some (retainFragment sf fn st d s) }"

section \<open>A single Type2 packet\<close>

definition sendType2Only :: "bytes \<Rightarrow> u8 \<Rightarrow> u64 \<Rightarrow> u32 \<Rightarrow> u32 \<Rightarrow> u8 \<Rightarrow> u8 \<Rightarrow> Sender \<Rightarrow> (Result \<times> Sender) option" where
  "sendType2Only apData aPayloadType aPts aDtsPtsDiff aPayloadCode aStreamId aFlags s =
     (let aSize = length apData;
          lHeader = \<lparr>t2_mFrameType = makeFrameTypeByte TYPE2 aFlags, t2_mStreamId = aStreamId,
            t2_mPayloadType = aPayloadType, t2_mSizeOfData = word_of_nat aSize,
            t2_mSuperFrameNo = s_mSuperFrameNo s, t2_mOfFragmentNo = 0, t2_mType1PacketSize = 0,
            t2_mPts = aPts, t2_mDtsPtsDiff = aDtsPtsDiff, t2_mPayloadCode = aPayloadCode\<rparr>;
          s = s\<lparr>s_mSuperFrameNo := s_mSuperFrameNo s + 1\<rparr>
      in do {
        s \<leftarrow> send_write 0 (enc_type2 lHeader) s;
        s \<leftarrow> send_write 27 apData s;
        let lTotalSize = 27 + aSize;
        s \<leftarrow> retain_from_send (t2_mSuperFrameNo lHeader) 0 aStreamId lTotalSize s;
        s \<leftarrow> invokeCallback lTotalSize aStreamId s;
        Some (OK, s)
      })"

section \<open>Splitting a payload\<close>

text \<open>The parameters \<open>sendFragmented\<close> hands to the transmission modes.\<close>

record FragArgs =
  fa_apData :: bytes
  fa_aPayloadType :: u8
  fa_aPts :: u64
  fa_aDtsPtsDiff :: u32
  fa_aPayloadCode :: u32
  fa_aStreamId :: u8
  fa_aFlags :: u8
  fa_aType1PayloadSize :: nat
  fa_aSuperFrameNo :: u16
  fa_aOfFragmentNo :: u16
  fa_aNumType1Fragments :: nat
  fa_aNeedsType3 :: bool
  fa_aType3DataSize :: nat
  fa_aType2DataSize :: nat

record FragPlan =
  fp_lTotalFragments :: nat
  fp_lNumType1Fragments :: nat
  fp_lNeedsType3 :: bool
  fp_lType3DataSize :: nat
  fp_lType2DataSize :: nat

definition fragmentPlan :: "nat \<Rightarrow> nat \<Rightarrow> nat \<Rightarrow> FragPlan" where
  "fragmentPlan mMtu aType1PayloadSize aSize =
     (let lRemainingAfterType1s = aSize mod aType1PayloadSize;
          lNumType1Fragments = aSize div aType1PayloadSize;
          lType2MaxPayload = size_sub mMtu 27
      in if lRemainingAfterType1s = 0 then
           (if aType1PayloadSize \<le> lType2MaxPayload then
              \<lparr>fp_lTotalFragments = lNumType1Fragments,
               fp_lNumType1Fragments = size_sub lNumType1Fragments 1, fp_lNeedsType3 = False,
               fp_lType3DataSize = 0, fp_lType2DataSize = aType1PayloadSize\<rparr>
            else
              \<lparr>fp_lTotalFragments = lNumType1Fragments + 1,
               fp_lNumType1Fragments = size_sub lNumType1Fragments 1, fp_lNeedsType3 = True,
               fp_lType3DataSize = size_sub aType1PayloadSize lType2MaxPayload,
               fp_lType2DataSize = lType2MaxPayload\<rparr>)
         else if lRemainingAfterType1s \<le> lType2MaxPayload then
           \<lparr>fp_lTotalFragments = lNumType1Fragments + 1, fp_lNumType1Fragments = lNumType1Fragments,
            fp_lNeedsType3 = False, fp_lType3DataSize = 0, fp_lType2DataSize = lRemainingAfterType1s\<rparr>
         else
           (let lType3DataSize = aType1PayloadSize;
                lType2DataSize = size_add (size_sub lRemainingAfterType1s aType1PayloadSize) lType2MaxPayload;
                lCombinedSpace = size_add aType1PayloadSize lType2MaxPayload;
                (lType3DataSize, lType2DataSize) =
                  (if lRemainingAfterType1s \<le> lCombinedSpace then
                     (let t3 = size_sub lRemainingAfterType1s lType2MaxPayload;
                          t3 = (if t3 > aType1PayloadSize then aType1PayloadSize else t3)
                      in (t3, size_sub lRemainingAfterType1s t3))
                   else (lType3DataSize, lType2DataSize))
            in \<lparr>fp_lTotalFragments = lNumType1Fragments + 2, fp_lNumType1Fragments = lNumType1Fragments,
                fp_lNeedsType3 = True, fp_lType3DataSize = lType3DataSize, fp_lType2DataSize = lType2DataSize\<rparr>))"

section \<open>The fragments of a payload\<close>

definition type1_header :: "FragArgs \<Rightarrow> nat \<Rightarrow> FrameType1" where
  "type1_header a lFragNo = \<lparr>t1_mFrameType = makeFrameTypeByte TYPE1 (fa_aFlags a),
     t1_mStreamId = fa_aStreamId a, t1_mSuperFrameNo = fa_aSuperFrameNo a,
     t1_mFragmentNo = word_of_nat lFragNo, t1_mOfFragmentNo = fa_aOfFragmentNo a\<rparr>"

definition type3_header :: "FragArgs \<Rightarrow> FrameType3" where
  "type3_header a = \<lparr>t3_mFrameType = makeFrameTypeByte TYPE3 (fa_aFlags a),
     t3_mStreamId = fa_aStreamId a, t3_mSuperFrameNo = fa_aSuperFrameNo a,
     t3_mType1PacketSize = word_of_nat (fa_aType1PayloadSize a), t3_mOfFragmentNo = fa_aOfFragmentNo a\<rparr>"

definition type2_header :: "FragArgs \<Rightarrow> FrameType2" where
  "type2_header a = \<lparr>t2_mFrameType = makeFrameTypeByte TYPE2 (fa_aFlags a),
     t2_mStreamId = fa_aStreamId a, t2_mPayloadType = fa_aPayloadType a,
     t2_mSizeOfData = word_of_nat (fa_aType2DataSize a), t2_mSuperFrameNo = fa_aSuperFrameNo a,
     t2_mOfFragmentNo = fa_aOfFragmentNo a, t2_mType1PacketSize = word_of_nat (fa_aType1PayloadSize a),
     t2_mPts = fa_aPts a, t2_mDtsPtsDiff = fa_aDtsPtsDiff a, t2_mPayloadCode = fa_aPayloadCode a\<rparr>"

text \<open>The loop over the Type1 fragments, with the running data offset.\<close>

fun single_type1_loop :: "FragArgs \<Rightarrow> nat \<Rightarrow> nat \<Rightarrow> nat \<Rightarrow> Sender \<Rightarrow> (nat \<times> Sender) option" where
  "single_type1_loop a 0 lFragNo lDataOffset s = Some (lDataOffset, s)"
| "single_type1_loop a (Suc n) lFragNo lDataOffset s = do {
     s \<leftarrow> send_write 0 (enc_type1 (type1_header a lFragNo)) s;
     d \<leftarrow> mem_load (fa_aType1PayloadSize a) (fa_apData a) lDataOffset;
     s \<leftarrow> send_write 8 d s;
     let lDataOffset = lDataOffset + fa_aType1PayloadSize a;
     s \<leftarrow> retain_from_send (fa_aSuperFrameNo a) (word_of_nat lFragNo) (fa_aStreamId a) (unat (s_mMtu s)) s;
     s \<leftarrow> invokeCallback (unat (s_mMtu s)) (fa_aStreamId a) s;
     single_type1_loop a n (Suc lFragNo) lDataOffset s
   }"

definition send_type3 :: "FragArgs \<Rightarrow> nat \<Rightarrow> Sender \<Rightarrow> (nat \<times> Sender) option" where
  "send_type3 a lDataOffset s =
     (if \<not> fa_aNeedsType3 a then Some (lDataOffset, s)
      else do {
        s \<leftarrow> send_write 0 (enc_type3 (type3_header a)) s;
        d \<leftarrow> mem_load (fa_aType3DataSize a) (fa_apData a) lDataOffset;
        s \<leftarrow> send_write 8 d s;
        let lDataOffset = lDataOffset + fa_aType3DataSize a;
        let lTotalSize = 8 + fa_aType3DataSize a;
        s \<leftarrow> retain_from_send (fa_aSuperFrameNo a) (fa_aOfFragmentNo a - 1) (fa_aStreamId a) lTotalSize s;
        s \<leftarrow> invokeCallback lTotalSize (fa_aStreamId a) s;
        Some (lDataOffset, s)
      })"

definition send_type2 :: "FragArgs \<Rightarrow> nat \<Rightarrow> Sender \<Rightarrow> Sender option" where
  "send_type2 a lDataOffset s = do {
     s \<leftarrow> send_write 0 (enc_type2 (type2_header a)) s;
     d \<leftarrow> mem_load (fa_aType2DataSize a) (fa_apData a) lDataOffset;
     s \<leftarrow> send_write 27 d s;
     let lTotalSize = 27 + fa_aType2DataSize a;
     s \<leftarrow> retain_from_send (fa_aSuperFrameNo a) (fa_aOfFragmentNo a) (fa_aStreamId a) lTotalSize s;
     invokeCallback lTotalSize (fa_aStreamId a) s
   }"

definition sendFragmentedSingle :: "FragArgs \<Rightarrow> Sender \<Rightarrow> (Result \<times> Sender) option" where
  "sendFragmentedSingle a s = do {
     (lDataOffset, s) \<leftarrow> single_type1_loop a (fa_aNumType1Fragments a) 0 0 s;
     (lDataOffset, s) \<leftarrow> send_type3 a lDataOffset s;
     s \<leftarrow> send_type2 a lDataOffset s;
     Some (OK, s)
   }"

section \<open>Bundles\<close>

text \<open>
  Before a bundle of more than one fragment, a pending retransmit is taken from the queue: it rides
  in the bundle when it has the size of a Type1 frame, and is sent by itself otherwise.
\<close>

definition bundle_retransmit :: "FragArgs \<Rightarrow> nat \<Rightarrow> Sender \<Rightarrow> nat \<times> bytes option \<times> Sender" where
  "bundle_retransmit a lFragsInBundle s =
     (if s_mRetransmitQueue s \<noteq> [] \<and> lFragsInBundle > 1 then
        (case getRetransmitFragment s of
           (None, s) \<Rightarrow> (lFragsInBundle, None, s)
         | (Some (d, st), s) \<Rightarrow>
             if length d = 8 + fa_aType1PayloadSize a then (lFragsInBundle - 1, Some d, s)
             else (lFragsInBundle, None, mCallback d st s))
      else (lFragsInBundle, None, s))"

text \<open>The inner loop: the Type1 frames of one bundle, at their offsets in the bundle buffer.\<close>

fun bundle_type1_loop :: "FragArgs \<Rightarrow> nat \<Rightarrow> nat \<Rightarrow> nat \<Rightarrow> nat \<Rightarrow> Sender \<Rightarrow> (nat \<times> nat \<times> Sender) option" where
  "bundle_type1_loop a 0 lFragNo lDataOffset lBundleOffset s = Some (lDataOffset, lBundleOffset, s)"
| "bundle_type1_loop a (Suc n) lFragNo lDataOffset lBundleOffset s = do {
     s \<leftarrow> bundle_write lBundleOffset (enc_type1 (type1_header a lFragNo)) s;
     d \<leftarrow> mem_load (fa_aType1PayloadSize a) (fa_apData a) lDataOffset;
     s \<leftarrow> bundle_write (lBundleOffset + 8) d s;
     f \<leftarrow> mem_load (8 + fa_aType1PayloadSize a) (s_mBundleBuffer s) lBundleOffset;
     let s = retainFragment (fa_aSuperFrameNo a) (word_of_nat lFragNo) (fa_aStreamId a) f s;
     bundle_type1_loop a n (Suc lFragNo) (lDataOffset + fa_aType1PayloadSize a)
       (lBundleOffset + (8 + fa_aType1PayloadSize a)) (count_fragment s)
   }"

definition bundle_step :: "FragArgs \<Rightarrow> u8 \<Rightarrow> nat \<Rightarrow> nat \<Rightarrow> Sender \<Rightarrow> (nat \<times> nat \<times> Sender) option" where
  "bundle_step a aBundleSize lFragIdx lDataOffset s =
     (let lFragsInBundle = min (unat aBundleSize) (fa_aNumType1Fragments a - lFragIdx);
          (lFragsInBundle, lRetransmit, s) = bundle_retransmit a lFragsInBundle s;
          lBundleHeader = \<lparr>t4_mFrameType = makeFrameTypeByte TYPE4 (fa_aFlags a),
            t4_mFrameCount = word_of_nat (lFragsInBundle + (if lRetransmit \<noteq> None then 1 else 0))\<rparr>
      in do {
        s \<leftarrow> bundle_write 0 (enc_type4 lBundleHeader) s;
        (lBundleOffset, s) \<leftarrow> (case lRetransmit of
            None \<Rightarrow> Some (2, s)
          | Some d \<Rightarrow> do { s \<leftarrow> bundle_write 2 d s; Some (2 + length d, s) });
        (lDataOffset, lBundleOffset, s) \<leftarrow>
          bundle_type1_loop a lFragsInBundle lFragIdx lDataOffset lBundleOffset s;
        s \<leftarrow> invokeBundleCallback lBundleOffset (fa_aStreamId a) s;
        Some (lFragsInBundle, lDataOffset, s)
      })"

lemma bundle_step_progress:
  assumes "bundle_step a bs i off s = Some (n, off', s')" "i < fa_aNumType1Fragments a" "bs \<noteq> 0"
  shows "0 < n"
proof -
  obtain k r t where k: "bundle_retransmit a (min (unat bs) (fa_aNumType1Fragments a - i)) s = (k, r, t)"
    by (cases "bundle_retransmit a (min (unat bs) (fa_aNumType1Fragments a - i)) s") auto
  have "0 < min (unat bs) (fa_aNumType1Fragments a - i)"
    using assms(2,3) by (simp add: unat_gt_0)
  with k have "0 < k"
    by (auto simp: bundle_retransmit_def split: if_splits option.splits prod.splits)
  moreover from assms(1) k have "n = k"
    by (auto simp: bundle_step_def Let_def bind_eq_Some_conv split: prod.splits)
  ultimately show ?thesis by simp
qed

text \<open>The \<open>while\<close> loop over the bundles; a mode is never 0, so each bundle makes progress.\<close>

function bundle_loop :: "FragArgs \<Rightarrow> SubFragmentMode \<Rightarrow> nat \<Rightarrow> nat \<Rightarrow> Sender \<Rightarrow> (nat \<times> Sender) option" where
  "bundle_loop a mode lFragIdx lDataOffset s =
     (if lFragIdx < fa_aNumType1Fragments a then do {
        (n, lDataOffset, s) \<leftarrow> bundle_step a (subFragmentValue mode) lFragIdx lDataOffset s;
        bundle_loop a mode (lFragIdx + n) lDataOffset s
      } else Some (lDataOffset, s))"
  by pat_completeness auto
termination
proof (relation "measure (\<lambda>(a, mode, i, off, s). fa_aNumType1Fragments a - i)", simp)
  fix a mode i off s x n y off' s'
  assume i: "i < fa_aNumType1Fragments a"
    and step: "bundle_step a (subFragmentValue mode) i off s = Some x" and x: "(n, y) = x" "(off', s') = y"
  have "subFragmentValue mode \<noteq> 0" by (cases mode) simp_all
  with step x i have "0 < n" using bundle_step_progress by metis
  with i show "((a, mode, i + n, off', s'), (a, mode, i, off, s)) \<in> measure (\<lambda>(a, mode, i, off, s). fa_aNumType1Fragments a - i)"
    by simp
qed

declare bundle_loop.simps [simp del]

definition sendFragmentedBundled :: "FragArgs \<Rightarrow> SubFragmentMode \<Rightarrow> Sender \<Rightarrow> (Result \<times> Sender) option" where
  "sendFragmentedBundled a mode s = do {
     (lDataOffset, s) \<leftarrow> bundle_loop a mode 0 0 s;
     (lDataOffset, s) \<leftarrow> send_type3 a lDataOffset s;
     s \<leftarrow> send_type2 a lDataOffset s;
     Some (OK, s)
   }"

section \<open>send\<close>

definition sendFragmented :: "bytes \<Rightarrow> u8 \<Rightarrow> u64 \<Rightarrow> u32 \<Rightarrow> u32 \<Rightarrow> u8 \<Rightarrow> u8 \<Rightarrow> nat \<Rightarrow> Sender \<Rightarrow> (Result \<times> Sender) option" where
  "sendFragmented apData aPayloadType aPts aDtsPtsDiff aPayloadCode aStreamId aFlags aType1PayloadSize s =
     (let p = fragmentPlan (unat (s_mMtu s)) aType1PayloadSize (length apData)
      in if fp_lTotalFragments p = 0 \<or> fp_lTotalFragments p > MAX_FRAGMENTS_PER_SUPERFRAME
         then Some (TOO_LARGE_FRAME, s)
         else
           let lSuperFrameNo = s_mSuperFrameNo s;
               s = s\<lparr>s_mSuperFrameNo := s_mSuperFrameNo s + 1\<rparr>;
               a = \<lparr>fa_apData = apData, fa_aPayloadType = aPayloadType, fa_aPts = aPts,
                 fa_aDtsPtsDiff = aDtsPtsDiff, fa_aPayloadCode = aPayloadCode, fa_aStreamId = aStreamId,
                 fa_aFlags = aFlags, fa_aType1PayloadSize = aType1PayloadSize,
                 fa_aSuperFrameNo = lSuperFrameNo,
                 fa_aOfFragmentNo = word_of_nat (fp_lTotalFragments p - 1),
                 fa_aNumType1Fragments = fp_lNumType1Fragments p, fa_aNeedsType3 = fp_lNeedsType3 p,
                 fa_aType3DataSize = fp_lType3DataSize p, fa_aType2DataSize = fp_lType2DataSize p\<rparr>
           in if s_mSubFragmentMode s = SINGLE then sendFragmentedSingle a s
              else sendFragmentedBundled a (s_mSubFragmentMode s) s)"

definition dtsPtsDiff :: "u64 \<Rightarrow> u64 \<Rightarrow> u32" where
  "dtsPtsDiff aPts aDts =
     (if aDts \<noteq> - 1 \<and> aPts \<noteq> - 1 \<and> aPts \<ge> aDts then
        let lDiff = aPts - aDts in if lDiff \<le> 0xFFFFFFFE then ucast lDiff else - 1
      else - 1)"

definition send :: "bytes \<Rightarrow> u8 \<Rightarrow> u64 \<Rightarrow> u64 \<Rightarrow> u32 \<Rightarrow> u8 \<Rightarrow> u8 \<Rightarrow> Sender \<Rightarrow> (Result \<times> Sender) option" where
  "send aData aPayloadType aPts aDts aPayloadCode aStreamId aFlags s =
     (if aData = [] then Some (INVALID_PARAMETER, s)
      else if length aData > MAX_SUPERFRAME_SIZE then Some (TOO_LARGE_FRAME, s)
      else
        let s = (if s_mRetentionMs s > 0 then evictOldRetention 0 s else s);
            lType1FrameSize = (if s_mSubFragmentMode s \<noteq> SINGLE
              then size_sub (unat (s_mMtu s)) 2 div unat (subFragmentValue (s_mSubFragmentMode s))
              else unat (s_mMtu s))
        in if lType1FrameSize \<le> 8 then Some (INVALID_PARAMETER, s)
           else
             let lType1PayloadSize = lType1FrameSize - 8;
                 lType2PayloadSize = size_sub (unat (s_mMtu s)) 27;
                 lDtsPtsDiff = dtsPtsDiff aPts aDts
             in if length aData \<le> lType2PayloadSize
                then sendType2Only aData aPayloadType aPts lDtsPtsDiff aPayloadCode aStreamId aFlags s
                else sendFragmented aData aPayloadType aPts lDtsPtsDiff aPayloadCode aStreamId aFlags
                  lType1PayloadSize s)"

end
