(* ===== verification/Efp_Fragmentation.thy ===== *)
theory Efp_Fragmentation
  imports Efp_Sender
begin

text \<open>
  The abstract fragmentation of a payload (\<open>frames_of\<close>) and the refinement by the single mode: the
  splitting arithmetic is correct (\<open>args_ok\<close>), every access to the payload and to the send buffer is
  in bounds, and the packets handed to the transport are the abstract frames in order.
\<close>

section \<open>The abstract fragmentation\<close>

definition piece :: "nat \<Rightarrow> nat \<Rightarrow> 'a list \<Rightarrow> 'a list" where
  "piece off n xs = take n (drop off xs)"

definition type3_size :: "FragArgs \<Rightarrow> nat" where
  "type3_size a = (if fa_aNeedsType3 a then fa_aType3DataSize a else 0)"

definition type2_offset :: "FragArgs \<Rightarrow> nat" where
  "type2_offset a = fa_aNumType1Fragments a * fa_aType1PayloadSize a + type3_size a"

definition type1_frame :: "FragArgs \<Rightarrow> nat \<Rightarrow> bytes" where
  "type1_frame a i = enc_type1 (type1_header a i) @
     piece (i * fa_aType1PayloadSize a) (fa_aType1PayloadSize a) (fa_apData a)"

definition type3_frame :: "FragArgs \<Rightarrow> bytes" where
  "type3_frame a = enc_type3 (type3_header a) @
     piece (fa_aNumType1Fragments a * fa_aType1PayloadSize a) (fa_aType3DataSize a) (fa_apData a)"

definition type2_frame :: "FragArgs \<Rightarrow> bytes" where
  "type2_frame a = enc_type2 (type2_header a) @ piece (type2_offset a) (fa_aType2DataSize a) (fa_apData a)"

definition frames_of :: "FragArgs \<Rightarrow> (u16 \<times> bytes) list" where
  "frames_of a = map (\<lambda>i. (word_of_nat i, type1_frame a i)) [0 ..< fa_aNumType1Fragments a] @
     (if fa_aNeedsType3 a then [(fa_aOfFragmentNo a - 1, type3_frame a)] else []) @
     [(fa_aOfFragmentNo a, type2_frame a)]"

text \<open>
  What the splitting arithmetic guarantees: the pieces add up to the payload, every packet fits the
  MTU, no piece is larger than a Type1 payload and the fragment numbers fit the receiver's bitset.
\<close>

definition args_ok :: "nat \<Rightarrow> FragArgs \<Rightarrow> bool" where
  "args_ok mtu a \<longleftrightarrow>
     type2_offset a + fa_aType2DataSize a = length (fa_apData a) \<and>
     0 < fa_aType1PayloadSize a \<and> 8 + fa_aType1PayloadSize a \<le> mtu \<and>
     0 < fa_aType2DataSize a \<and> 27 + fa_aType2DataSize a \<le> mtu \<and> fa_aType2DataSize a \<le> fa_aType1PayloadSize a \<and>
     (fa_aNeedsType3 a \<longrightarrow> 0 < fa_aType3DataSize a \<and> fa_aType3DataSize a \<le> fa_aType1PayloadSize a) \<and>
     unat (fa_aOfFragmentNo a) = fa_aNumType1Fragments a + (if fa_aNeedsType3 a then 1 else 0) \<and>
     0 < unat (fa_aOfFragmentNo a) \<and> unat (fa_aOfFragmentNo a) < 8192 \<and> mtu < 65536"

lemma fragmentPlan_cases:
  assumes mtu: "256 \<le> mtu" "mtu < 65536" and t1: "0 < t1" "8 + t1 \<le> mtu" and big: "mtu - 27 < D"
  defines "p \<equiv> fragmentPlan mtu t1 D"
  defines "n \<equiv> fp_lNumType1Fragments p" and "t3 \<equiv> if fp_lNeedsType3 p then fp_lType3DataSize p else 0"
    and "t2 \<equiv> fp_lType2DataSize p"
  shows "n * t1 + t3 + t2 = D" "0 < t2" "27 + t2 \<le> mtu" "t2 \<le> t1"
    "fp_lNeedsType3 p \<Longrightarrow> 0 < fp_lType3DataSize p \<and> fp_lType3DataSize p \<le> t1"
    "fp_lTotalFragments p = n + (if fp_lNeedsType3 p then 1 else 0) + 1" "2 \<le> fp_lTotalFragments p"
proof -
  let ?r = "D mod t1" and ?q = "D div t1" and ?m = "mtu - 27"
  have D: "?q * t1 + ?r = D" by simp
  have r: "?r < t1" using t1 by simp
  have sub: "size_sub mtu 27 = ?m" using mtu by simp
  have "0 < ?m" using mtu by simp
  have q0: "0 < ?q" if "?r \<le> ?m"
    using that big D by (metis add_cancel_left_left gr0I leD mult_0)
  consider (fit) "?r = 0" "t1 \<le> ?m" | (split) "?r = 0" "?m < t1" | (rest) "0 < ?r" "?r \<le> ?m" | (over) "?m < ?r"
    by linarith
  then have "n * t1 + t3 + t2 = D \<and> 0 < t2 \<and> 27 + t2 \<le> mtu \<and> t2 \<le> t1 \<and>
    (fp_lNeedsType3 p \<longrightarrow> 0 < fp_lType3DataSize p \<and> fp_lType3DataSize p \<le> t1) \<and>
    fp_lTotalFragments p = n + (if fp_lNeedsType3 p then 1 else 0) + 1 \<and> 2 \<le> fp_lTotalFragments p"
  proof cases
    case fit
    then have "0 < ?q" using q0 by simp
    moreover have "?q \<noteq> 1" using fit D big by auto
    moreover have "(?q - 1) * t1 + t1 = D" using \<open>0 < ?q\<close> D fit by (cases ?q) auto
    ultimately show ?thesis
      using fit t1 mtu by (simp add: n_def t3_def t2_def p_def fragmentPlan_def sub Let_def)
  next
    case split
    then have "0 < ?q" using q0 by simp
    moreover have "(?q - 1) * t1 + t1 = D" using \<open>0 < ?q\<close> D split by (cases ?q) auto
    ultimately show ?thesis
      using split t1 mtu by (simp add: n_def t3_def t2_def p_def fragmentPlan_def sub Let_def) arith
  next
    case rest
    then have "0 < ?q" using q0 by simp
    then show ?thesis
      using rest t1 mtu r D by (simp add: n_def t3_def t2_def p_def fragmentPlan_def sub Let_def)
  next
    case over
    have "size_add t1 ?m = t1 + ?m" using t1 mtu by simp
    moreover have "?r \<le> t1 + ?m" "?m \<le> ?r" "\<not> t1 < ?r - ?m" using r over by simp_all
    moreover have "size_sub ?r (?r - ?m) = ?m" using over by simp
    ultimately have "p = \<lparr>fp_lTotalFragments = ?q + 2, fp_lNumType1Fragments = ?q, fp_lNeedsType3 = True,
        fp_lType3DataSize = ?r - ?m, fp_lType2DataSize = ?m\<rparr>"
      using over by (simp add: p_def fragmentPlan_def sub Let_def)
    moreover have "?q * t1 + (?r - ?m) + ?m = D" using over D by linarith
    ultimately show ?thesis
      using over t1 mtu by (simp add: n_def t3_def t2_def) (use r over mtu in linarith)
  qed
  then show "n * t1 + t3 + t2 = D" "0 < t2" "27 + t2 \<le> mtu" "t2 \<le> t1"
    "fp_lNeedsType3 p \<Longrightarrow> 0 < fp_lType3DataSize p \<and> fp_lType3DataSize p \<le> t1"
    "fp_lTotalFragments p = n + (if fp_lNeedsType3 p then 1 else 0) + 1" "2 \<le> fp_lTotalFragments p"
    by auto
qed

text \<open>The arguments \<open>sendFragmented\<close> builds.\<close>

definition plan_args :: "bytes \<Rightarrow> u8 \<Rightarrow> u64 \<Rightarrow> u32 \<Rightarrow> u32 \<Rightarrow> u8 \<Rightarrow> u8 \<Rightarrow> nat \<Rightarrow> Sender \<Rightarrow> FragArgs" where
  "plan_args apData ptype pts diff code st flags t1 s =
     (let p = fragmentPlan (unat (s_mMtu s)) t1 (length apData)
      in \<lparr>fa_apData = apData, fa_aPayloadType = ptype, fa_aPts = pts, fa_aDtsPtsDiff = diff,
          fa_aPayloadCode = code, fa_aStreamId = st, fa_aFlags = flags, fa_aType1PayloadSize = t1,
          fa_aSuperFrameNo = s_mSuperFrameNo s, fa_aOfFragmentNo = word_of_nat (fp_lTotalFragments p - 1),
          fa_aNumType1Fragments = fp_lNumType1Fragments p, fa_aNeedsType3 = fp_lNeedsType3 p,
          fa_aType3DataSize = fp_lType3DataSize p, fa_aType2DataSize = fp_lType2DataSize p\<rparr>)"

lemma sendFragmented_plan:
  "sendFragmented d ptype pts diff code st flags t1 s =
     (let p = fragmentPlan (unat (s_mMtu s)) t1 (length d);
          a = plan_args d ptype pts diff code st flags t1 s;
          s' = s\<lparr>s_mSuperFrameNo := s_mSuperFrameNo s + 1\<rparr>
      in if fp_lTotalFragments p = 0 \<or> fp_lTotalFragments p > MAX_FRAGMENTS_PER_SUPERFRAME then Some (TOO_LARGE_FRAME, s)
         else if s_mSubFragmentMode s = SINGLE then sendFragmentedSingle a s'
         else sendFragmentedBundled a (s_mSubFragmentMode s) s')"
  by (simp add: sendFragmented_def plan_args_def Let_def)

lemma plan_args_ok:
  assumes "256 \<le> unat (s_mMtu s)" "0 < t1" "8 + t1 \<le> unat (s_mMtu s)" "unat (s_mMtu s) - 27 < length d"
    and "fp_lTotalFragments (fragmentPlan (unat (s_mMtu s)) t1 (length d)) \<le> MAX_FRAGMENTS_PER_SUPERFRAME"
  shows "args_ok (unat (s_mMtu s)) (plan_args d ptype pts diff code st flags t1 s)"
proof -
  have mtu: "unat (s_mMtu s) < 65536" by (rule unat_bounds)
  define p where "p = fragmentPlan (unat (s_mMtu s)) t1 (length d)"
  note c = fragmentPlan_cases [OF assms(1) mtu assms(2-4), folded p_def]
  define k where "k = fp_lNumType1Fragments p + (if fp_lNeedsType3 p then 1 else 0)"
  have k: "fp_lTotalFragments p - 1 = k" "0 < k" "k < 8192"
    using c(6,7) assms(5) [folded p_def] by (simp_all add: k_def MAX_FRAGMENTS_PER_SUPERFRAME_def split: if_splits)
  then have "unat (word_of_nat k :: u16) = k"
    by (simp add: unat_of_nat take_bit_eq_mod)
  with k c(1-5) mtu assms(2,3) show ?thesis
    by (simp add: args_ok_def plan_args_def Let_def type2_offset_def type3_size_def p_def [symmetric])
      (auto simp: k_def)
qed

section \<open>Packet buffers\<close>

lemma mem_write_prefix [mem_simps]:
  "length h \<le> length b \<Longrightarrow> mem_write b 0 h = Some (h @ drop (length h) b)"
  "n = length h \<Longrightarrow> n + length d \<le> length b \<Longrightarrow> mem_write (h @ drop n b) n d = Some (h @ d @ drop (n + length d) b)"
  by (simp_all add: mem_write_def add.commute)

lemma mem_load_prefix: "n = length x \<Longrightarrow> mem_load n (x @ y) 0 = Some x"
  by (simp add: mem_load_def)

lemma piece_load: "off + n \<le> length d \<Longrightarrow> mem_load n d off = Some (piece off n d)"
  by (simp add: mem_load_def piece_def)

lemma length_piece: "off + n \<le> length d \<Longrightarrow> length (piece off n d) = n"
  by (simp add: piece_def)

text \<open>
  One packet through the send buffer: the two copies, the retained copy and the callback.
\<close>

definition emit :: "u16 \<Rightarrow> u16 \<Rightarrow> u8 \<Rightarrow> bytes \<Rightarrow> bytes \<Rightarrow> Sender \<Rightarrow> Sender" where
  "emit sf fn st b p s = count_fragment (mCallback p st (retainFragment sf fn st p (s\<lparr>s_mSendBuffer := b\<rparr>)))"

lemma retainFragment_send_buffer:
  "s_mSendBuffer (retainFragment sf fn st d s) = s_mSendBuffer s" "s_mMtu (retainFragment sf fn st d s) = s_mMtu s"
  "s_out (retainFragment sf fn st d s) = s_out s" "s_mBundleBuffer (retainFragment sf fn st d s) = s_mBundleBuffer s"
  "s_mRetransmitQueue (retainFragment sf fn st d s) = s_mRetransmitQueue s"
  "s_mSuperFrameNo (retainFragment sf fn st d s) = s_mSuperFrameNo s"
  "s_mSubFragmentMode (retainFragment sf fn st d s) = s_mSubFragmentMode s"
  "s_mRetentionMs (retainFragment sf fn st d s) = s_mRetentionMs s"
  "s_mRetentionMaxBytes (retainFragment sf fn st d s) = s_mRetentionMaxBytes s"
  using retainFragment_frame [of s sf fn st d] by (simp_all add: same_sender_def)

lemma emit_packet:
  assumes "length h = n" "n + length d \<le> length (s_mSendBuffer s)" "k = n + length d"
  shows "\<exists>b. length b = length (s_mSendBuffer s) \<and>
    do { s \<leftarrow> send_write 0 h s; s \<leftarrow> send_write n d s; s \<leftarrow> retain_from_send sf fn st k s; invokeCallback k st s } =
      Some (emit sf fn st b (h @ d) s)"
proof (intro exI conjI)
  let ?b = "h @ d @ drop (n + length d) (s_mSendBuffer s)"
  show "length ?b = length (s_mSendBuffer s)" using assms by simp
  have load: "mem_load k ?b 0 = Some (h @ d)"
    using mem_load_prefix [of k "h @ d"] assms by simp
  show "do { s \<leftarrow> send_write 0 h s; s \<leftarrow> send_write n d s; s \<leftarrow> retain_from_send sf fn st k s; invokeCallback k st s } =
      Some (emit sf fn st ?b (h @ d) s)"
    using assms by (simp add: send_write_def mem_simps retain_from_send_def load invokeCallback_def emit_def
        retainFragment_send_buffer add.commute [of n])
qed

text \<open>A sequence of packets through the send buffer, whatever the buffer's bytes are in between.\<close>

fun emits :: "u16 \<Rightarrow> u8 \<Rightarrow> (u16 \<times> bytes) list \<Rightarrow> Sender \<Rightarrow> Sender \<Rightarrow> bool" where
  "emits sf st [] s t \<longleftrightarrow> t = s"
| "emits sf st ((fn, p) # fs) s t \<longleftrightarrow>
     (\<exists>b. length b = length (s_mSendBuffer s) \<and> emits sf st fs (emit sf fn st b p s) t)"

lemma emits_one: "length b = length (s_mSendBuffer s) \<Longrightarrow> emits sf st [(fn, p)] s (emit sf fn st b p s)"
  by (simp only: emits.simps) blast

lemma emits_append: "emits sf st (xs @ ys) s t \<longleftrightarrow> (\<exists>u. emits sf st xs s u \<and> emits sf st ys u t)"
  by (induction sf st xs s t rule: emits.induct) auto

lemma emits_keeps:
  assumes "emits sf st fs s t" "P s"
    and "\<And>s b fn p. P s \<Longrightarrow> length b = length (s_mSendBuffer s) \<Longrightarrow> (fn, p) \<in> set fs \<Longrightarrow> P (emit sf fn st b p s)"
  shows "P t"
  using assms
proof (induction fs arbitrary: s)
  case (Cons x fs)
  obtain fn p where x: "x = (fn, p)" by (cases x)
  with Cons.prems(1) obtain b where b: "length b = length (s_mSendBuffer s)" "emits sf st fs (emit sf fn st b p s) t"
    by auto
  moreover have "P (emit sf fn st b p s)"
    using Cons.prems(2) b(1) x by (intro Cons.prems(3)) simp_all
  ultimately show ?case using Cons.prems(3) by (intro Cons.IH) simp_all
qed simp

lemma emit_frame:
  "s_mMtu (emit sf fn st b p s) = s_mMtu s" "s_mSendBuffer (emit sf fn st b p s) = b"
  "s_out (emit sf fn st b p s) = s_out s @ [(p, st)]" "s_mBundleBuffer (emit sf fn st b p s) = s_mBundleBuffer s"
  "s_mSuperFrameNo (emit sf fn st b p s) = s_mSuperFrameNo s"
  "s_mSubFragmentMode (emit sf fn st b p s) = s_mSubFragmentMode s"
  "s_mRetransmitQueue (emit sf fn st b p s) = s_mRetransmitQueue s"
  by (simp_all add: emit_def count_fragment_def mCallback_def retainFragment_send_buffer)

lemma emits_frame:
  "emits sf st fs s t \<Longrightarrow> s_out t = s_out s @ map (\<lambda>(fn, p). (p, st)) fs \<and> s_mMtu t = s_mMtu s \<and>
     length (s_mSendBuffer t) = length (s_mSendBuffer s) \<and> s_mSubFragmentMode t = s_mSubFragmentMode s \<and>
     s_mBundleBuffer t = s_mBundleBuffer s \<and> s_mSuperFrameNo t = s_mSuperFrameNo s \<and>
     s_mRetransmitQueue t = s_mRetransmitQueue s"
  by (induction sf st fs s t rule: emits.induct) (auto simp: emit_frame)

section \<open>The single mode sends the abstract frames\<close>

lemma single_type1_loop_emits:
  assumes "args_ok (unat (s_mMtu s)) a" "8 + fa_aType1PayloadSize a = unat (s_mMtu s)"
    and "length (s_mSendBuffer s) = unat (s_mMtu s)" "i + n = fa_aNumType1Fragments a"
  shows "\<exists>t. single_type1_loop a n i (i * fa_aType1PayloadSize a) s = Some (fa_aNumType1Fragments a * fa_aType1PayloadSize a, t) \<and>
    emits (fa_aSuperFrameNo a) (fa_aStreamId a) (map (\<lambda>i. (word_of_nat i, type1_frame a i)) [i ..< i + n]) s t"
  using assms
proof (induction n arbitrary: i s)
  case 0
  then show ?case by simp
next
  case (Suc n)
  let ?t1 = "fa_aType1PayloadSize a" and ?h = "enc_type1 (type1_header a i)"
  let ?d = "piece (i * ?t1) ?t1 (fa_apData a)"
  have "(i + 1) * ?t1 \<le> fa_aNumType1Fragments a * ?t1"
    using Suc.prems(4) by (intro mult_le_mono1) simp
  then have le: "i * ?t1 + ?t1 \<le> length (fa_apData a)"
    using Suc.prems(1) by (simp add: args_ok_def type2_offset_def)
  then have len: "length ?d = ?t1" by (rule length_piece)
  have mtu: "8 + length ?d \<le> length (s_mSendBuffer s)" "unat (s_mMtu s) = 8 + length ?d"
    using Suc.prems(2,3) len by simp_all
  let ?b = "?h @ ?d @ drop (8 + length ?d) (s_mSendBuffer s)" and ?p = "type1_frame a i"
  let ?u = "emit (fa_aSuperFrameNo a) (word_of_nat i) (fa_aStreamId a) ?b ?p s"
  have load: "mem_load (unat (s_mMtu s)) ?b 0 = Some ?p"
    using mem_load_prefix [of "unat (s_mMtu s)" ?p] mtu by (simp add: type1_frame_def type1.length_enc)
  have step: "single_type1_loop a (Suc n) i (i * ?t1) s = single_type1_loop a n (Suc i) (Suc i * ?t1) ?u"
    using mtu load by (simp add: send_write_def mem_simps type1.length_enc piece_load [OF le]
        retain_from_send_def invokeCallback_def retainFragment_send_buffer emit_def add.commute)
  have "length ?b = length (s_mSendBuffer s)"
    using mtu by (simp add: type1.length_enc)
  moreover from this obtain t where t: "single_type1_loop a n (Suc i) (Suc i * ?t1) ?u =
        Some (fa_aNumType1Fragments a * ?t1, t)"
      "emits (fa_aSuperFrameNo a) (fa_aStreamId a) (map (\<lambda>i. (word_of_nat i, type1_frame a i)) [Suc i ..< Suc i + n]) ?u t"
    using Suc.IH [of ?u "Suc i"] Suc.prems by (auto simp: emit_frame)
  moreover have "[i ..< i + Suc n] = i # [Suc i ..< Suc i + n]"
    by (simp add: upt_conv_Cons)
  ultimately have "emits (fa_aSuperFrameNo a) (fa_aStreamId a) (map (\<lambda>i. (word_of_nat i, type1_frame a i)) [i ..< i + Suc n]) s t"
    by (simp only: list.map emits.simps) blast
  with t(1) show ?case unfolding step by blast
qed

lemma send_type3_emits:
  assumes "args_ok (unat (s_mMtu s)) a" "length (s_mSendBuffer s) = unat (s_mMtu s)"
  shows "\<exists>t. send_type3 a (fa_aNumType1Fragments a * fa_aType1PayloadSize a) s = Some (type2_offset a, t) \<and>
    emits (fa_aSuperFrameNo a) (fa_aStreamId a) (if fa_aNeedsType3 a then [(fa_aOfFragmentNo a - 1, type3_frame a)] else []) s t"
proof (cases "fa_aNeedsType3 a")
  case False
  then show ?thesis by (simp add: send_type3_def type2_offset_def type3_size_def)
next
  case True
  let ?off = "fa_aNumType1Fragments a * fa_aType1PayloadSize a" and ?h = "enc_type3 (type3_header a)"
  let ?d = "piece ?off (fa_aType3DataSize a) (fa_apData a)"
  have le: "?off + fa_aType3DataSize a \<le> length (fa_apData a)"
    using assms(1) True by (simp add: args_ok_def type2_offset_def type3_size_def)
  then have len: "length ?d = fa_aType3DataSize a" by (rule length_piece)
  have fit: "8 + length ?d \<le> length (s_mSendBuffer s)" using assms True len by (simp add: args_ok_def)
  let ?b = "?h @ ?d @ drop (8 + length ?d) (s_mSendBuffer s)"
  have load: "mem_load (8 + fa_aType3DataSize a) ?b 0 = Some (type3_frame a)"
    using mem_load_prefix [of "8 + fa_aType3DataSize a" "type3_frame a"] len by (simp add: type3_frame_def type3.length_enc)
  have "send_type3 a ?off s = Some (type2_offset a,
      emit (fa_aSuperFrameNo a) (fa_aOfFragmentNo a - 1) (fa_aStreamId a) ?b (type3_frame a) s)"
    using fit len load True by (simp add: send_type3_def send_write_def mem_simps type3.length_enc piece_load [OF le]
        retain_from_send_def invokeCallback_def retainFragment_send_buffer emit_def type2_offset_def type3_size_def add.commute)
  moreover have "length ?b = length (s_mSendBuffer s)" using fit by (simp add: type3.length_enc)
  ultimately show ?thesis using True emits_one by (simp only: if_True) blast
qed

lemma send_type2_emits:
  assumes "args_ok (unat (s_mMtu s)) a" "length (s_mSendBuffer s) = unat (s_mMtu s)"
  shows "\<exists>t. send_type2 a (type2_offset a) s = Some t \<and>
    emits (fa_aSuperFrameNo a) (fa_aStreamId a) [(fa_aOfFragmentNo a, type2_frame a)] s t"
proof -
  let ?off = "type2_offset a" and ?h = "enc_type2 (type2_header a)"
  let ?d = "piece ?off (fa_aType2DataSize a) (fa_apData a)"
  have le: "?off + fa_aType2DataSize a \<le> length (fa_apData a)"
    using assms(1) by (simp add: args_ok_def)
  then have len: "length ?d = fa_aType2DataSize a" by (rule length_piece)
  have fit: "27 + length ?d \<le> length (s_mSendBuffer s)" using assms len by (simp add: args_ok_def)
  let ?b = "?h @ ?d @ drop (27 + length ?d) (s_mSendBuffer s)"
  have load: "mem_load (27 + fa_aType2DataSize a) ?b 0 = Some (type2_frame a)"
    using mem_load_prefix [of "27 + fa_aType2DataSize a" "type2_frame a"] len by (simp add: type2_frame_def type2.length_enc)
  have "send_type2 a ?off s = Some (emit (fa_aSuperFrameNo a) (fa_aOfFragmentNo a) (fa_aStreamId a) ?b (type2_frame a) s)"
    using fit len load by (simp add: send_type2_def send_write_def mem_simps type2.length_enc piece_load [OF le]
        retain_from_send_def invokeCallback_def retainFragment_send_buffer emit_def add.commute)
  moreover have "length ?b = length (s_mSendBuffer s)" using fit by (simp add: type2.length_enc)
  ultimately show ?thesis using emits_one by blast
qed

lemma sendFragmentedSingle_emits:
  assumes "args_ok (unat (s_mMtu s)) a" "8 + fa_aType1PayloadSize a = unat (s_mMtu s)"
    and "length (s_mSendBuffer s) = unat (s_mMtu s)"
  shows "\<exists>t. sendFragmentedSingle a s = Some (OK, t) \<and> emits (fa_aSuperFrameNo a) (fa_aStreamId a) (frames_of a) s t"
proof -
  let ?e = "emits (fa_aSuperFrameNo a) (fa_aStreamId a)"
  obtain u where u: "single_type1_loop a (fa_aNumType1Fragments a) 0 0 s = Some (fa_aNumType1Fragments a * fa_aType1PayloadSize a, u)"
      "?e (map (\<lambda>i. (word_of_nat i, type1_frame a i)) [0 ..< fa_aNumType1Fragments a]) s u"
    using single_type1_loop_emits [OF assms, of 0 "fa_aNumType1Fragments a"] by auto
  have u': "s_mMtu u = s_mMtu s" "length (s_mSendBuffer u) = unat (s_mMtu u)"
    using emits_frame [OF u(2)] assms(3) by simp_all
  obtain v where v: "send_type3 a (fa_aNumType1Fragments a * fa_aType1PayloadSize a) u = Some (type2_offset a, v)"
      "?e (if fa_aNeedsType3 a then [(fa_aOfFragmentNo a - 1, type3_frame a)] else []) u v"
    using send_type3_emits [of u a] assms(1) u' by auto
  have v': "s_mMtu v = s_mMtu s" "length (s_mSendBuffer v) = unat (s_mMtu v)"
    using emits_frame [OF v(2)] u' by simp_all
  obtain t where t: "send_type2 a (type2_offset a) v = Some t" "?e [(fa_aOfFragmentNo a, type2_frame a)] v t"
    using send_type2_emits [of v a] assms(1) v' by auto
  have "?e (frames_of a) s t"
    using u(2) v(2) t(2) unfolding frames_of_def emits_append by blast
  then show ?thesis using u(1) v(1) t(1) by (simp add: sendFragmentedSingle_def)
qed

end
