(* ===== verification/Efp_SenderInv.thy ===== *)
theory Efp_SenderInv
  imports Efp_Fragmentation
begin

text \<open>
  The invariant of a sender: every retained copy is a packet of at most one MTU that carries the
  stream, superframe and fragment number it is filed under, and every packet handed to the transport
  fits the MTU. Eviction, retention and the retransmit queue keep it.
\<close>

section \<open>The identity of a packet\<close>

text \<open>Stream, superframe and fragment number, as the receiver reads them from a fragment.\<close>

definition frame_ids :: "bytes \<Rightarrow> (u8 \<times> u16 \<times> u16) option" where
  "frame_ids d =
     (if d = [] then None
      else case getFrameType (hd d) of
        TYPE1 \<Rightarrow> (let h = dec_type1 d in
          if 8 \<le> length d then Some (t1_mStreamId h, t1_mSuperFrameNo h, t1_mFragmentNo h) else None)
      | TYPE2 \<Rightarrow> (let h = dec_type2 d in
          if 27 \<le> length d then Some (t2_mStreamId h, t2_mSuperFrameNo h, t2_mOfFragmentNo h) else None)
      | TYPE3 \<Rightarrow> (let h = dec_type3 d in
          if 8 \<le> length d then Some (t3_mStreamId h, t3_mSuperFrameNo h, t3_mOfFragmentNo h - 1) else None)
      | _ \<Rightarrow> None)"

definition frame_ok :: "nat \<Rightarrow> u16 \<Rightarrow> u16 \<Rightarrow> u8 \<Rightarrow> bytes \<Rightarrow> bool" where
  "frame_ok mtu sf fn st d \<longleftrightarrow> length d \<le> mtu \<and> frame_ids d = Some (st, sf, fn)"

lemma hd_enc:
  "hd (enc_type1 h1 @ xs) = t1_mFrameType h1" "hd (enc_type2 h2 @ xs) = t2_mFrameType h2"
  "hd (enc_type3 h3 @ xs) = t3_mFrameType h3"
  by (simp_all add: enc_defs)

lemma enc_not_Nil: "enc_type1 h1 \<noteq> []" "enc_type2 h2 \<noteq> []" "enc_type3 h3 \<noteq> []"
  by (simp_all add: enc_defs)

lemma frame_ids_enc:
  "frame_ids (enc_type1 h1 @ xs) = (if getFrameType (t1_mFrameType h1) = TYPE1
     then Some (t1_mStreamId h1, t1_mSuperFrameNo h1, t1_mFragmentNo h1) else frame_ids (enc_type1 h1 @ xs))"
  "frame_ids (enc_type2 h2 @ xs) = (if getFrameType (t2_mFrameType h2) = TYPE2
     then Some (t2_mStreamId h2, t2_mSuperFrameNo h2, t2_mOfFragmentNo h2) else frame_ids (enc_type2 h2 @ xs))"
  "frame_ids (enc_type3 h3 @ xs) = (if getFrameType (t3_mFrameType h3) = TYPE3
     then Some (t3_mStreamId h3, t3_mSuperFrameNo h3, t3_mOfFragmentNo h3 - 1) else frame_ids (enc_type3 h3 @ xs))"
  by (simp_all add: frame_ids_def hd_enc enc_not_Nil type1.dec_enc type1.length_enc type2.dec_enc
      type2.length_enc type3.dec_enc type3.length_enc)

lemma frame_okI:
  "getFrameType (t1_mFrameType h1) = TYPE1 \<Longrightarrow> 8 + length xs \<le> mtu \<Longrightarrow>
     frame_ok mtu (t1_mSuperFrameNo h1) (t1_mFragmentNo h1) (t1_mStreamId h1) (enc_type1 h1 @ xs)"
  "getFrameType (t2_mFrameType h2) = TYPE2 \<Longrightarrow> 27 + length xs \<le> mtu \<Longrightarrow>
     frame_ok mtu (t2_mSuperFrameNo h2) (t2_mOfFragmentNo h2) (t2_mStreamId h2) (enc_type2 h2 @ xs)"
  "getFrameType (t3_mFrameType h3) = TYPE3 \<Longrightarrow> 8 + length xs \<le> mtu \<Longrightarrow>
     frame_ok mtu (t3_mSuperFrameNo h3) (t3_mOfFragmentNo h3 - 1) (t3_mStreamId h3) (enc_type3 h3 @ xs)"
  by (subst (1) frame_ok_def, subst frame_ids_enc, simp add: type1.length_enc type2.length_enc type3.length_enc)+

lemma piece_le: "length (piece off n xs) \<le> n"
  by (simp add: piece_def)

lemma frames_of_ok:
  assumes "args_ok mtu a" "(fn, p) \<in> set (frames_of a)"
  shows "frame_ok mtu (fa_aSuperFrameNo a) fn (fa_aStreamId a) p"
proof -
  have le: "8 + fa_aType1PayloadSize a \<le> mtu" "27 + fa_aType2DataSize a \<le> mtu"
    "fa_aNeedsType3 a \<Longrightarrow> 8 + fa_aType3DataSize a \<le> mtu"
    using assms(1) by (simp_all add: args_ok_def)
  have t1: "frame_ok mtu (fa_aSuperFrameNo a) (word_of_nat i) (fa_aStreamId a) (type1_frame a i)" for i
  proof -
    have "8 + length (piece (i * fa_aType1PayloadSize a) (fa_aType1PayloadSize a) (fa_apData a)) \<le> mtu"
      using piece_le le(1) by (meson add_left_mono order.trans)
    from frame_okI(1) [OF _ this, of "type1_header a i"] show ?thesis by (simp add: type1_frame_def type1_header_def)
  qed
  have "27 + length (piece (type2_offset a) (fa_aType2DataSize a) (fa_apData a)) \<le> mtu"
    using piece_le le(2) by (meson add_left_mono order.trans)
  from frame_okI(2) [OF _ this, of "type2_header a"]
  have t2: "frame_ok mtu (fa_aSuperFrameNo a) (fa_aOfFragmentNo a) (fa_aStreamId a) (type2_frame a)"
    by (simp add: type2_frame_def type2_header_def)
  have t3: "frame_ok mtu (fa_aSuperFrameNo a) (fa_aOfFragmentNo a - 1) (fa_aStreamId a) (type3_frame a)" if "fa_aNeedsType3 a"
  proof -
    have "8 + length (piece (fa_aNumType1Fragments a * fa_aType1PayloadSize a) (fa_aType3DataSize a) (fa_apData a)) \<le> mtu"
      using piece_le le(3) [OF that] by (meson add_left_mono order.trans)
    from frame_okI(3) [OF _ this, of "type3_header a"] show ?thesis by (simp add: type3_frame_def type3_header_def)
  qed
  from t1 t2 t3 assms(2) show ?thesis by (auto simp: frames_of_def split: if_splits)
qed

section \<open>The invariant of a sender\<close>

definition sender_inv :: "Sender \<Rightarrow> bool" where
  "sender_inv s \<longleftrightarrow> store_inv s \<and> 256 \<le> unat (s_mMtu s) \<and> length (s_mSendBuffer s) = unat (s_mMtu s) \<and>
     (s_mSubFragmentMode s \<noteq> SINGLE \<longrightarrow> length (s_mBundleBuffer s) = unat (s_mMtu s)) \<and>
     (\<forall>k f. s_mRetentionBuffer s k = Some f \<longrightarrow>
        frame_ok (unat (s_mMtu s)) (rf_mSuperFrameNo f) (rf_mFragmentNo f) (rf_mStreamId f) (rf_mData f)) \<and>
     (\<forall>(p, st) \<in> set (s_out s). length p \<le> unat (s_mMtu s))"

lemma sender_inv_new: "sender_inv (newSender mtu mode ms mx clk)"
  by (simp add: sender_inv_def store_inv_new) (simp add: newSender_def Let_def word_less_nat_alt)

lemma sender_inv_buffers:
  "sender_inv s \<Longrightarrow> length b = length (s_mSendBuffer s) \<Longrightarrow> sender_inv (s\<lparr>s_mSendBuffer := b\<rparr>)"
  "sender_inv s \<Longrightarrow> length b = length (s_mBundleBuffer s) \<Longrightarrow> sender_inv (s\<lparr>s_mBundleBuffer := b\<rparr>)"
  "sender_inv s \<Longrightarrow> sender_inv (s\<lparr>s_mStatistics := x\<rparr>)" "sender_inv s \<Longrightarrow> sender_inv (s\<lparr>s_mSuperFrameNo := n\<rparr>)"
  by (simp_all add: sender_inv_def store_inv_def)

lemma sender_inv_callback: "sender_inv s \<Longrightarrow> length d \<le> unat (s_mMtu s) \<Longrightarrow> sender_inv (mCallback d st s)"
  by (auto simp: sender_inv_def mCallback_def store_inv_def)

text \<open>Operations of the store: the retained copies are old ones, or the one just retained.\<close>

lemma sender_inv_shrink:
  assumes "sender_inv s" "same_sender s t" "store_inv t" "s_mRetentionBuffer t \<subseteq>\<^sub>m s_mRetentionBuffer s"
  shows "sender_inv t"
proof -
  have "s_mRetentionBuffer t k = Some f \<Longrightarrow> s_mRetentionBuffer s k = Some f" for k f
    using assms(4) by (auto simp: map_le_def dom_def)
  then have "\<forall>k f. s_mRetentionBuffer t k = Some f \<longrightarrow>
      frame_ok (unat (s_mMtu s)) (rf_mSuperFrameNo f) (rf_mFragmentNo f) (rf_mStreamId f) (rf_mData f)"
    using assms(1) unfolding sender_inv_def by blast
  moreover have "s_mMtu t = s_mMtu s" "s_mSendBuffer t = s_mSendBuffer s"
    "s_mBundleBuffer t = s_mBundleBuffer s" "s_mSubFragmentMode t = s_mSubFragmentMode s" "s_out t = s_out s"
    using assms(2) by (simp_all add: same_sender_def)
  ultimately show ?thesis using assms(1,3) by (simp add: sender_inv_def)
qed

lemma sender_inv_evict:
  assumes "sender_inv s"
  shows "sender_inv (evictOldRetention r s)"
proof (rule sender_inv_shrink [OF assms])
  show "store_inv (evictOldRetention r s)"
    using assms by (intro evictOldRetention_store_inv) (simp add: sender_inv_def)
qed (rule evictOldRetention_frame)+

lemma sender_inv_retain:
  assumes "sender_inv s" "frame_ok (unat (s_mMtu s)) sf fn st d"
  shows "sender_inv (retainFragment sf fn st d s)"
proof (cases "s_mRetentionMs s = 0 \<or> s_mRetentionMaxBytes s < length d")
  case True
  with assms show ?thesis by (simp add: retainFragment_off)
next
  case False
  then have on: "s_mRetentionMs s \<noteq> 0" "length d \<le> s_mRetentionMaxBytes s" by auto
  let ?u = "retainFragment sf fn st d s" and ?t = "evictOldRetention (retain_required sf fn d s) s"
  have t: "sender_inv ?t" using assms(1) by (rule sender_inv_evict)
  have mtu: "s_mMtu ?t = s_mMtu s" using evictOldRetention_frame(1) [of s] by (simp add: same_sender_def)
  have "store_inv ?u" using assms(1) by (intro retainFragment_store_inv) (simp add: sender_inv_def)
  moreover have "frame_ok (unat (s_mMtu s)) (rf_mSuperFrameNo f) (rf_mFragmentNo f) (rf_mStreamId f) (rf_mData f)"
    if f: "s_mRetentionBuffer ?u k = Some f" for k f
  proof (cases "k = makeRetentionKey sf fn")
    case True
    with f assms(2) show ?thesis by (auto simp: retainFragment_on(3) [OF on])
  next
    case False
    with f have "s_mRetentionBuffer ?t k = Some f" by (simp add: retainFragment_on(3) [OF on])
    with t mtu show ?thesis by (simp add: sender_inv_def)
  qed
  ultimately show ?thesis
    using assms(1) by (simp add: sender_inv_def retainFragment_send_buffer)
qed

lemma sender_inv_same_store: "sender_inv s \<Longrightarrow> same_store s t \<Longrightarrow> sender_inv t"
  using same_store_inv [of s t] by (simp add: sender_inv_def same_store_def)

lemma sender_inv_pop: "sender_inv s \<Longrightarrow> sender_inv (pop_request s)"
  by (rule sender_inv_same_store) (simp_all add: same_store_def pop_request_def)

lemma sender_inv_bump:
  assumes "sender_inv s" "s_mRetentionBuffer s (rq_mKey q) = Some f"
  shows "sender_inv (retransmit_bump q f s)"
  using assms retransmit_bump_inv(2) [OF assms(2)]
  by (auto simp: sender_inv_def retransmit_bump_def store_inv_def)

lemma getRetransmitFragment_cases:
  obtains "getRetransmitFragment s = (None, s)" "s_mRetransmitQueue s = []"
  | q rest where "s_mRetransmitQueue s = q # rest" "\<not> live_request s q" "getRetransmitFragment s = (None, pop_request s)"
  | q rest f where "s_mRetransmitQueue s = q # rest" "s_mRetentionBuffer s (rq_mKey q) = Some f"
      "getRetransmitFragment s = (Some (rf_mData f, rf_mStreamId f), retransmit_bump q f (pop_request s))"
proof (cases "s_mRetransmitQueue s")
  case Nil
  with that(1) show ?thesis by (simp add: getRetransmitFragment_step)
next
  case (Cons q rest)
  show ?thesis
  proof (cases "live_request s q")
    case False
    with Cons that(2) show ?thesis by (simp add: getRetransmitFragment_step)
  next
    case True
    then obtain f where "s_mRetentionBuffer s (rq_mKey q) = Some f" using live_request_Some by blast
    with Cons True that(3) show ?thesis by (simp add: getRetransmitFragment_step request_copy_def)
  qed
qed

lemma sender_inv_getRetransmit:
  assumes "sender_inv s" "getRetransmitFragment s = (r, t)"
  shows "sender_inv t" "r = Some (d, st) \<Longrightarrow> length d \<le> unat (s_mMtu s)" "s_mMtu t = s_mMtu s"
    "s_mSubFragmentMode t = s_mSubFragmentMode s" "s_mBundleBuffer t = s_mBundleBuffer s" "s_out t = s_out s"
proof -
  let ?Q = "\<lambda>r t. sender_inv t \<and> (r = Some (d, st) \<longrightarrow> length d \<le> unat (s_mMtu s)) \<and> s_mMtu t = s_mMtu s \<and>
    s_mSubFragmentMode t = s_mSubFragmentMode s \<and> s_mBundleBuffer t = s_mBundleBuffer s \<and> s_out t = s_out s"
  have pop: "sender_inv (pop_request s)" using assms(1) by (rule sender_inv_pop)
  have "?Q (fst (getRetransmitFragment s)) (snd (getRetransmitFragment s))"
  proof (cases rule: getRetransmitFragment_cases [of s])
    case 1
    then show ?thesis using assms(1) by simp
  next
    case (2 q rest)
    then show ?thesis using pop by (simp add: pop_request_def)
  next
    case (3 q rest f)
    have "sender_inv (retransmit_bump q f (pop_request s))"
      using pop 3(2) by (intro sender_inv_bump) (simp_all add: pop_request_def)
    moreover have "length (rf_mData f) \<le> unat (s_mMtu s)"
      using assms(1) 3(2) by (simp add: sender_inv_def frame_ok_def)
    ultimately show ?thesis using 3(3) by (auto simp: retransmit_bump_def pop_request_def)
  qed
  with assms(2) have "?Q r t" by simp
  then show "sender_inv t" "r = Some (d, st) \<Longrightarrow> length d \<le> unat (s_mMtu s)" "s_mMtu t = s_mMtu s"
    "s_mSubFragmentMode t = s_mSubFragmentMode s" "s_mBundleBuffer t = s_mBundleBuffer s" "s_out t = s_out s" by simp_all
qed

end
