(* ===== verification/Efp_Bundle.thy ===== *)
theory Efp_Bundle
  imports Efp_SenderInv
begin

text \<open>
  The bundled mode. Every bundle is a Type4 header, at most one retransmitted packet and a run of the
  abstract Type1 frames; the writes stay inside \<open>mBundleBuffer\<close> and a bundle fits the MTU. The locale
  \<open>sender_property\<close> is the contract of a property that the elementary operations of a sender keep, up
  to a budget of retained packets; its lemmas lift such a property to whole bundles.
\<close>

section \<open>Packets through the bundle buffer\<close>

definition store_frame :: "u16 \<Rightarrow> u16 \<Rightarrow> u8 \<Rightarrow> bytes \<Rightarrow> bytes \<Rightarrow> Sender \<Rightarrow> Sender" where
  "store_frame sf fn st b p s = count_fragment (retainFragment sf fn st p (s\<lparr>s_mBundleBuffer := b\<rparr>))"

fun stores :: "u16 \<Rightarrow> u8 \<Rightarrow> (u16 \<times> bytes) list \<Rightarrow> Sender \<Rightarrow> Sender \<Rightarrow> bool" where
  "stores sf st [] s t \<longleftrightarrow> t = s"
| "stores sf st ((fn, p) # fs) s t \<longleftrightarrow>
     (\<exists>b. length b = length (s_mBundleBuffer s) \<and> stores sf st fs (store_frame sf fn st b p s) t)"

lemma store_frame_frame:
  "s_mMtu (store_frame sf fn st b p s) = s_mMtu s" "s_mSendBuffer (store_frame sf fn st b p s) = s_mSendBuffer s"
  "s_out (store_frame sf fn st b p s) = s_out s" "s_mBundleBuffer (store_frame sf fn st b p s) = b"
  "s_mSuperFrameNo (store_frame sf fn st b p s) = s_mSuperFrameNo s"
  "s_mSubFragmentMode (store_frame sf fn st b p s) = s_mSubFragmentMode s"
  "s_mRetransmitQueue (store_frame sf fn st b p s) = s_mRetransmitQueue s"
  by (simp_all add: store_frame_def count_fragment_def retainFragment_send_buffer)

lemma stores_frame:
  "stores sf st fs s t \<Longrightarrow> s_out t = s_out s \<and> s_mMtu t = s_mMtu s \<and> s_mSendBuffer t = s_mSendBuffer s \<and>
     s_mSubFragmentMode t = s_mSubFragmentMode s \<and> s_mSuperFrameNo t = s_mSuperFrameNo s \<and>
     s_mRetransmitQueue t = s_mRetransmitQueue s"
  by (induction sf st fs s t rule: stores.induct) (auto simp: store_frame_frame)

definition type1_frames :: "FragArgs \<Rightarrow> nat \<Rightarrow> nat \<Rightarrow> (u16 \<times> bytes) list" where
  "type1_frames a i n = map (\<lambda>i. (word_of_nat i, type1_frame a i)) [i ..< i + n]"

lemma type1_frames_Suc: "type1_frames a i (Suc n) = (word_of_nat i, type1_frame a i) # type1_frames a (Suc i) n"
proof -
  have "[i ..< i + Suc n] = i # [Suc i ..< Suc i + n]" by (simp add: upt_conv_Cons)
  then show ?thesis by (simp add: type1_frames_def)
qed

lemma type1_frames_append: "type1_frames a i n @ type1_frames a (i + n) m = type1_frames a i (n + m)"
proof -
  have "[i ..< i + n] @ [i + n ..< i + n + m] = [i ..< i + n + m]"
    using upt_add_eq_append [of i "i + n" m] by simp
  then show ?thesis unfolding type1_frames_def map_append [symmetric] add.assoc [symmetric] by (rule arg_cong)
qed

lemma frames_of_split:
  "frames_of a = type1_frames a 0 (fa_aNumType1Fragments a) @
     (if fa_aNeedsType3 a then [(fa_aOfFragmentNo a - 1, type3_frame a)] else []) @ [(fa_aOfFragmentNo a, type2_frame a)]"
  by (simp add: frames_of_def type1_frames_def)

lemma type1_piece:
  assumes "args_ok mtu a" "i < fa_aNumType1Fragments a"
  shows "i * fa_aType1PayloadSize a + fa_aType1PayloadSize a \<le> length (fa_apData a)"
    "length (type1_frame a i) = 8 + fa_aType1PayloadSize a"
proof -
  have "(i + 1) * fa_aType1PayloadSize a \<le> fa_aNumType1Fragments a * fa_aType1PayloadSize a"
    using assms(2) by (intro mult_le_mono1) simp
  then show le: "i * fa_aType1PayloadSize a + fa_aType1PayloadSize a \<le> length (fa_apData a)"
    using assms(1) by (simp add: args_ok_def type2_offset_def)
  then show "length (type1_frame a i) = 8 + fa_aType1PayloadSize a"
    by (simp add: type1_frame_def type1.length_enc length_piece)
qed

lemma bundle_put:
  assumes "length h = 8" "length d = n" "off + (8 + n) \<le> length b"
  shows "mem_write b off h = Some (take off b @ h @ drop (off + 8) b)"
    "mem_write (take off b @ h @ drop (off + 8) b) (off + 8) d = Some (take off b @ h @ d @ drop (off + (8 + n)) b)"
    "mem_load (8 + n) (take off b @ h @ d @ drop (off + (8 + n)) b) off = Some (h @ d)"
proof -
  have "drop (n + (off + 8)) b = drop (off + (8 + n)) b" by (simp add: ac_simps)
  then show "mem_write b off h = Some (take off b @ h @ drop (off + 8) b)"
    "mem_write (take off b @ h @ drop (off + 8) b) (off + 8) d = Some (take off b @ h @ d @ drop (off + (8 + n)) b)"
    "mem_load (8 + n) (take off b @ h @ d @ drop (off + (8 + n)) b) off = Some (h @ d)"
    using assms by (simp_all add: mem_write_def mem_load_def)
qed

lemma bundle_type1_loop_stores:
  assumes "args_ok mtu a" "i + n \<le> fa_aNumType1Fragments a"
    and "boff + n * (8 + fa_aType1PayloadSize a) \<le> length (s_mBundleBuffer s)"
  shows "\<exists>t. bundle_type1_loop a n i (i * fa_aType1PayloadSize a) boff s =
      Some ((i + n) * fa_aType1PayloadSize a, boff + n * (8 + fa_aType1PayloadSize a), t) \<and>
    stores (fa_aSuperFrameNo a) (fa_aStreamId a) (type1_frames a i n) s t \<and>
    s_mBundleBuffer t = take boff (s_mBundleBuffer s) @ concat (map snd (type1_frames a i n)) @
      drop (boff + n * (8 + fa_aType1PayloadSize a)) (s_mBundleBuffer s)"
  using assms
proof (induction n arbitrary: i boff s)
  case 0
  then show ?case by (simp add: type1_frames_def)
next
  case (Suc n)
  let ?t1 = "fa_aType1PayloadSize a" and ?h = "enc_type1 (type1_header a i)" and ?B = "s_mBundleBuffer s"
  let ?d = "piece (i * ?t1) ?t1 (fa_apData a)" and ?p = "type1_frame a i"
  have i: "i < fa_aNumType1Fragments a" using Suc.prems(2) by simp
  have le: "i * ?t1 + ?t1 \<le> length (fa_apData a)" by (rule type1_piece(1) [OF Suc.prems(1) i])
  have len: "length ?d = ?t1" using le by (rule length_piece)
  have fit: "boff + (8 + ?t1) \<le> length ?B" using Suc.prems(3) by simp
  note put = bundle_put [OF type1.length_enc len fit, of "type1_header a i"]
  let ?b = "take boff ?B @ ?p @ drop (boff + (8 + ?t1)) ?B"
  let ?u = "store_frame (fa_aSuperFrameNo a) (word_of_nat i) (fa_aStreamId a) ?b ?p s"
  have p: "length ?p = 8 + ?t1" by (rule type1_piece(2) [OF Suc.prems(1) i])
  have lb: "length ?b = length ?B" using fit p by simp
  have step: "bundle_type1_loop a (Suc n) i (i * ?t1) boff s =
      bundle_type1_loop a n (Suc i) (Suc i * ?t1) (boff + (8 + ?t1)) ?u"
    by (simp add: bundle_write_def put piece_load [OF le] store_frame_def type1_frame_def Let_def add.commute [of "i * ?t1"])
  have "Suc i + n \<le> fa_aNumType1Fragments a" "boff + (8 + ?t1) + n * (8 + ?t1) \<le> length (s_mBundleBuffer ?u)"
    using Suc.prems(2,3) lb by (simp_all add: store_frame_frame)
  from Suc.IH [OF Suc.prems(1) this] obtain t where
    t: "bundle_type1_loop a n (Suc i) (Suc i * ?t1) (boff + (8 + ?t1)) ?u =
      Some ((Suc i + n) * ?t1, boff + (8 + ?t1) + n * (8 + ?t1), t)"
      "stores (fa_aSuperFrameNo a) (fa_aStreamId a) (type1_frames a (Suc i) n) ?u t"
      "s_mBundleBuffer t = take (boff + (8 + ?t1)) ?b @ concat (map snd (type1_frames a (Suc i) n)) @
        drop (boff + (8 + ?t1) + n * (8 + ?t1)) ?b"
    by (auto simp: store_frame_frame)
  have "stores (fa_aSuperFrameNo a) (fa_aStreamId a) (type1_frames a i (Suc n)) s t"
    unfolding type1_frames_Suc using t(2) lb by (simp only: stores.simps) blast
  moreover have "take (boff + (8 + ?t1)) ?b = take boff ?B @ ?p"
    using fit p by simp
  moreover have "drop (boff + (8 + ?t1) + n * (8 + ?t1)) ?b = drop (boff + Suc n * (8 + ?t1)) ?B"
    using fit p by (simp add: ac_simps)
  ultimately show ?case using t(1,3) unfolding step by (simp add: type1_frames_Suc add.assoc)
qed

text \<open>What a bundle takes from the retransmit queue, and how many of its own fragments are left.\<close>

definition getRetransmit_state :: "Sender \<Rightarrow> Sender" where
  "getRetransmit_state s = snd (getRetransmitFragment s)"

lemma bundle_retransmit_result:
  assumes inv: "sender_inv s" and r: "bundle_retransmit a m s = (k, x, u)"
  shows "sender_inv u" "s_mMtu u = s_mMtu s" "s_mSubFragmentMode u = s_mSubFragmentMode s"
    "s_mBundleBuffer u = s_mBundleBuffer s" "k \<le> m" "0 < m \<Longrightarrow> 0 < k"
    "x \<noteq> None \<Longrightarrow> length (the x) = 8 + fa_aType1PayloadSize a \<and> Suc k = m"
    "\<exists>r. s_out u = s_out s @ r \<and> (s_mRetransmitQueue s = [] \<longrightarrow> x = None \<and> u = s)"
    "u = s \<or> u = getRetransmit_state s \<or> (\<exists>d st. u = mCallback d st (getRetransmit_state s))"
proof -
  let ?Q = "sender_inv u \<and> s_mMtu u = s_mMtu s \<and> s_mSubFragmentMode u = s_mSubFragmentMode s \<and>
    s_mBundleBuffer u = s_mBundleBuffer s \<and> k \<le> m \<and> (0 < m \<longrightarrow> 0 < k) \<and>
    (x \<noteq> None \<longrightarrow> length (the x) = 8 + fa_aType1PayloadSize a \<and> Suc k = m) \<and>
    (\<exists>r. s_out u = s_out s @ r \<and> (s_mRetransmitQueue s = [] \<longrightarrow> x = None \<and> u = s)) \<and>
    (u = s \<or> u = getRetransmit_state s \<or> (\<exists>d st. u = mCallback d st (getRetransmit_state s)))"
  have ?Q
  proof (cases "s_mRetransmitQueue s \<noteq> [] \<and> 1 < m")
    case False
    with r inv show ?thesis by (auto simp: bundle_retransmit_def)
  next
    case True
    obtain y v where g: "getRetransmitFragment s = (y, v)" by (cases "getRetransmitFragment s")
    note get = sender_inv_getRetransmit [OF inv g]
    have v: "getRetransmit_state s = v" by (simp add: getRetransmit_state_def g)
    show ?thesis
    proof (cases y)
      case None
      with True r get v show ?thesis by (auto simp: bundle_retransmit_def g)
    next
      case (Some z)
      obtain d st where z: "z = (d, st)" by (cases z)
      have le: "length d \<le> unat (s_mMtu v)" using get(2,3) Some z by simp
      from sender_inv_callback [OF get(1) le, of st] have "sender_inv (mCallback d st v)" .
      with True r get(1,3-6) v Some z show ?thesis
        by (auto simp: bundle_retransmit_def g mCallback_def split: if_splits)
    qed
  qed
  then show "sender_inv u" "s_mMtu u = s_mMtu s" "s_mSubFragmentMode u = s_mSubFragmentMode s"
    "s_mBundleBuffer u = s_mBundleBuffer s" "k \<le> m" "0 < m \<Longrightarrow> 0 < k"
    "x \<noteq> None \<Longrightarrow> length (the x) = 8 + fa_aType1PayloadSize a \<and> Suc k = m"
    "\<exists>r. s_out u = s_out s @ r \<and> (s_mRetransmitQueue s = [] \<longrightarrow> x = None \<and> u = s)"
    "u = s \<or> u = getRetransmit_state s \<or> (\<exists>d st. u = mCallback d st (getRetransmit_state s))"
    by simp_all
qed

definition bundle_packet :: "FragArgs \<Rightarrow> bytes option \<Rightarrow> (u16 \<times> bytes) list \<Rightarrow> bytes" where
  "bundle_packet a x fs = enc_type4 \<lparr>t4_mFrameType = makeFrameTypeByte TYPE4 (fa_aFlags a),
      t4_mFrameCount = word_of_nat (length fs + (if x \<noteq> None then 1 else 0))\<rparr> @
    (case x of None \<Rightarrow> [] | Some d \<Rightarrow> d) @ concat (map snd fs)"

definition send_bundle :: "bytes \<Rightarrow> u8 \<Rightarrow> Sender \<Rightarrow> Sender" where
  "send_bundle d st s = (mCallback d st s)\<lparr>s_mStatistics :=
     (s_mStatistics s)\<lparr>ss_mBundlesSent := ss_mBundlesSent (s_mStatistics s) + 1\<rparr>\<rparr>"

lemma length_type1_frames: "length (type1_frames a i n) = n"
  by (simp add: type1_frames_def)

lemma length_concat_type1_frames:
  assumes "args_ok mtu a" "i + n \<le> fa_aNumType1Fragments a"
  shows "length (concat (map snd (type1_frames a i n))) = n * (8 + fa_aType1PayloadSize a)"
  using assms(2)
proof (induction n arbitrary: i)
  case (Suc n)
  then show ?case using type1_piece(2) [OF assms(1), of i] by (simp add: type1_frames_Suc)
qed (simp add: type1_frames_def)

lemma bundle_step_runs:
  assumes ok: "args_ok (unat (s_mMtu s)) a" and inv: "sender_inv s" and mode: "s_mSubFragmentMode s \<noteq> SINGLE"
    and fit: "2 + unat bs * (8 + fa_aType1PayloadSize a) \<le> unat (s_mMtu s)" and i: "i < fa_aNumType1Fragments a" and bs: "bs \<noteq> 0"
  obtains k x u b v t where
    "bundle_retransmit a (min (unat bs) (fa_aNumType1Fragments a - i)) s = (k, x, u)" "0 < k" "i + k \<le> fa_aNumType1Fragments a"
    "length b = length (s_mBundleBuffer u)"
    "stores (fa_aSuperFrameNo a) (fa_aStreamId a) (type1_frames a i k) (u\<lparr>s_mBundleBuffer := b\<rparr>) v"
    "t = send_bundle (bundle_packet a x (type1_frames a i k)) (fa_aStreamId a) v"
    "length (bundle_packet a x (type1_frames a i k)) \<le> unat (s_mMtu s)"
    "bundle_step a bs i (i * fa_aType1PayloadSize a) s = Some (k, (i + k) * fa_aType1PayloadSize a, t)"
proof -
  let ?m = "min (unat bs) (fa_aNumType1Fragments a - i)" and ?t1 = "fa_aType1PayloadSize a"
  obtain k x u where r: "bundle_retransmit a ?m s = (k, x, u)" by (cases "bundle_retransmit a ?m s") auto
  note res = bundle_retransmit_result [OF inv r]
  have "k \<le> fa_aNumType1Fragments a - i" "k \<le> unat bs" "0 < k"
    using res(5,6) i bs by (simp_all add: unat_gt_0)
  with i have k: "0 < k" "i + k \<le> fa_aNumType1Fragments a" "k \<le> unat bs" by arith+
  have x: "x = None \<or> (\<exists>d. x = Some d \<and> length d = 8 + ?t1) \<and> Suc k \<le> unat bs"
    using res(7) by (cases x) simp_all
  let ?hd = "enc_type4 \<lparr>t4_mFrameType = makeFrameTypeByte TYPE4 (fa_aFlags a),
      t4_mFrameCount = word_of_nat (k + (if x \<noteq> None then 1 else 0))\<rparr>"
  let ?x = "case x of None \<Rightarrow> [] | Some d \<Rightarrow> d" and ?B = "s_mBundleBuffer u"
  let ?off = "2 + length ?x"
  have lenB: "length ?B = unat (s_mMtu s)" using inv mode res(4) by (simp add: sender_inv_def)
  have off: "?off + k * (8 + ?t1) \<le> length ?B"
  proof -
    have "length ?x + k * (8 + ?t1) \<le> unat bs * (8 + ?t1)"
      using x mult_le_mono1 [of "Suc k" "unat bs" "8 + ?t1"] mult_le_mono1 [OF k(3), of "8 + ?t1"] by auto
    then show ?thesis using fit lenB by linarith
  qed
  have h2: "length ?hd = 2" by (rule type4.length_enc)
  define b where "b = ?hd @ ?x @ drop ?off ?B"
  have lb: "length b = length ?B" using off h2 by (simp add: b_def)
  have build: "do { s \<leftarrow> bundle_write 0 ?hd u;
        (case x of None \<Rightarrow> Some (2, s) | Some d \<Rightarrow> do { s \<leftarrow> bundle_write 2 d s; Some (2 + length d, s) }) } =
      Some (?off, u\<lparr>s_mBundleBuffer := b\<rparr>)"
    using off h2 by (cases x) (simp_all add: bundle_write_def mem_simps b_def numeral_2_eq_2)
  have "?off + k * (8 + ?t1) \<le> length (s_mBundleBuffer (u\<lparr>s_mBundleBuffer := b\<rparr>))" using off lb by simp
  from bundle_type1_loop_stores [OF ok k(2) this] obtain v where
    v: "bundle_type1_loop a k i (i * ?t1) ?off (u\<lparr>s_mBundleBuffer := b\<rparr>) = Some ((i + k) * ?t1, ?off + k * (8 + ?t1), v)"
      "stores (fa_aSuperFrameNo a) (fa_aStreamId a) (type1_frames a i k) (u\<lparr>s_mBundleBuffer := b\<rparr>) v"
      "s_mBundleBuffer v = take ?off b @ concat (map snd (type1_frames a i k)) @ drop (?off + k * (8 + ?t1)) b"
    by auto
  let ?p = "bundle_packet a x (type1_frames a i k)"
  have p: "?p = take ?off b @ concat (map snd (type1_frames a i k))"
    using h2 by (simp add: bundle_packet_def b_def length_type1_frames)
  have lp: "length ?p = ?off + k * (8 + ?t1)"
    using off lb unfolding p by (simp add: length_concat_type1_frames [OF ok k(2)])
  have "s_mBundleBuffer v = ?p @ drop (?off + k * (8 + ?t1)) b"
    unfolding p v(3) by simp
  then have load: "mem_load (?off + k * (8 + ?t1)) (s_mBundleBuffer v) 0 = Some ?p"
    using mem_load_prefix [of "?off + k * (8 + ?t1)" ?p] lp by simp
  have "bundle_step a bs i (i * ?t1) s = Some (k, (i + k) * ?t1, send_bundle ?p (fa_aStreamId a) v)"
  proof -
    obtain w where w: "bundle_write 0 ?hd u = Some w"
      "(case x of None \<Rightarrow> Some (2, w) | Some d \<Rightarrow> do { s \<leftarrow> bundle_write 2 d w; Some (2 + length d, s) }) =
        Some (?off, u\<lparr>s_mBundleBuffer := b\<rparr>)"
      using build by (cases "bundle_write 0 ?hd u") simp_all
    show ?thesis
      unfolding bundle_step_def Let_def r prod.case w bind.bind_lunit v(1) invokeBundleCallback_def load
      by (simp add: send_bundle_def mCallback_def)
  qed
  then show ?thesis using that [OF r k(1,2) lb v(2) refl] lp off lenB by simp
qed

section \<open>Properties of a sender kept by every operation\<close>

text \<open>
  A property indexed by a budget: it may use one unit for every packet retained. It may depend on what
  is retained and sent: \<open>ok\<close> are the frames a payload consists of, \<open>packet_ok\<close> the packets made of
  them. Whatever is kept by the elementary operations on such frames and packets is kept by \<open>send\<close>,
  which retains at most one packet per fragment.
\<close>

locale sender_content =
  fixes P :: "nat \<Rightarrow> Sender \<Rightarrow> bool" and ok :: "bytes \<Rightarrow> bool" and packet_ok :: "bytes \<Rightarrow> bool"
  assumes retain: "sender_inv s \<Longrightarrow> frame_ok (unat (s_mMtu s)) sf fn st d \<Longrightarrow> ok d \<Longrightarrow> P (Suc n) s \<Longrightarrow>
      P n (retainFragment sf fn st d s)"
    and evict: "sender_inv s \<Longrightarrow> P n s \<Longrightarrow> P n (evictOldRetention 0 s)"
    and retransmit: "sender_inv s \<Longrightarrow> P n s \<Longrightarrow> P n (getRetransmit_state s)"
    and copies: "sender_inv s \<Longrightarrow> P n s \<Longrightarrow> fst (getRetransmitFragment s) = Some (d, st) \<Longrightarrow> ok d \<and> packet_ok d"
    and update: "P n s \<Longrightarrow> P n (s\<lparr>s_mSendBuffer := b\<rparr>)" "P n s \<Longrightarrow> P n (s\<lparr>s_mBundleBuffer := b\<rparr>)"
      "P n s \<Longrightarrow> P n (s\<lparr>s_mSuperFrameNo := m\<rparr>)" "P n s \<Longrightarrow> P n (s\<lparr>s_mStatistics := x\<rparr>)"
    and callback: "P n s \<Longrightarrow> packet_ok d \<Longrightarrow> P n (s\<lparr>s_out := s_out s @ [(d, st)]\<rparr>)"
    and single: "frame_ok mtu sf fn st d \<Longrightarrow> ok d \<Longrightarrow> packet_ok d"
    and bundled: "args_ok mtu a \<Longrightarrow> i + k \<le> fa_aNumType1Fragments a \<Longrightarrow> 0 < k \<Longrightarrow> k \<le> 8 \<Longrightarrow>
      (\<And>d. y = Some d \<Longrightarrow> ok d \<and> Suc k \<le> 8 \<and> length d = 8 + fa_aType1PayloadSize a) \<Longrightarrow>
      (\<And>p. p \<in> snd ` set (type1_frames a i k) \<Longrightarrow> ok p) \<Longrightarrow> packet_ok (bundle_packet a y (type1_frames a i k))"
    and weaken: "P (Suc n) s \<Longrightarrow> P n s"
begin

definition R :: "nat \<Rightarrow> Sender \<Rightarrow> bool" where
  "R n s \<longleftrightarrow> sender_inv s \<and> P n s"

lemma R_retain: "R (Suc n) s \<Longrightarrow> frame_ok (unat (s_mMtu s)) sf fn st d \<Longrightarrow> ok d \<Longrightarrow> R n (retainFragment sf fn st d s)"
  using retain sender_inv_retain by (simp add: R_def)

lemma R_count: "R n s \<Longrightarrow> R n (count_fragment s)"
  using update(4) sender_inv_buffers(3) by (simp add: R_def count_fragment_def)

lemma R_callback: "R n s \<Longrightarrow> length d \<le> unat (s_mMtu s) \<Longrightarrow> packet_ok d \<Longrightarrow> R n (mCallback d st s)"
  using callback sender_inv_callback by (simp add: R_def mCallback_def)

lemma R_weaken: "R (k + n) s \<Longrightarrow> R n s"
  using weaken by (induction k) (auto simp: R_def)

lemma R_emit:
  assumes "R (Suc n) s" "length b = length (s_mSendBuffer s)" "frame_ok (unat (s_mMtu s)) sf fn st p" "ok p"
  shows "R n (emit sf fn st b p s)"
proof -
  have "R (Suc n) (s\<lparr>s_mSendBuffer := b\<rparr>)" using assms(1,2) update(1) sender_inv_buffers(1) by (simp add: R_def)
  then have "R n (retainFragment sf fn st p (s\<lparr>s_mSendBuffer := b\<rparr>))" using assms(3,4) by (intro R_retain) simp_all
  then show ?thesis unfolding emit_def
    using assms(3) single [OF assms(3,4)] by (intro R_count R_callback) (simp_all add: retainFragment_send_buffer frame_ok_def)
qed

lemma R_emits:
  "emits sf st fs s t \<Longrightarrow> R (n + length fs) s \<Longrightarrow> (\<And>fn p. (fn, p) \<in> set fs \<Longrightarrow> frame_ok (unat (s_mMtu s)) sf fn st p \<and> ok p) \<Longrightarrow> R n t"
proof (induction fs arbitrary: s)
  case (Cons x fs)
  obtain fn p where x: "x = (fn, p)" by (cases x)
  with Cons.prems(1) obtain b where b: "length b = length (s_mSendBuffer s)" "emits sf st fs (emit sf fn st b p s) t" by auto
  have "R (n + length fs) (emit sf fn st b p s)" using Cons.prems(2) Cons.prems(3) [of fn p] b(1) x by (intro R_emit) simp_all
  moreover have "frame_ok (unat (s_mMtu (emit sf fn st b p s))) sf fn' st p' \<and> ok p'" if "(fn', p') \<in> set fs" for fn' p'
    using that Cons.prems(3) [of fn' p'] by (simp add: emit_frame)
  ultimately show ?case by (rule Cons.IH [OF b(2)])
qed simp

lemma R_store:
  assumes "R (Suc n) s" "length b = length (s_mBundleBuffer s)" "frame_ok (unat (s_mMtu s)) sf fn st p" "ok p"
  shows "R n (store_frame sf fn st b p s)"
proof -
  have "R (Suc n) (s\<lparr>s_mBundleBuffer := b\<rparr>)" using assms(1,2) update(2) sender_inv_buffers(2) by (simp add: R_def)
  then show ?thesis using assms(3,4) unfolding store_frame_def by (intro R_count R_retain) simp_all
qed

lemma R_stores:
  "stores sf st fs s t \<Longrightarrow> R (n + length fs) s \<Longrightarrow> (\<And>fn p. (fn, p) \<in> set fs \<Longrightarrow> frame_ok (unat (s_mMtu s)) sf fn st p \<and> ok p) \<Longrightarrow> R n t"
proof (induction fs arbitrary: s)
  case (Cons x fs)
  obtain fn p where x: "x = (fn, p)" by (cases x)
  with Cons.prems(1) obtain b where b: "length b = length (s_mBundleBuffer s)" "stores sf st fs (store_frame sf fn st b p s) t" by auto
  have "R (n + length fs) (store_frame sf fn st b p s)" using Cons.prems(2) Cons.prems(3) [of fn p] b(1) x by (intro R_store) simp_all
  moreover have "frame_ok (unat (s_mMtu (store_frame sf fn st b p s))) sf fn' st p' \<and> ok p'" if "(fn', p') \<in> set fs" for fn' p'
    using that Cons.prems(3) [of fn' p'] by (simp add: store_frame_frame)
  ultimately show ?case by (rule Cons.IH [OF b(2)])
qed simp

lemma R_bundle_retransmit:
  assumes "R n s" "bundle_retransmit a m s = (k, x, u)"
  shows "R n u" "x = Some d \<Longrightarrow> ok d"
proof -
  have inv: "sender_inv s" "P n s" using assms(1) by (simp_all add: R_def)
  note res = bundle_retransmit_result [OF inv(1) assms(2)]
  have g: "P n (getRetransmit_state s)" using inv retransmit by simp
  note out = copies [OF inv]
  have m: "P n (mCallback d st (getRetransmit_state s))" if "fst (getRetransmitFragment s) = Some (d, st)" for d st
    using callback [OF g] out [OF that] by (simp add: mCallback_def)
  have "P n u \<and> (\<forall>d. x = Some d \<longrightarrow> ok d)"
  proof (cases "s_mRetransmitQueue s \<noteq> [] \<and> 1 < m")
    case False
    with assms(2) inv show ?thesis by (auto simp: bundle_retransmit_def)
  next
    case True
    with assms(2) g m out show ?thesis
      by (cases "getRetransmitFragment s") (auto simp: bundle_retransmit_def getRetransmit_state_def split: option.splits if_splits)
  qed
  with res(1) show "R n u" "x = Some d \<Longrightarrow> ok d" by (simp_all add: R_def)
qed

end

text \<open>A property that does not depend on the bytes of the packets.\<close>

locale sender_property =
  fixes P :: "nat \<Rightarrow> Sender \<Rightarrow> bool"
  assumes retain_any: "sender_inv s \<Longrightarrow> frame_ok (unat (s_mMtu s)) sf fn st d \<Longrightarrow> P (Suc n) s \<Longrightarrow>
      P n (retainFragment sf fn st d s)"
    and evict_any: "sender_inv s \<Longrightarrow> P n s \<Longrightarrow> P n (evictOldRetention 0 s)"
    and retransmit_any: "sender_inv s \<Longrightarrow> P n s \<Longrightarrow> P n (getRetransmit_state s)"
    and update_any: "P n s \<Longrightarrow> P n (s\<lparr>s_mSendBuffer := b\<rparr>)" "P n s \<Longrightarrow> P n (s\<lparr>s_mBundleBuffer := b\<rparr>)"
      "P n s \<Longrightarrow> P n (s\<lparr>s_mSuperFrameNo := m\<rparr>)" "P n s \<Longrightarrow> P n (s\<lparr>s_mStatistics := x\<rparr>)"
      "P n s \<Longrightarrow> P n (s\<lparr>s_out := out\<rparr>)"
    and weaken_any: "P (Suc n) s \<Longrightarrow> P n s"

sublocale sender_property \<subseteq> sender_content P "\<lambda>d. True" "\<lambda>d. True"
  by unfold_locales (simp_all add: retain_any evict_any retransmit_any update_any weaken_any)

end
