(* ===== verification/Efp_SenderSafe.thy ===== *)
theory Efp_SenderSafe
  imports Efp_Bundle
begin

text \<open>
  \<open>send\<close> on every branch: it always returns, without an access out of bounds, and a property of the
  sender that retention, eviction and the retransmit queue keep is kept by it. A send uses at most
  8194 units of the budget, one for every packet it may retain.
\<close>

section \<open>Whole payloads\<close>

text \<open>The packet of a payload that fits one Type2 fragment.\<close>

definition single_header :: "bytes \<Rightarrow> u8 \<Rightarrow> u64 \<Rightarrow> u32 \<Rightarrow> u32 \<Rightarrow> u8 \<Rightarrow> u8 \<Rightarrow> u16 \<Rightarrow> FrameType2" where
  "single_header d ptype pts diff code st flags sf = \<lparr>t2_mFrameType = makeFrameTypeByte TYPE2 flags,
     t2_mStreamId = st, t2_mPayloadType = ptype, t2_mSizeOfData = word_of_nat (length d), t2_mSuperFrameNo = sf,
     t2_mOfFragmentNo = 0, t2_mType1PacketSize = 0, t2_mPts = pts, t2_mDtsPtsDiff = diff, t2_mPayloadCode = code\<rparr>"

definition single_frame :: "bytes \<Rightarrow> u8 \<Rightarrow> u64 \<Rightarrow> u32 \<Rightarrow> u32 \<Rightarrow> u8 \<Rightarrow> u8 \<Rightarrow> u16 \<Rightarrow> bytes" where
  "single_frame d ptype pts diff code st flags sf = enc_type2 (single_header d ptype pts diff code st flags sf) @ d"

lemma sendType2Only_emit:
  assumes "27 + length d \<le> unat (s_mMtu s)" "length (s_mSendBuffer s) = unat (s_mMtu s)"
  shows "\<exists>b. length b = unat (s_mMtu s) \<and>
    sendType2Only d ptype pts diff code st flags s = Some (OK, emit (s_mSuperFrameNo s) 0 st b
      (single_frame d ptype pts diff code st flags (s_mSuperFrameNo s)) (s\<lparr>s_mSuperFrameNo := s_mSuperFrameNo s + 1\<rparr>))"
proof -
  let ?h = "enc_type2 (single_header d ptype pts diff code st flags (s_mSuperFrameNo s))"
  let ?b = "?h @ d @ drop (27 + length d) (s_mSendBuffer s)"
  have load: "mem_load (27 + length d) ?b 0 = Some (?h @ d)"
    using mem_load_prefix [of "27 + length d" "?h @ d"] by (simp add: type2.length_enc)
  have fit: "27 + length d \<le> length (s_mSendBuffer s)" using assms by simp
  have sf: "t2_mSuperFrameNo (single_header d ptype pts diff code st flags (s_mSuperFrameNo s)) = s_mSuperFrameNo s"
    by (simp add: single_header_def)
  have "sendType2Only d ptype pts diff code st flags s = Some (OK, emit (s_mSuperFrameNo s) 0 st ?b
      (single_frame d ptype pts diff code st flags (s_mSuperFrameNo s)) (s\<lparr>s_mSuperFrameNo := s_mSuperFrameNo s + 1\<rparr>))"
    unfolding sendType2Only_def Let_def single_header_def [symmetric]
    using fit load by (simp add: send_write_def mem_simps type2.length_enc retain_from_send_def invokeCallback_def
        retainFragment_send_buffer emit_def single_frame_def sf add.commute [of "length d"])
  moreover have "length ?b = unat (s_mMtu s)" using assms by (simp add: type2.length_enc)
  ultimately show ?thesis by blast
qed

lemma single_frame_ok:
  "27 + length d \<le> mtu \<Longrightarrow> frame_ok mtu sf 0 st (single_frame d ptype pts diff code st flags sf)"
  using frame_okI(2) [of "single_header d ptype pts diff code st flags sf" d mtu]
  by (simp add: single_frame_def single_header_def)

text \<open>The size of a Type1 frame, which a full bundle of them leaves inside the MTU.\<close>

definition type1_frame_size :: "u16 \<Rightarrow> SubFragmentMode \<Rightarrow> nat" where
  "type1_frame_size mtu mode = (if mode \<noteq> SINGLE then size_sub (unat mtu) 2 div unat (subFragmentValue mode) else unat mtu)"

lemma type1_frame_size_fits:
  assumes "256 \<le> unat mtu"
  shows "mode \<noteq> SINGLE \<Longrightarrow> 2 + unat (subFragmentValue mode) * type1_frame_size mtu mode \<le> unat mtu"
    "8 < type1_frame_size mtu mode" "type1_frame_size mtu mode \<le> unat mtu"
proof -
  have sub: "size_sub (unat mtu) 2 = unat mtu - 2" using assms by simp
  have m: "0 < unat (subFragmentValue mode)" "unat (subFragmentValue mode) \<le> 10" by (cases mode; simp)+
  show "2 + unat (subFragmentValue mode) * type1_frame_size mtu mode \<le> unat mtu" if "mode \<noteq> SINGLE"
    using that assms times_div_less_eq_dividend [of "unat (subFragmentValue mode)" "unat mtu - 2"]
    by (simp add: type1_frame_size_def sub del: times_div_less_eq_dividend)
  have "(unat mtu - 2) div 10 \<le> (unat mtu - 2) div unat (subFragmentValue mode)"
    using m by (intro div_le_mono2)
  moreover have "25 \<le> (unat mtu - 2) div 10" using assms by simp
  ultimately show "8 < type1_frame_size mtu mode" using assms by (simp add: type1_frame_size_def sub)
  show "type1_frame_size mtu mode \<le> unat mtu"
    by (simp add: type1_frame_size_def sub) (meson diff_le_self div_le_dividend order.trans)
qed

text \<open>\<open>send\<close> as one choice among four outcomes.\<close>

definition after_evict :: "Sender \<Rightarrow> Sender" where
  "after_evict s = (if s_mRetentionMs s > 0 then evictOldRetention 0 s else s)"

lemma after_evict_frame: "same_sender s (after_evict s)"
  using evictOldRetention_frame(1) by (simp add: after_evict_def)

lemma send_outcomes:
  assumes "256 \<le> unat (s_mMtu s)"
  shows "send d ptype pts dts code st flags s =
    (let u = after_evict s; t1 = type1_frame_size (s_mMtu s) (s_mSubFragmentMode s) - 8; diff = dtsPtsDiff pts dts in
     if d = [] then Some (INVALID_PARAMETER, s)
     else if length d > MAX_SUPERFRAME_SIZE then Some (TOO_LARGE_FRAME, s)
     else if length d \<le> unat (s_mMtu s) - 27 then sendType2Only d ptype pts diff code st flags u
     else sendFragmented d ptype pts diff code st flags t1 u)"
proof -
  have "s_mMtu (after_evict s) = s_mMtu s" "s_mSubFragmentMode (after_evict s) = s_mSubFragmentMode s"
    using after_evict_frame [of s] by (simp_all add: same_sender_def)
  moreover have "size_sub (unat (s_mMtu s)) 27 = unat (s_mMtu s) - 27" using assms by simp
  moreover have "\<not> type1_frame_size (s_mMtu s) (s_mSubFragmentMode s) \<le> 8"
    using type1_frame_size_fits(2) [OF assms] by (simp add: not_le)
  ultimately show ?thesis
    unfolding send_def Let_def after_evict_def [symmetric] type1_frame_size_def [symmetric] by simp
qed

text \<open>The abstract fragments of a payload, by the sender's configuration and next superframe number.\<close>

definition sent_args :: "bytes \<Rightarrow> u8 \<Rightarrow> u64 \<Rightarrow> u64 \<Rightarrow> u32 \<Rightarrow> u8 \<Rightarrow> u8 \<Rightarrow> Sender \<Rightarrow> FragArgs" where
  "sent_args d ptype pts dts code st flags s = plan_args d ptype pts (dtsPtsDiff pts dts) code st flags
     (type1_frame_size (s_mMtu s) (s_mSubFragmentMode s) - 8) s"

definition sent_frames :: "bytes \<Rightarrow> u8 \<Rightarrow> u64 \<Rightarrow> u64 \<Rightarrow> u32 \<Rightarrow> u8 \<Rightarrow> u8 \<Rightarrow> Sender \<Rightarrow> (u16 \<times> bytes) list" where
  "sent_frames d ptype pts dts code st flags s =
     (if length d \<le> unat (s_mMtu s) - 27
      then [(0, single_frame d ptype pts (dtsPtsDiff pts dts) code st flags (s_mSuperFrameNo s))]
      else frames_of (sent_args d ptype pts dts code st flags s))"

definition sent_total :: "bytes \<Rightarrow> Sender \<Rightarrow> nat" where
  "sent_total d s = (if length d \<le> unat (s_mMtu s) - 27 then 1
     else fp_lTotalFragments (fragmentPlan (unat (s_mMtu s)) (type1_frame_size (s_mMtu s) (s_mSubFragmentMode s) - 8) (length d)))"

definition send_outcome :: "bytes \<Rightarrow> Sender \<Rightarrow> Result" where
  "send_outcome d s = (if d = [] then INVALID_PARAMETER
     else if length d > MAX_SUPERFRAME_SIZE \<or> sent_total d s > MAX_FRAGMENTS_PER_SUPERFRAME then TOO_LARGE_FRAME
     else OK)"

lemma same_sender_args:
  "same_sender s t \<Longrightarrow> sent_args d ptype pts dts code st flags t = sent_args d ptype pts dts code st flags s"
  by (simp add: same_sender_def sent_args_def plan_args_def)

context sender_content
begin

lemma R_le: "R m s \<Longrightarrow> n \<le> m \<Longrightarrow> R n s"
  using R_weaken [of "m - n" n s] by simp

lemma R_send_bundle: "R n s \<Longrightarrow> length d \<le> unat (s_mMtu s) \<Longrightarrow> packet_ok d \<Longrightarrow> R n (send_bundle d st s)"
  using R_callback [of n s d st] update(4) [of n "mCallback d st s"] sender_inv_buffers(3) [of "mCallback d st s"]
  by (simp add: send_bundle_def R_def)

text \<open>The frames of a payload are what it consists of.\<close>

definition made_of :: "FragArgs \<Rightarrow> bool" where
  "made_of a \<longleftrightarrow> (\<forall>(fn, p) \<in> set (frames_of a). ok p)"

lemma frames_of_made:
  assumes "args_ok mtu a" "made_of a" "(fn, p) \<in> set (frames_of a)"
  shows "frame_ok mtu (fa_aSuperFrameNo a) fn (fa_aStreamId a) p \<and> ok p"
  using frames_of_ok [OF assms(1,3)] assms(2,3) by (auto simp: made_of_def)

lemma type1_frames_ok:
  assumes "args_ok mtu a" "made_of a" "(fn, p) \<in> set (type1_frames a i k)" "i + k \<le> fa_aNumType1Fragments a"
  shows "frame_ok mtu (fa_aSuperFrameNo a) fn (fa_aStreamId a) p \<and> ok p"
proof -
  have "(fn, p) \<in> set (frames_of a)"
    using assms(3,4) by (auto simp: type1_frames_def frames_of_def)
  with assms(1,2) show ?thesis by (rule frames_of_made)
qed

lemma R_bundle_step:
  assumes R: "R (n + (fa_aNumType1Fragments a - i)) s" and ok: "args_ok (unat (s_mMtu s)) a" and made: "made_of a"
    and mode: "s_mSubFragmentMode s \<noteq> SINGLE"
    and fit: "2 + unat bs * (8 + fa_aType1PayloadSize a) \<le> unat (s_mMtu s)"
    and i: "i < fa_aNumType1Fragments a" and bs: "bs \<noteq> 0" "unat bs \<le> 8"
  shows "\<exists>k t. bundle_step a bs i (i * fa_aType1PayloadSize a) s = Some (k, (i + k) * fa_aType1PayloadSize a, t) \<and>
    R (n + (fa_aNumType1Fragments a - (i + k))) t \<and> s_mMtu t = s_mMtu s \<and> s_mSubFragmentMode t = s_mSubFragmentMode s \<and>
    0 < k \<and> i + k \<le> fa_aNumType1Fragments a"
proof -
  let ?N = "fa_aNumType1Fragments a"
  have inv: "sender_inv s" using R by (simp add: R_def)
  from bundle_step_runs [OF ok inv mode fit i bs(1)] obtain k x u b v t where
    r: "bundle_retransmit a (min (unat bs) (?N - i)) s = (k, x, u)" and k: "0 < k" "i + k \<le> ?N"
    and b: "length b = length (s_mBundleBuffer u)"
    and v: "stores (fa_aSuperFrameNo a) (fa_aStreamId a) (type1_frames a i k) (u\<lparr>s_mBundleBuffer := b\<rparr>) v"
    and t: "t = send_bundle (bundle_packet a x (type1_frames a i k)) (fa_aStreamId a) v"
    and le: "length (bundle_packet a x (type1_frames a i k)) \<le> unat (s_mMtu s)"
    and run: "bundle_step a bs i (i * fa_aType1PayloadSize a) s = Some (k, (i + k) * fa_aType1PayloadSize a, t)" by blast
  note res = bundle_retransmit_result [OF inv r]
  let ?m = "n + (?N - (i + k))"
  have len: "?m + length (type1_frames a i k) = n + (?N - i)" using k by (simp add: length_type1_frames)
  have "R (n + (?N - i)) (u\<lparr>s_mBundleBuffer := b\<rparr>)"
    using R_bundle_retransmit(1) [OF R r] b update(2) sender_inv_buffers(2) by (simp add: R_def)
  then have "R ?m v"
    using type1_frames_ok [OF ok made _ k(2)] res(2) by (intro R_stores [OF v]) (simp_all only: len, simp)
  moreover have fr: "s_mMtu v = s_mMtu s" "s_mSubFragmentMode v = s_mSubFragmentMode s"
    using stores_frame [OF v] res(2,3) by simp_all
  moreover have "packet_ok (bundle_packet a x (type1_frames a i k))"
  proof (rule bundled [OF ok k(2,1)])
    show "k \<le> 8" using res(5) bs(2) by simp
    show "ok d \<and> Suc k \<le> 8 \<and> length d = 8 + fa_aType1PayloadSize a" if "x = Some d" for d
      using that R_bundle_retransmit(2) [OF R r] res(7) bs(2) by simp
    show "ok p" if "p \<in> snd ` set (type1_frames a i k)" for p
      using that type1_frames_ok [OF ok made _ k(2)] by auto
  qed
  ultimately have "R ?m t" using le unfolding t by (intro R_send_bundle) simp_all
  with run k fr show ?thesis by (auto simp: t send_bundle_def mCallback_def)
qed

lemma R_bundle_loop:
  assumes "R (n + (fa_aNumType1Fragments a - i)) s" "args_ok (unat (s_mMtu s)) a" "made_of a" "s_mSubFragmentMode s \<noteq> SINGLE"
    and "2 + unat (subFragmentValue mode) * (8 + fa_aType1PayloadSize a) \<le> unat (s_mMtu s)" "i \<le> fa_aNumType1Fragments a"
  shows "\<exists>t. bundle_loop a mode i (i * fa_aType1PayloadSize a) s = Some (fa_aNumType1Fragments a * fa_aType1PayloadSize a, t) \<and>
    R n t \<and> s_mMtu t = s_mMtu s \<and> s_mSubFragmentMode t = s_mSubFragmentMode s"
  using assms
proof (induction "fa_aNumType1Fragments a - i" arbitrary: i s rule: less_induct)
  case less
  show ?case
  proof (cases "i < fa_aNumType1Fragments a")
    case False
    with less.prems(6) have "i = fa_aNumType1Fragments a" by simp
    with less.prems(1) show ?thesis by (simp add: bundle_loop.simps [of a mode "fa_aNumType1Fragments a"])
  next
    case True
    have "subFragmentValue mode \<noteq> 0" "unat (subFragmentValue mode) \<le> 8" by (cases mode; simp)+
    with R_bundle_step [OF less.prems(1-5) True] obtain k t where
      st: "bundle_step a (subFragmentValue mode) i (i * fa_aType1PayloadSize a) s = Some (k, (i + k) * fa_aType1PayloadSize a, t)"
      and t: "R (n + (fa_aNumType1Fragments a - (i + k))) t" "s_mMtu t = s_mMtu s" "s_mSubFragmentMode t = s_mSubFragmentMode s"
      and k: "0 < k" "i + k \<le> fa_aNumType1Fragments a" by blast
    have "fa_aNumType1Fragments a - (i + k) < fa_aNumType1Fragments a - i" using k by simp
    from less.hyps [OF this t(1)] less.prems(2-5) t(2,3) k(2) obtain w where
      "bundle_loop a mode (i + k) ((i + k) * fa_aType1PayloadSize a) t = Some (fa_aNumType1Fragments a * fa_aType1PayloadSize a, w)"
      "R n w" "s_mMtu w = s_mMtu s" "s_mSubFragmentMode w = s_mSubFragmentMode s" by auto
    with st True show ?thesis by (simp add: bundle_loop.simps [of a mode i])
  qed
qed

text \<open>The Type3 and the Type2 packet that end both modes.\<close>

lemma R_tail:
  assumes "R (n + 2) s" "args_ok (unat (s_mMtu s)) a" "made_of a"
  shows "\<exists>u t. send_type3 a (fa_aNumType1Fragments a * fa_aType1PayloadSize a) s = Some (type2_offset a, u) \<and>
    send_type2 a (type2_offset a) u = Some t \<and> R n t"
proof -
  let ?e = "emits (fa_aSuperFrameNo a) (fa_aStreamId a)"
  let ?f3 = "if fa_aNeedsType3 a then [(fa_aOfFragmentNo a - 1, type3_frame a)] else []"
  have buf: "length (s_mSendBuffer s) = unat (s_mMtu s)" using assms(1) by (simp add: R_def sender_inv_def)
  obtain u where u: "send_type3 a (fa_aNumType1Fragments a * fa_aType1PayloadSize a) s = Some (type2_offset a, u)" "?e ?f3 s u"
    using send_type3_emits [OF assms(2) buf] by blast
  have u': "s_mMtu u = s_mMtu s" "length (s_mSendBuffer u) = unat (s_mMtu u)"
    using emits_frame [OF u(2)] buf by simp_all
  obtain t where t: "send_type2 a (type2_offset a) u = Some t" "?e [(fa_aOfFragmentNo a, type2_frame a)] u t"
    using send_type2_emits [of u a] assms(2) u' by auto
  let ?fs = "?f3 @ [(fa_aOfFragmentNo a, type2_frame a)]"
  have "?e ?fs s t" using u(2) t(2) unfolding emits_append by blast
  moreover have "R (n + length ?fs) s"
    using assms(1) R_weaken [of 1 "Suc n" s] by (simp split: if_splits)
  moreover have "frame_ok (unat (s_mMtu s)) (fa_aSuperFrameNo a) fn (fa_aStreamId a) p \<and> ok p" if "(fn, p) \<in> set ?fs" for fn p
    using that by (intro frames_of_made [OF assms(2,3)]) (auto simp: frames_of_def split: if_splits)
  ultimately have "R n t" by (rule R_emits)
  with u(1) t(1) show ?thesis by blast
qed

lemma R_sendFragmentedBundled:
  assumes R: "R (n + 8194) s" and ok: "args_ok (unat (s_mMtu s)) a" and made: "made_of a" and mode: "s_mSubFragmentMode s \<noteq> SINGLE"
    and fit: "2 + unat (subFragmentValue mode) * (8 + fa_aType1PayloadSize a) \<le> unat (s_mMtu s)"
  shows "\<exists>t. sendFragmentedBundled a mode s = Some (OK, t) \<and> R n t"
proof -
  have "fa_aNumType1Fragments a \<le> 8192" using ok by (simp add: args_ok_def split: if_splits)
  then have "R (n + 2 + (fa_aNumType1Fragments a - 0)) s" by (intro R_le [OF R]) simp
  from R_bundle_loop [OF this ok made mode fit] obtain u where
    u: "bundle_loop a mode 0 0 s = Some (fa_aNumType1Fragments a * fa_aType1PayloadSize a, u)" "R (n + 2) u" "s_mMtu u = s_mMtu s"
    by auto
  with R_tail [OF u(2), of a] ok made show ?thesis by (auto simp: sendFragmentedBundled_def)
qed

lemma R_sendFragmentedSingle:
  assumes R: "R (n + 8194) s" and ok: "args_ok (unat (s_mMtu s)) a" and made: "made_of a" and t1: "8 + fa_aType1PayloadSize a = unat (s_mMtu s)"
  shows "\<exists>t. sendFragmentedSingle a s = Some (OK, t) \<and> R n t"
proof -
  have "length (s_mSendBuffer s) = unat (s_mMtu s)" using R by (simp add: R_def sender_inv_def)
  from sendFragmentedSingle_emits [OF ok t1 this] obtain t where
    t: "sendFragmentedSingle a s = Some (OK, t)" "emits (fa_aSuperFrameNo a) (fa_aStreamId a) (frames_of a) s t" by blast
  have "length (frames_of a) \<le> 8194" using ok by (simp add: args_ok_def frames_of_def split: if_splits)
  then have "R (n + length (frames_of a)) s" by (intro R_le [OF R]) simp
  from R_emits [OF t(2) this frames_of_made [OF ok made]] have "R n t" .
  with t(1) show ?thesis by blast
qed

lemma R_sendFragmented:
  assumes R: "R (n + 8194) s" and t1: "8 + t1 = type1_frame_size (s_mMtu s) (s_mSubFragmentMode s)"
    and big: "unat (s_mMtu s) - 27 < length d"
    and made: "fp_lTotalFragments (fragmentPlan (unat (s_mMtu s)) t1 (length d)) \<le> MAX_FRAGMENTS_PER_SUPERFRAME \<Longrightarrow>
      made_of (plan_args d ptype pts diff code st flags t1 s)"
  shows "\<exists>r t. sendFragmented d ptype pts diff code st flags t1 s = Some (r, t) \<and> R n t"
proof -
  let ?p = "fragmentPlan (unat (s_mMtu s)) t1 (length d)" and ?a = "plan_args d ptype pts diff code st flags t1 s"
  let ?s = "s\<lparr>s_mSuperFrameNo := s_mSuperFrameNo s + 1\<rparr>"
  have mtu: "256 \<le> unat (s_mMtu s)" using R by (simp add: R_def sender_inv_def)
  note fits = type1_frame_size_fits [OF mtu, of "s_mSubFragmentMode s"]
  show ?thesis
  proof (cases "fp_lTotalFragments ?p = 0 \<or> fp_lTotalFragments ?p > MAX_FRAGMENTS_PER_SUPERFRAME")
    case True
    then show ?thesis using R_le [OF R] by (simp add: sendFragmented_plan Let_def)
  next
    case False
    then have ok: "args_ok (unat (s_mMtu ?s)) ?a"
      using plan_args_ok [OF mtu _ _ big, of t1] t1 fits(2,3) by simp
    have made': "made_of ?a" using made False by simp
    have R': "R (n + 8194) ?s" using R update(3) sender_inv_buffers(4) by (simp add: R_def)
    have a1: "fa_aType1PayloadSize ?a = t1" by (simp add: plan_args_def Let_def)
    show ?thesis
    proof (cases "s_mSubFragmentMode s = SINGLE")
      case True
      then have "8 + fa_aType1PayloadSize ?a = unat (s_mMtu ?s)" using t1 a1 by (simp add: type1_frame_size_def)
      from R_sendFragmentedSingle [OF R' ok made' this] False True show ?thesis by (auto simp: sendFragmented_plan Let_def)
    next
      case bundled: False
      then have "2 + unat (subFragmentValue (s_mSubFragmentMode s)) * (8 + fa_aType1PayloadSize ?a) \<le> unat (s_mMtu ?s)"
        using fits(1) t1 a1 by simp
      from R_sendFragmentedBundled [OF R' ok made' _ this] False bundled show ?thesis by (auto simp: sendFragmented_plan Let_def)
    qed
  qed
qed

lemma R_send:
  assumes R: "R (n + 8194) s"
    and made: "\<And>fn p. send_outcome d s = OK \<Longrightarrow> (fn, p) \<in> set (sent_frames d ptype pts dts code st flags s) \<Longrightarrow> ok p"
  shows "\<exists>r t. send d ptype pts dts code st flags s = Some (r, t) \<and> R n t"
proof -
  have mtu: "256 \<le> unat (s_mMtu s)" using R by (simp add: R_def sender_inv_def)
  let ?u = "after_evict s" and ?diff = "dtsPtsDiff pts dts"
  have u: "R (n + 8194) ?u" using R evict sender_inv_evict by (simp add: after_evict_def R_def)
  have fr: "s_mMtu ?u = s_mMtu s" "s_mSubFragmentMode ?u = s_mSubFragmentMode s" "s_mSuperFrameNo ?u = s_mSuperFrameNo s"
    using after_evict_frame [of s] by (simp_all add: same_sender_def)
  have small: "\<exists>r t. sendType2Only d ptype pts ?diff code st flags ?u = Some (r, t) \<and> R n t"
    if "length d \<le> unat (s_mMtu s) - 27" "d \<noteq> []" "length d \<le> MAX_SUPERFRAME_SIZE"
  proof -
    have "send_outcome d s = OK" using that by (simp add: send_outcome_def sent_total_def MAX_FRAGMENTS_PER_SUPERFRAME_def)
    from made [OF this] have frame: "ok (single_frame d ptype pts ?diff code st flags (s_mSuperFrameNo ?u))"
      using that fr by (simp add: sent_frames_def)
    let ?s = "?u\<lparr>s_mSuperFrameNo := s_mSuperFrameNo ?u + 1\<rparr>"
    have fit: "27 + length d \<le> unat (s_mMtu ?u)" using that mtu fr by simp
    have buf: "length (s_mSendBuffer ?u) = unat (s_mMtu ?u)" using u by (simp add: R_def sender_inv_def)
    from sendType2Only_emit [OF fit buf] obtain b where b: "length b = unat (s_mMtu ?u)"
      "sendType2Only d ptype pts ?diff code st flags ?u = Some (OK, emit (s_mSuperFrameNo ?u) 0 st b
        (single_frame d ptype pts ?diff code st flags (s_mSuperFrameNo ?u)) ?s)" by blast
    have "R (Suc n) ?u" by (rule R_le [OF u]) simp
    then have "R (Suc n) ?s" using update(3) sender_inv_buffers(4) by (simp add: R_def)
    then have "R n (emit (s_mSuperFrameNo ?u) 0 st b (single_frame d ptype pts ?diff code st flags (s_mSuperFrameNo ?u)) ?s)"
      using b(1) buf single_frame_ok [OF fit] frame by (intro R_emit) simp_all
    with b(2) show ?thesis by blast
  qed
  have t1: "8 + (type1_frame_size (s_mMtu s) (s_mSubFragmentMode s) - 8) = type1_frame_size (s_mMtu ?u) (s_mSubFragmentMode ?u)"
    using type1_frame_size_fits(2) [OF mtu, of "s_mSubFragmentMode s"] fr by simp
  have big: "\<exists>r t. sendFragmented d ptype pts ?diff code st flags (type1_frame_size (s_mMtu s) (s_mSubFragmentMode s) - 8) ?u = Some (r, t) \<and> R n t"
    if "\<not> length d \<le> unat (s_mMtu s) - 27" "d \<noteq> []" "length d \<le> MAX_SUPERFRAME_SIZE"
  proof (rule R_sendFragmented [OF u t1])
    let ?t1 = "type1_frame_size (s_mMtu s) (s_mSubFragmentMode s) - 8"
    show "unat (s_mMtu ?u) - 27 < length d" using that(1) fr by simp
    have a: "plan_args d ptype pts ?diff code st flags ?t1 ?u = sent_args d ptype pts dts code st flags s"
      using same_sender_args [OF after_evict_frame [of s], of d ptype pts dts code st flags] fr by (simp add: sent_args_def)
    assume "fp_lTotalFragments (fragmentPlan (unat (s_mMtu ?u)) ?t1 (length d)) \<le> MAX_FRAGMENTS_PER_SUPERFRAME"
    then have "send_outcome d s = OK" using that fr by (simp add: send_outcome_def sent_total_def)
    from made [OF this] show "made_of (plan_args d ptype pts ?diff code st flags ?t1 ?u)"
      using that(1) by (auto simp: a made_of_def sent_frames_def)
  qed
  have "R n s" by (rule R_le [OF R]) simp
  with small big show ?thesis by (simp add: send_outcomes [OF mtu] Let_def)
qed

end

end
