(* ===== verification/Efp_SenderMachine.thy ===== *)
theory Efp_SenderMachine
  imports Efp_SenderSafe
begin

text \<open>
  The sender as a state machine over its public operations. Its invariants are kept by every
  operation, by interpretations of \<open>sender_property\<close> and \<open>safe_machine\<close>.
\<close>

section \<open>Two properties every operation keeps\<close>

interpretation any: sender_property "\<lambda>n s. True"
  by unfold_locales

text \<open>Generations do not repeat while fewer than 2^64 packets are retained.\<close>

definition fresh_queue :: "nat \<Rightarrow> Sender \<Rightarrow> bool" where
  "fresh_queue n s \<longleftrightarrow> queue_inv s \<and> unat (s_mRetentionGeneration s) + n < 2 ^ 64"

lemma getRetransmit_state_queue:
  assumes "queue_inv s"
  shows "queue_inv (getRetransmit_state s)" "s_mRetentionGeneration (getRetransmit_state s) = s_mRetentionGeneration s"
proof -
  have "queue_inv (getRetransmit_state s) \<and> s_mRetentionGeneration (getRetransmit_state s) = s_mRetentionGeneration s"
  proof (cases rule: getRetransmitFragment_cases [of s])
    case 1
    then show ?thesis using assms by (simp add: getRetransmit_state_def)
  next
    case (2 q rest)
    then show ?thesis using pop_request_inv [OF assms 2(1)] by (simp add: getRetransmit_state_def pop_request_def)
  next
    case (3 q rest f)
    have "s_mRetentionBuffer (pop_request s) (rq_mKey q) = Some f" using 3(2) by (simp add: pop_request_def)
    from retransmit_bump_inv(1) [OF this] pop_request_inv [OF assms 3(1)] 3(3) show ?thesis
      by (simp add: getRetransmit_state_def retransmit_bump_frame pop_request_def)
  qed
  then show "queue_inv (getRetransmit_state s)"
    "s_mRetentionGeneration (getRetransmit_state s) = s_mRetentionGeneration s" by simp_all
qed

lemma fresh_queue_retain:
  assumes "fresh_queue (Suc n) s"
  shows "fresh_queue n (retainFragment sf fn st d s)"
proof (cases "s_mRetentionMs s = 0 \<or> s_mRetentionMaxBytes s < length d")
  case True
  with assms show ?thesis by (simp add: fresh_queue_def retainFragment_off)
next
  case False
  then have on: "s_mRetentionMs s \<noteq> 0" "length d \<le> s_mRetentionMaxBytes s" by auto
  have "unat (- 1 :: u64) = 2 ^ 64 - 1" by (simp add: unsigned_minus_1_eq_mask mask_eq_exp_minus_1)
  with assms have "s_mRetentionGeneration s \<noteq> - 1" by (auto simp: fresh_queue_def)
  then have g: "s_mRetentionGeneration s \<noteq> - 1" "unat (s_mRetentionGeneration s + 1) = unat (s_mRetentionGeneration s) + 1"
    using assms by (simp_all add: fresh_queue_def unat_word_ariths)
  with assms retainFragment_queue_inv [of s] show ?thesis
    by (simp add: fresh_queue_def retainFragment_on(2) [OF on])
qed

lemma fresh_queue_evict: "fresh_queue n s \<Longrightarrow> fresh_queue n (evictOldRetention r s)"
  by (simp add: fresh_queue_def evictOldRetention_queue_inv evictOldRetention_frame)

interpretation queue: sender_property fresh_queue
proof unfold_locales
  fix n s
  show "fresh_queue n s \<Longrightarrow> fresh_queue n (getRetransmit_state s)"
    using getRetransmit_state_queue by (simp add: fresh_queue_def)
qed (simp_all add: fresh_queue_retain fresh_queue_evict, simp_all add: fresh_queue_def cong: queue_inv_cong)

section \<open>The sender as a machine\<close>

datatype SenderOp =
    Send bytes u8 u64 u64 u32 u8 u8
  | ReceiveNack bytes
  | ProcessRetransmits nat
  | GetSenderStatistics

fun sender_step :: "SenderOp \<Rightarrow> Sender \<Rightarrow> (Result \<times> Sender) option" where
  "sender_step (Send d ptype pts dts code st flags) s = send d ptype pts dts code st flags s"
| "sender_step (ReceiveNack d) s = receiveNack d s"
| "sender_step (ProcessRetransmits n) s = Some (OK, snd (processRetransmits n s))"
| "sender_step GetSenderStatistics s = Some (OK, s)"

lemma send_total:
  assumes "sender_inv s"
  shows "\<exists>r t. send d ptype pts dts code st flags s = Some (r, t) \<and> sender_inv t"
  using any.R_send [of 0 s d] assms by (simp add: any.R_def)

lemma receiveNack_total:
  assumes "sender_inv s"
  shows "\<exists>r t. receiveNack d s = Some (r, t) \<and> sender_inv t"
proof -
  obtain r t where rt: "receiveNack d s = Some (r, t)"
    unfolding receiveNack_spec by (cases "(if nack_wellformed d then nack_process (nack_decode d) s
      else (if length d < 3 then FRAME_SIZE_MISMATCH
             else if getFrameType (nk_mFrameType (dec_nack d)) \<noteq> TYPE0 \<or> nk_mSubtype (dec_nack d) \<noteq> type0SubtypeValue NACK
             then INVALID_PARAMETER else FRAME_SIZE_MISMATCH, s))") (simp only: option.inject)
  from sender_inv_same_store [OF assms receiveNack_keeps(1) [OF rt]] rt show ?thesis by blast
qed

definition sender_core :: "Sender \<Rightarrow> bool" where
  "sender_core s \<longleftrightarrow> sender_inv (s\<lparr>s_out := []\<rparr>)"

lemma sender_inv_core: "sender_inv s \<longleftrightarrow> sender_core s \<and> (\<forall>(p, st) \<in> set (s_out s). length p \<le> unat (s_mMtu s))"
  by (auto simp: sender_core_def sender_inv_def store_inv_def)

lemma clear_out:
  "pop_request (u\<lparr>s_out := []\<rparr>) = (pop_request u)\<lparr>s_out := []\<rparr>"
  "retransmit_bump q f (u\<lparr>s_out := []\<rparr>) = (retransmit_bump q f u)\<lparr>s_out := []\<rparr>"
  by (cases u, simp add: pop_request_def retransmit_bump_def)+

lemma processRetransmits_total:
  assumes inv: "sender_inv s" and p: "processRetransmits n s = (c, t)"
  shows "sender_inv t"
proof -
  have loop: "retransmit_loop n 0 s = (c, t)" using p by (simp add: processRetransmits_def)
  have base: "sender_core s \<and> s_mMtu s = s_mMtu s" using inv by (simp add: sender_inv_core)
  have "sender_core t \<and> s_mMtu t = s_mMtu s"
  proof (rule retransmit_loop_keeps [where P = "\<lambda>t. sender_core t \<and> s_mMtu t = s_mMtu s", OF loop])
    fix u q rest assume "sender_core u \<and> s_mMtu u = s_mMtu s"
    then show "sender_core (pop_request u) \<and> s_mMtu (pop_request u) = s_mMtu s"
      using sender_inv_pop [of "u\<lparr>s_out := []\<rparr>"] by (simp add: sender_core_def clear_out) (simp add: pop_request_def)
  next
    fix u :: Sender and q :: RetransmitRequest and f assume "sender_core u \<and> s_mMtu u = s_mMtu s" "s_mRetentionBuffer u (rq_mKey q) = Some f"
    then show "sender_core (retransmit_bump q f u) \<and> s_mMtu (retransmit_bump q f u) = s_mMtu s"
      using sender_inv_bump [of "u\<lparr>s_out := []\<rparr>" q f] by (simp add: sender_core_def clear_out) (simp add: retransmit_bump_def)
  next
    fix u :: Sender and out assume "sender_core u \<and> s_mMtu u = s_mMtu s"
    then show "sender_core (u\<lparr>s_out := out\<rparr>) \<and> s_mMtu (u\<lparr>s_out := out\<rparr>) = s_mMtu s" by (simp add: sender_core_def)
  qed (rule base)
  moreover have "length (fst (request_copy s q)) \<le> unat (s_mMtu s)" if live: "live_request s q" for q
  proof -
    from live_request_Some [OF live] obtain f where "s_mRetentionBuffer s (rq_mKey q) = Some f" by blast
    with inv show ?thesis by (simp add: request_copy_def sender_inv_def frame_ok_def)
  qed
  moreover have "\<forall>x \<in> set (s_out t). length (fst x) \<le> unat (s_mMtu s)"
  proof
    fix x assume "x \<in> set (s_out t)"
    moreover have "set (take (n - 0) (filter (live_request s) (s_mRetransmitQueue s))) \<subseteq> {q. live_request s q}"
      using set_take_subset by fastforce
    ultimately have "x \<in> set (s_out s) \<or> (\<exists>q. live_request s q \<and> x = request_copy s q)"
      using retransmit_loop_out [OF loop] by auto
    with inv \<open>\<And>q. live_request s q \<Longrightarrow> length (fst (request_copy s q)) \<le> unat (s_mMtu s)\<close>
    show "length (fst x) \<le> unat (s_mMtu s)" by (auto simp: sender_inv_def)
  qed
  ultimately show ?thesis by (auto simp: sender_inv_core)
qed

interpretation sender: safe_machine sender_inv sender_step
proof unfold_locales
  fix x s assume inv: "sender_inv s"
  show "\<exists>r s'. sender_step x s = Some (r, s') \<and> sender_inv s'"
  proof (cases x)
    case (Send d ptype pts dts code st flags)
    then show ?thesis using send_total [OF inv] by simp
  next
    case (ReceiveNack d)
    then show ?thesis using receiveNack_total [OF inv] by simp
  next
    case (ProcessRetransmits n)
    then show ?thesis using processRetransmits_total [OF inv] by (simp add: prod_eq_iff)
  qed (use inv in simp)
qed

end
