(* ===== verification/Efp_SendSpec.thy ===== *)
theory Efp_SendSpec
  imports Efp_SenderMachine "HOL-Library.Sublist"
begin

text \<open>
  What \<open>send\<close> means for the network: the fragments carried by the packets it hands to the transport
  are the abstract fragments of the payload, in order, in the single and in the bundled modes. A
  bundle is taken apart the way \<open>handleType4\<close> does it, by equal division.
\<close>

section \<open>The fragments of a packet\<close>

text \<open>A Type4 packet is a header and frames of equal length; every other packet is one fragment.\<close>

definition unpack :: "bytes \<Rightarrow> bytes list" where
  "unpack p =
     (if p \<noteq> [] \<and> getFrameType (hd p) = TYPE4
      then let n = unat (t4_mFrameCount (dec_type4 p)); z = (length p - 2) div n
           in map (\<lambda>j. take z (drop (2 + j * z) p)) [0 ..< n]
      else [p])"

lemma chunks_concat:
  assumes "\<forall>x \<in> set xs. length x = z"
  shows "map (\<lambda>j. take z (drop (j * z) (concat xs))) [0 ..< length xs] = xs"
  using assms
proof (induction xs)
  case (Cons x xs)
  have "[0 ..< length (x # xs)] = 0 # map Suc [0 ..< length xs]"
    by (simp add: upt_conv_Cons map_Suc_upt del: upt_Suc)
  with Cons show ?case by (simp add: comp_def)
qed simp

lemma length_concat_same: "\<forall>x \<in> set xs. length x = z \<Longrightarrow> length (concat xs) = length xs * z"
  by (induction xs) auto

lemma unpack_type4:
  assumes "getFrameType (t4_mFrameType h) = TYPE4" "unat (t4_mFrameCount h) = length xs" "xs \<noteq> []"
    and "\<forall>x \<in> set xs. length x = z"
  shows "unpack (enc_type4 h @ concat xs) = xs"
proof -
  have h: "hd (enc_type4 h @ concat xs) = t4_mFrameType h" "enc_type4 h \<noteq> []" by (simp_all add: enc_defs)
  have "length xs * z div length xs = z" using assms(3) by simp
  then show ?thesis
    using assms(1,2) chunks_concat [OF assms(4)]
    by (simp add: unpack_def h type4.dec_enc type4.length_enc length_concat_same [OF assms(4)] Let_def)
qed

lemma unpack_frame: "frame_ok mtu sf fn st p \<Longrightarrow> unpack p = [p]"
  by (auto simp: unpack_def frame_ok_def frame_ids_def)

lemma unpack_packet:
  assumes "args_ok mtu a" "i + k \<le> fa_aNumType1Fragments a" "0 < k" "k \<le> 8" "x \<noteq> None \<Longrightarrow> Suc k \<le> 8"
    and "x \<noteq> None \<Longrightarrow> length (the x) = 8 + fa_aType1PayloadSize a"
  shows "unpack (bundle_packet a x (type1_frames a i k)) =
    (case x of None \<Rightarrow> [] | Some d \<Rightarrow> [d]) @ map snd (type1_frames a i k)"
proof -
  let ?xs = "(case x of None \<Rightarrow> [] | Some d \<Rightarrow> [d]) @ map snd (type1_frames a i k)"
  have "\<forall>p \<in> set (map snd (type1_frames a i k)). length p = 8 + fa_aType1PayloadSize a"
    using type1_piece(2) [OF assms(1)] assms(2) by (auto simp: type1_frames_def)
  then have len: "\<forall>p \<in> set ?xs. length p = 8 + fa_aType1PayloadSize a"
    using assms(6) by (cases x) auto
  have n: "length ?xs = k + (if x \<noteq> None then 1 else 0)" by (cases x) (simp_all add: length_type1_frames)
  then have ne: "?xs \<noteq> []" using assms(3) by (metis add_is_0 length_0_conv less_not_refl)
  let ?h = "\<lparr>t4_mFrameType = makeFrameTypeByte TYPE4 (fa_aFlags a),
      t4_mFrameCount = word_of_nat (length (type1_frames a i k) + (if x \<noteq> None then 1 else 0))\<rparr>"
  have "length ?xs < 256" using assms(4,5) n by (cases x) simp_all
  then have c: "unat (t4_mFrameCount ?h) = length ?xs"
    unfolding n by (simp only: FrameType4.simps length_type1_frames unat_of_nat take_bit_eq_mod) simp
  have "bundle_packet a x (type1_frames a i k) = enc_type4 ?h @ concat ?xs"
    by (cases x) (simp_all add: bundle_packet_def)
  with unpack_type4 [of ?h, OF _ c ne len] show ?thesis by simp
qed

text \<open>A bundle the receiver can take apart: equal parts, all of them Type1 frames.\<close>

definition whole :: "bytes \<Rightarrow> bool" where
  "whole p \<longleftrightarrow> p \<noteq> [] \<and> (getFrameType (hd p) = TYPE4 \<longrightarrow>
     (let n = unat (t4_mFrameCount (dec_type4 p))
      in 2 \<le> length p \<and> 0 < n \<and> (length p - 2) mod n = 0 \<and>
         list_all (\<lambda>q. 8 \<le> length q \<and> getFrameType (hd q) = TYPE1) (unpack p)))"

lemma whole_frame: "frame_ok mtu sf fn st p \<Longrightarrow> whole p"
  by (auto simp: whole_def frame_ok_def frame_ids_def split: if_splits)

lemma hd_type1_frame: "getFrameType (hd (type1_frame a i)) = TYPE1" "8 \<le> length (type1_frame a i)"
  by (simp_all add: type1_frame_def enc_type1_def type1_header_def)

lemma whole_packet:
  assumes "args_ok mtu a" "i + k \<le> fa_aNumType1Fragments a" "0 < k" "k \<le> 8"
  shows "whole (bundle_packet a None (type1_frames a i k))"
proof -
  let ?p = "bundle_packet a None (type1_frames a i k)" and ?xs = "map snd (type1_frames a i k)"
  have "\<forall>p \<in> set ?xs. length p = 8 + fa_aType1PayloadSize a"
    using type1_piece(2) [OF assms(1)] assms(2) by (auto simp: type1_frames_def)
  from length_concat_same [OF this] have len: "length (concat ?xs) = k * (8 + fa_aType1PayloadSize a)"
    by (simp add: length_type1_frames)
  have "k < 256" using assms(4) by simp
  then have c: "unat (word_of_nat k :: u8) = k" by (simp add: unat_of_nat take_bit_eq_mod)
  have p: "?p = enc_type4 \<lparr>t4_mFrameType = makeFrameTypeByte TYPE4 (fa_aFlags a), t4_mFrameCount = word_of_nat k\<rparr> @ concat ?xs"
    by (simp add: bundle_packet_def length_type1_frames)
  have "unpack ?p = ?xs" using unpack_packet [OF assms(1-4), of None] by simp
  moreover have "list_all (\<lambda>q. 8 \<le> length q \<and> getFrameType (hd q) = TYPE1) ?xs"
    by (auto simp: list_all_iff type1_frames_def hd_type1_frame)
  moreover have "?p \<noteq> []" by (simp add: p enc_type4_def)
  ultimately show ?thesis
    using len c assms(3) by (simp add: whole_def Let_def) (simp add: p type4.dec_enc type4.length_enc)
qed

section \<open>What a bundled send hands to the transport\<close>

definition unpacked :: "(bytes \<times> u8) list \<Rightarrow> bytes list" where
  "unpacked ps = concat (map (unpack \<circ> fst) ps)"

lemma unpacked_append: "unpacked (xs @ ys) = unpacked xs @ unpacked ys"
  by (simp add: unpacked_def)

lemma unpacked_frames:
  "(\<And>fn p. (fn, p) \<in> set fs \<Longrightarrow> frame_ok mtu sf fn st p) \<Longrightarrow> unpacked (map (\<lambda>(fn, p). (p, st)) fs) = map snd fs"
proof (induction fs)
  case (Cons x fs)
  obtain fn p where x: "x = (fn, p)" by (cases x)
  have "unpack p = [p]" by (rule unpack_frame [of mtu sf fn st]) (rule Cons.prems, simp add: x)
  with Cons x show ?case by (simp add: unpacked_def)
qed (simp add: unpacked_def)

text \<open>
  The fragments of \<open>fs\<close> leave in order; without pending retransmits nothing else does.
\<close>

definition carries :: "bytes list \<Rightarrow> Sender \<Rightarrow> Sender \<Rightarrow> bool" where
  "carries fs s t \<longleftrightarrow> (\<exists>ps. s_out t = s_out s @ ps \<and> subseq fs (unpacked ps) \<and>
     (s_mRetransmitQueue s = [] \<longrightarrow> unpacked ps = fs \<and> list_all (whole \<circ> fst) ps \<and> s_mRetransmitQueue t = [])) \<and>
     s_mSuperFrameNo t = s_mSuperFrameNo s"

lemma carries_trans: "carries fs s t \<Longrightarrow> carries gs t u \<Longrightarrow> carries (fs @ gs) s u"
  by (fastforce simp: carries_def unpacked_append intro: list_emb_append_mono)

lemma carries_emits:
  assumes "emits sf st fs s t" "\<And>fn p. (fn, p) \<in> set fs \<Longrightarrow> frame_ok mtu sf fn st p"
  shows "carries (map snd fs) s t"
proof -
  have "list_all (whole \<circ> fst) (map (\<lambda>(fn, p). (p, st)) fs)"
    using whole_frame [OF assms(2)] by (auto simp: list_all_iff)
  then show ?thesis using emits_frame [OF assms(1)] unpacked_frames [OF assms(2)] by (auto simp: carries_def)
qed

lemma carries_bundle_step:
  assumes ok: "args_ok (unat (s_mMtu s)) a" and inv: "sender_inv s" and mode: "s_mSubFragmentMode s \<noteq> SINGLE"
    and fit: "2 + unat bs * (8 + fa_aType1PayloadSize a) \<le> unat (s_mMtu s)" and i: "i < fa_aNumType1Fragments a"
    and bs: "bs \<noteq> 0" "unat bs \<le> 8"
    and run: "bundle_step a bs i (i * fa_aType1PayloadSize a) s = Some (k, off, t)"
  shows "carries (map snd (type1_frames a i k)) s t"
proof -
  let ?m = "min (unat bs) (fa_aNumType1Fragments a - i)" and ?fs = "type1_frames a i k"
  from bundle_step_runs [OF ok inv mode fit i bs(1)] run obtain x u b v where
    r: "bundle_retransmit a ?m s = (k, x, u)" and k: "0 < k" "i + k \<le> fa_aNumType1Fragments a"
    and v: "stores (fa_aSuperFrameNo a) (fa_aStreamId a) ?fs (u\<lparr>s_mBundleBuffer := b\<rparr>) v"
    and t: "t = send_bundle (bundle_packet a x ?fs) (fa_aStreamId a) v" by (metis option.inject prod.inject)
  note res = bundle_retransmit_result [OF inv r]
  have x: "length (the x) = 8 + fa_aType1PayloadSize a" "Suc k \<le> 8" if "x \<noteq> None"
    using res(7) that bs(2) by simp_all
  have "k \<le> 8" using res(5) bs(2) by simp
  with unpack_packet [OF ok k(2,1) _ x(2,1)] have
    p: "unpack (bundle_packet a x ?fs) = (case x of None \<Rightarrow> [] | Some d \<Rightarrow> [d]) @ map snd ?fs" by simp
  have "s_mSuperFrameNo (getRetransmit_state s) = s_mSuperFrameNo s"
    by (cases rule: getRetransmitFragment_cases [of s])
      (simp_all add: getRetransmit_state_def pop_request_def retransmit_bump_def)
  with res(9) have "s_mSuperFrameNo u = s_mSuperFrameNo s" by (auto simp: mCallback_def)
  with stores_frame [OF v] have "s_mSuperFrameNo t = s_mSuperFrameNo s"
    by (simp add: t send_bundle_def mCallback_def)
  moreover from res(8) obtain q where q: "s_out u = s_out s @ q" "s_mRetransmitQueue s = [] \<longrightarrow> x = None \<and> u = s" by blast
  moreover have "s_out t = s_out s @ q @ [(bundle_packet a x ?fs, fa_aStreamId a)]" "s_mRetransmitQueue t = s_mRetransmitQueue u"
    using stores_frame [OF v] q(1) by (simp_all add: t send_bundle_def mCallback_def)
  moreover have "unpacked (q @ [(bundle_packet a x ?fs, fa_aStreamId a)]) =
      unpacked q @ (case x of None \<Rightarrow> [] | Some d \<Rightarrow> [d]) @ map snd ?fs" (is "?l = _")
    by (simp add: unpacked_append) (simp add: unpacked_def p)
  moreover have "subseq (map snd ?fs) (unpacked q @ (case x of None \<Rightarrow> [] | Some d \<Rightarrow> [d]) @ map snd ?fs)"
    by (intro list_emb_append2) simp
  moreover have "s_mRetransmitQueue s = [] \<Longrightarrow> q = [] \<and> x = None \<and> u = s" using q by auto
  moreover have "whole (bundle_packet a None ?fs)" by (rule whole_packet [OF ok k(2,1) \<open>k \<le> 8\<close>])
  ultimately show ?thesis unfolding carries_def
    by (intro conjI exI [of _ "q @ [(bundle_packet a x ?fs, fa_aStreamId a)]"]) (auto simp: unpacked_def)
qed

lemma carries_bundle_loop:
  assumes "sender_inv s" "args_ok (unat (s_mMtu s)) a" "s_mSubFragmentMode s \<noteq> SINGLE"
    and "2 + unat (subFragmentValue mode) * (8 + fa_aType1PayloadSize a) \<le> unat (s_mMtu s)" "i \<le> fa_aNumType1Fragments a"
    and "bundle_loop a mode i (i * fa_aType1PayloadSize a) s = Some (off, t)"
  shows "carries (map snd (type1_frames a i (fa_aNumType1Fragments a - i))) s t"
  using assms
proof (induction "fa_aNumType1Fragments a - i" arbitrary: i s rule: less_induct)
  case less
  let ?N = "fa_aNumType1Fragments a"
  show ?case
  proof (cases "i < ?N")
    case False
    with less.prems(5,6) show ?thesis
      by (simp add: bundle_loop.simps [of a mode ?N] carries_def type1_frames_def unpacked_def)
  next
    case True
    have bs: "subFragmentValue mode \<noteq> 0" "unat (subFragmentValue mode) \<le> 8" by (cases mode; simp)+
    from any.R_bundle_step [of 0 a i s, OF _ less.prems(2) _ less.prems(3,4) True bs] less.prems(1) obtain k u where
      st: "bundle_step a (subFragmentValue mode) i (i * fa_aType1PayloadSize a) s = Some (k, (i + k) * fa_aType1PayloadSize a, u)"
      and u: "sender_inv u" "s_mMtu u = s_mMtu s" "s_mSubFragmentMode u = s_mSubFragmentMode s"
      and k: "0 < k" "i + k \<le> ?N" by (auto simp: any.R_def any.made_of_def)
    have c: "carries (map snd (type1_frames a i k)) s u"
      by (rule carries_bundle_step [OF less.prems(2,1,3,4) True bs st])
    have lt: "?N - (i + k) < ?N - i" using k by simp
    have loop: "bundle_loop a mode (i + k) ((i + k) * fa_aType1PayloadSize a) u = Some (off, t)"
      using less.prems(6) st True by (simp add: bundle_loop.simps [of a mode i])
    have "carries (map snd (type1_frames a (i + k) (?N - (i + k)))) u t"
      using less.prems(2-4) u k(2) loop by (intro less.hyps [OF lt u(1)]) simp_all
    from carries_trans [OF c this] have "carries (map snd (type1_frames a i (k + (?N - (i + k))))) s t"
      by (simp only: map_append [symmetric] type1_frames_append)
    moreover have "k + (?N - (i + k)) = ?N - i" using k(2) by simp
    ultimately show ?thesis by simp
  qed
qed

lemma carries_sendFragmentedBundled:
  assumes inv: "sender_inv s" and ok: "args_ok (unat (s_mMtu s)) a" and mode: "s_mSubFragmentMode s \<noteq> SINGLE"
    and fit: "2 + unat (subFragmentValue mode) * (8 + fa_aType1PayloadSize a) \<le> unat (s_mMtu s)"
    and run: "sendFragmentedBundled a mode s = Some (r, t)"
  shows "carries (map snd (frames_of a)) s t" "r = OK"
proof -
  let ?N = "fa_aNumType1Fragments a"
  let ?f3 = "if fa_aNeedsType3 a then [(fa_aOfFragmentNo a - 1, type3_frame a)] else []"
  let ?tl = "?f3 @ [(fa_aOfFragmentNo a, type2_frame a)]"
  from any.R_bundle_loop [of 0 a 0 s, OF _ ok _ mode fit] inv obtain u where
    u: "bundle_loop a mode 0 0 s = Some (?N * fa_aType1PayloadSize a, u)" "sender_inv u" "s_mMtu u = s_mMtu s"
    by (auto simp: any.R_def any.made_of_def)
  have "carries (map snd (type1_frames a 0 (?N - 0))) s u"
    using u(1) by (intro carries_bundle_loop [OF inv ok mode fit]) simp_all
  then have c: "carries (map snd (type1_frames a 0 ?N)) s u" by simp
  have ok': "args_ok (unat (s_mMtu u)) a" using ok u(3) by simp
  have buf: "length (s_mSendBuffer u) = unat (s_mMtu u)" using u(2) by (simp add: sender_inv_def)
  from send_type3_emits [OF ok' buf] obtain v where
    v: "send_type3 a (?N * fa_aType1PayloadSize a) u = Some (type2_offset a, v)"
      "emits (fa_aSuperFrameNo a) (fa_aStreamId a) ?f3 u v" by blast
  have "args_ok (unat (s_mMtu v)) a" "length (s_mSendBuffer v) = unat (s_mMtu v)"
    using emits_frame [OF v(2)] ok' buf by simp_all
  from send_type2_emits [OF this] obtain w where
    w: "send_type2 a (type2_offset a) v = Some w"
      "emits (fa_aSuperFrameNo a) (fa_aStreamId a) [(fa_aOfFragmentNo a, type2_frame a)] v w" by blast
  from run u(1) v(1) w(1) have rt: "r = OK" "t = w" by (simp_all add: sendFragmentedBundled_def)
  have "emits (fa_aSuperFrameNo a) (fa_aStreamId a) ?tl u t"
    using v(2) w(2) rt(2) unfolding emits_append by blast
  moreover have "frame_ok (unat (s_mMtu s)) (fa_aSuperFrameNo a) fn (fa_aStreamId a) p" if "(fn, p) \<in> set ?tl" for fn p
    using that by (intro frames_of_ok [OF ok]) (auto simp: frames_of_def split: if_splits)
  ultimately have "carries (map snd ?tl) u t" by (rule carries_emits)
  from carries_trans [OF c this] show "carries (map snd (frames_of a)) s t"
    by (simp only: map_append [symmetric] frames_of_split)
  show "r = OK" by (rule rt(1))
qed

section \<open>send\<close>

lemma sent_args_ok:
  assumes "256 \<le> unat (s_mMtu s)" "unat (s_mMtu s) - 27 < length d" "sent_total d s \<le> MAX_FRAGMENTS_PER_SUPERFRAME"
  shows "args_ok (unat (s_mMtu s)) (sent_args d ptype pts dts code st flags s)"
    "8 + fa_aType1PayloadSize (sent_args d ptype pts dts code st flags s) = type1_frame_size (s_mMtu s) (s_mSubFragmentMode s)"
proof -
  note fits = type1_frame_size_fits [OF assms(1), of "s_mSubFragmentMode s"]
  show "args_ok (unat (s_mMtu s)) (sent_args d ptype pts dts code st flags s)"
    unfolding sent_args_def using assms fits(2,3)
    by (intro plan_args_ok) (simp_all add: sent_total_def)
  show "8 + fa_aType1PayloadSize (sent_args d ptype pts dts code st flags s) = type1_frame_size (s_mMtu s) (s_mSubFragmentMode s)"
    using fits(2) by (simp add: sent_args_def plan_args_def Let_def)
qed

lemma carries_cong:
  "carries fs t u \<Longrightarrow> s_out t = s_out s \<Longrightarrow> s_mRetransmitQueue t = s_mRetransmitQueue s \<Longrightarrow>
     s_mSuperFrameNo t = s_mSuperFrameNo s + 1 \<Longrightarrow>
     carries fs (s\<lparr>s_mSuperFrameNo := s_mSuperFrameNo s + 1\<rparr>) u"
  by (simp add: carries_def)

lemma carries_single:
  assumes "256 \<le> unat (s_mMtu s)" "length (s_mSendBuffer s) = unat (s_mMtu s)" "length d \<le> unat (s_mMtu s) - 27"
    and "sendType2Only d ptype pts diff code st flags s = Some (r, t)"
  shows "r = OK" "carries [single_frame d ptype pts diff code st flags (s_mSuperFrameNo s)]
    (s\<lparr>s_mSuperFrameNo := s_mSuperFrameNo s + 1\<rparr>) t"
proof -
  have fit: "27 + length d \<le> unat (s_mMtu s)" using assms(1,3) by simp
  let ?s = "s\<lparr>s_mSuperFrameNo := s_mSuperFrameNo s + 1\<rparr>" and ?f = "single_frame d ptype pts diff code st flags (s_mSuperFrameNo s)"
  from sendType2Only_emit [OF fit assms(2), of ptype pts diff code st flags] assms(4) obtain b where
    t: "r = OK" "length b = unat (s_mMtu s)" "t = emit (s_mSuperFrameNo s) 0 st b ?f ?s" by auto
  show "r = OK" by (rule t(1))
  have "length b = length (s_mSendBuffer ?s)" using t(2) assms(2) by simp
  from emits_one [OF this] have "emits (s_mSuperFrameNo s) st [(0, ?f)] ?s t" unfolding t(3) .
  from carries_emits [OF this, of "unat (s_mMtu s)"] single_frame_ok [OF fit] show "carries [?f] ?s t" by simp
qed

text \<open>
  The functional behaviour of \<open>send\<close>: the outcome is decided by the length alone; an accepted payload
  takes one superframe number and its abstract fragments leave in order, in bundles or not.
\<close>

lemma send_carries:
  assumes inv: "sender_inv s" and run: "send d ptype pts dts code st flags s = Some (r, t)"
  shows "r = send_outcome d s"
    and "r = OK \<Longrightarrow> carries (map snd (sent_frames d ptype pts dts code st flags s))
      (s\<lparr>s_mSuperFrameNo := s_mSuperFrameNo s + 1\<rparr>) t"
    and "r \<noteq> OK \<Longrightarrow> s_out t = s_out s \<and> s_mSuperFrameNo t = s_mSuperFrameNo s"
proof -
  let ?u = "after_evict s" and ?mtu = "unat (s_mMtu s)" and ?t1 = "type1_frame_size (s_mMtu s) (s_mSubFragmentMode s) - 8"
  have mtu: "256 \<le> ?mtu" using inv by (simp add: sender_inv_def)
  have u: "sender_inv ?u" using inv sender_inv_evict by (simp add: after_evict_def)
  have fr: "s_mMtu ?u = s_mMtu s" "s_mSubFragmentMode ?u = s_mSubFragmentMode s" "s_mSuperFrameNo ?u = s_mSuperFrameNo s"
    "s_out ?u = s_out s" "s_mRetransmitQueue ?u = s_mRetransmitQueue s"
    using after_evict_frame [of s] by (simp_all add: same_sender_def)
  have buf: "256 \<le> unat (s_mMtu ?u)" "length (s_mSendBuffer ?u) = unat (s_mMtu ?u)" using u mtu fr by (simp_all add: sender_inv_def)
  let ?s1 = "?u\<lparr>s_mSuperFrameNo := s_mSuperFrameNo ?u + 1\<rparr>"
  have main: "r = send_outcome d s \<and> (r = OK \<longrightarrow> carries (map snd (sent_frames d ptype pts dts code st flags s)) ?s1 t) \<and>
    (r \<noteq> OK \<longrightarrow> s_out t = s_out s \<and> s_mSuperFrameNo t = s_mSuperFrameNo s)"
  proof (cases "d = [] \<or> MAX_SUPERFRAME_SIZE < length d")
    case True
    then show ?thesis using run by (auto simp: send_outcomes [OF mtu] send_outcome_def Let_def MAX_SUPERFRAME_SIZE_def)
  next
    case False
    show ?thesis
    proof (cases "length d \<le> ?mtu - 27")
      case True
      have "sendType2Only d ptype pts (dtsPtsDiff pts dts) code st flags ?u = Some (r, t)"
        using run False True by (simp add: send_outcomes [OF mtu] Let_def)
      from carries_single [OF buf _ this] True fr have "r = OK"
        "carries [single_frame d ptype pts (dtsPtsDiff pts dts) code st flags (s_mSuperFrameNo s)] ?s1 t" by simp_all
      with False True show ?thesis by (simp add: send_outcome_def sent_total_def sent_frames_def MAX_FRAGMENTS_PER_SUPERFRAME_def)
    next
      case big: False
      let ?p = "fragmentPlan ?mtu ?t1 (length d)" and ?a = "sent_args d ptype pts dts code st flags s"
      have total: "fp_lTotalFragments ?p = sent_total d s" using big by (simp add: sent_total_def)
      have "2 \<le> fp_lTotalFragments ?p"
        using type1_frame_size_fits(2,3) [OF mtu, of "s_mSubFragmentMode s"] big mtu
        by (intro fragmentPlan_cases(7) unat_bounds) simp_all
      then have t0: "sent_total d s \<noteq> 0" using total by simp
      have frag: "sendFragmented d ptype pts (dtsPtsDiff pts dts) code st flags ?t1 ?u = Some (r, t)"
        using run False big by (simp add: send_outcomes [OF mtu] Let_def)
      have a: "plan_args d ptype pts (dtsPtsDiff pts dts) code st flags ?t1 ?u = ?a"
        using same_sender_args [OF after_evict_frame [of s], of d ptype pts dts code st flags] fr by (simp add: sent_args_def)
      have step: "(if sent_total d s > MAX_FRAGMENTS_PER_SUPERFRAME then Some (TOO_LARGE_FRAME, ?u)
          else if s_mSubFragmentMode s = SINGLE then sendFragmentedSingle ?a ?s1
          else sendFragmentedBundled ?a (s_mSubFragmentMode s) ?s1) = Some (r, t)"
        using frag unfolding sendFragmented_plan Let_def fr a total using t0 by (simp del: fr)
      show ?thesis
      proof (cases "sent_total d s > MAX_FRAGMENTS_PER_SUPERFRAME")
        case True
        with step False fr show ?thesis by (auto simp: send_outcome_def)
      next
        case small: False
        note args = sent_args_ok [OF mtu, of d ptype pts dts code st flags]
        have ok: "args_ok (unat (s_mMtu ?s1)) ?a" and t1: "8 + fa_aType1PayloadSize ?a = type1_frame_size (s_mMtu s) (s_mSubFragmentMode s)"
          using args big small fr by (simp_all add: not_less not_le)
        have inv1: "sender_inv ?s1" by (rule sender_inv_buffers(4) [OF u])
        have "r = OK \<and> carries (map snd (frames_of ?a)) ?s1 t"
        proof (cases "s_mSubFragmentMode s = SINGLE")
          case True
          then have "8 + fa_aType1PayloadSize ?a = unat (s_mMtu ?s1)" using t1 fr by (simp add: type1_frame_size_def)
          from sendFragmentedSingle_emits [OF ok this] buf(2) step small True obtain
            "r = OK" "emits (fa_aSuperFrameNo ?a) (fa_aStreamId ?a) (frames_of ?a) ?s1 t" by auto
          with carries_emits frames_of_ok [OF ok] show ?thesis by blast
        next
          case bundled: False
          then have fit: "2 + unat (subFragmentValue (s_mSubFragmentMode s)) * (8 + fa_aType1PayloadSize ?a) \<le> unat (s_mMtu ?s1)"
            using type1_frame_size_fits(1) [OF mtu] t1 fr by simp
          have "sendFragmentedBundled ?a (s_mSubFragmentMode s) ?s1 = Some (r, t)" using step small bundled by simp
          from carries_sendFragmentedBundled [OF inv1 ok _ fit this] bundled fr show ?thesis by simp
        qed
        with False big small show ?thesis by (simp add: send_outcome_def sent_frames_def)
      qed
    qed
  qed
  then show "r = send_outcome d s" "r \<noteq> OK \<Longrightarrow> s_out t = s_out s \<and> s_mSuperFrameNo t = s_mSuperFrameNo s" by simp_all
  show "carries (map snd (sent_frames d ptype pts dts code st flags s)) (s\<lparr>s_mSuperFrameNo := s_mSuperFrameNo s + 1\<rparr>) t" if "r = OK"
    using main that fr by (simp add: carries_def)
qed

end
