(* ===== verification/Efp_SenderProps.thy ===== *)
theory Efp_SenderProps
  imports Efp_SendSpec
begin

text \<open>
  The properties of the sender: runs are safe and bounded, payloads leave as their fragments, and
  a NACK is answered by the retained copies it names. The locale interpretations cover the retention
  limit and the configuration; a sample sender serves as witness.
\<close>

section \<open>The retention limit\<close>

text \<open>Replacing a retained packet can overshoot the limit, by less than one packet.\<close>

definition within_limit :: "Sender \<Rightarrow> bool" where
  "within_limit s \<longleftrightarrow> s_mRetentionBufferBytes s \<le> s_mRetentionMaxBytes s + unat (s_mMtu s)"

lemma within_limit_retain:
  assumes "sender_inv s" "within_limit s"
  shows "within_limit (retainFragment sf fn st d s)"
proof (cases "s_mRetentionMs s = 0 \<or> s_mRetentionMaxBytes s < length d")
  case True
  with assms(2) show ?thesis by (simp add: retainFragment_off)
next
  case False
  then have on: "s_mRetentionMs s \<noteq> 0" "length d \<le> s_mRetentionMaxBytes s" by auto
  have "length (rf_mData f) \<le> unat (s_mMtu s)" if "s_mRetentionBuffer s k = Some f" for k f
    using assms(1) that by (simp add: sender_inv_def frame_ok_def)
  moreover have "store_inv s" using assms(1) by (simp add: sender_inv_def)
  ultimately show ?thesis
    using retainFragment_limit_weak [OF _ on, of sf fn st]
    by (auto simp: within_limit_def retainFragment_send_buffer split: option.splits intro: order.trans)
qed

lemma within_limit_evict: "sender_inv s \<Longrightarrow> within_limit s \<Longrightarrow> within_limit (evictOldRetention 0 s)"
  using evictOldRetention_room [of s 0] evictOldRetention_frame(1) [of s 0]
  by (simp add: within_limit_def sender_inv_def same_sender_def)

lemma within_limit_retransmit: "within_limit s \<Longrightarrow> within_limit (getRetransmit_state s)"
  by (cases rule: getRetransmitFragment_cases [of s])
    (simp_all add: within_limit_def getRetransmit_state_def pop_request_def retransmit_bump_def)

interpretation limit: sender_property "\<lambda>n. within_limit"
  by unfold_locales
    (simp_all add: within_limit_retain within_limit_evict within_limit_retransmit, simp_all add: within_limit_def)

lemma sender_step_limit:
  assumes "sender_inv s" "within_limit s" "sender_step x s = Some (r, t)"
  shows "within_limit t"
proof (cases x)
  case (Send d ptype pts dts code st flags)
  from limit.R_send [of 0 s d ptype pts dts code st flags] assms Send show ?thesis by (auto simp: limit.R_def)
next
  case (ReceiveNack d)
  with assms(3) have "receiveNack d s = Some (r, t)" by simp
  from receiveNack_keeps(1) [OF this] assms(2) show ?thesis by (simp add: within_limit_def same_store_def)
next
  case (ProcessRetransmits n)
  with assms(3) have "retransmit_loop n 0 s = (fst (processRetransmits n s), t)"
    by (simp add: processRetransmits_def prod_eq_iff)
  from this show ?thesis
    by (rule retransmit_loop_keeps) (use assms(2) in \<open>simp_all add: within_limit_def pop_request_def retransmit_bump_def\<close>)
qed (use assms in simp)

interpretation limited: safe_machine "\<lambda>s. sender_inv s \<and> within_limit s" sender_step
  using sender.step_safe sender_step_limit by unfold_locales blast

section \<open>The configuration of a sender is constant\<close>

definition configured :: "u16 \<Rightarrow> SubFragmentMode \<Rightarrow> u32 \<Rightarrow> nat \<Rightarrow> Sender \<Rightarrow> bool" where
  "configured mtu mode ms mx s \<longleftrightarrow> s_mMtu s = mtu \<and> s_mSubFragmentMode s = mode \<and> s_mRetentionMs s = ms \<and>
     s_mRetentionMaxBytes s = mx"

lemma configured_same_sender: "same_sender s t \<Longrightarrow> configured mtu mode ms mx t = configured mtu mode ms mx s"
  by (simp add: configured_def same_sender_def)

lemma configured_retransmit: "configured mtu mode ms mx s \<Longrightarrow> configured mtu mode ms mx (getRetransmit_state s)"
  by (cases rule: getRetransmitFragment_cases [of s])
    (simp_all add: configured_def getRetransmit_state_def pop_request_def retransmit_bump_def)

interpretation config: sender_property "\<lambda>n. configured mtu mode ms mx" for mtu mode ms mx
  by unfold_locales
    (simp_all add: configured_same_sender [OF retainFragment_frame] configured_same_sender [OF evictOldRetention_frame(1)]
      configured_retransmit, simp_all add: configured_def)

lemma sender_step_configured:
  assumes "sender_inv s" "configured mtu mode ms mx s" "sender_step x s = Some (r, t)"
  shows "configured mtu mode ms mx t"
proof (cases x)
  case (Send d ptype pts dts code st flags)
  from config.R_send [of mtu mode ms mx 0 s d ptype pts dts code st flags] assms Send show ?thesis by (auto simp: config.R_def)
next
  case (ReceiveNack d)
  with assms(3) have "receiveNack d s = Some (r, t)" by simp
  from receiveNack_keeps(1) [OF this] assms(2) show ?thesis by (simp add: configured_def same_store_def)
next
  case (ProcessRetransmits n)
  with assms(3) have "retransmit_loop n 0 s = (fst (processRetransmits n s), t)"
    by (simp add: processRetransmits_def prod_eq_iff)
  from this show ?thesis
    by (rule retransmit_loop_keeps) (use assms(2) in \<open>simp_all add: configured_def pop_request_def retransmit_bump_def\<close>)
qed (use assms in simp)

interpretation configured: safe_machine "\<lambda>s. sender_inv s \<and> configured mtu mode ms mx s" sender_step for mtu mode ms mx
  using sender.step_safe sender_step_configured by unfold_locales blast

section \<open>A NACK and the retransmission it causes\<close>

text \<open>The keys of the retained packets a NACK names, and the packet and stream that go out for a key.\<close>

definition requested_keys :: "Sender \<Rightarrow> bytes \<Rightarrow> u32 set" where
  "requested_keys s nack = {k. \<exists>f. s_mRetentionBuffer s k = Some f \<and>
     (rf_mStreamId f, k) \<in> set (concat (map nack_keys (nack_decode nack)))}"

definition copy_at :: "Sender \<Rightarrow> u32 \<Rightarrow> bytes \<times> u8" where
  "copy_at s k = (case s_mRetentionBuffer s k of None \<Rightarrow> ([], 0) | Some f \<Rightarrow> (rf_mData f, rf_mStreamId f))"

lemma nack_then_retransmit:
  assumes inv: "queue_inv s" and empty: "s_mRetransmitQueue s = []"
    and nack: "receiveNack d s = Some (OK, u)" and go: "processRetransmits n u = (c, t)"
    and enough: "length (s_mRetransmitQueue u) \<le> n"
  shows "\<exists>ks. distinct ks \<and> set ks = requested_keys s d \<and> s_out t = s_out s @ map (copy_at s) ks \<and> c = length ks"
proof -
  have u: "queue_inv u" "same_store s u" using receiveNack_keeps [OF nack] inv by simp_all
  have buf: "s_mRetentionBuffer u = s_mRetentionBuffer s" "s_out u = s_out s" using u(2) by (simp_all add: same_store_def)
  have "s_mQueuedRetransmits s = {}" using queue_invD(6) [OF inv] empty by simp
  with receiveNack_queued(3) [OF nack]
  have Q: "rq_mGeneration ` set (filter (live_request u) (s_mRetransmitQueue u)) =
      requested_generations s (set (concat (map nack_keys (nack_decode d))))"
    using queue_invD(6) [OF u(1)] by simp
  let ?live = "filter (live_request u) (s_mRetransmitQueue u)"
  have live: "\<exists>f. s_mRetentionBuffer u (rq_mKey q) = Some f \<and> rf_mGeneration f = rq_mGeneration q" if "q \<in> set ?live" for q
    using that by (auto simp: live_request_def split: option.splits)
  have keys: "rq_mKey ` set ?live = requested_keys s d"
  proof (intro equalityI subsetI)
    fix k assume "k \<in> rq_mKey ` set ?live"
    then obtain q where q: "q \<in> set ?live" "k = rq_mKey q" by auto
    from live [OF q(1)] obtain f where f: "s_mRetentionBuffer u k = Some f" "rf_mGeneration f = rq_mGeneration q"
      unfolding q(2) by blast
    have "rq_mGeneration q \<in> requested_generations s (set (concat (map nack_keys (nack_decode d))))"
      using q(1) unfolding Q [symmetric] by (rule imageI)
    then obtain g j where g: "s_mRetentionBuffer u j = Some g" "rf_mGeneration g = rf_mGeneration f"
        "(rf_mStreamId g, j) \<in> set (concat (map nack_keys (nack_decode d)))"
      using f(2) unfolding requested_generations_def buf(1) [symmetric] mem_Collect_eq by metis
    then have "j = k" using queue_invD(2) [OF u(1)] f(1) by blast
    with g buf(1) show "k \<in> requested_keys s d" unfolding requested_keys_def by auto
  next
    fix k assume "k \<in> requested_keys s d"
    then obtain f where f: "s_mRetentionBuffer u k = Some f" "(rf_mStreamId f, k) \<in> set (concat (map nack_keys (nack_decode d)))"
      unfolding requested_keys_def buf(1) by auto
    then have "rf_mGeneration f \<in> rq_mGeneration ` set ?live"
      unfolding Q requested_generations_def buf(1) [symmetric] by blast
    then obtain q where q: "q \<in> set ?live" "rq_mGeneration q = rf_mGeneration f" by auto
    then have "k = rq_mKey q" using queue_invD(4) [OF u(1) _ f(1)] by simp
    with q(1) show "k \<in> rq_mKey ` set ?live" by blast
  qed
  have "distinct (map rq_mGeneration ?live)" using queue_invD(5) [OF u(1)] by (rule distinct_map_filter)
  moreover have "rq_mGeneration p = rq_mGeneration q" if "p \<in> set ?live" "q \<in> set ?live" "rq_mKey p = rq_mKey q" for p q
    using live [OF that(1)] live [OF that(2)] that(3) by auto
  then have "inj_on rq_mGeneration (set ?live) \<Longrightarrow> inj_on rq_mKey (set ?live)" unfolding inj_on_def by blast
  ultimately have dist: "distinct (map rq_mKey ?live)" by (simp add: distinct_map)
  have copies: "map (request_copy u) ?live = map (copy_at s) (map rq_mKey ?live)"
    using live by (auto simp: request_copy_def copy_at_def buf(1) simp del: set_filter)
  have "take n ?live = ?live" using enough by (intro take_all) (meson length_filter_le order.trans)
  moreover have "retransmit_loop n 0 u = (c, t)" using go by (simp add: processRetransmits_def)
  note retransmit_loop_out [OF this]
  ultimately have "s_out t = s_out s @ map (copy_at s) (map rq_mKey ?live)" "c = length (map rq_mKey ?live)"
    using enough by (simp_all add: buf(2) copies)
  with dist keys show ?thesis by (intro exI [of _ "map rq_mKey ?live"]) simp
qed

section \<open>The fragments carry the payload\<close>

definition fragment_payload :: "bytes \<Rightarrow> bytes" where
  "fragment_payload p = (case getFrameType (hd p) of TYPE1 \<Rightarrow> drop 8 p | TYPE3 \<Rightarrow> drop 8 p | TYPE2 \<Rightarrow> drop 27 p | _ \<Rightarrow> [])"

lemma concat_pieces: "concat (map (\<lambda>i. piece (i * t) t d) [0 ..< n]) = take (n * t) d"
proof (induction n)
  case (Suc n)
  have "take (Suc n * t) d = take (n * t + t) d" by (simp add: add.commute)
  also have "\<dots> = take (n * t) d @ piece (n * t) t d" by (simp only: take_add piece_def)
  finally show ?case using Suc by simp
qed simp

lemma fragment_payload_frames:
  "fragment_payload (type1_frame a i) = piece (i * fa_aType1PayloadSize a) (fa_aType1PayloadSize a) (fa_apData a)"
  "fragment_payload (type3_frame a) = piece (fa_aNumType1Fragments a * fa_aType1PayloadSize a) (fa_aType3DataSize a) (fa_apData a)"
  "fragment_payload (type2_frame a) = piece (type2_offset a) (fa_aType2DataSize a) (fa_apData a)"
  "fragment_payload (single_frame d ptype pts diff code st flags sf) = d"
  by (simp_all add: fragment_payload_def type1_frame_def type2_frame_def type3_frame_def single_frame_def hd_enc
      type1_header_def type2_header_def type3_header_def single_header_def type1.length_enc type2.length_enc type3.length_enc)

lemma frames_of_payload:
  assumes "args_ok mtu a"
  shows "concat (map (fragment_payload \<circ> snd) (frames_of a)) = fa_apData a"
    "map (unat \<circ> fst) (frames_of a) = [0 ..< length (frames_of a)]" "length (frames_of a) = Suc (unat (fa_aOfFragmentNo a))"
proof -
  let ?N = "fa_aNumType1Fragments a" and ?t = "fa_aType1PayloadSize a" and ?d = "fa_apData a"
  have sum: "type2_offset a + fa_aType2DataSize a = length ?d" using assms by (simp add: args_ok_def)
  have of_no: "unat (fa_aOfFragmentNo a) = ?N + (if fa_aNeedsType3 a then 1 else 0)" "?N < 65536"
    using assms by (simp_all add: args_ok_def split: if_splits)
  have "concat (map (fragment_payload \<circ> snd) (frames_of a)) =
      take (?N * ?t) ?d @ piece (?N * ?t) (type3_size a) ?d @ piece (type2_offset a) (fa_aType2DataSize a) ?d"
    by (simp add: frames_of_def comp_def fragment_payload_frames concat_pieces type3_size_def) (simp add: piece_def)
  also have "\<dots> = take (type2_offset a) ?d @ piece (type2_offset a) (fa_aType2DataSize a) ?d"
    by (simp add: piece_def type2_offset_def take_add)
  also have "\<dots> = ?d" using sum by (simp add: piece_def flip: take_add)
  finally show "concat (map (fragment_payload \<circ> snd) (frames_of a)) = ?d" .
  show len: "length (frames_of a) = Suc (unat (fa_aOfFragmentNo a))" by (simp add: frames_of_def of_no)
  have "map (unat \<circ> (word_of_nat :: nat \<Rightarrow> u16)) [0 ..< ?N] = [0 ..< ?N]"
    using of_no(2) by (intro map_idI) (simp add: unat_of_nat take_bit_eq_mod)
  moreover have "unat (fa_aOfFragmentNo a - 1) = ?N" if "fa_aNeedsType3 a"
    using of_no that by (simp add: unat_minus_one [of "fa_aOfFragmentNo a"] unat_eq_zero [symmetric] del: unat_eq_zero)
  ultimately show "map (unat \<circ> fst) (frames_of a) = [0 ..< length (frames_of a)]"
    unfolding len by (simp add: frames_of_def of_no comp_def)
qed

section \<open>A sample sender\<close>

definition sample_sender :: "u32 \<Rightarrow> Sender" where
  "sample_sender ms = newSender 256 SINGLE ms 1000 (\<lambda>_. 0)"

definition sample_retaining :: Sender where
  "sample_retaining = retainFragment 0 0 3 [2, 3, 9] (sample_sender 500)"

definition sample_nack :: bytes where
  "sample_nack = enc_nack \<lparr>nk_mFrameType = makeFrameTypeByte TYPE0 0, nk_mSubtype = type0SubtypeValue NACK, nk_mNackCount = 1\<rparr> @
     enc_nackEntry \<lparr>ne_mStreamId = 3, ne_mSuperFrameNo = 0, ne_mFragmentNo = 0, ne_mFragmentCount = 0\<rparr>"

lemmas sample_defs = sample_sender_def newSender_def Let_def s_nowUs_def nowUs_def evict_loop.simps makeRetentionKey_def

definition sample_sender_out :: Sender where
  "sample_sender_out = \<lparr>s_mMtu = 256, s_mSuperFrameNo = 0, s_mSubFragmentMode = SINGLE, s_mRetentionMs = 500,
     s_mRetentionMaxBytes = 1000, s_mRetentionBufferBytes = 3, s_mSendBuffer = replicate 256 0, s_mBundleBuffer = [],
     s_mRetentionBuffer = [0 \<mapsto> \<lparr>rf_mTimestampUs = 0, rf_mSuperFrameNo = 0, rf_mFragmentNo = 0, rf_mStreamId = 3,
       rf_mRetryCount = 0, rf_mGeneration = 1, rf_mData = [2, 3, 9]\<rparr>],
     s_mRetentionOrder = [\<lparr>ro_mKey = 0, ro_mGeneration = 1\<rparr>], s_mRetransmitQueue = [], s_mQueuedRetransmits = {},
     s_mRetentionGeneration = 1, s_mStatistics = zeroSenderStatistics, s_clock = \<lambda>n. 0, s_out = []\<rparr>"

definition full_sender :: Sender where
  "full_sender = retainFragment 0 1 3 (replicate 500 0)
     (retainFragment 0 0 3 (replicate 400 0) (newSender 1000 SINGLE 500 1000 (\<lambda>_. 0)))"

lemma sample_dims:
  "s_mMtu (sample_sender ms) = 256" "s_mSubFragmentMode (sample_sender ms) = SINGLE"
  "s_mRetransmitQueue (sample_sender ms) = []" "s_out (sample_sender ms) = []" "s_mSuperFrameNo (sample_sender ms) = 0"
  "s_mRetentionMs (sample_sender ms) = ms" "s_mRetentionMaxBytes (sample_sender ms) = 1000"
  "s_mRetentionBuffer (sample_sender ms) = Map.empty"
  by (simp_all add: sample_sender_def newSender_def Let_def)

lemma sample_inv: "sender_inv (sample_sender ms)" "store_inv (sample_sender ms)" "queue_inv (sample_sender ms)"
  by (simp_all add: sample_sender_def sender_inv_new store_inv_new queue_inv_new)

lemma sample_accepts: "send_outcome (replicate 300 7) (sample_sender 0) = OK"
  by (simp add: send_outcome_def sent_total_def sample_dims type1_frame_size_def fragmentPlan_def
      MAX_SUPERFRAME_SIZE_def MAX_FRAGMENTS_PER_SUPERFRAME_def Let_def)

lemma sample_retaining_eq: "sample_retaining = sample_sender_out"
  by (simp add: sample_retaining_def retainFragment_def evictOldRetention_def sample_defs sample_sender_out_def)

lemma sample_nack_received:
  "receiveNack sample_nack sample_retaining = Some (OK, sample_sender_out
     \<lparr>s_mRetransmitQueue := [\<lparr>rq_mKey = 0, rq_mGeneration = 1\<rparr>], s_mQueuedRetransmits := {1},
      s_mStatistics := zeroSenderStatistics\<lparr>ss_mNacksReceived := 1\<rparr>\<rparr>)"
proof -
  have "nack_wellformed sample_nack"
    by (simp add: nack_wellformed_def sample_nack_def nackHeader.dec_enc nackHeader.length_enc nackEntry.length_enc)
  moreover have "nack_decode sample_nack = [\<lparr>ne_mStreamId = 3, ne_mSuperFrameNo = 0, ne_mFragmentNo = 0, ne_mFragmentCount = 0\<rparr>]"
    by (simp add: nack_decode_def sample_nack_def nackHeader.dec_enc nackHeader.length_enc nackEntry.length_enc nackEntry.dec_enc_id)
  ultimately show ?thesis
    by (simp add: receiveNack_spec nack_in_range_def nack_range_keys nack_keys_def sample_retaining_eq
      queueRetransmit_def makeRetentionKey_def count_nack_def sample_sender_out_def zeroSenderStatistics_def)
qed

section \<open>Properties of the sender\<close>

text \<open>
  C4. Any sequence of public operations on a new sender runs to its end, whatever the payloads and
  NACK packets are: no access leaves a packet buffer, a payload or a NACK, the retained copies stay
  accounted for and every packet handed to the transport fits the MTU.
\<close>

theorem sender_runs_safely:
  "\<exists>s. run_ops sender_step ops (newSender mtu mode ms mx clk) = Some s \<and> store_inv s \<and>
     length (s_mSendBuffer s) = unat (s_mMtu s) \<and>
     list_all (\<lambda>(p, st). length p \<le> unat (max mtu 256)) (s_out s)"
proof -
  have "sender_inv (newSender mtu mode ms mx clk) \<and> configured (max mtu 256) mode ms mx (newSender mtu mode ms mx clk)"
    using sender_inv_new by (auto simp: configured_def newSender_def Let_def max_def)
  from configured.run_safe [OF this, of ops] show ?thesis
    by (force simp: sender_inv_def configured_def list_all_iff)
qed

text \<open>
  C13. The result of \<open>send\<close> is decided by the payload's length; an accepted payload takes one superframe
  number, and its fragments leave in order, each packet being one fragment or a bundle of them. When
  no retransmit is pending nothing else leaves.
\<close>

theorem send_transmits_fragments:
  assumes "sender_inv s" "send d ptype pts dts code st flags s = Some (r, t)"
  shows "r = send_outcome d s \<and>
    (r = OK \<longrightarrow> s_mSuperFrameNo t = s_mSuperFrameNo s + 1 \<and>
      (\<exists>ps. s_out t = s_out s @ ps \<and> subseq (map snd (sent_frames d ptype pts dts code st flags s)) (unpacked ps) \<and>
        (s_mRetransmitQueue s = [] \<longrightarrow> unpacked ps = map snd (sent_frames d ptype pts dts code st flags s)))) \<and>
    (r \<noteq> OK \<longrightarrow> s_out t = s_out s \<and> s_mSuperFrameNo t = s_mSuperFrameNo s)"
  using send_carries [OF assms] by (auto simp: carries_def)

text \<open>
  C14. The fragments of an accepted payload are numbered 0, 1, 2, ... without a gap, there are at most
  8192 of them, each fits the MTU and carries the stream and the superframe number of the payload,
  and their payloads in this order are the payload.
\<close>

theorem fragments_carry_payload:
  assumes "sender_inv s" "send_outcome d s = OK"
  shows "let fs = sent_frames d ptype pts dts code st flags s in
    concat (map (fragment_payload \<circ> snd) fs) = d \<and> map (unat \<circ> fst) fs = [0 ..< length fs] \<and> length fs \<le> 8192 \<and>
    (\<forall>(fn, p) \<in> set fs. length p \<le> unat (s_mMtu s) \<and> frame_ids p = Some (st, s_mSuperFrameNo s, fn))"
proof -
  have mtu: "256 \<le> unat (s_mMtu s)" using assms(1) by (simp add: sender_inv_def)
  show ?thesis
  proof (cases "length d \<le> unat (s_mMtu s) - 27")
    case True
    then have "27 + length d \<le> unat (s_mMtu s)" using mtu by simp
    from single_frame_ok [OF this] True show ?thesis
      by (simp add: sent_frames_def fragment_payload_frames frame_ok_def)
  next
    case False
    then have "sent_total d s \<le> MAX_FRAGMENTS_PER_SUPERFRAME"
      using assms(2) by (simp add: send_outcome_def split: if_splits)
    with False have ok: "args_ok (unat (s_mMtu s)) (sent_args d ptype pts dts code st flags s)"
      by (intro sent_args_ok(1) mtu) simp_all
    have a: "fa_apData (sent_args d ptype pts dts code st flags s) = d"
      "fa_aSuperFrameNo (sent_args d ptype pts dts code st flags s) = s_mSuperFrameNo s"
      "fa_aStreamId (sent_args d ptype pts dts code st flags s) = st"
      by (simp_all add: sent_args_def plan_args_def Let_def)
    have "length (frames_of (sent_args d ptype pts dts code st flags s)) \<le> 8192"
      using ok frames_of_payload(3) [OF ok] by (simp add: args_ok_def)
    with False frames_of_payload(1,2) [OF ok] frames_of_ok [OF ok] show ?thesis
      by (auto simp: sent_frames_def Let_def a frame_ok_def)
  qed
qed

text \<open>
  C22. A NACK the sender accepts, followed by a retransmission with a large enough budget, sends the retained
  packets the NACK names, byte for byte on their stream: one packet for each named key that is retained,
  none for any other, and no key twice.
\<close>

theorem nack_retransmits_requested:
  assumes "queue_inv s" "s_mRetransmitQueue s = []" "receiveNack d s = Some (OK, u)"
    and "processRetransmits n u = (c, t)" "length (s_mRetransmitQueue u) \<le> n"
  shows "\<exists>ks. distinct ks \<and> set ks = requested_keys s d \<and> s_out t = s_out s @ map (copy_at s) ks \<and> c = length ks"
  using assms by (rule nack_then_retransmit)

text \<open>
  C30. The retention store never holds more than its limit and one packet, in any run.
\<close>

theorem retention_stays_bounded:
  "\<exists>s. run_ops sender_step ops (newSender mtu mode ms mx clk) = Some s \<and>
     s_mRetentionBufferBytes s \<le> s_mRetentionMaxBytes s + unat (s_mMtu s) \<and>
     s_mRetentionBufferBytes s = retained_bytes (s_mRetentionBuffer s)"
proof -
  have "sender_inv (newSender mtu mode ms mx clk) \<and> within_limit (newSender mtu mode ms mx clk)"
    using sender_inv_new by (simp add: within_limit_def) (simp add: newSender_def Let_def)
  from limited.run_safe [OF this, of ops] show ?thesis
    by (auto simp: within_limit_def sender_inv_def store_inv_def)
qed

text \<open>
  C32. Retaining a packet whose key is not in the store, and which the limit allows, keeps the store
  within its limit, whatever has to be evicted.
\<close>

theorem retain_evicts_to_limit:
  assumes "store_inv s" "s_mRetentionMs s \<noteq> 0" "length d \<le> s_mRetentionMaxBytes s"
    and "s_mRetentionBuffer s (makeRetentionKey sf fn) = None"
  shows "s_mRetentionBufferBytes (retainFragment sf fn st d s) \<le> s_mRetentionMaxBytes s \<and>
    map_option rf_mData (s_mRetentionBuffer (retainFragment sf fn st d s) (makeRetentionKey sf fn)) = Some d"
  using retainFragment_limit [OF assms(1-3)] assms(4) by (simp add: retainFragment_on [OF assms(2,3)])

section \<open>Witnesses\<close>

theorem send_transmits_fragments_witness:
  "\<exists>t ps. send (replicate 300 7) 1 90 90 0 3 0 (sample_sender 0) = Some (OK, t) \<and> s_out t = ps \<and>
     map length (unpacked ps) = [256, 79] \<and> s_mSuperFrameNo t = 1"
proof -
  have frames: "map (length \<circ> snd) (sent_frames (replicate 300 7) 1 90 90 0 3 0 (sample_sender 0)) = [256, 79]"
    by (simp add: sent_frames_def sent_args_def plan_args_def sample_dims type1_frame_size_def fragmentPlan_def
        frames_of_def type1_frame_def type2_frame_def piece_def type2_offset_def type3_size_def
        type1.length_enc type2.length_enc Let_def)
  obtain r t where run: "send (replicate 300 7) 1 90 90 0 3 0 (sample_sender 0) = Some (r, t)"
    using send_total [OF sample_inv(1)] by blast
  from send_transmits_fragments [OF sample_inv(1) run] frames show ?thesis
    by (auto simp: run sample_accepts sample_dims simp flip: map_map)
qed

theorem nack_retransmits_requested_witness:
  "\<exists>u t k. receiveNack sample_nack sample_retaining = Some (OK, u) \<and> processRetransmits 5 u = (1, t) \<and>
     s_out t = [copy_at sample_retaining k] \<and> requested_keys sample_retaining sample_nack = {k}"
proof -
  let ?u = "sample_sender_out
     \<lparr>s_mRetransmitQueue := [\<lparr>rq_mKey = 0, rq_mGeneration = 1\<rparr>], s_mQueuedRetransmits := {1},
      s_mStatistics := zeroSenderStatistics\<lparr>ss_mNacksReceived := 1\<rparr>\<rparr>"
  have inv: "queue_inv sample_retaining"
    unfolding sample_retaining_def
    by (rule retainFragment_queue_inv) (simp_all add: sample_inv, simp add: sample_sender_def newSender_def Let_def)
  have empty: "s_mRetransmitQueue sample_retaining = []" "s_out sample_retaining = []"
    by (simp_all add: sample_retaining_eq sample_sender_out_def)
  have "fst (processRetransmits 5 ?u) = 1"
    by (simp add: processRetransmits_def retransmit_loop.simps sample_sender_out_def)
  then obtain t where t: "processRetransmits 5 ?u = (1, t)" by (metis prod.collapse)
  have "length (s_mRetransmitQueue ?u) \<le> 5" by simp
  from nack_retransmits_requested [OF inv empty(1) sample_nack_received t this] empty(2) obtain ks where
    "set ks = requested_keys sample_retaining sample_nack" "s_out t = map (copy_at sample_retaining) ks" "length ks = 1" by auto
  then obtain k where "requested_keys sample_retaining sample_nack = {k}" "s_out t = [copy_at sample_retaining k]"
    by (auto simp: length_Suc_conv) (metis)
  with sample_nack_received t show ?thesis by blast
qed

theorem retain_evicts_to_limit_witness:
  "s_mRetentionBufferBytes sample_retaining \<le> 1000 \<and>
     map_option rf_mData (s_mRetentionBuffer sample_retaining (makeRetentionKey 0 0)) = Some [2, 3, 9]"
  using retain_evicts_to_limit [of "sample_sender 500" "[2, 3, 9]" 0 0 3] by (simp add: sample_retaining_def sample_inv sample_dims)

theorem fragments_carry_payload_witness:
  "concat (map (fragment_payload \<circ> snd) (sent_frames (replicate 300 7) 1 90 90 0 3 0 (sample_sender 0))) = replicate 300 7 \<and>
     length (sent_frames (replicate 300 7) 1 90 90 0 3 0 (sample_sender 0)) = 2"
proof -
  have "length (sent_frames (replicate 300 7) 1 90 90 0 3 0 (sample_sender 0)) = 2"
    by (simp add: sent_frames_def sent_args_def plan_args_def sample_dims type1_frame_size_def fragmentPlan_def frames_of_def Let_def)
  with fragments_carry_payload [OF sample_inv(1) sample_accepts, of 1 90 90 0 3 0] show ?thesis by (simp add: Let_def)
qed

section \<open>The limit can be exceeded\<close>

text \<open>
  The room a packet needs is computed from the size of the packet it replaces; when eviction removes
  that packet first, the room is short by its size and the store exceeds its limit. Keys repeat
  when superframe numbers wrap, after 65536 superframes.
\<close>

lemma retention_can_exceed_limit:
  "store_inv full_sender \<and> s_mRetentionMaxBytes full_sender = 1000 \<and> s_mRetentionBufferBytes full_sender = 900 \<and>
     s_mRetentionBufferBytes (retainFragment 0 0 3 (replicate 600 0) full_sender) = 1100"
proof -
  have "store_inv full_sender"
    unfolding full_sender_def by (intro retainFragment_store_inv store_inv_new)
  then show ?thesis
    by (simp add: full_sender_def retainFragment_def evictOldRetention_def sample_defs)
qed

end
