(* ===== verification/Efp_RetentionWindow.thy ===== *)
theory Efp_RetentionWindow
  imports Efp_SenderProps
begin

text \<open>
  Retention as a window over time: with a steady clock the retained packets are ordered by age as they
  are by generation, so eviction, which looks only at the head of the retention order, removes every
  expired packet and the oldest packets first.
\<close>

section \<open>Age follows generation\<close>

text \<open>\<open>n\<close> more packets can be retained before the generations wrap.\<close>

definition aged :: "nat \<Rightarrow> Sender \<Rightarrow> bool" where
  "aged n s \<longleftrightarrow> steady (s_clock s) \<and> unat (s_mRetentionGeneration s) + n < 2 ^ 64 \<and>
     sorted_wrt (<) (map ro_mGeneration (s_mRetentionOrder s)) \<and>
     (\<forall>e \<in> set (s_mRetentionOrder s). ro_mGeneration e \<le> s_mRetentionGeneration s) \<and>
     (\<forall>k f. s_mRetentionBuffer s k = Some f \<longrightarrow> rf_mGeneration f \<le> s_mRetentionGeneration s \<and> rf_mTimestampUs f \<le> s_clock s 0) \<and>
     (\<forall>k f k' f'. s_mRetentionBuffer s k = Some f \<longrightarrow> s_mRetentionBuffer s k' = Some f' \<longrightarrow>
        rf_mGeneration f < rf_mGeneration f' \<longrightarrow> rf_mTimestampUs f \<le> rf_mTimestampUs f')"

lemma aged_new: "steady clk \<Longrightarrow> n < 2 ^ 64 \<Longrightarrow> aged n (newSender mtu mode ms mx clk)"
  by (simp add: aged_def newSender_def Let_def)

lemma aged_cong:
  assumes "aged n s" "s_clock t = s_clock s" "s_mRetentionGeneration t = s_mRetentionGeneration s"
    "s_mRetentionOrder t = s_mRetentionOrder s" "s_mRetentionBuffer t = s_mRetentionBuffer s"
  shows "aged n t"
  using assms by (simp add: aged_def)

lemma aged_stale: "aged n s \<Longrightarrow> s_mRetentionOrder s = e # rest \<Longrightarrow> aged n (s\<lparr>s_mRetentionOrder := rest\<rparr>)"
  by (simp add: aged_def)

lemma aged_erase: "aged n s \<Longrightarrow> s_mRetentionOrder s = e # rest \<Longrightarrow> aged n (evict_head f e rest s)"
  by (simp add: aged_def evict_head_def)

lemma aged_tick: "aged n s \<Longrightarrow> aged n (s\<lparr>s_clock := \<lambda>k. s_clock s (Suc k)\<rparr>)"
  unfolding aged_def steady_def by (simp, meson order_trans)

lemma aged_evict: "aged n s \<Longrightarrow> aged n (evictOldRetention r s)"
  unfolding evictOldRetention_eq
  by (rule evict_loop_keeps [where P = "aged n", OF aged_tick aged_stale aged_erase])

lemma aged_retain:
  assumes "aged (Suc n) s"
  shows "aged n (retainFragment sf fn st d s)"
proof (cases "s_mRetentionMs s = 0 \<or> s_mRetentionMaxBytes s < length d")
  case True
  with assms show ?thesis by (auto simp: retainFragment_off aged_def)
next
  case False
  then have on: "s_mRetentionMs s \<noteq> 0" "length d \<le> s_mRetentionMaxBytes s" by auto
  let ?t = "evictOldRetention (retain_required sf fn d s) s" and ?g = "s_mRetentionGeneration s"
  note u = retainFragment_on [OF on, of sf fn st]
  have t: "aged (Suc n) ?t" by (rule aged_evict [OF assms])
  have g: "unat (?g + 1) = unat ?g + 1" using assms by (simp add: aged_def unat_word_ariths)
  have less: "?g < ?g + 1" "x \<le> ?g \<Longrightarrow> x < ?g + 1" for x using g by (simp_all add: word_less_nat_alt word_le_nat_alt)
  have gen: "s_mRetentionGeneration ?t = ?g" "s_clock ?t = (\<lambda>n. s_clock s (Suc n))" by (simp_all add: evictOldRetention_frame)
  have tick: "s_clock s (Suc 0) \<le> s_clock s (Suc (Suc 0))" "steady (\<lambda>n. s_clock s (Suc (Suc n)))"
    using assms by (simp_all add: aged_def steady_def)
  show ?thesis using t g less tick assms unfolding aged_def u gen
    by (auto simp: sorted_wrt_append gen split: if_splits intro: order.strict_implies_order) (force | meson order_trans not_less)+
qed

lemma aged_pop: "aged n s \<Longrightarrow> aged n (pop_request s)"
  by (rule aged_cong) (simp_all add: pop_request_def)

lemma aged_bump: "aged n s \<Longrightarrow> s_mRetentionBuffer s (rq_mKey q) = Some f \<Longrightarrow> aged n (retransmit_bump q f s)"
  unfolding aged_def retransmit_bump_def by simp

lemma aged_retransmit: "aged n s \<Longrightarrow> aged n (getRetransmit_state s)"
proof (cases rule: getRetransmitFragment_cases [of s])
  case (3 q rest f)
  assume "aged n s"
  from aged_pop [OF this] aged_bump [of n "pop_request s" q f] 3 show ?thesis
    by (simp add: getRetransmit_state_def) (simp add: pop_request_def)
qed (simp_all add: getRetransmit_state_def aged_pop)

interpretation window: sender_property aged
  by unfold_locales (simp_all add: aged_retain aged_evict aged_retransmit, simp_all add: aged_def)

lemma aged_step:
  assumes "sender_inv s" "aged (n + 8194) s" "sender_step x s = Some (r, t)"
  shows "aged n t"
proof -
  have less: "aged n s" using assms(2) by (simp add: aged_def)
  show ?thesis
  proof (cases x)
    case (Send d ptype pts dts code st flags)
    with window.R_send [of n s d ptype pts dts code st flags] assms show ?thesis by (auto simp: window.R_def)
  next
    case (ReceiveNack d)
    with assms(3) have "receiveNack d s = Some (r, t)" by simp
    from receiveNack_keeps(1) [OF this] less show ?thesis by (intro aged_cong [of n s t]) (simp_all add: same_store_def)
  next
    case (ProcessRetransmits m)
    with assms(3) have "retransmit_loop m 0 s = (fst (processRetransmits m s), t)" by (simp add: processRetransmits_def prod_eq_iff)
    then show ?thesis
      by (rule retransmit_loop_keeps [where P = "aged n", OF _ aged_pop _ aged_bump less]) (simp_all add: aged_def)
  qed (use less assms in simp)
qed

lemma aged_run:
  "sender_inv s \<Longrightarrow> aged (n + 8194 * length ops) s \<Longrightarrow> run_ops sender_step ops s = Some t \<Longrightarrow> aged n t"
proof (induction ops arbitrary: s)
  case (Cons x ops)
  from sender.step_safe [OF Cons.prems(1), of x] obtain r u where u: "sender_step x s = Some (r, u)" "sender_inv u" by blast
  have "aged (n + 8194 * length ops) u" by (rule aged_step [OF Cons.prems(1) _ u(1)]) (use Cons.prems(2) in \<open>simp add: algebra_simps\<close>)
  with Cons.IH [OF u(2)] Cons.prems(3) u(1) show ?case by simp
qed simp

section \<open>What eviction removes\<close>

text \<open>The loop removes a prefix of the retention order: the copies named there are gone, the others stay.\<close>

definition evicted :: "Sender \<Rightarrow> Sender \<Rightarrow> RetentionOrderEntry list \<Rightarrow> bool" where
  "evicted s t es \<longleftrightarrow> s_mRetentionOrder s = es @ s_mRetentionOrder t \<and>
     (\<forall>k. s_mRetentionBuffer t k = (case s_mRetentionBuffer s k of None \<Rightarrow> None
        | Some f \<Rightarrow> if \<lparr>ro_mKey = k, ro_mGeneration = rf_mGeneration f\<rparr> \<in> set es then None else Some f))"

lemma evict_prefix: "\<exists>es. evicted s (evict_loop c r s) es"
proof (rule evict_loop_keeps [where P = "\<lambda>t. \<exists>es. evicted s t es"])
  show "\<exists>es. evicted s s es" by (rule exI [of _ "[]"]) (simp add: evicted_def split: option.split)
next
  fix t e rest assume t: "\<exists>es. evicted s t es" "s_mRetentionOrder t = e # rest" "\<not> live_order t e"
  then obtain es where "evicted s t es" by blast
  with t(2,3) have "evicted s (t\<lparr>s_mRetentionOrder := rest\<rparr>) (es @ [e])"
    by (auto simp: evicted_def live_order_def split: option.splits if_splits)
  then show "\<exists>es. evicted s (t\<lparr>s_mRetentionOrder := rest\<rparr>) es" ..
next
  fix t e rest f assume t: "\<exists>es. evicted s t es" "s_mRetentionOrder t = e # rest"
    "s_mRetentionBuffer t (ro_mKey e) = Some f" "rf_mGeneration f = ro_mGeneration e"
  then obtain es where "evicted s t es" by blast
  note ev = this [unfolded evicted_def]
  have "s_mRetentionBuffer (evict_head f e rest t) k = (case s_mRetentionBuffer s k of None \<Rightarrow> None
      | Some f \<Rightarrow> if \<lparr>ro_mKey = k, ro_mGeneration = rf_mGeneration f\<rparr> \<in> set (es @ [e]) then None else Some f)" for k
  proof (cases "k = ro_mKey e")
    case True
    with ev [THEN conjunct2, rule_format, of k] t(3) have "s_mRetentionBuffer s k = Some f" by (auto split: option.splits if_splits)
    with True t(4) show ?thesis by simp
  next
    case False
    then have "\<lparr>ro_mKey = k, ro_mGeneration = g\<rparr> \<noteq> e" for g by auto
    with False ev [THEN conjunct2, rule_format, of k] show ?thesis by (simp split: option.split)
  qed
  with ev t(2) have "evicted s (evict_head f e rest t) (es @ [e])" by (simp add: evicted_def)
  then show "\<exists>es. evicted s (evict_head f e rest t) es" ..
qed

lemma kept_is_young:
  assumes "store_inv s" "aged n s" "s_mRetentionBuffer (evict_loop c r s) k = Some f"
  shows "c \<le> rf_mTimestampUs f"
proof -
  let ?t = "evict_loop c r s"
  have t: "store_inv ?t" "aged n ?t"
    by (rule evict_loop_store_inv [OF assms(1)], rule evict_loop_keeps [where P = "aged n", OF assms(2) aged_stale aged_erase])
  let ?e = "\<lparr>ro_mKey = k, ro_mGeneration = rf_mGeneration f\<rparr>"
  have mem: "?e \<in> set (s_mRetentionOrder ?t)" using t(1) assms(3) by (simp add: store_inv_def)
  with evict_loop_stops [of c r s] obtain e rest g where
    e: "s_mRetentionOrder ?t = e # rest" "s_mRetentionBuffer ?t (ro_mKey e) = Some g" "rf_mGeneration g = ro_mGeneration e" "c \<le> rf_mTimestampUs g"
    by auto
  show ?thesis
  proof (cases "?e = e")
    case True
    then have "ro_mKey e = k" by auto
    with e(2,4) assms(3) show ?thesis by simp
  next
    case False
    with mem e(1) have "?e \<in> set rest" by auto
    with t(2) e(1,3) have "rf_mGeneration g < rf_mGeneration f" by (auto simp: aged_def)
    with t(2) e(2) assms(3) have "rf_mTimestampUs g \<le> rf_mTimestampUs f" unfolding aged_def by blast
    with e(4) show ?thesis by simp
  qed
qed

lemma evicted_is_older:
  assumes "store_inv s" "aged n s" "s_mRetentionBuffer s k = Some f" "s_mRetentionBuffer (evict_loop c r s) k = None"
    and "s_mRetentionBuffer (evict_loop c r s) k' = Some f'"
  shows "rf_mTimestampUs f \<le> rf_mTimestampUs f'"
proof -
  let ?t = "evict_loop c r s"
  obtain es where es: "evicted s ?t es" using evict_prefix by blast
  have "\<lparr>ro_mKey = k, ro_mGeneration = rf_mGeneration f\<rparr> \<in> set es"
    using es [unfolded evicted_def, THEN conjunct2, rule_format, of k] assms(3,4) by (simp split: if_splits)
  moreover have "\<lparr>ro_mKey = k', ro_mGeneration = rf_mGeneration f'\<rparr> \<in> set (s_mRetentionOrder ?t)"
    using evict_loop_store_inv [OF assms(1)] assms(5) by (simp add: store_inv_def)
  moreover have "sorted_wrt (<) (map ro_mGeneration (es @ s_mRetentionOrder ?t))"
    using assms(2) es by (simp add: aged_def evicted_def)
  ultimately have "rf_mGeneration f < rf_mGeneration f'" by (fastforce simp: sorted_wrt_append)
  moreover have "s_mRetentionBuffer s k' = Some f'"
    using es [unfolded evicted_def, THEN conjunct2, rule_format, of k'] assms(5) by (auto split: option.splits if_splits)
  ultimately show ?thesis using assms(2,3) unfolding aged_def by blast
qed

lemma young_is_kept:
  assumes "store_inv s" "s_mRetentionBufferBytes s \<le> s_mRetentionMaxBytes s" "s_mRetentionBuffer s k = Some f" "c \<le> rf_mTimestampUs f"
  shows "s_mRetentionBuffer (evict_loop c 0 s) k = Some f"
proof -
  let ?P = "\<lambda>t. store_inv t \<and> s_mRetentionBufferBytes t \<le> s_mRetentionMaxBytes t \<and> s_mRetentionBuffer t k = Some f"
  have "?P (evict_loop c 0 s)"
  proof (rule evict_loop_reasons [where P = ?P])
    fix t e rest g assume t: "?P t" "s_mRetentionOrder t = e # rest" "s_mRetentionBuffer t (ro_mKey e) = Some g"
      "rf_mGeneration g = ro_mGeneration e" "rf_mTimestampUs g < c \<or> s_mRetentionMaxBytes t < 0 \<or> s_mRetentionMaxBytes t - 0 < s_mRetentionBufferBytes t"
    then have "ro_mKey e \<noteq> k" using assms(4) by auto
    moreover have "length (rf_mData g) \<le> s_mRetentionBufferBytes t"
      using t(1,3) retained_bytes_remove [of "s_mRetentionBuffer t" "ro_mKey e" g] by (simp add: store_inv_def)
    ultimately show "?P (evict_head g e rest t)" using t(1) store_inv_erase [OF _ t(2-4)] by (auto simp: evict_head_def)
  qed (use assms store_inv_stale in auto)
  then show ?thesis by simp
qed

text \<open>
  C31. Retention is a window over time: on a steady clock, eviction leaves no packet older than the
  retention time; what it removes is never younger than what it leaves; and when the store is within
  its byte limit and no room is asked for, it removes expired packets only. (At most 2^64 packets are
  retained in the run, so that generations do not repeat.)
\<close>

theorem retention_is_a_window:
  assumes "steady clk" "run_ops sender_step ops (newSender mtu mode ms mx clk) = Some s" "8194 * length ops < 2 ^ 64"
    and "t = evictOldRetention r s" "cutoff = s_clock s 0 - uint ms * 1000"
  shows "(\<forall>k f. s_mRetentionBuffer t k = Some f \<longrightarrow> s_mRetentionBuffer s k = Some f \<and> cutoff \<le> rf_mTimestampUs f) \<and>
    (\<forall>k f k' f'. s_mRetentionBuffer s k = Some f \<and> s_mRetentionBuffer t k = None \<and> s_mRetentionBuffer t k' = Some f' \<longrightarrow>
       rf_mTimestampUs f \<le> rf_mTimestampUs f') \<and>
    (r = 0 \<and> s_mRetentionBufferBytes s \<le> mx \<longrightarrow>
       (\<forall>k f. s_mRetentionBuffer s k = Some f \<and> cutoff \<le> rf_mTimestampUs f \<longrightarrow> s_mRetentionBuffer t k = Some f))"
proof -
  let ?u = "s\<lparr>s_clock := \<lambda>k. s_clock s (Suc k)\<rparr>" and ?new = "newSender mtu mode ms mx clk"
  have new: "sender_inv ?new" "configured (max mtu 256) mode ms mx ?new"
    using sender_inv_new by (auto simp: configured_def newSender_def Let_def max_def)
  with configured.run_safe [OF conjI [OF new], of ops] assms(2) have
    s: "sender_inv s" "s_mRetentionMs s = ms" "s_mRetentionMaxBytes s = mx" by (auto simp: configured_def)
  have "aged (0 + 8194 * length ops) ?new" using aged_new [OF assms(1,3)] by simp
  from aged_tick [OF aged_run [OF new(1) this assms(2)]] have u: "aged 0 ?u" "store_inv ?u"
    using s(1) by (simp_all add: sender_inv_def store_inv_def)
  have t: "t = evict_loop cutoff r ?u" using assms(4,5) s(2) by (simp add: evictOldRetention_eq)
  have "s_mRetentionBuffer t \<subseteq>\<^sub>m s_mRetentionBuffer s" using evictOldRetention_frame(4) assms(4) by simp
  then have sub: "s_mRetentionBuffer s k = Some f" if "s_mRetentionBuffer t k = Some f" for k f
    using that by (auto simp: map_le_def dom_def)
  have keep: "s_mRetentionBuffer t k = Some f" if "r = 0" "s_mRetentionBufferBytes s \<le> mx" "s_mRetentionBuffer s k = Some f"
    "cutoff \<le> rf_mTimestampUs f" for k f
    using young_is_kept [OF u(2), of k f cutoff] that s(3) t by simp
  show ?thesis
  proof (intro conjI allI impI)
    fix k f assume f: "s_mRetentionBuffer t k = Some f"
    show "s_mRetentionBuffer s k = Some f" by (rule sub [OF f])
    show "cutoff \<le> rf_mTimestampUs f" by (rule kept_is_young [OF u(2,1) f [unfolded t]])
  next
    fix k f k' f' assume f: "s_mRetentionBuffer s k = Some f \<and> s_mRetentionBuffer t k = None \<and> s_mRetentionBuffer t k' = Some f'"
    then have "s_mRetentionBuffer ?u k = Some f" by simp
    from evicted_is_older [OF u(2,1) this, of cutoff r k' f'] f show "rf_mTimestampUs f \<le> rf_mTimestampUs f'" by (simp add: t)
  next
    fix k f assume "r = 0 \<and> s_mRetentionBufferBytes s \<le> mx" "s_mRetentionBuffer s k = Some f \<and> cutoff \<le> rf_mTimestampUs f"
    with keep show "s_mRetentionBuffer t k = Some f" by blast
  qed
qed

text \<open>A packet retained at 0 milliseconds with a retention time of 500; at 600 it goes.\<close>

definition ticking :: clock where
  "ticking n = (if n < 3 then 0 else 600000)"

lemma evict_empty: "s_mRetentionOrder s = [] \<Longrightarrow> evict_loop c r s = s"
  by (simp add: evict_loop.simps [of c r s])

lemma one_sent:
  "\<exists>s. run_ops sender_step [Send [7] 1 90 90 0 3 0] (newSender 256 SINGLE 500 1000 ticking) = Some s \<and>
     map_option rf_mTimestampUs (s_mRetentionBuffer s 0) = Some 0 \<and> s_clock s 0 = 600000"
  by (simp add: send_def newSender_def evictOldRetention_def evict_empty s_nowUs_def nowUs_def sendType2Only_def send_write_def
      mem_write_def mem_load_def retain_from_send_def retainFragment_def invokeCallback_def Let_def type2.length_enc ticking_def
      count_fragment_def mCallback_def MAX_SUPERFRAME_SIZE_def makeRetentionKey_def)

theorem retention_is_a_window_witness:
  "\<exists>s f. run_ops sender_step [Send [7] 1 90 90 0 3 0] (newSender 256 SINGLE 500 1000 ticking) = Some s \<and>
     s_mRetentionBuffer s 0 = Some f \<and> s_mRetentionBuffer (evictOldRetention 0 s) 0 = None"
proof -
  obtain s f where s: "run_ops sender_step [Send [7] 1 90 90 0 3 0] (newSender 256 SINGLE 500 1000 ticking) = Some s"
    "s_mRetentionBuffer s 0 = Some f" "rf_mTimestampUs f = 0" "s_clock s 0 = 600000" using one_sent by auto
  have "steady ticking" "8194 * length [Send [7] 1 90 90 0 3 0] < 2 ^ 64" by (simp_all add: steady_def ticking_def)
  note kept = retention_is_a_window [OF this(1) s(1) this(2) refl refl, of 0, THEN conjunct1, rule_format, of 0]
  have "s_mRetentionBuffer (evictOldRetention 0 s) 0 = None"
  proof (cases "s_mRetentionBuffer (evictOldRetention 0 s) 0")
    case (Some g)
    from kept [OF this] s(2-4) show ?thesis by simp
  qed
  with s(1,2) show ?thesis by blast
qed

end
