(* ===== verification/Efp_Receiver.thy ===== *)
theory Efp_Receiver
  imports Efp_Types
begin

text \<open>
  The state of \<open>Receiver\<close> (\<^verbatim>\<open>efp.h\<close>) and the assembly of fragments: buckets, the jitter estimate,
  the 64-bit unwrapping of superframe numbers and the handlers of the five packet types. The buckets
  are an array of \<open>BUFFER_SIZE + 1\<close> slots indexed by the masked superframe number; \<open>mBucketMap\<close> maps
  the delivery order of every active bucket to its slot. The allocator is a stream of answers, the
  callbacks are logs. Products of sizes are not reduced modulo 2^64: the guards of the handlers keep
  them far below.
\<close>

section \<open>State\<close>

record Stream =
  st_mPayloadType :: u8
  st_mPayloadCode :: u32

record Bucket =
  b_mActive :: bool
  b_mPayloadType :: u8
  b_mPayloadCode :: u32
  b_mSavedFrameNo :: u16
  b_mTimeoutUs :: int
  b_mFragmentCount :: u16
  b_mOfFragmentNo :: u16
  b_mDeliveryOrder :: int
  b_mFragmentSize :: nat
  b_mType3Size :: nat
  b_mType2Size :: nat
  b_mPts :: u64
  b_mDts :: u64
  b_mStreamId :: u8
  b_mSourceId :: u8
  b_mFlags :: u8
  b_mFirstArrivalUs :: int
  b_mLastNackUs :: int
  b_mNackCount :: u8
  b_mReceivedFragments :: "nat set"
  b_mpFrame :: "SuperFrame option"

definition emptyBucket :: Bucket where
  "emptyBucket = \<lparr>b_mActive = False, b_mPayloadType = 0, b_mPayloadCode = - 1, b_mSavedFrameNo = 0,
     b_mTimeoutUs = 0, b_mFragmentCount = 0, b_mOfFragmentNo = 0, b_mDeliveryOrder = 2 ^ 63 - 1,
     b_mFragmentSize = 0, b_mType3Size = 0, b_mType2Size = 0, b_mPts = - 1, b_mDts = - 1,
     b_mStreamId = 0, b_mSourceId = 0, b_mFlags = 0, b_mFirstArrivalUs = 0, b_mLastNackUs = 0,
     b_mNackCount = 0, b_mReceivedFragments = {}, b_mpFrame = None\<rparr>"

text \<open>\<open>std::bitset<8192>\<close>: an index out of range is undefined behaviour.\<close>

definition bit_get :: "nat set \<Rightarrow> nat \<Rightarrow> bool option" where
  "bit_get S i = (if i < 8192 then Some (i \<in> S) else None)"

definition bit_set :: "nat set \<Rightarrow> nat \<Rightarrow> nat set option" where
  "bit_set S i = (if i < 8192 then Some (insert i S) else None)"

record Receiver =
  r_BUFFER_SIZE :: u16
  r_mTimeoutMs :: u32
  r_mHolTimeoutMs :: u32
  r_mMaxNackRetries :: u8
  r_mNackIntervalMs :: u32
  r_mMode :: ReceiverMode
  r_mpBuckets :: "u16 \<Rightarrow> Bucket"
  r_mBucketMap :: "(int \<times> u16) list"
  r_mStreams :: "u8 \<Rightarrow> Stream"
  r_mOldFrameNo :: u16
  r_mFrameNoRecalc :: int
  r_mFirstFrame :: bool
  r_mJitterUs :: int
  r_mLastArrivalUs :: int
  r_mExpectedIntervalUs :: int
  r_mRunning :: bool
  r_mDeliveryQueue :: "SuperFrame list"
  r_mDeliveryReady :: bool
  r_mStatistics :: ReceiverStatistics
  r_clock :: clock
  r_alloc :: "nat \<Rightarrow> bool"
  r_delivered :: "SuperFrame list"
  r_nacks :: "bytes list"

text \<open>The constructor throws \<open>std::invalid_argument\<close> for an inconsistent timing configuration.\<close>

datatype InvalidArgument = HOL_TIMEOUT_NOT_LESS | NACK_BUDGET_NOT_LESS

definition newReceiver :: "u16 \<Rightarrow> u32 \<Rightarrow> u32 \<Rightarrow> u8 \<Rightarrow> u32 \<Rightarrow> ReceiverMode \<Rightarrow> clock \<Rightarrow> (nat \<Rightarrow> bool) \<Rightarrow>
    InvalidArgument + Receiver" where
  "newReceiver BUFFER_SIZE aTimeoutMs aHolTimeoutMs aMaxNackRetries aNackIntervalMs aMode clk alloc =
     (if aHolTimeoutMs > 0 \<and> aHolTimeoutMs \<ge> aTimeoutMs then Inl HOL_TIMEOUT_NOT_LESS
      else if aMaxNackRetries > 0 \<and> aNackIntervalMs > 0 \<and> aNackIntervalMs * ucast aMaxNackRetries \<ge> aTimeoutMs
      then Inl NACK_BUDGET_NOT_LESS
      else Inr \<lparr>r_BUFFER_SIZE = BUFFER_SIZE, r_mTimeoutMs = aTimeoutMs, r_mHolTimeoutMs = aHolTimeoutMs,
        r_mMaxNackRetries = aMaxNackRetries, r_mNackIntervalMs = aNackIntervalMs, r_mMode = aMode,
        r_mpBuckets = (\<lambda>_. emptyBucket), r_mBucketMap = [],
        r_mStreams = (\<lambda>_. \<lparr>st_mPayloadType = 0, st_mPayloadCode = - 1\<rparr>),
        r_mOldFrameNo = 0, r_mFrameNoRecalc = 0, r_mFirstFrame = True, r_mJitterUs = 10000,
        r_mLastArrivalUs = 0, r_mExpectedIntervalUs = 0, r_mRunning = (aMode = THREADED),
        r_mDeliveryQueue = [], r_mDeliveryReady = False, r_mStatistics = zeroReceiverStatistics,
        r_clock = clk, r_alloc = alloc, r_delivered = [], r_nacks = []\<rparr>)"

definition pendingCount :: "Receiver \<Rightarrow> nat" where
  "pendingCount r = length (r_mBucketMap r)"

definition getReceiverStatistics :: "Receiver \<Rightarrow> ReceiverStatistics" where
  "getReceiverStatistics r = (r_mStatistics r)\<lparr>rs_mPendingBuckets := word_of_nat (length (r_mBucketMap r))\<rparr>"

section \<open>Clock, jitter and superframe numbers\<close>

definition r_nowUs :: "Receiver \<Rightarrow> int \<times> Receiver" where
  "r_nowUs r = (case nowUs (r_clock r) of (t, c) \<Rightarrow> (t, r\<lparr>r_clock := c\<rparr>))"

definition updateJitter :: "int \<Rightarrow> Receiver \<Rightarrow> Receiver" where
  "updateJitter aArrivalUs r =
     (let r = (if r_mLastArrivalUs r > 0 then
           (let lInterArrival = aArrivalUs - r_mLastArrivalUs r;
                lDeviation = lInterArrival - r_mExpectedIntervalUs r;
                lDeviation = (if lDeviation < 0 then - lDeviation else lDeviation)
            in r\<lparr>r_mJitterUs := r_mJitterUs r + (lDeviation - r_mJitterUs r) sdiv 16,
                 r_mExpectedIntervalUs := r_mExpectedIntervalUs r + (lInterArrival - r_mExpectedIntervalUs r) sdiv 16\<rparr>)
         else r)
      in r\<lparr>r_mLastArrivalUs := aArrivalUs\<rparr>)"

definition recalculateSuperFrameNo :: "u16 \<Rightarrow> Receiver \<Rightarrow> int \<times> Receiver" where
  "recalculateSuperFrameNo aFrameNo r =
     (if r_mFirstFrame r then
        (uint aFrameNo, r\<lparr>r_mOldFrameNo := aFrameNo, r_mFrameNoRecalc := uint aFrameNo, r_mFirstFrame := False\<rparr>)
      else
        let lDelta = sint (aFrameNo - r_mOldFrameNo r);
            n = r_mFrameNoRecalc r + lDelta
        in (n, r\<lparr>r_mOldFrameNo := aFrameNo, r_mFrameNoRecalc := n\<rparr>))"

definition bucketIndex :: "u16 \<Rightarrow> Receiver \<Rightarrow> u16" where
  "bucketIndex sf r = sf AND r_BUFFER_SIZE r"

definition timeoutUs :: "int \<Rightarrow> Receiver \<Rightarrow> int" where
  "timeoutUs lNow r = lNow + uint (r_mTimeoutMs r * 1000)"

section \<open>Statistics and buckets\<close>

definition count_received :: "Receiver \<Rightarrow> Receiver" where
  "count_received r = r\<lparr>r_mStatistics := (r_mStatistics r)
     \<lparr>rs_mFragmentsReceived := rs_mFragmentsReceived (r_mStatistics r) + 1\<rparr>\<rparr>"

definition count_duplicate :: "Receiver \<Rightarrow> Receiver" where
  "count_duplicate r = r\<lparr>r_mStatistics := (r_mStatistics r)
     \<lparr>rs_mDuplicateFragments := rs_mDuplicateFragments (r_mStatistics r) + 1\<rparr>\<rparr>"

definition set_bucket :: "u16 \<Rightarrow> Bucket \<Rightarrow> Receiver \<Rightarrow> Receiver" where
  "set_bucket idx b r = r\<lparr>r_mpBuckets := (r_mpBuckets r)(idx := b)\<rparr>"

definition allocSuperFrame :: "nat \<Rightarrow> Receiver \<Rightarrow> SuperFrame \<times> Receiver" where
  "allocSuperFrame n r = (newSuperFrame n (r_alloc r 0), r\<lparr>r_alloc := \<lambda>k. r_alloc r (Suc k)\<rparr>)"

text \<open>
  What opening a bucket does after its fields are set, alike in the three handlers: the bucket is
  entered into the map, the frame is allocated, and on success the first payload is copied.
\<close>

definition openBucket :: "u16 \<Rightarrow> Bucket \<Rightarrow> nat \<Rightarrow> nat \<Rightarrow> bytes \<Rightarrow> Receiver \<Rightarrow> (Result \<times> Receiver) option" where
  "openBucket idx b lTotalSize lOffset payload r =
     (let lOrder = b_mDeliveryOrder b;
          r = count_received (r\<lparr>r_mBucketMap := om_update lOrder idx (r_mBucketMap r)\<rparr>);
          (f, r) = allocSuperFrame lTotalSize r
      in case sf_mpData f of
           None \<Rightarrow> Some (MEMORY_ALLOCATION_ERROR,
             set_bucket idx (b\<lparr>b_mActive := False, b_mpFrame := Some f\<rparr>)
               (r\<lparr>r_mBucketMap := om_erase lOrder (r_mBucketMap r)\<rparr>))
         | Some _ \<Rightarrow> do {
             f \<leftarrow> sf_write (f\<lparr>sf_mSize := lTotalSize\<rparr>) lOffset payload;
             Some (OK, set_bucket idx (b\<lparr>b_mpFrame := Some f\<rparr>) r)
           })"

section \<open>Type1\<close>

definition handleType1_open :: "int \<Rightarrow> FrameType1 \<Rightarrow> bytes \<Rightarrow> u8 \<Rightarrow> Receiver \<Rightarrow> (Result \<times> Receiver) option" where
  "handleType1_open lNow h payload aSourceId r =
     (let idx = bucketIndex (t1_mSuperFrameNo h) r;
          lPayloadSize = length payload;
          (lOrder, r) = recalculateSuperFrameNo (t1_mSuperFrameNo h) r
      in if lOrder = b_mDeliveryOrder (r_mpBuckets r idx) then Some (FRAGMENT_TOO_OLD, r)
         else
           let lFragmentCount = unat (t1_mOfFragmentNo h) + 1
           in if lPayloadSize > MAX_SUPERFRAME_SIZE div lFragmentCount then Some (TOO_LARGE_FRAME, r)
              else do {
                received \<leftarrow> bit_set {} (unat (t1_mFragmentNo h));
                let lpStream = r_mStreams r (t1_mStreamId h);
                let b = \<lparr>b_mActive = True, b_mPayloadType = st_mPayloadType lpStream,
                  b_mPayloadCode = st_mPayloadCode lpStream, b_mSavedFrameNo = t1_mSuperFrameNo h,
                  b_mTimeoutUs = timeoutUs lNow r, b_mFragmentCount = 1, b_mOfFragmentNo = t1_mOfFragmentNo h,
                  b_mDeliveryOrder = lOrder, b_mFragmentSize = lPayloadSize, b_mType3Size = 0,
                  b_mType2Size = 0, b_mPts = - 1, b_mDts = - 1, b_mStreamId = t1_mStreamId h,
                  b_mSourceId = aSourceId, b_mFlags = getFlags (t1_mFrameType h), b_mFirstArrivalUs = lNow,
                  b_mLastNackUs = 0, b_mNackCount = 0, b_mReceivedFragments = received,
                  b_mpFrame = b_mpFrame (r_mpBuckets r idx)\<rparr>;
                openBucket idx b (lPayloadSize * lFragmentCount) (lPayloadSize * unat (t1_mFragmentNo h)) payload r
              })"

definition handleType1_existing :: "FrameType1 \<Rightarrow> bytes \<Rightarrow> u8 \<Rightarrow> Receiver \<Rightarrow> (Result \<times> Receiver) option" where
  "handleType1_existing h payload aSourceId r =
     (let idx = bucketIndex (t1_mSuperFrameNo h) r; b = r_mpBuckets r idx
      in if t1_mSuperFrameNo h \<noteq> b_mSavedFrameNo b then Some (BUFFER_OUT_OF_RESOURCES, r)
         else if t1_mStreamId h \<noteq> b_mStreamId b \<or> aSourceId \<noteq> b_mSourceId b then Some (INVALID_PARAMETER, r)
         else if t1_mOfFragmentNo h \<noteq> b_mOfFragmentNo b \<or> t1_mFragmentNo h > b_mOfFragmentNo b
         then Some (BUFFER_OUT_OF_BOUNDS, r)
         else do {
           dup \<leftarrow> bit_get (b_mReceivedFragments b) (unat (t1_mFragmentNo h));
           if dup then Some (DUPLICATE_FRAGMENT, count_duplicate r)
           else if length payload \<noteq> b_mFragmentSize b then Some (FRAME_SIZE_MISMATCH, r)
           else do {
             received \<leftarrow> bit_set (b_mReceivedFragments b) (unat (t1_mFragmentNo h));
             f \<leftarrow> b_mpFrame b;
             f \<leftarrow> sf_write f (b_mFragmentSize b * unat (t1_mFragmentNo h)) payload;
             Some (OK, count_received (set_bucket idx (b\<lparr>b_mReceivedFragments := received,
               b_mFragmentCount := b_mFragmentCount b + 1, b_mpFrame := Some f\<rparr>) r))
           }
         })"

definition handleType1 :: "bytes \<Rightarrow> u8 \<Rightarrow> Receiver \<Rightarrow> (Result \<times> Receiver) option" where
  "handleType1 aData aSourceId r =
     (if length aData < 8 then Some (FRAME_SIZE_MISMATCH, r)
      else
        let (lNow, r) = r_nowUs r; r = updateJitter lNow r
        in do {
          lpHeader \<leftarrow> view_type1 aData 0;
          if t1_mFragmentNo lpHeader \<ge> 8192 \<or> t1_mOfFragmentNo lpHeader \<ge> 8192 then Some (BUFFER_OUT_OF_BOUNDS, r)
          else if t1_mFragmentNo lpHeader > t1_mOfFragmentNo lpHeader then Some (BUFFER_OUT_OF_BOUNDS, r)
          else if \<not> b_mActive (r_mpBuckets r (bucketIndex (t1_mSuperFrameNo lpHeader) r))
          then handleType1_open lNow lpHeader (drop 8 aData) aSourceId r
          else handleType1_existing lpHeader (drop 8 aData) aSourceId r
        })"

section \<open>Type2\<close>

definition type2_dts :: "FrameType2 \<Rightarrow> u64" where
  "type2_dts h = (if t2_mDtsPtsDiff h = - 1 then - 1 else t2_mPts h - ucast (t2_mDtsPtsDiff h))"

definition cache_stream :: "FrameType2 \<Rightarrow> Receiver \<Rightarrow> Receiver" where
  "cache_stream h r = r\<lparr>r_mStreams := (r_mStreams r)
     (t2_mStreamId h := \<lparr>st_mPayloadType = t2_mPayloadType h, st_mPayloadCode = t2_mPayloadCode h\<rparr>)\<rparr>"

definition handleType2_open :: "int \<Rightarrow> FrameType2 \<Rightarrow> bytes \<Rightarrow> u8 \<Rightarrow> Receiver \<Rightarrow> (Result \<times> Receiver) option" where
  "handleType2_open lNow h payload aSourceId r =
     (let idx = bucketIndex (t2_mSuperFrameNo h) r;
          lOffset = unat (t2_mType1PacketSize h) * unat (t2_mOfFragmentNo h);
          lTotalSize = lOffset + unat (t2_mSizeOfData h);
          (lOrder, r) = recalculateSuperFrameNo (t2_mSuperFrameNo h) r
      in if lOrder = b_mDeliveryOrder (r_mpBuckets r idx) then Some (FRAGMENT_TOO_OLD, r)
         else do {
           received \<leftarrow> bit_set {} (unat (t2_mOfFragmentNo h));
           let b = \<lparr>b_mActive = True, b_mPayloadType = t2_mPayloadType h,
             b_mPayloadCode = t2_mPayloadCode h, b_mSavedFrameNo = t2_mSuperFrameNo h,
             b_mTimeoutUs = timeoutUs lNow r, b_mFragmentCount = 1, b_mOfFragmentNo = t2_mOfFragmentNo h,
             b_mDeliveryOrder = lOrder, b_mFragmentSize = unat (t2_mType1PacketSize h), b_mType3Size = 0,
             b_mType2Size = unat (t2_mSizeOfData h), b_mPts = t2_mPts h, b_mDts = type2_dts h,
             b_mStreamId = t2_mStreamId h, b_mSourceId = aSourceId, b_mFlags = getFlags (t2_mFrameType h),
             b_mFirstArrivalUs = lNow, b_mLastNackUs = 0, b_mNackCount = 0, b_mReceivedFragments = received,
             b_mpFrame = b_mpFrame (r_mpBuckets r idx)\<rparr>;
           openBucket idx b lTotalSize lOffset payload (cache_stream h r)
         })"

text \<open>The offset and the frame size of a Type2 payload, with and without a Type3 fragment before it.\<close>

definition type2_placement :: "Bucket \<Rightarrow> FrameType2 \<Rightarrow> nat \<times> nat" where
  "type2_placement b h =
     (if b_mType3Size b > 0 then
        (let before = b_mFragmentSize b * size_sub (unat (t2_mOfFragmentNo h)) 1 + b_mType3Size b
         in (before, before + unat (t2_mSizeOfData h)))
      else (unat (t2_mType1PacketSize h) * unat (t2_mOfFragmentNo h),
            b_mFragmentSize b * unat (t2_mOfFragmentNo h) + unat (t2_mSizeOfData h)))"

definition handleType2_existing :: "FrameType2 \<Rightarrow> bytes \<Rightarrow> u8 \<Rightarrow> Receiver \<Rightarrow> (Result \<times> Receiver) option" where
  "handleType2_existing h payload aSourceId r =
     (let idx = bucketIndex (t2_mSuperFrameNo h) r; b = r_mpBuckets r idx
      in if t2_mSuperFrameNo h \<noteq> b_mSavedFrameNo b then Some (BUFFER_OUT_OF_RESOURCES, r)
         else if t2_mStreamId h \<noteq> b_mStreamId b \<or> aSourceId \<noteq> b_mSourceId b then Some (INVALID_PARAMETER, r)
         else if t2_mOfFragmentNo h \<noteq> b_mOfFragmentNo b then Some (BUFFER_OUT_OF_BOUNDS, r)
         else if t2_mOfFragmentNo h > 0 \<and> unat (t2_mType1PacketSize h) \<noteq> b_mFragmentSize b
         then Some (FRAME_SIZE_MISMATCH, r)
         else do {
           dup \<leftarrow> bit_get (b_mReceivedFragments b) (unat (t2_mOfFragmentNo h));
           if dup then Some (DUPLICATE_FRAGMENT, count_duplicate r)
           else
             let (lOffset, lActualSize) = type2_placement b h;
                 lAllocatedSize = b_mFragmentSize b * (unat (b_mOfFragmentNo b) + 1)
             in if lOffset + unat (t2_mSizeOfData h) > lAllocatedSize then Some (BUFFER_OUT_OF_BOUNDS, r)
                else do {
                  received \<leftarrow> bit_set (b_mReceivedFragments b) (unat (t2_mOfFragmentNo h));
                  f \<leftarrow> b_mpFrame b;
                  f \<leftarrow> sf_write (f\<lparr>sf_mSize := lActualSize\<rparr>) lOffset payload;
                  Some (OK, cache_stream h (count_received (set_bucket idx (b\<lparr>b_mReceivedFragments := received,
                    b_mFragmentCount := b_mFragmentCount b + 1, b_mPts := t2_mPts h,
                    b_mPayloadType := t2_mPayloadType h, b_mPayloadCode := t2_mPayloadCode h,
                    b_mFlags := getFlags (t2_mFrameType h), b_mType2Size := unat (t2_mSizeOfData h),
                    b_mDts := type2_dts h, b_mpFrame := Some f\<rparr>) r)))
                }
         })"

definition handleType2 :: "bytes \<Rightarrow> u8 \<Rightarrow> Receiver \<Rightarrow> (Result \<times> Receiver) option" where
  "handleType2 aData aSourceId r =
     (if length aData < 27 then Some (FRAME_SIZE_MISMATCH, r)
      else
        let (lNow, r) = r_nowUs r; r = updateJitter lNow r
        in do {
          lpHeader \<leftarrow> view_type2 aData 0;
          if length aData \<noteq> 27 + unat (t2_mSizeOfData lpHeader) then Some (FRAME_SIZE_MISMATCH, r)
          else if t2_mOfFragmentNo lpHeader \<ge> 8192 then Some (BUFFER_OUT_OF_BOUNDS, r)
          else if t2_mOfFragmentNo lpHeader > 0 \<and> t2_mType1PacketSize lpHeader = 0 then Some (INVALID_PARAMETER, r)
          else if t2_mDtsPtsDiff lpHeader \<noteq> - 1 \<and> ucast (t2_mDtsPtsDiff lpHeader) > t2_mPts lpHeader
          then Some (INVALID_PARAMETER, r)
          else if unat (t2_mType1PacketSize lpHeader) * unat (t2_mOfFragmentNo lpHeader) +
              unat (t2_mSizeOfData lpHeader) > 100 * 1024 * 1024 then Some (TOO_LARGE_FRAME, r)
          else if \<not> b_mActive (r_mpBuckets r (bucketIndex (t2_mSuperFrameNo lpHeader) r))
          then handleType2_open lNow lpHeader (drop 27 aData) aSourceId r
          else handleType2_existing lpHeader (drop 27 aData) aSourceId r
        })"

section \<open>Type3\<close>

definition handleType3_open :: "int \<Rightarrow> FrameType3 \<Rightarrow> u16 \<Rightarrow> bytes \<Rightarrow> u8 \<Rightarrow> Receiver \<Rightarrow> (Result \<times> Receiver) option" where
  "handleType3_open lNow h lFragmentNo payload aSourceId r =
     (let idx = bucketIndex (t3_mSuperFrameNo h) r;
          lTotalSize = unat (t3_mType1PacketSize h) * (unat (t3_mOfFragmentNo h) + 1);
          (lOrder, r) = recalculateSuperFrameNo (t3_mSuperFrameNo h) r
      in if lOrder = b_mDeliveryOrder (r_mpBuckets r idx) then Some (FRAGMENT_TOO_OLD, r)
         else do {
           received \<leftarrow> bit_set {} (unat lFragmentNo);
           let lpStream = r_mStreams r (t3_mStreamId h);
           let b = \<lparr>b_mActive = True, b_mPayloadType = st_mPayloadType lpStream,
             b_mPayloadCode = st_mPayloadCode lpStream, b_mSavedFrameNo = t3_mSuperFrameNo h,
             b_mTimeoutUs = timeoutUs lNow r, b_mFragmentCount = 1, b_mOfFragmentNo = t3_mOfFragmentNo h,
             b_mDeliveryOrder = lOrder, b_mFragmentSize = unat (t3_mType1PacketSize h),
             b_mType3Size = length payload, b_mType2Size = 0, b_mPts = - 1, b_mDts = - 1,
             b_mStreamId = t3_mStreamId h, b_mSourceId = aSourceId, b_mFlags = getFlags (t3_mFrameType h),
             b_mFirstArrivalUs = lNow, b_mLastNackUs = 0, b_mNackCount = 0, b_mReceivedFragments = received,
             b_mpFrame = b_mpFrame (r_mpBuckets r idx)\<rparr>;
           openBucket idx b lTotalSize (unat (t3_mType1PacketSize h) * unat lFragmentNo) payload r
         })"

text \<open>
  A Type3 fragment after the Type2 fragment moves the Type2 payload down to where the Type3 payload
  will end; before it, it sets the size known so far.
\<close>

definition type3_relocate :: "Bucket \<Rightarrow> FrameType3 \<Rightarrow> nat \<Rightarrow> SuperFrame \<Rightarrow> SuperFrame option" where
  "type3_relocate b h lPayloadSize f =
     (let of_no = unat (t3_mOfFragmentNo h);
          lNewOffset = b_mFragmentSize b * size_sub of_no 1 + lPayloadSize
      in do {
        last \<leftarrow> bit_get (b_mReceivedFragments b) of_no;
        if last \<and> b_mType2Size b > 0 then do {
          f \<leftarrow> sf_move f lNewOffset (b_mFragmentSize b * of_no) (b_mType2Size b);
          Some (f\<lparr>sf_mSize := lNewOffset + b_mType2Size b\<rparr>)
        }
        else if \<not> last then Some (f\<lparr>sf_mSize := lNewOffset\<rparr>)
        else Some f
      })"

definition handleType3_existing :: "FrameType3 \<Rightarrow> u16 \<Rightarrow> bytes \<Rightarrow> u8 \<Rightarrow> Receiver \<Rightarrow> (Result \<times> Receiver) option" where
  "handleType3_existing h lFragmentNo payload aSourceId r =
     (let idx = bucketIndex (t3_mSuperFrameNo h) r; b = r_mpBuckets r idx
      in if t3_mSuperFrameNo h \<noteq> b_mSavedFrameNo b then Some (BUFFER_OUT_OF_RESOURCES, r)
         else if t3_mStreamId h \<noteq> b_mStreamId b \<or> aSourceId \<noteq> b_mSourceId b then Some (INVALID_PARAMETER, r)
         else if t3_mOfFragmentNo h \<noteq> b_mOfFragmentNo b \<or> lFragmentNo > b_mOfFragmentNo b
         then Some (BUFFER_OUT_OF_BOUNDS, r)
         else if unat (t3_mType1PacketSize h) \<noteq> b_mFragmentSize b then Some (FRAME_SIZE_MISMATCH, r)
         else do {
           dup \<leftarrow> bit_get (b_mReceivedFragments b) (unat lFragmentNo);
           if dup then Some (DUPLICATE_FRAGMENT, count_duplicate r)
           else
             let lOffset = b_mFragmentSize b * unat lFragmentNo;
                 lAllocatedSize = b_mFragmentSize b * (unat (b_mOfFragmentNo b) + 1)
             in if lOffset + length payload > lAllocatedSize then Some (BUFFER_OUT_OF_BOUNDS, r)
                else do {
                  received \<leftarrow> bit_set (b_mReceivedFragments b) (unat lFragmentNo);
                  let b = b\<lparr>b_mReceivedFragments := received, b_mFragmentCount := b_mFragmentCount b + 1,
                    b_mType3Size := length payload\<rparr>;
                  f \<leftarrow> b_mpFrame b;
                  f \<leftarrow> type3_relocate b h (length payload) f;
                  f \<leftarrow> sf_write f lOffset payload;
                  Some (OK, count_received (set_bucket idx (b\<lparr>b_mpFrame := Some f\<rparr>) r))
                }
         })"

definition handleType3 :: "bytes \<Rightarrow> u8 \<Rightarrow> Receiver \<Rightarrow> (Result \<times> Receiver) option" where
  "handleType3 aData aSourceId r =
     (if length aData < 8 then Some (FRAME_SIZE_MISMATCH, r)
      else
        let (lNow, r) = r_nowUs r; r = updateJitter lNow r
        in do {
          lpHeader \<leftarrow> view_type3 aData 0;
          let lFragmentNo = t3_mOfFragmentNo lpHeader - 1;
          if t3_mOfFragmentNo lpHeader \<ge> 8192 \<or> t3_mOfFragmentNo lpHeader = 0 then Some (BUFFER_OUT_OF_BOUNDS, r)
          else if length aData - 8 > unat (t3_mType1PacketSize lpHeader) then Some (BUFFER_OUT_OF_BOUNDS, r)
          else if unat (t3_mType1PacketSize lpHeader) * (unat (t3_mOfFragmentNo lpHeader) + 1) > 100 * 1024 * 1024
          then Some (TOO_LARGE_FRAME, r)
          else if \<not> b_mActive (r_mpBuckets r (bucketIndex (t3_mSuperFrameNo lpHeader) r))
          then handleType3_open lNow lpHeader lFragmentNo (drop 8 aData) aSourceId r
          else handleType3_existing lpHeader lFragmentNo (drop 8 aData) aSourceId r
        })"

section \<open>Type0 and Type4\<close>

definition handleType0 :: "bytes \<Rightarrow> u8 \<Rightarrow> Receiver \<Rightarrow> (Result \<times> Receiver) option" where
  "handleType0 aData aSourceId r = Some (OK, r)"

fun type4_loop :: "bytes \<Rightarrow> nat \<Rightarrow> u8 \<Rightarrow> nat \<Rightarrow> nat \<Rightarrow> Receiver \<Rightarrow> (Result \<times> Receiver) option" where
  "type4_loop aData lFrameSize aSourceId 0 lOffset r =
     Some (if lOffset = length aData then OK else FRAME_SIZE_MISMATCH, r)"
| "type4_loop aData lFrameSize aSourceId (Suc n) lOffset r = do {
     first \<leftarrow> mem_load 1 aData lOffset;
     if getFrameType (hd first) \<noteq> TYPE1 then Some (INVALID_PARAMETER, r)
     else do {
       frame \<leftarrow> mem_load lFrameSize aData lOffset;
       (lLastResult, r) \<leftarrow> handleType1 frame aSourceId r;
       if lLastResult \<noteq> OK \<and> lLastResult \<noteq> DUPLICATE_FRAGMENT then Some (lLastResult, r)
       else type4_loop aData lFrameSize aSourceId n (lOffset + lFrameSize) r
     }
   }"

definition handleType4 :: "bytes \<Rightarrow> u8 \<Rightarrow> Receiver \<Rightarrow> (Result \<times> Receiver) option" where
  "handleType4 aData aSourceId r =
     (if length aData < 2 then Some (FRAME_SIZE_MISMATCH, r)
      else do {
        lpHeader \<leftarrow> view_type4 aData 0;
        let lFrameCount = unat (t4_mFrameCount lpHeader);
        if lFrameCount = 0 then Some (INVALID_PARAMETER, r)
        else
          let r = r\<lparr>r_mStatistics := (r_mStatistics r)\<lparr>rs_mBundlesReceived := rs_mBundlesReceived (r_mStatistics r) + 1\<rparr>\<rparr>;
              lPayloadSize = length aData - 2;
              lFrameSize = lPayloadSize div lFrameCount
          in if lPayloadSize mod lFrameCount \<noteq> 0 then Some (FRAME_SIZE_MISMATCH, r)
             else if lFrameSize < 8 then Some (FRAME_SIZE_MISMATCH, r)
             else type4_loop aData lFrameSize aSourceId lFrameCount 2 r
      })"

end
