(* ===== verification/Efp_Nack.thy ===== *)
theory Efp_Nack
  imports Efp_Receiver
begin

text \<open>
  NACK generation (\<^verbatim>\<open>efp.h\<close>): the delay before a NACK, the scan for missing fragments and
  \<open>processNacks\<close>. \<open>mNackCallback\<close> appends the packet to \<open>r_nacks\<close>.
\<close>

section \<open>The delay of a NACK\<close>

text \<open>
  \<open>int64_t << n\<close>: undefined for \<open>n\<close> at least the width, otherwise the product modulo 2^64.
\<close>

definition shl64 :: "int \<Rightarrow> nat \<Rightarrow> int option" where
  "shl64 x n = (if n < 64 then Some (sint (word_of_int (x * 2 ^ n) :: u64)) else None)"

definition nackBaseDelayUs :: "Receiver \<Rightarrow> int" where
  "nackBaseDelayUs r = (if r_mNackIntervalMs r > 0 then uint (r_mNackIntervalMs r) * 1000
     else max 10000 (r_mJitterUs r * 4))"

definition calculateNackDelayUs :: "Bucket \<Rightarrow> Receiver \<Rightarrow> (int \<times> Receiver) option" where
  "calculateNackDelayUs b r = do {
     lBackoffDelayUs \<leftarrow> shl64 (nackBaseDelayUs r) (unat (b_mNackCount b));
     let (lNow, r) = r_nowUs r;
     let lRemainingUs = b_mTimeoutUs b - lNow - 10000;
     let lRemainingUs = (if lRemainingUs < 0 then 0 else lRemainingUs);
     Some (min lBackoffDelayUs lRemainingUs, r)
   }"

section \<open>The NACK packet\<close>

definition nackEntryOf :: "Bucket \<Rightarrow> u16 \<Rightarrow> u16 \<Rightarrow> NackEntry" where
  "nackEntryOf b lRangeStart lRangeCount = \<lparr>ne_mStreamId = b_mStreamId b, ne_mSuperFrameNo = b_mSavedFrameNo b,
     ne_mFragmentNo = lRangeStart, ne_mFragmentCount = ucast lRangeCount\<rparr>"

text \<open>One turn of the scan: the entries so far, \<open>lRangeStart\<close> (\<open>UINT16_MAX\<close>: no range) and \<open>lRangeCount\<close>.\<close>

definition nack_scan_step :: "Bucket \<Rightarrow> u16 \<Rightarrow> NackEntry list \<times> u16 \<times> u16 \<Rightarrow> (NackEntry list \<times> u16 \<times> u16) option" where
  "nack_scan_step b lI st = (case st of (lEntries, lRangeStart, lRangeCount) \<Rightarrow> do {
     received \<leftarrow> bit_get (b_mReceivedFragments b) (unat lI);
     Some (if \<not> received then
             (if lRangeStart = - 1 then (lEntries, lI, 0)
              else if lRangeCount < 255 then (lEntries, lRangeStart, lRangeCount + 1)
              else (lEntries @ [nackEntryOf b lRangeStart lRangeCount], lI, 0))
           else if lRangeStart \<noteq> - 1 then (lEntries @ [nackEntryOf b lRangeStart lRangeCount], - 1, 0)
           else (lEntries, lRangeStart, lRangeCount))
   })"

fun nack_scan :: "Bucket \<Rightarrow> nat list \<Rightarrow> NackEntry list \<times> u16 \<times> u16 \<Rightarrow> (NackEntry list \<times> u16 \<times> u16) option" where
  "nack_scan b [] st = Some st"
| "nack_scan b (i # is) st = do { st \<leftarrow> nack_scan_step b (word_of_nat i) st; nack_scan b is st }"

definition nack_missing :: "Bucket \<Rightarrow> NackEntry list option" where
  "nack_missing b = do {
     (lEntries, lRangeStart, lRangeCount) \<leftarrow> nack_scan b [0 ..< Suc (unat (b_mOfFragmentNo b))] ([], - 1, 0);
     Some (if lRangeStart \<noteq> - 1 then lEntries @ [nackEntryOf b lRangeStart lRangeCount] else lEntries)
   }"

definition nack_packet :: "NackEntry list \<Rightarrow> bytes" where
  "nack_packet lEntries = enc_nack \<lparr>nk_mFrameType = makeFrameTypeByte TYPE0 0, nk_mSubtype = type0SubtypeValue NACK,
     nk_mNackCount = word_of_nat (length lEntries)\<rparr> @ concat (map enc_nackEntry lEntries)"

definition buildNack :: "Bucket \<Rightarrow> bytes option" where
  "buildNack b = do {
     lEntries \<leftarrow> nack_missing b;
     Some (if lEntries = [] then [] else nack_packet (take 255 lEntries))
   }"

section \<open>processNacks\<close>

definition bucket_complete :: "Bucket \<Rightarrow> bool" where
  "bucket_complete b \<longleftrightarrow> unat (b_mFragmentCount b) = unat (b_mOfFragmentNo b) + 1"

definition nack_bucket :: "int \<Rightarrow> u16 \<Rightarrow> Receiver \<Rightarrow> Receiver option" where
  "nack_bucket lNow idx r =
     (let b = r_mpBuckets r idx
      in if bucket_complete b then Some r
         else if b_mNackCount b \<ge> r_mMaxNackRetries r then Some r
         else do {
           (lDelayUs, r) \<leftarrow> calculateNackDelayUs b r;
           let lTriggerTimeUs = (if b_mLastNackUs b = 0 then b_mFirstArrivalUs b + lDelayUs else b_mLastNackUs b + lDelayUs);
           if lNow < lTriggerTimeUs then Some r
           else do {
             lNackData \<leftarrow> buildNack b;
             if lNackData = [] then Some r
             else Some (set_bucket idx (b\<lparr>b_mLastNackUs := lNow, b_mNackCount := b_mNackCount b + 1\<rparr>)
               (r\<lparr>r_nacks := r_nacks r @ [lNackData],
                  r_mStatistics := (r_mStatistics r)\<lparr>rs_mNacksSent := rs_mNacksSent (r_mStatistics r) + 1\<rparr>\<rparr>))
           }
         })"

fun nack_loop :: "int \<Rightarrow> (int \<times> u16) list \<Rightarrow> Receiver \<Rightarrow> Receiver option" where
  "nack_loop lNow [] r = Some r"
| "nack_loop lNow ((lOrder, idx) # m) r = do { r \<leftarrow> nack_bucket lNow idx r; nack_loop lNow m r }"

definition processNacks :: "Receiver \<Rightarrow> Receiver option" where
  "processNacks r =
     (if r_mMaxNackRetries r = 0 then Some r
      else let (lNow, r) = r_nowUs r in nack_loop lNow (r_mBucketMap r) r)"

end
