(* ===== verification/Efp_Delivery.thy ===== *)
theory Efp_Delivery
  imports Efp_Nack
begin

text \<open>
  Delivery (\<^verbatim>\<open>efp.h\<close>): \<open>deliverFrame\<close>, \<open>processTimeouts\<close> and the public operations of a receiver. In
  the run-to-completion mode a frame goes to the callback (\<open>r_delivered\<close>) at once; in the threaded
  mode it goes to the delivery queue and the delivery thread takes it from there.
\<close>

section \<open>deliverFrame\<close>

definition finishedFrame :: "Bucket \<Rightarrow> SuperFrame \<Rightarrow> SuperFrame" where
  "finishedFrame b f = f\<lparr>sf_mPayloadType := b_mPayloadType b, sf_mPayloadCode := b_mPayloadCode b,
     sf_mPts := b_mPts b, sf_mDts := b_mDts b, sf_mStreamId := b_mStreamId b, sf_mSourceId := b_mSourceId b,
     sf_mFlags := b_mFlags b, sf_mSuperFrameNo := b_mSavedFrameNo b, sf_mBroken := \<not> bucket_complete b\<rparr>"

definition count_delivered :: "bool \<Rightarrow> Receiver \<Rightarrow> Receiver" where
  "count_delivered broken r = r\<lparr>r_mStatistics :=
     (if broken then (r_mStatistics r)\<lparr>rs_mBrokenFrames := rs_mBrokenFrames (r_mStatistics r) + 1\<rparr>
      else (r_mStatistics r)\<lparr>rs_mCompleteFrames := rs_mCompleteFrames (r_mStatistics r) + 1\<rparr>)\<rparr>"

definition hand_over :: "SuperFrame \<Rightarrow> Receiver \<Rightarrow> Receiver" where
  "hand_over f r = (if r_mMode r = THREADED
     then r\<lparr>r_mDeliveryQueue := r_mDeliveryQueue r @ [f], r_mDeliveryReady := True\<rparr>
     else r\<lparr>r_delivered := r_delivered r @ [f]\<rparr>)"

definition deliverFrame :: "u16 \<Rightarrow> Receiver \<Rightarrow> Receiver option" where
  "deliverFrame idx r = do {
     let b = r_mpBuckets r idx;
     f \<leftarrow> b_mpFrame b;
     let f = finishedFrame b f;
     let r = hand_over f (count_delivered (sf_mBroken f) r);
     let r = r\<lparr>r_mBucketMap := om_erase (b_mDeliveryOrder b) (r_mBucketMap r)\<rparr>;
     Some (set_bucket idx (b\<lparr>b_mActive := False, b_mpFrame := None\<rparr>) r)
   }"

section \<open>processTimeouts\<close>

definition to_deliver :: "int \<Rightarrow> Receiver \<Rightarrow> Bucket \<Rightarrow> bool" where
  "to_deliver lNow r b =
     (if bucket_complete b \<or> b_mTimeoutUs b \<le> lNow then True
      else if r_mHolTimeoutMs r > 0 then lNow - b_mFirstArrivalUs b \<ge> uint (r_mHolTimeoutMs r) * 1000
      else False)"

fun deliver_loop :: "u16 list \<Rightarrow> Receiver \<Rightarrow> Receiver option" where
  "deliver_loop [] r = Some r"
| "deliver_loop (idx # is) r = do { r \<leftarrow> deliverFrame idx r; deliver_loop is r }"

text \<open>\<open>std::sort\<close> of the buckets by delivery order; the orders in the map are distinct.\<close>

definition processTimeouts :: "Receiver \<Rightarrow> Receiver option" where
  "processTimeouts r =
     (let (lNow, r) = r_nowUs r
      in do {
        r \<leftarrow> processNacks r;
        let lToDeliver = filter (\<lambda>idx. to_deliver lNow r (r_mpBuckets r idx)) (map snd (r_mBucketMap r));
        deliver_loop (sort_key (\<lambda>idx. b_mDeliveryOrder (r_mpBuckets r idx)) lToDeliver) r
      })"

section \<open>Public operations\<close>

definition dispatch :: "bytes \<Rightarrow> u8 \<Rightarrow> Receiver \<Rightarrow> (Result \<times> Receiver) option" where
  "dispatch aData aSourceId r = (case getFrameType (hd aData) of
       TYPE0 \<Rightarrow> handleType0 aData aSourceId r
     | TYPE1 \<Rightarrow> handleType1 aData aSourceId r
     | TYPE2 \<Rightarrow> handleType2 aData aSourceId r
     | TYPE3 \<Rightarrow> handleType3 aData aSourceId r
     | TYPE4 \<Rightarrow> handleType4 aData aSourceId r
     | TYPE_UNNAMED _ \<Rightarrow> Some (INVALID_PARAMETER, r))"

definition receive :: "bytes \<Rightarrow> u8 \<Rightarrow> Receiver \<Rightarrow> (Result \<times> Receiver) option" where
  "receive aData aSourceId r =
     (if aData = [] then Some (INVALID_PARAMETER, r)
      else if \<not> named_type (getFrameType (hd aData)) then Some (INVALID_PARAMETER, r)
      else do {
        (lResult, r) \<leftarrow> dispatch aData aSourceId r;
        if r_mMode r = RUN_TO_COMPLETION then do { r \<leftarrow> processTimeouts r; Some (lResult, r) }
        else Some (lResult, r)
      })"

definition poll :: "Receiver \<Rightarrow> Receiver option" where
  "poll r = (if r_mMode r \<noteq> RUN_TO_COMPLETION then Some r else processTimeouts r)"

text \<open>One turn of \<open>workerLoop\<close>.\<close>

definition workerTick :: "Receiver \<Rightarrow> Receiver option" where
  "workerTick r = (if r_mRunning r then processTimeouts r else Some r)"

text \<open>
  One turn of \<open>deliveryLoop\<close>, from its head to its head. The thread leaves the loop when the receiver
  has stopped, and sleeps while nothing is ready.
\<close>

definition deliveryTick :: "Receiver \<Rightarrow> Receiver" where
  "deliveryTick r =
     (if \<not> r_mRunning r \<or> \<not> r_mDeliveryReady r then r
      else case r_mDeliveryQueue r of
             [] \<Rightarrow> r\<lparr>r_mDeliveryReady := False\<rparr>
           | f # q \<Rightarrow> r\<lparr>r_mDeliveryQueue := q, r_mDeliveryReady := (q \<noteq> []), r_delivered := r_delivered r @ [f]\<rparr>)"

text \<open>
  The section of \<open>stop\<close> under \<open>mDeliveryMutex\<close>. The notification and the two joins behind it are steps of
  \<open>Efp_Threads\<close>.
\<close>

definition stop :: "Receiver \<Rightarrow> Receiver" where
  "stop r = r\<lparr>r_mRunning := False\<rparr>"

end
