(* ===== verification/Efp_ReceiverInv.thy ===== *)
theory Efp_ReceiverInv
  imports Efp_Delivery
begin

text \<open>
  Memory safety of the packet handlers for arbitrary packets: the invariant of the receiver, which ties
  every active bucket to a frame buffer that is large enough for what may still arrive, and its
  preservation by the handlers of Type1, Type2 and Type3 packets.
\<close>

section \<open>The invariant\<close>

text \<open>
  The shape of an active bucket over a frame buffer of \<open>n\<close> bytes. Before the final fragment arrived the
  buffer has room for a full one; afterwards it has room for the Type2 payload where it lies while no
  Type3 fragment was seen. A Type3 payload is only known when its fragment was received.
\<close>

definition layout :: "nat \<Rightarrow> Bucket \<Rightarrow> bool" where
  "layout n b \<longleftrightarrow>
     unat (b_mOfFragmentNo b) < 8192 \<and>
     b_mReceivedFragments b \<subseteq> {..unat (b_mOfFragmentNo b)} \<and>
     unat (b_mFragmentCount b) = card (b_mReceivedFragments b) \<and>
     b_mFragmentSize b * unat (b_mOfFragmentNo b) \<le> n \<and>
     (unat (b_mOfFragmentNo b) \<notin> b_mReceivedFragments b \<longrightarrow>
        b_mType2Size b = 0 \<and> b_mFragmentSize b * (unat (b_mOfFragmentNo b) + 1) \<le> n) \<and>
     (unat (b_mOfFragmentNo b) \<in> b_mReceivedFragments b \<longrightarrow> b_mType3Size b = 0 \<longrightarrow>
        b_mFragmentSize b * unat (b_mOfFragmentNo b) + b_mType2Size b \<le> n) \<and>
     (0 < b_mType3Size b \<longrightarrow> 0 < unat (b_mOfFragmentNo b) \<and> unat (b_mOfFragmentNo b) - 1 \<in> b_mReceivedFragments b)"

definition frame_fits :: "SuperFrame \<Rightarrow> bool" where
  "frame_fits f \<longleftrightarrow> (\<exists>m. sf_mpData f = Some m \<and> sf_mSize f \<le> length m \<and> length m \<le> MAX_SUPERFRAME_SIZE)"

definition bucket_ok :: "u16 \<Rightarrow> u16 \<Rightarrow> Bucket \<Rightarrow> bool" where
  "bucket_ok bmask idx b \<longleftrightarrow>
     (\<exists>f m. b_mpFrame b = Some f \<and> sf_mpData f = Some m \<and> sf_mSize f \<le> length m \<and>
        length m \<le> MAX_SUPERFRAME_SIZE \<and> layout (length m) b) \<and>
     b_mSavedFrameNo b AND bmask = idx \<and> word_of_int (b_mDeliveryOrder b) = b_mSavedFrameNo b"

definition map_ok :: "(int \<times> u16) list \<Rightarrow> (u16 \<Rightarrow> Bucket) \<Rightarrow> bool" where
  "map_ok m bs \<longleftrightarrow> om_wf m \<and>
     (\<forall>lOrder idx. map_of m lOrder = Some idx \<longleftrightarrow> b_mActive (bs idx) \<and> b_mDeliveryOrder (bs idx) = lOrder)"

definition recv_inv :: "Receiver \<Rightarrow> bool" where
  "recv_inv r \<longleftrightarrow>
     (\<forall>idx. b_mActive (r_mpBuckets r idx) \<longrightarrow> bucket_ok (r_BUFFER_SIZE r) idx (r_mpBuckets r idx)) \<and>
     map_ok (r_mBucketMap r) (r_mpBuckets r) \<and>
     (\<not> r_mFirstFrame r \<longrightarrow> word_of_int (r_mFrameNoRecalc r) = r_mOldFrameNo r) \<and>
     r_mMaxNackRetries r \<le> 64 \<and>
     list_all frame_fits (r_mDeliveryQueue r) \<and> list_all frame_fits (r_delivered r)"

lemma recv_invD:
  assumes "recv_inv r"
  shows "b_mActive (r_mpBuckets r idx) \<Longrightarrow> bucket_ok (r_BUFFER_SIZE r) idx (r_mpBuckets r idx)"
    "map_ok (r_mBucketMap r) (r_mpBuckets r)" "\<not> r_mFirstFrame r \<Longrightarrow> word_of_int (r_mFrameNoRecalc r) = r_mOldFrameNo r"
    "r_mMaxNackRetries r \<le> 64" "list_all frame_fits (r_mDeliveryQueue r)" "list_all frame_fits (r_delivered r)"
  using assms by (simp_all add: recv_inv_def)

lemma recv_inv_new: "newReceiver n tmo hol retries iv mode clk alloc = Inr r \<Longrightarrow> retries \<le> 64 \<Longrightarrow> recv_inv r"
  by (auto simp: newReceiver_def recv_inv_def emptyBucket_def map_ok_def split: if_splits)

text \<open>Fields the invariant does not read.\<close>

lemma recv_inv_frame [simp]:
  "recv_inv (r\<lparr>r_clock := c\<rparr>) = recv_inv r" "recv_inv (r\<lparr>r_mStatistics := x\<rparr>) = recv_inv r"
  "recv_inv (r\<lparr>r_mStreams := st\<rparr>) = recv_inv r" "recv_inv (r\<lparr>r_alloc := al\<rparr>) = recv_inv r"
  "recv_inv (r\<lparr>r_nacks := ns\<rparr>) = recv_inv r" "recv_inv (r\<lparr>r_mDeliveryReady := b\<rparr>) = recv_inv r"
  "recv_inv (r\<lparr>r_mLastArrivalUs := t\<rparr>) = recv_inv r" "recv_inv (r\<lparr>r_mRunning := b\<rparr>) = recv_inv r"
  "recv_inv (r\<lparr>r_mJitterUs := j\<rparr>) = recv_inv r" "recv_inv (r\<lparr>r_mExpectedIntervalUs := e\<rparr>) = recv_inv r"
  by (simp_all add: recv_inv_def)

lemma recv_inv_count [simp]:
  "recv_inv (count_received r) = recv_inv r" "recv_inv (count_duplicate r) = recv_inv r"
  "recv_inv (cache_stream h r) = recv_inv r" "recv_inv (count_delivered x r) = recv_inv r"
  by (simp_all add: count_received_def count_duplicate_def cache_stream_def count_delivered_def)

lemma recv_inv_nowUs: "r_nowUs r = (t, r') \<Longrightarrow> recv_inv r' = recv_inv r"
  by (auto simp: r_nowUs_def nowUs_def)

lemma recv_inv_jitter [simp]: "recv_inv (updateJitter t r) = recv_inv r"
  by (simp add: updateJitter_def Let_def)

text \<open>The unwrapped number is congruent to the 16-bit one.\<close>

lemma recalculate_spec:
  assumes "recv_inv r" "recalculateSuperFrameNo sf r = (n, r')"
  shows "recv_inv r'" "word_of_int n = sf" "r_mpBuckets r' = r_mpBuckets r" "r_BUFFER_SIZE r' = r_BUFFER_SIZE r"
    "r_mBucketMap r' = r_mBucketMap r" "r_mStreams r' = r_mStreams r"
proof -
  have "word_of_int (r_mFrameNoRecalc r + sint (sf - r_mOldFrameNo r)) = sf" if "\<not> r_mFirstFrame r"
    using recv_invD(3) [OF assms(1) that] by (simp flip: wi_hom_add)
  with assms show "recv_inv r'" "word_of_int n = sf"
    by (auto simp: recalculateSuperFrameNo_def recv_inv_def Let_def split: if_splits)
  from assms(2) show "r_mpBuckets r' = r_mpBuckets r" "r_BUFFER_SIZE r' = r_BUFFER_SIZE r"
    "r_mBucketMap r' = r_mBucketMap r" "r_mStreams r' = r_mStreams r"
    by (auto simp: recalculateSuperFrameNo_def Let_def split: if_splits)
qed

text \<open>No active bucket has the delivery order of an inactive slot's superframe number.\<close>

lemma order_free:
  assumes "recv_inv r" "\<not> b_mActive (r_mpBuckets r (sf AND r_BUFFER_SIZE r))" "word_of_int n = sf"
    "b_mActive (r_mpBuckets r idx)"
  shows "b_mDeliveryOrder (r_mpBuckets r idx) \<noteq> n"
proof
  assume "b_mDeliveryOrder (r_mpBuckets r idx) = n"
  moreover have "b_mSavedFrameNo (r_mpBuckets r idx) AND r_BUFFER_SIZE r = idx"
    "word_of_int (b_mDeliveryOrder (r_mpBuckets r idx)) = b_mSavedFrameNo (r_mpBuckets r idx)"
    using recv_invD(1) [OF assms(1,4)] by (simp_all add: bucket_ok_def)
  ultimately have "sf AND r_BUFFER_SIZE r = idx" using assms(3) by simp
  with assms(2,4) show False by simp
qed

lemma map_ok_open:
  assumes "map_ok m bs" "\<not> b_mActive (bs idx)" "b_mActive b" "\<And>i. b_mActive (bs i) \<Longrightarrow> b_mDeliveryOrder (bs i) \<noteq> b_mDeliveryOrder b"
  shows "map_ok (om_update (b_mDeliveryOrder b) idx m) (bs(idx := b))"
  using assms by (auto simp: map_ok_def om.wf_update om.lookup_update)

lemma map_ok_reopen:
  assumes "map_ok m bs" "\<not> b_mActive (bs idx)" "\<not> b_mActive b" "\<And>i. b_mActive (bs i) \<Longrightarrow> b_mDeliveryOrder (bs i) \<noteq> n"
  shows "map_ok (om_erase n (om_update n idx m)) (bs(idx := b))"
  using assms by (auto simp: map_ok_def om.wf_update om.wf_erase om.lookup_update om.lookup_erase)

lemma map_ok_same:
  "map_ok m bs \<Longrightarrow> b_mActive b = b_mActive (bs idx) \<Longrightarrow> b_mDeliveryOrder b = b_mDeliveryOrder (bs idx) \<Longrightarrow> map_ok m (bs(idx := b))"
  by (auto simp: map_ok_def)

lemma map_ok_close:
  assumes "map_ok m bs" "b_mActive (bs idx)" "\<not> b_mActive b" "n = b_mDeliveryOrder (bs idx)"
  shows "map_ok (om_erase n m) (bs(idx := b))"
proof -
  have "i = idx" if "b_mActive (bs i)" "b_mDeliveryOrder (bs i) = n" for i
    using assms(1,2,4) that unfolding map_ok_def by (metis option.inject)
  with assms show ?thesis by (auto simp: map_ok_def om.wf_erase om.lookup_erase)
qed

lemma recv_inv_set:
  assumes "recv_inv r" "b_mActive (r_mpBuckets r idx)" "b_mActive b" "b_mDeliveryOrder b = b_mDeliveryOrder (r_mpBuckets r idx)"
    "bucket_ok (r_BUFFER_SIZE r) idx b"
  shows "recv_inv (set_bucket idx b r)"
  using assms map_ok_same [of "r_mBucketMap r" "r_mpBuckets r" b idx] by (simp add: recv_inv_def set_bucket_def)

section \<open>Opening a bucket\<close>

lemma sf_write_mem:
  "sf_mpData f = Some m \<Longrightarrow> off + length xs \<le> length m \<Longrightarrow>
     \<exists>m'. sf_write f off xs = Some (f\<lparr>sf_mpData := Some m'\<rparr>) \<and> length m' = length m"
  by (auto simp: sf_write_def mem_write_def)

lemma openBucket_safe:
  assumes inv: "recv_inv r" and idx: "idx = sf AND r_BUFFER_SIZE r" and inactive: "\<not> b_mActive (r_mpBuckets r idx)"
    and b: "b_mActive b" "b_mSavedFrameNo b = sf" "word_of_int (b_mDeliveryOrder b) = sf" "layout tot b"
    and tot: "tot \<le> MAX_SUPERFRAME_SIZE" and fit: "off + length payload \<le> tot"
  shows "\<exists>res r'. openBucket idx b tot off payload r = Some (res, r') \<and> recv_inv r' \<and> res \<in> {OK, MEMORY_ALLOCATION_ERROR}"
proof -
  let ?f = "newSuperFrame tot (r_alloc r 0)"
  have free: "b_mActive (r_mpBuckets r i) \<Longrightarrow> b_mDeliveryOrder (r_mpBuckets r i) \<noteq> b_mDeliveryOrder b" for i
    using order_free [OF inv _ b(3)] inactive idx by simp
  note M = recv_invD(2) [OF inv]
  show ?thesis
  proof (cases "0 < tot \<and> r_alloc r 0")
    case False
    then have "sf_mpData ?f = None" by (simp add: newSuperFrame_def Let_def)
    moreover have "map_ok (om_erase (b_mDeliveryOrder b) (om_update (b_mDeliveryOrder b) idx (r_mBucketMap r)))
        ((r_mpBuckets r)(idx := b\<lparr>b_mActive := False, b_mpFrame := Some ?f\<rparr>))"
      using map_ok_reopen [OF M inactive _ free] by simp
    ultimately show ?thesis
      using inv by (simp add: openBucket_def Let_def allocSuperFrame_def count_received_def set_bucket_def recv_inv_def)
  next
    case True
    then have f: "sf_mpData ?f = Some (replicate tot None)" by (simp add: newSuperFrame_def Let_def)
    let ?g = "?f\<lparr>sf_mSize := tot\<rparr>"
    from f fit sf_write_mem [of ?g "replicate tot None" off payload] obtain m where
      m: "sf_write ?g off payload = Some (?g\<lparr>sf_mpData := Some m\<rparr>)" "length m = tot" by auto
    let ?b = "b\<lparr>b_mpFrame := Some (?g\<lparr>sf_mpData := Some m\<rparr>)\<rparr>"
    have "layout (length m) ?b" using b(4) m(2) by (simp add: layout_def)
    then have "bucket_ok (r_BUFFER_SIZE r) idx ?b"
      using b m(2) tot idx by (simp add: bucket_ok_def)
    moreover have "map_ok (om_update (b_mDeliveryOrder b) idx (r_mBucketMap r)) ((r_mpBuckets r)(idx := ?b))"
      using map_ok_open [OF M inactive, of ?b] b(1) free by simp
    ultimately show ?thesis
      using inv f m(1) b(1) by (simp add: openBucket_def Let_def allocSuperFrame_def count_received_def set_bucket_def recv_inv_def)
  qed
qed

section \<open>Handlers\<close>

definition safe_result :: "('a \<times> Receiver) option \<Rightarrow> bool" where
  "safe_result x \<longleftrightarrow> (\<exists>res r. x = Some (res, r) \<and> recv_inv r)"

lemma safe_result_Some [simp]: "safe_result (Some (res, r)) = recv_inv r"
  by (simp add: safe_result_def)

lemma handleType1_open_safe:
  assumes inv: "recv_inv r" and inactive: "\<not> b_mActive (r_mpBuckets r (bucketIndex (t1_mSuperFrameNo h) r))"
    and h: "unat (t1_mFragmentNo h) \<le> unat (t1_mOfFragmentNo h)" "unat (t1_mOfFragmentNo h) < 8192"
  shows "safe_result (handleType1_open lNow h payload src r)"
proof -
  let ?sf = "t1_mSuperFrameNo h" and ?of = "unat (t1_mOfFragmentNo h)" and ?fn = "unat (t1_mFragmentNo h)" and ?n = "length payload"
  obtain n r1 where rc: "recalculateSuperFrameNo ?sf r = (n, r1)" by (cases "recalculateSuperFrameNo ?sf r")
  note r1 = recalculate_spec [OF inv rc]
  have idx: "bucketIndex ?sf r = ?sf AND r_BUFFER_SIZE r1" by (simp add: bucketIndex_def r1(4))
  show ?thesis
  proof (cases "n = b_mDeliveryOrder (r_mpBuckets r1 (bucketIndex ?sf r)) \<or> ?n > MAX_SUPERFRAME_SIZE div (?of + 1)")
    case True
    with r1(1) show ?thesis by (auto simp: handleType1_open_def rc Let_def)
  next
    case False
    then have "?n * (?of + 1) \<le> MAX_SUPERFRAME_SIZE div (?of + 1) * (?of + 1)" by (intro mult_le_mono1) simp
    then have tot: "?n * (?of + 1) \<le> MAX_SUPERFRAME_SIZE" using div_times_less_eq_dividend order.trans by blast
    have "?n * (?fn + 1) \<le> ?n * (?of + 1)" using h(1) by (intro mult_le_mono2) simp
    then have off: "?n * ?fn + ?n \<le> ?n * (?of + 1)" by simp
    let ?b = "\<lparr>b_mActive = True, b_mPayloadType = st_mPayloadType (r_mStreams r1 (t1_mStreamId h)),
      b_mPayloadCode = st_mPayloadCode (r_mStreams r1 (t1_mStreamId h)), b_mSavedFrameNo = ?sf,
      b_mTimeoutUs = timeoutUs lNow r1, b_mFragmentCount = 1, b_mOfFragmentNo = t1_mOfFragmentNo h,
      b_mDeliveryOrder = n, b_mFragmentSize = ?n, b_mType3Size = 0,
      b_mType2Size = 0, b_mPts = - 1, b_mDts = - 1, b_mStreamId = t1_mStreamId h,
      b_mSourceId = src, b_mFlags = getFlags (t1_mFrameType h), b_mFirstArrivalUs = lNow,
      b_mLastNackUs = 0, b_mNackCount = 0, b_mReceivedFragments = {?fn},
      b_mpFrame = b_mpFrame (r_mpBuckets r1 (bucketIndex ?sf r))\<rparr>"
    have "layout (?n * (?of + 1)) ?b" using h by (simp add: layout_def)
    then have "\<exists>res r'. openBucket (bucketIndex ?sf r) ?b (?n * (?of + 1)) (?n * ?fn) payload r1 = Some (res, r') \<and> recv_inv r' \<and>
        res \<in> {OK, MEMORY_ALLOCATION_ERROR}"
      using inactive r1(2,3) by (intro openBucket_safe [OF r1(1) idx _ _ _ _ _ tot off]) simp_all
    moreover have "?fn < 8192" using h by simp
    ultimately show ?thesis using False by (auto simp: handleType1_open_def rc Let_def bit_set_def safe_result_def not_less)
  qed
qed

lemma bucket_okD:
  assumes "bucket_ok bmask idx b"
  obtains f m where "b_mpFrame b = Some f" "sf_mpData f = Some m" "sf_mSize f \<le> length m" "length m \<le> MAX_SUPERFRAME_SIZE"
    "layout (length m) b" "b_mSavedFrameNo b AND bmask = idx" "word_of_int (b_mDeliveryOrder b) = b_mSavedFrameNo b"
  using assms by (auto simp: bucket_ok_def)

lemma bucket_okI:
  "b_mpFrame b = Some f \<Longrightarrow> sf_mpData f = Some m \<Longrightarrow> sf_mSize f \<le> length m \<Longrightarrow> length m \<le> MAX_SUPERFRAME_SIZE \<Longrightarrow>
   layout (length m) b \<Longrightarrow> b_mSavedFrameNo b AND bmask = idx \<Longrightarrow> word_of_int (b_mDeliveryOrder b) = b_mSavedFrameNo b \<Longrightarrow>
   bucket_ok bmask idx b"
  by (auto simp: bucket_ok_def)

lemma count_bound:
  assumes "layout n b" "i \<notin> b_mReceivedFragments b" "i \<le> unat (b_mOfFragmentNo b)"
  shows "unat (b_mFragmentCount b + 1) = card (insert i (b_mReceivedFragments b))"
proof -
  have fin: "finite (b_mReceivedFragments b)" using assms(1) finite_subset by (auto simp: layout_def)
  have "card (b_mReceivedFragments b) \<le> card {..unat (b_mOfFragmentNo b)}"
    using assms(1) by (intro card_mono) (simp_all add: layout_def)
  then have "unat (b_mFragmentCount b) \<le> 8192" using assms(1) by (simp add: layout_def)
  then have "unat (b_mFragmentCount b + 1) = unat (b_mFragmentCount b) + 1"
    by (simp add: unat_word_ariths)
  with fin assms(1,2) show ?thesis by (simp add: layout_def)
qed

lemma handleType1_existing_safe:
  assumes inv: "recv_inv r" and active: "b_mActive (r_mpBuckets r (bucketIndex (t1_mSuperFrameNo h) r))"
    and h: "unat (t1_mFragmentNo h) \<le> unat (t1_mOfFragmentNo h)" "unat (t1_mOfFragmentNo h) < 8192"
  shows "safe_result (handleType1_existing h payload src r)"
proof -
  define idx where "idx = bucketIndex (t1_mSuperFrameNo h) r"
  define b where "b = r_mpBuckets r idx"
  let ?fn = "unat (t1_mFragmentNo h)" and ?of = "unat (b_mOfFragmentNo b)"
  have ok: "bucket_ok (r_BUFFER_SIZE r) idx b" using recv_invD(1) [OF inv] active by (simp add: b_def idx_def)
  show ?thesis
  proof (cases "t1_mSuperFrameNo h = b_mSavedFrameNo b \<and> t1_mStreamId h = b_mStreamId b \<and> src = b_mSourceId b \<and>
      t1_mOfFragmentNo h = b_mOfFragmentNo b \<and> ?fn \<notin> b_mReceivedFragments b \<and> length payload = b_mFragmentSize b")
    case False
    then show ?thesis using inv h
      by (auto simp: handleType1_existing_def Let_def bit_get_def idx_def [symmetric] b_def [symmetric])
  next
    case True
    from ok obtain f m where f: "b_mpFrame b = Some f" "sf_mpData f = Some m" "sf_mSize f \<le> length m"
      "length m \<le> MAX_SUPERFRAME_SIZE" and lay: "layout (length m) b"
      and ids: "b_mSavedFrameNo b AND r_BUFFER_SIZE r = idx" "word_of_int (b_mDeliveryOrder b) = b_mSavedFrameNo b" by (rule bucket_okD)
    have fn: "?fn \<le> ?of" using h True by simp
    have fit: "b_mFragmentSize b * ?fn + length payload \<le> length m"
    proof (cases "?fn = ?of")
      case True
      with lay \<open>_ \<and> _\<close> show ?thesis by (simp add: layout_def)
    next
      case False
      with fn have "b_mFragmentSize b * (?fn + 1) \<le> b_mFragmentSize b * ?of" by (intro mult_le_mono2) simp
      with lay True show ?thesis by (simp add: layout_def)
    qed
    from sf_write_mem [OF f(2) fit] obtain m' where
      m': "sf_write f (b_mFragmentSize b * ?fn) payload = Some (f\<lparr>sf_mpData := Some m'\<rparr>)" "length m' = length m" by blast
    let ?b = "b\<lparr>b_mReceivedFragments := insert ?fn (b_mReceivedFragments b), b_mFragmentCount := b_mFragmentCount b + 1,
      b_mpFrame := Some (f\<lparr>sf_mpData := Some m'\<rparr>)\<rparr>"
    have "layout (length m) ?b"
      using lay True fn count_bound [OF lay _ fn] by (auto simp: layout_def)
    then have "bucket_ok (r_BUFFER_SIZE r) idx ?b" using f ids m'(2) by (intro bucket_okI [of _ "f\<lparr>sf_mpData := Some m'\<rparr>" m']) simp_all
    then have "recv_inv (set_bucket idx ?b r)"
      using active by (intro recv_inv_set [OF inv]) (simp_all add: b_def idx_def)
    then show ?thesis using True f(1) m'(1) h fn
      unfolding handleType1_existing_def Let_def idx_def [symmetric] b_def [symmetric]
      by (simp add: bit_get_def bit_set_def word_less_nat_alt)
  qed
qed

lemma handleType1_safe:
  assumes "recv_inv r"
  shows "safe_result (handleType1 d src r)"
proof (cases "length d < 8")
  case True
  with assms show ?thesis by (simp add: handleType1_def)
next
  case False
  obtain t r0 where t: "r_nowUs r = (t, r0)" by (cases "r_nowUs r")
  let ?r = "updateJitter t r0" and ?h = "dec_type1 d"
  have inv: "recv_inv ?r" using assms recv_inv_nowUs [OF t] by simp
  have "view_type1 d 0 = Some ?h" using False by (simp add: mem_simps)
  then show ?thesis
    using False inv handleType1_open_safe [OF inv, of ?h t "drop 8 d" src] handleType1_existing_safe [OF inv, of ?h "drop 8 d" src]
    by (simp add: handleType1_def t Let_def word_le_nat_alt word_less_nat_alt not_le not_less)
qed

subsection \<open>Type2\<close>

lemma handleType2_open_safe:
  assumes inv: "recv_inv r" and inactive: "\<not> b_mActive (r_mpBuckets r (bucketIndex (t2_mSuperFrameNo h) r))"
    and h: "unat (t2_mOfFragmentNo h) < 8192" "length payload = unat (t2_mSizeOfData h)"
    and tot: "unat (t2_mType1PacketSize h) * unat (t2_mOfFragmentNo h) + unat (t2_mSizeOfData h) \<le> MAX_SUPERFRAME_SIZE"
  shows "safe_result (handleType2_open lNow h payload src r)"
proof -
  let ?sf = "t2_mSuperFrameNo h" and ?of = "unat (t2_mOfFragmentNo h)" and ?t1 = "unat (t2_mType1PacketSize h)"
  obtain n r1 where rc: "recalculateSuperFrameNo ?sf r = (n, r1)" by (cases "recalculateSuperFrameNo ?sf r")
  note r1 = recalculate_spec [OF inv rc]
  have idx: "bucketIndex ?sf r = ?sf AND r_BUFFER_SIZE (cache_stream h r1)" by (simp add: bucketIndex_def cache_stream_def r1(4))
  have inv2: "recv_inv (cache_stream h r1)" using r1(1) by simp
  show ?thesis
  proof (cases "n = b_mDeliveryOrder (r_mpBuckets r1 (bucketIndex ?sf r))")
    case True
    with r1(1) show ?thesis by (auto simp: handleType2_open_def rc Let_def)
  next
    case False
    let ?b = "\<lparr>b_mActive = True, b_mPayloadType = t2_mPayloadType h,
      b_mPayloadCode = t2_mPayloadCode h, b_mSavedFrameNo = ?sf,
      b_mTimeoutUs = timeoutUs lNow r1, b_mFragmentCount = 1, b_mOfFragmentNo = t2_mOfFragmentNo h,
      b_mDeliveryOrder = n, b_mFragmentSize = ?t1, b_mType3Size = 0,
      b_mType2Size = unat (t2_mSizeOfData h), b_mPts = t2_mPts h, b_mDts = type2_dts h,
      b_mStreamId = t2_mStreamId h, b_mSourceId = src, b_mFlags = getFlags (t2_mFrameType h),
      b_mFirstArrivalUs = lNow, b_mLastNackUs = 0, b_mNackCount = 0, b_mReceivedFragments = {?of},
      b_mpFrame = b_mpFrame (r_mpBuckets r1 (bucketIndex ?sf r))\<rparr>"
    have "layout (?t1 * ?of + unat (t2_mSizeOfData h)) ?b" using h by (simp add: layout_def)
    then have "\<exists>res r'. openBucket (bucketIndex ?sf r) ?b (?t1 * ?of + unat (t2_mSizeOfData h)) (?t1 * ?of) payload
        (cache_stream h r1) = Some (res, r') \<and> recv_inv r' \<and> res \<in> {OK, MEMORY_ALLOCATION_ERROR}"
      using inactive r1(2,3) h(2) by (intro openBucket_safe [OF inv2 idx _ _ _ _ _ tot]) (simp_all add: cache_stream_def)
    then show ?thesis using False h(1) by (auto simp: handleType2_open_def rc Let_def bit_set_def safe_result_def)
  qed
qed

lemma handleType2_existing_safe:
  assumes inv: "recv_inv r" and active: "b_mActive (r_mpBuckets r (bucketIndex (t2_mSuperFrameNo h) r))"
    and h: "unat (t2_mOfFragmentNo h) < 8192" "length payload = unat (t2_mSizeOfData h)"
  shows "safe_result (handleType2_existing h payload src r)"
proof -
  define idx where "idx = bucketIndex (t2_mSuperFrameNo h) r"
  define b where "b = r_mpBuckets r idx"
  let ?of = "unat (b_mOfFragmentNo b)" and ?n = "unat (t2_mSizeOfData h)"
  have ok: "bucket_ok (r_BUFFER_SIZE r) idx b" using recv_invD(1) [OF inv] active by (simp add: b_def idx_def)
  obtain off act where pl: "type2_placement b h = (off, act)" by (cases "type2_placement b h")
  show ?thesis
  proof (cases "t2_mSuperFrameNo h = b_mSavedFrameNo b \<and> t2_mStreamId h = b_mStreamId b \<and> src = b_mSourceId b \<and>
      t2_mOfFragmentNo h = b_mOfFragmentNo b \<and> (0 < t2_mOfFragmentNo h \<longrightarrow> unat (t2_mType1PacketSize h) = b_mFragmentSize b) \<and>
      ?of \<notin> b_mReceivedFragments b \<and> off + ?n \<le> b_mFragmentSize b * (?of + 1)")
    case False
    then show ?thesis using inv h
      by (auto simp: handleType2_existing_def Let_def bit_get_def pl idx_def [symmetric] b_def [symmetric])
  next
    case True
    from ok obtain f m where f: "b_mpFrame b = Some f" "sf_mpData f = Some m" "sf_mSize f \<le> length m"
      "length m \<le> MAX_SUPERFRAME_SIZE" and lay: "layout (length m) b"
      and ids: "b_mSavedFrameNo b AND r_BUFFER_SIZE r = idx" "word_of_int (b_mDeliveryOrder b) = b_mSavedFrameNo b" by (rule bucket_okD)
    have room: "b_mFragmentSize b * (?of + 1) \<le> length m" using lay True by (simp add: layout_def)
    then have fit: "off + length payload \<le> length m" using True h(2) by simp
    have act: "act = off + ?n \<and> (b_mType3Size b = 0 \<longrightarrow> off = b_mFragmentSize b * ?of)"
    proof (cases "t2_mOfFragmentNo h = 0")
      case zero: True
      with True pl show ?thesis using lay by (auto simp: type2_placement_def Let_def layout_def split: if_splits)
    next
      case False
      then have "0 < t2_mOfFragmentNo h" by (simp add: word_gt_0)
      with True pl show ?thesis by (auto simp: type2_placement_def Let_def split: if_splits)
    qed
    from sf_write_mem [of "f\<lparr>sf_mSize := act\<rparr>" m, OF _ fit] f(2) obtain m' where
      m': "sf_write (f\<lparr>sf_mSize := act\<rparr>) off payload = Some (f\<lparr>sf_mSize := act, sf_mpData := Some m'\<rparr>)" "length m' = length m" by auto
    let ?f = "f\<lparr>sf_mSize := act, sf_mpData := Some m'\<rparr>"
    let ?b = "b\<lparr>b_mReceivedFragments := insert ?of (b_mReceivedFragments b), b_mFragmentCount := b_mFragmentCount b + 1,
      b_mPts := t2_mPts h, b_mPayloadType := t2_mPayloadType h, b_mPayloadCode := t2_mPayloadCode h,
      b_mFlags := getFlags (t2_mFrameType h), b_mType2Size := ?n, b_mDts := type2_dts h, b_mpFrame := Some ?f\<rparr>"
    have "b_mType3Size b = 0 \<longrightarrow> b_mFragmentSize b * ?of + ?n \<le> length m"
      using act fit h(2) by (auto simp: add.commute)
    then have "layout (length m) ?b"
      using lay True count_bound [OF lay, of ?of] by (auto simp: layout_def)
    then have "bucket_ok (r_BUFFER_SIZE r) idx ?b"
      using f(4) ids m'(2) act fit h(2) by (intro bucket_okI [of _ ?f m']) simp_all
    then have "recv_inv (set_bucket idx ?b r)"
      using active by (intro recv_inv_set [OF inv]) (simp_all add: b_def idx_def)
    then show ?thesis using True f(1) m'(1) h
      unfolding handleType2_existing_def Let_def idx_def [symmetric] b_def [symmetric] pl
      by (auto simp: bit_get_def bit_set_def)
  qed
qed

lemma handleType2_safe:
  assumes "recv_inv r"
  shows "safe_result (handleType2 d src r)"
proof (cases "length d < 27")
  case True
  with assms show ?thesis by (simp add: handleType2_def)
next
  case False
  obtain t r0 where t: "r_nowUs r = (t, r0)" by (cases "r_nowUs r")
  let ?r = "updateJitter t r0" and ?h = "dec_type2 d"
  have inv: "recv_inv ?r" using assms recv_inv_nowUs [OF t] by simp
  have "view_type2 d 0 = Some ?h" using False by (simp add: mem_simps)
  then show ?thesis
    using False inv handleType2_open_safe [OF inv, of ?h "drop 27 d" t src] handleType2_existing_safe [OF inv, of ?h "drop 27 d" src]
    by (simp add: handleType2_def t Let_def word_le_nat_alt not_le not_less MAX_SUPERFRAME_SIZE_def)
qed

subsection \<open>Type3\<close>

lemma handleType3_open_safe:
  assumes inv: "recv_inv r" and inactive: "\<not> b_mActive (r_mpBuckets r (bucketIndex (t3_mSuperFrameNo h) r))"
    and h: "unat (t3_mOfFragmentNo h) < 8192" "unat fn = unat (t3_mOfFragmentNo h) - 1" "0 < unat (t3_mOfFragmentNo h)"
      "length payload \<le> unat (t3_mType1PacketSize h)"
    and tot: "unat (t3_mType1PacketSize h) * (unat (t3_mOfFragmentNo h) + 1) \<le> MAX_SUPERFRAME_SIZE"
  shows "safe_result (handleType3_open lNow h fn payload src r)"
proof -
  let ?sf = "t3_mSuperFrameNo h" and ?of = "unat (t3_mOfFragmentNo h)" and ?t1 = "unat (t3_mType1PacketSize h)"
  obtain n r1 where rc: "recalculateSuperFrameNo ?sf r = (n, r1)" by (cases "recalculateSuperFrameNo ?sf r")
  note r1 = recalculate_spec [OF inv rc]
  have idx: "bucketIndex ?sf r = ?sf AND r_BUFFER_SIZE r1" by (simp add: bucketIndex_def r1(4))
  show ?thesis
  proof (cases "n = b_mDeliveryOrder (r_mpBuckets r1 (bucketIndex ?sf r))")
    case True
    with r1(1) show ?thesis by (auto simp: handleType3_open_def rc Let_def)
  next
    case False
    let ?b = "\<lparr>b_mActive = True, b_mPayloadType = st_mPayloadType (r_mStreams r1 (t3_mStreamId h)),
      b_mPayloadCode = st_mPayloadCode (r_mStreams r1 (t3_mStreamId h)), b_mSavedFrameNo = ?sf,
      b_mTimeoutUs = timeoutUs lNow r1, b_mFragmentCount = 1, b_mOfFragmentNo = t3_mOfFragmentNo h,
      b_mDeliveryOrder = n, b_mFragmentSize = ?t1, b_mType3Size = length payload, b_mType2Size = 0,
      b_mPts = - 1, b_mDts = - 1, b_mStreamId = t3_mStreamId h, b_mSourceId = src,
      b_mFlags = getFlags (t3_mFrameType h), b_mFirstArrivalUs = lNow, b_mLastNackUs = 0, b_mNackCount = 0,
      b_mReceivedFragments = {unat fn}, b_mpFrame = b_mpFrame (r_mpBuckets r1 (bucketIndex ?sf r))\<rparr>"
    have "?t1 * unat fn + ?t1 = ?t1 * ?of" using h(2,3) by (cases ?of) simp_all
    then have off: "?t1 * unat fn + length payload \<le> ?t1 * (?of + 1)" using h(4) by simp
    have "layout (?t1 * (?of + 1)) ?b" using h by (simp add: layout_def)
    then have "\<exists>res r'. openBucket (bucketIndex ?sf r) ?b (?t1 * (?of + 1)) (?t1 * unat fn) payload r1 = Some (res, r') \<and>
        recv_inv r' \<and> res \<in> {OK, MEMORY_ALLOCATION_ERROR}"
      using inactive r1(2,3) by (intro openBucket_safe [OF r1(1) idx _ _ _ _ _ tot off]) simp_all
    moreover have "unat fn < 8192" using h by simp
    ultimately show ?thesis using False by (auto simp: handleType3_open_def rc Let_def bit_set_def safe_result_def)
  qed
qed

lemma type3_relocate_safe:
  assumes f: "sf_mpData f = Some m" "sf_mSize f \<le> length m" and lay: "layout (length m) b"
    and of_no: "unat (t3_mOfFragmentNo h) = unat (b_mOfFragmentNo b)" "0 < unat (b_mOfFragmentNo b)"
    and p: "p \<le> b_mFragmentSize b" and none: "unat (b_mOfFragmentNo b) - 1 \<notin> b_mReceivedFragments b"
    and b': "b_mReceivedFragments b' = insert (unat (b_mOfFragmentNo b) - 1) (b_mReceivedFragments b)"
      "b_mFragmentSize b' = b_mFragmentSize b" "b_mType2Size b' = b_mType2Size b"
  shows "\<exists>f' m'. type3_relocate b' h p f = Some f' \<and> sf_mpData f' = Some m' \<and> length m' = length m \<and> sf_mSize f' \<le> length m"
proof -
  let ?of = "unat (b_mOfFragmentNo b)" and ?fs = "b_mFragmentSize b"
  have prod: "?fs * (?of - 1) + ?fs = ?fs * ?of" using of_no(2) by (cases ?of) simp_all
  have lt: "?of < 8192" using lay by (simp add: layout_def)
  have sub: "size_sub ?of (Suc 0) = ?of - 1" using of_no(2) by simp
  have ne: "?of \<noteq> ?of - 1" using of_no(2) by simp
  have t3: "b_mType3Size b = 0" using lay none by (auto simp: layout_def)
  show ?thesis
  proof (cases "?of \<in> b_mReceivedFragments b \<and> 0 < b_mType2Size b")
    case True
    then have room: "?fs * ?of + b_mType2Size b \<le> length m" using lay t3 by (simp add: layout_def)
    then have to: "?fs * (?of - 1) + p + b_mType2Size b \<le> length m" using prod p by linarith
    let ?xs = "take (b_mType2Size b) (drop (?fs * ?of) m)"
    have len: "length ?xs = b_mType2Size b" using room by simp
    have "mem_write m (?fs * (?of - 1) + p) ?xs =
        Some (take (?fs * (?of - 1) + p) m @ ?xs @ drop (?fs * (?of - 1) + p + length ?xs) m)"
      using to len by (intro mem_write_Some) simp
    then obtain m' where m': "mem_move m (?fs * (?of - 1) + p) (?fs * ?of) (b_mType2Size b) = Some m'" "length m' = length m"
      using mem_write_length mem_load_Some [OF room] by (fastforce simp: mem_move_def)
    with True lt f to show ?thesis
      by (simp add: type3_relocate_def of_no(1) b' bit_get_def sf_move_def sub Let_def)
  next
    case False
    have "?fs * (?of - 1) + p \<le> length m" using prod p lay by (simp add: layout_def)
    with False f lt ne show ?thesis
      by (auto simp: type3_relocate_def of_no(1) b' bit_get_def sub Let_def)
  qed
qed

lemma handleType3_existing_safe:
  assumes inv: "recv_inv r" and active: "b_mActive (r_mpBuckets r (bucketIndex (t3_mSuperFrameNo h) r))"
    and h: "unat (t3_mOfFragmentNo h) < 8192" "unat fn = unat (t3_mOfFragmentNo h) - 1" "0 < unat (t3_mOfFragmentNo h)"
      "length payload \<le> unat (t3_mType1PacketSize h)"
  shows "safe_result (handleType3_existing h fn payload src r)"
proof -
  define idx where "idx = bucketIndex (t3_mSuperFrameNo h) r"
  define b where "b = r_mpBuckets r idx"
  let ?of = "unat (b_mOfFragmentNo b)" and ?fs = "b_mFragmentSize b"
  have ok: "bucket_ok (r_BUFFER_SIZE r) idx b" using recv_invD(1) [OF inv] active by (simp add: b_def idx_def)
  show ?thesis
  proof (cases "t3_mSuperFrameNo h = b_mSavedFrameNo b \<and> t3_mStreamId h = b_mStreamId b \<and> src = b_mSourceId b \<and>
      t3_mOfFragmentNo h = b_mOfFragmentNo b \<and> unat (t3_mType1PacketSize h) = ?fs \<and> unat fn \<notin> b_mReceivedFragments b")
    case False
    then show ?thesis using inv h
      by (auto simp: handleType3_existing_def Let_def bit_get_def idx_def [symmetric] b_def [symmetric])
  next
    case True
    from ok obtain f m where f: "b_mpFrame b = Some f" "sf_mpData f = Some m" "sf_mSize f \<le> length m"
      "length m \<le> MAX_SUPERFRAME_SIZE" and lay: "layout (length m) b"
      and ids: "b_mSavedFrameNo b AND r_BUFFER_SIZE r = idx" "word_of_int (b_mDeliveryOrder b) = b_mSavedFrameNo b" by (rule bucket_okD)
    have fn: "unat fn = ?of - 1" "0 < ?of" using h True by simp_all
    have p: "length payload \<le> ?fs" using h(4) True by simp
    have "?fs * (?of - 1) + ?fs = ?fs * ?of" using fn(2) by (cases ?of) simp_all
    then have le: "?fs * unat fn + length payload \<le> ?fs * ?of" using fn p by simp
    then have fit: "?fs * unat fn + length payload \<le> length m" "?fs * unat fn + length payload \<le> ?fs * (?of + 1)"
      using lay by (simp_all add: layout_def)
    let ?b = "b\<lparr>b_mReceivedFragments := insert (unat fn) (b_mReceivedFragments b),
      b_mFragmentCount := b_mFragmentCount b + 1, b_mType3Size := length payload\<rparr>"
    have "unat (t3_mOfFragmentNo h) = ?of" "?of - 1 \<notin> b_mReceivedFragments b" using True fn by simp_all
    from type3_relocate_safe [OF f(2,3) lay this(1) fn(2) p this(2), of ?b] fn(1) obtain f1 m1 where
      f1: "type3_relocate ?b h (length payload) f = Some f1" "sf_mpData f1 = Some m1" "length m1 = length m" "sf_mSize f1 \<le> length m"
      by auto
    from sf_write_mem [of f1 m1 "?fs * unat fn" payload] f1(2,3) fit(1) obtain m2 where
      m2: "sf_write f1 (?fs * unat fn) payload = Some (f1\<lparr>sf_mpData := Some m2\<rparr>)" "length m2 = length m" by auto
    let ?b2 = "?b\<lparr>b_mpFrame := Some (f1\<lparr>sf_mpData := Some m2\<rparr>)\<rparr>"
    have "layout (length m) ?b2"
      using lay True fn count_bound [OF lay, of "unat fn"] by (auto simp: layout_def)
    then have "bucket_ok (r_BUFFER_SIZE r) idx ?b2"
      using f(4) ids m2(2) f1(4) by (intro bucket_okI [of _ "f1\<lparr>sf_mpData := Some m2\<rparr>" m2]) simp_all
    then have "recv_inv (set_bucket idx ?b2 r)"
      using active by (intro recv_inv_set [OF inv]) (simp_all add: b_def idx_def)
    moreover have "\<not> b_mOfFragmentNo b < fn" "unat fn < 8192" using fn h True by (simp_all add: word_less_nat_alt)
    ultimately show ?thesis using True f(1) f1(1) m2(1) h fit(2)
      unfolding handleType3_existing_def Let_def idx_def [symmetric] b_def [symmetric]
      by (auto simp: bit_get_def bit_set_def)
  qed
qed

lemma handleType3_safe:
  assumes "recv_inv r"
  shows "safe_result (handleType3 d src r)"
proof (cases "length d < 8 \<or> unat (t3_mOfFragmentNo (dec_type3 d)) = 0")
  case True
  obtain t r0 where t: "r_nowUs r = (t, r0)" by (cases "r_nowUs r")
  have "recv_inv (updateJitter t r0)" using assms recv_inv_nowUs [OF t] by simp
  with True assms show ?thesis by (auto simp: handleType3_def t Let_def mem_simps unat_eq_zero)
next
  case False
  obtain t r0 where t: "r_nowUs r = (t, r0)" by (cases "r_nowUs r")
  let ?r = "updateJitter t r0" and ?h = "dec_type3 d"
  have inv: "recv_inv ?r" using assms recv_inv_nowUs [OF t] by simp
  have v: "view_type3 d 0 = Some ?h" using False by (simp add: mem_simps)
  have fn: "unat (t3_mOfFragmentNo ?h - 1) = unat (t3_mOfFragmentNo ?h) - 1"
    using False by (intro unat_minus_one) auto
  show ?thesis
    using False v inv handleType3_open_safe [OF inv, of ?h "t3_mOfFragmentNo ?h - 1" "drop 8 d" t src]
      handleType3_existing_safe [OF inv, of ?h "t3_mOfFragmentNo ?h - 1" "drop 8 d" src]
    by (simp add: handleType3_def t Let_def word_le_nat_alt not_le not_less MAX_SUPERFRAME_SIZE_def fn)
qed

end
