(* ===== verification/Efp_ReceiverMachine.thy ===== *)
theory Efp_ReceiverMachine
  imports Efp_ReceiverInv
begin

text \<open>
  The rest of the receiver keeps the invariant: bundles, NACK processing, delivery and the public
  operations, which together are a machine that never gets stuck. \<open>processTimeouts_spec\<close> says which
  frames are handed over, and in which order.
\<close>

section \<open>Bundles\<close>

lemma safe_bind: "safe_result x \<Longrightarrow> (\<And>res r. recv_inv r \<Longrightarrow> safe_result (f (res, r))) \<Longrightarrow> safe_result (x \<bind> f)"
  by (auto simp: safe_result_def)

lemma type4_loop_safe:
  "recv_inv r \<Longrightarrow> lOffset + n * lFrameSize \<le> length d \<Longrightarrow> 0 < lFrameSize \<Longrightarrow> safe_result (type4_loop d lFrameSize src n lOffset r)"
proof (induction n arbitrary: lOffset r)
  case (Suc n)
  then have fit: "lOffset + 1 \<le> length d" "lOffset + lFrameSize \<le> length d" by simp_all
  have "safe_result (if lLastResult \<noteq> OK \<and> lLastResult \<noteq> DUPLICATE_FRAGMENT then Some (lLastResult, r)
      else type4_loop d lFrameSize src n (lOffset + lFrameSize) r)" if "recv_inv r" for lLastResult r
    using that Suc.IH [of r "lOffset + lFrameSize"] Suc.prems by (simp add: add.assoc)
  then have "safe_result (handleType1 (take lFrameSize (drop lOffset d)) src r \<bind> (\<lambda>(lLastResult, r).
      if lLastResult \<noteq> OK \<and> lLastResult \<noteq> DUPLICATE_FRAGMENT then Some (lLastResult, r)
      else type4_loop d lFrameSize src n (lOffset + lFrameSize) r))"
    by (intro safe_bind handleType1_safe Suc.prems(1)) simp
  with fit Suc.prems(1) show ?case by (simp add: mem_load_Some)
qed simp

lemma handleType4_safe:
  assumes "recv_inv r"
  shows "safe_result (handleType4 d src r)"
proof -
  have "safe_result (type4_loop d ((length d - 2) div k) src k 2 (r\<lparr>r_mStatistics := x\<rparr>))"
    if "2 \<le> length d" "0 < k" "8 \<le> (length d - 2) div k" for k x
  proof -
    have "k * ((length d - 2) div k) \<le> length d - 2" by (rule times_div_less_eq_dividend)
    with that assms show ?thesis by (intro type4_loop_safe) (simp, linarith, linarith)
  qed
  with assms show ?thesis by (auto simp: handleType4_def Let_def mem_simps not_less)
qed

section \<open>NACKs\<close>

lemma unat_small: "i < 65536 \<Longrightarrow> unat (word_of_nat i :: u16) = i"
  by (simp add: unat_of_nat take_bit_eq_mod)

lemma nack_scan_defined: "list_all (\<lambda>i. i < 8192) is \<Longrightarrow> \<exists>st'. nack_scan b is st = Some st'"
proof (induction "is" arbitrary: st)
  case (Cons i "is")
  then have "unat (word_of_nat i :: u16) = i" by (intro unat_small) simp
  with Cons.prems have "\<exists>st'. nack_scan_step b (word_of_nat i) st = Some st'"
    by (simp add: nack_scan_step_def bit_get_def split: prod.splits)
  with Cons show ?case by fastforce
qed auto

lemma nack_missing_defined:
  assumes "unat (b_mOfFragmentNo b) < 8192"
  obtains es where "nack_missing b = Some es"
proof -
  have "list_all (\<lambda>i. i < 8192) [0 ..< Suc (unat (b_mOfFragmentNo b))]"
    using assms by (simp add: list_all_iff)
  from nack_scan_defined [OF this, of b "([], - 1, 0)"] obtain st where
    "nack_scan b [0 ..< Suc (unat (b_mOfFragmentNo b))] ([], - 1, 0) = Some st" by blast
  with that show ?thesis by (cases st) (simp add: nack_missing_def)
qed

text \<open>NACK processing changes only the NACK fields of the buckets.\<close>

definition without_nack :: "Bucket \<Rightarrow> Bucket" where
  "without_nack b = b\<lparr>b_mLastNackUs := 0, b_mNackCount := 0\<rparr>"

definition nacked :: "Receiver \<Rightarrow> Receiver \<Rightarrow> bool" where
  "nacked r s \<longleftrightarrow> (\<forall>i. without_nack (r_mpBuckets s i) = without_nack (r_mpBuckets r i)) \<and>
     r_mBucketMap s = r_mBucketMap r \<and> r_BUFFER_SIZE s = r_BUFFER_SIZE r \<and> r_mMode s = r_mMode r \<and>
     r_mMaxNackRetries s = r_mMaxNackRetries r \<and> r_mHolTimeoutMs s = r_mHolTimeoutMs r \<and>
     r_mFirstFrame s = r_mFirstFrame r \<and> r_mFrameNoRecalc s = r_mFrameNoRecalc r \<and> r_mOldFrameNo s = r_mOldFrameNo r \<and>
     r_mDeliveryQueue s = r_mDeliveryQueue r \<and> r_mDeliveryReady s = r_mDeliveryReady r \<and> r_mRunning s = r_mRunning r \<and>
     r_delivered s = r_delivered r"

lemma nacked_refl: "nacked r r"
  by (simp add: nacked_def)

lemma nacked_trans: "nacked r s \<Longrightarrow> nacked s t \<Longrightarrow> nacked r t"
  by (simp add: nacked_def)

lemma without_nack_fields:
  assumes "without_nack b = without_nack c"
  shows "b_mActive b = b_mActive c" "b_mDeliveryOrder b = b_mDeliveryOrder c" "b_mSavedFrameNo b = b_mSavedFrameNo c"
    "b_mpFrame b = b_mpFrame c" "bucket_ok m i b = bucket_ok m i c" "finishedFrame b = finishedFrame c"
    "bucket_complete b = bucket_complete c" "to_deliver t r b = to_deliver t r c"
  using assms by (cases b; cases c; simp add: without_nack_def bucket_ok_def layout_def finishedFrame_def
      bucket_complete_def to_deliver_def fun_eq_iff)+

lemma nacked_inv:
  assumes "nacked r s" "recv_inv r"
  shows "recv_inv s"
proof -
  note eq = without_nack_fields [OF assms(1) [unfolded nacked_def, THEN conjunct1, rule_format]]
  have "map_ok (r_mBucketMap s) (r_mpBuckets s)"
    using recv_invD(2) [OF assms(2)] assms(1) by (simp add: map_ok_def eq(1,2) nacked_def)
  with assms show ?thesis by (simp add: recv_inv_def eq(1,5)) (simp add: nacked_def)
qed

lemma nack_bucket_safe:
  assumes inv: "recv_inv r" and active: "b_mActive (r_mpBuckets r idx)"
  shows "\<exists>s. nack_bucket t idx r = Some s \<and> nacked r s"
proof -
  let ?b = "r_mpBuckets r idx"
  show ?thesis
  proof (cases "bucket_complete ?b \<or> r_mMaxNackRetries r \<le> b_mNackCount ?b")
    case True
    then show ?thesis by (auto simp: nack_bucket_def Let_def nacked_refl)
  next
    case False
    have "unat (b_mOfFragmentNo ?b) < 8192" using recv_invD(1) [OF inv active] by (auto simp: bucket_ok_def layout_def)
    then obtain es where "nack_missing ?b = Some es" by (rule nack_missing_defined)
    then obtain d where d: "buildNack ?b = Some d" by (simp add: buildNack_def)
    have "unat (b_mNackCount ?b) < 64"
      using False recv_invD(4) [OF inv] by (simp add: word_le_nat_alt)
    then obtain v c where v: "calculateNackDelayUs ?b r = Some (v, r\<lparr>r_clock := c\<rparr>)"
      by (simp add: calculateNackDelayUs_def shl64_def r_nowUs_def nowUs_def Let_def)
    let ?trig = "if b_mLastNackUs ?b = 0 then b_mFirstArrivalUs ?b + v else b_mLastNackUs ?b + v"
    have clk: "nacked r (r\<lparr>r_clock := c\<rparr>)" by (simp add: nacked_def)
    have set: "nacked r (set_bucket idx (?b\<lparr>b_mLastNackUs := u, b_mNackCount := n\<rparr>) (r\<lparr>r_clock := c, r_nacks := ns, r_mStatistics := st\<rparr>))"
      for u n ns st by (simp add: nacked_def set_bucket_def without_nack_def)
    show ?thesis
    proof (cases "t < ?trig \<or> d = []")
      case True
      with False v d clk show ?thesis by (auto simp: nack_bucket_def Let_def)
    next
      case send: False
      with False v d set show ?thesis by (simp add: nack_bucket_def Let_def)
    qed
  qed
qed

lemma nack_loop_safe:
  assumes "recv_inv r" "list_all (\<lambda>(n, idx). b_mActive (r_mpBuckets r idx)) m"
  shows "\<exists>s. nack_loop t m r = Some s \<and> nacked r s"
  using assms
proof (induction m arbitrary: r)
  case Nil
  then show ?case by (simp add: nacked_refl)
next
  case (Cons x m)
  obtain n idx where x: "x = (n, idx)" by (cases x)
  then have "b_mActive (r_mpBuckets r idx)" using Cons.prems(2) by simp
  from nack_bucket_safe [OF Cons.prems(1) this, of t] obtain s where s: "nack_bucket t idx r = Some s" "nacked r s" by blast
  have same: "b_mActive (r_mpBuckets s i) = b_mActive (r_mpBuckets r i)" for i
    using s(2) by (intro without_nack_fields(1)) (simp add: nacked_def)
  have "list_all (\<lambda>(n, idx). b_mActive (r_mpBuckets s idx)) m" using Cons.prems(2) by (simp add: same)
  from Cons.IH [OF nacked_inv [OF s(2) Cons.prems(1)] this] obtain u where "nack_loop t m s = Some u" "nacked s u" by blast
  with s(1) x nacked_trans [OF s(2)] show ?case by simp
qed

lemma map_ok_entries:
  assumes "map_ok m bs"
  shows "list_all (\<lambda>(n, idx). b_mActive (bs idx)) m" "distinct (map snd m)"
    "(n, idx) \<in> set m \<longleftrightarrow> b_mActive (bs idx) \<and> b_mDeliveryOrder (bs idx) = n"
    "sorted (map (\<lambda>idx. b_mDeliveryOrder (bs idx)) (map snd m))"
proof -
  have wf: "om_wf m" using assms by (simp add: map_ok_def)
  show entries: "(n, idx) \<in> set m \<longleftrightarrow> b_mActive (bs idx) \<and> b_mDeliveryOrder (bs idx) = n" for n idx
    using assms om.entries_lookup [OF wf] by (simp add: map_ok_def)
  then show "list_all (\<lambda>(n, idx). b_mActive (bs idx)) m" by (auto simp: list_all_iff)
  have "distinct (map fst m)" by (rule om.entries_distinct [OF wf])
  moreover have keys: "map (\<lambda>idx. b_mDeliveryOrder (bs idx)) (map snd m) = map fst m"
    using entries by auto
  ultimately show "distinct (map snd m)" by (metis distinct_map)
  show "sorted (map (\<lambda>idx. b_mDeliveryOrder (bs idx)) (map snd m))"
    unfolding keys using om.entries_sorted [OF wf] strict_sorted_iff by blast
qed

lemma processNacks_safe:
  assumes "recv_inv r"
  shows "\<exists>s. processNacks r = Some s \<and> nacked r s"
proof (cases "r_mMaxNackRetries r = 0")
  case True
  then show ?thesis by (simp add: processNacks_def nacked_refl)
next
  case False
  obtain t u where t: "r_nowUs r = (t, u)" by (cases "r_nowUs r")
  then have u: "nacked r u" "recv_inv u" "r_mBucketMap u = r_mBucketMap r" using assms recv_inv_nowUs [OF t]
    by (auto simp: r_nowUs_def nowUs_def nacked_def)
  from nack_loop_safe [OF u(2) map_ok_entries(1) [OF recv_invD(2) [OF u(2)]], of t] obtain s where
    "nack_loop t (r_mBucketMap u) u = Some s" "nacked u s" by blast
  with False t nacked_trans [OF u(1)] show ?thesis by (simp add: processNacks_def)
qed

section \<open>Delivery\<close>

text \<open>Frames handed over go to the queue of the delivery thread, or to the callback.\<close>

definition hands_over :: "Receiver \<Rightarrow> Receiver \<Rightarrow> SuperFrame list \<Rightarrow> bool" where
  "hands_over r s fs \<longleftrightarrow> r_mMode s = r_mMode r \<and>
     (if r_mMode r = THREADED then r_mDeliveryQueue s = r_mDeliveryQueue r @ fs \<and> r_delivered s = r_delivered r
      else r_delivered s = r_delivered r @ fs \<and> r_mDeliveryQueue s = r_mDeliveryQueue r)"

definition ready_frame :: "Receiver \<Rightarrow> u16 \<Rightarrow> SuperFrame" where
  "ready_frame r idx = finishedFrame (r_mpBuckets r idx) (the (b_mpFrame (r_mpBuckets r idx)))"

lemma hands_over_trans: "hands_over r s fs \<Longrightarrow> hands_over s t gs \<Longrightarrow> hands_over r t (fs @ gs)"
  by (auto simp: hands_over_def)

lemma hands_over_Nil: "hands_over r r []"
  by (simp add: hands_over_def)

lemma deliverFrame_spec:
  assumes inv: "recv_inv r" and active: "b_mActive (r_mpBuckets r idx)"
  shows "\<exists>s. deliverFrame idx r = Some s \<and> recv_inv s \<and> hands_over r s [ready_frame r idx] \<and>
    (\<exists>b. r_mpBuckets s = (r_mpBuckets r)(idx := b) \<and> \<not> b_mActive b \<and> b_mDeliveryOrder b = b_mDeliveryOrder (r_mpBuckets r idx))"
proof -
  let ?b = "r_mpBuckets r idx" and ?b' = "r_mpBuckets r idx\<lparr>b_mActive := False, b_mpFrame := None\<rparr>"
  from recv_invD(1) [OF inv active] obtain f m where
    f: "b_mpFrame ?b = Some f" "sf_mpData f = Some m" "sf_mSize f \<le> length m" "length m \<le> MAX_SUPERFRAME_SIZE" by (rule bucket_okD)
  have fits: "frame_fits (finishedFrame ?b f)" using f by (simp add: frame_fits_def finishedFrame_def)
  let ?r = "hand_over (finishedFrame ?b f) (count_delivered (sf_mBroken (finishedFrame ?b f)) r)"
  have r: "recv_inv ?r" "r_mpBuckets ?r = r_mpBuckets r" "r_mBucketMap ?r = r_mBucketMap r" "r_BUFFER_SIZE ?r = r_BUFFER_SIZE r"
    "hands_over r ?r [finishedFrame ?b f]"
    using inv fits by (auto simp: hand_over_def count_delivered_def hands_over_def recv_inv_def)
  let ?s = "set_bucket idx ?b' (?r\<lparr>r_mBucketMap := om_erase (b_mDeliveryOrder ?b) (r_mBucketMap ?r)\<rparr>)"
  have "deliverFrame idx r = Some ?s" using f(1) by (simp add: deliverFrame_def Let_def)
  moreover have "map_ok (om_erase (b_mDeliveryOrder ?b) (r_mBucketMap r)) ((r_mpBuckets r)(idx := ?b'))"
    using map_ok_close [OF recv_invD(2) [OF inv] active, of ?b'] by simp
  then have "recv_inv ?s" using r by (simp add: recv_inv_def set_bucket_def)
  moreover have "hands_over r ?s [ready_frame r idx]"
    using r(5) f(1) by (simp add: hands_over_def set_bucket_def ready_frame_def)
  moreover have "r_mpBuckets ?s = (r_mpBuckets r)(idx := ?b')" using r(2) by (simp add: set_bucket_def)
  ultimately show ?thesis by force
qed

lemma deliver_loop_spec:
  assumes "recv_inv r" "list_all (\<lambda>idx. b_mActive (r_mpBuckets r idx)) is" "distinct is"
  shows "\<exists>s. deliver_loop is r = Some s \<and> recv_inv s \<and> hands_over r s (map (ready_frame r) is) \<and>
    (\<forall>i. if i \<in> set is then \<not> b_mActive (r_mpBuckets s i) \<and> b_mDeliveryOrder (r_mpBuckets s i) = b_mDeliveryOrder (r_mpBuckets r i)
         else r_mpBuckets s i = r_mpBuckets r i)"
  using assms
proof (induction "is" arbitrary: r)
  case Nil
  then show ?case by (simp add: hands_over_Nil)
next
  case (Cons idx "is")
  have active: "b_mActive (r_mpBuckets r idx)" using Cons.prems(2) by simp
  from deliverFrame_spec [OF Cons.prems(1) active] obtain s b where
    s: "deliverFrame idx r = Some s" "recv_inv s" "hands_over r s [ready_frame r idx]"
    and b: "r_mpBuckets s = (r_mpBuckets r)(idx := b)" "\<not> b_mActive b" "b_mDeliveryOrder b = b_mDeliveryOrder (r_mpBuckets r idx)" by blast
  have other: "i \<in> set is \<Longrightarrow> r_mpBuckets s i = r_mpBuckets r i" for i using b(1) Cons.prems(3) by auto
  then have "list_all (\<lambda>idx. b_mActive (r_mpBuckets s idx)) is" using Cons.prems(2) by (simp add: list_all_iff)
  from Cons.IH [OF s(2) this] Cons.prems(3) obtain t where
    t: "deliver_loop is s = Some t" "recv_inv t" "hands_over s t (map (ready_frame s) is)"
    "\<forall>i. if i \<in> set is then \<not> b_mActive (r_mpBuckets t i) \<and> b_mDeliveryOrder (r_mpBuckets t i) = b_mDeliveryOrder (r_mpBuckets s i)
         else r_mpBuckets t i = r_mpBuckets s i" by auto
  have eqm: "map (ready_frame s) is = map (ready_frame r) is" using other by (simp add: ready_frame_def)
  have "hands_over r t (map (ready_frame r) (idx # is))"
    using hands_over_trans [OF s(3) t(3)] unfolding eqm by simp
  moreover have "if i \<in> set (idx # is) then \<not> b_mActive (r_mpBuckets t i) \<and> b_mDeliveryOrder (r_mpBuckets t i) = b_mDeliveryOrder (r_mpBuckets r i)
         else r_mpBuckets t i = r_mpBuckets r i" for i
    using t(4) [rule_format, of i] b Cons.prems(3) by (auto split: if_splits)
  ultimately show ?case using s(1) t(1,2) by auto
qed

definition due :: "Receiver \<Rightarrow> u16 list" where
  "due r = filter (\<lambda>idx. to_deliver (r_clock r 0) r (r_mpBuckets r idx)) (map snd (r_mBucketMap r))"

lemma due_facts:
  assumes "recv_inv r"
  shows "set (due r) = {idx. b_mActive (r_mpBuckets r idx) \<and> to_deliver (r_clock r 0) r (r_mpBuckets r idx)}"
    "distinct (due r)" "sorted (map (\<lambda>idx. b_mDeliveryOrder (r_mpBuckets r idx)) (due r))"
proof -
  note M = recv_invD(2) [OF assms]
  have "set (map snd (r_mBucketMap r)) = {idx. b_mActive (r_mpBuckets r idx)}"
    using map_ok_entries(3) [OF M] by force
  then show "set (due r) = {idx. b_mActive (r_mpBuckets r idx) \<and> to_deliver (r_clock r 0) r (r_mpBuckets r idx)}"
    by (auto simp: due_def)
  show "distinct (due r)" using map_ok_entries(2) [OF M] by (simp add: due_def del: map_map)
  show "sorted (map (\<lambda>idx. b_mDeliveryOrder (r_mpBuckets r idx)) (due r))"
    using map_ok_entries(4) [OF M] unfolding due_def by (rule sorted_filter)
qed

text \<open>
  \<open>processTimeouts\<close> hands over exactly the frames that are complete or overdue, in delivery order, and
  frees their buckets; every other bucket keeps its state up to its NACK fields.
\<close>

lemma processTimeouts_spec:
  assumes inv: "recv_inv r"
  shows "\<exists>s. processTimeouts r = Some s \<and> recv_inv s \<and> hands_over r s (map (ready_frame r) (due r)) \<and>
    (\<forall>i. if i \<in> set (due r)
         then \<not> b_mActive (r_mpBuckets s i) \<and> b_mDeliveryOrder (r_mpBuckets s i) = b_mDeliveryOrder (r_mpBuckets r i)
         else without_nack (r_mpBuckets s i) = without_nack (r_mpBuckets r i))"
proof -
  obtain t u where t: "r_nowUs r = (t, u)" by (cases "r_nowUs r")
  then have t0: "t = r_clock r 0" and u: "nacked r u" "recv_inv u"
    using inv recv_inv_nowUs [OF t] by (auto simp: r_nowUs_def nowUs_def nacked_def)
  from processNacks_safe [OF u(2)] obtain v where v: "processNacks u = Some v" "nacked u v" by blast
  have rv: "nacked r v" using u(1) v(2) by (rule nacked_trans)
  have inv_v: "recv_inv v" using rv inv by (rule nacked_inv)
  have eq: "without_nack (r_mpBuckets v i) = without_nack (r_mpBuckets r i)" for i using rv by (simp add: nacked_def)
  note same = without_nack_fields [OF eq]
  have hol: "to_deliver t v b = to_deliver t r b" for b using rv by (simp add: to_deliver_def nacked_def)
  have ready: "ready_frame v i = ready_frame r i" for i by (simp add: ready_frame_def same(4,6))
  have list: "filter (\<lambda>idx. to_deliver t v (r_mpBuckets v idx)) (map snd (r_mBucketMap v)) = due r"
    using rv unfolding due_def t0 [symmetric] hol same(8) by (simp add: nacked_def)
  note due = due_facts [OF inv]
  have key: "sort_key (\<lambda>idx. b_mDeliveryOrder (r_mpBuckets v idx)) (due r) = due r"
    using due(3) by (intro sort_key_id_if_sorted) (simp add: same(2))
  have "list_all (\<lambda>idx. b_mActive (r_mpBuckets v idx)) (due r)" using due(1) by (simp add: list_all_iff same(1))
  from deliver_loop_spec [OF inv_v this due(2)] obtain s where
    s: "deliver_loop (due r) v = Some s" "recv_inv s" "hands_over v s (map (ready_frame v) (due r))"
    "\<forall>i. if i \<in> set (due r) then \<not> b_mActive (r_mpBuckets s i) \<and> b_mDeliveryOrder (r_mpBuckets s i) = b_mDeliveryOrder (r_mpBuckets v i)
         else r_mpBuckets s i = r_mpBuckets v i" by blast
  have "processTimeouts r = Some s" using t v(1) s(1) by (simp add: processTimeouts_def list key)
  moreover have "hands_over r s (map (ready_frame r) (due r))"
    using s(3) rv by (simp add: hands_over_def nacked_def ready)
  moreover have "if i \<in> set (due r)
         then \<not> b_mActive (r_mpBuckets s i) \<and> b_mDeliveryOrder (r_mpBuckets s i) = b_mDeliveryOrder (r_mpBuckets r i)
         else without_nack (r_mpBuckets s i) = without_nack (r_mpBuckets r i)" for i
    using s(4) [rule_format, of i] by (simp add: same(2) eq split: if_splits)
  ultimately show ?thesis using s(2) by blast
qed

section \<open>The receiver as a machine\<close>

lemma handleType0_safe: "recv_inv r \<Longrightarrow> safe_result (handleType0 d src r)"
  by (simp add: handleType0_def)

lemma dispatch_safe: "recv_inv r \<Longrightarrow> safe_result (dispatch d src r)"
  by (simp add: dispatch_def handleType0_safe handleType1_safe handleType2_safe handleType3_safe handleType4_safe
      split: FrameType.split)

lemma processTimeouts_safe: "recv_inv r \<Longrightarrow> \<exists>s. processTimeouts r = Some s \<and> recv_inv s"
  using processTimeouts_spec by blast

lemma receive_safe:
  assumes "recv_inv r"
  shows "safe_result (receive d src r)"
proof -
  have "safe_result (if r_mMode r = RUN_TO_COMPLETION then do { r \<leftarrow> processTimeouts r; Some (res, r) } else Some (res, r))"
    if "recv_inv r" for res :: Result and r
    using processTimeouts_safe [OF that] that by auto
  then have "safe_result (dispatch d src r \<bind> (\<lambda>(lResult, r).
      if r_mMode r = RUN_TO_COMPLETION then do { r \<leftarrow> processTimeouts r; Some (lResult, r) } else Some (lResult, r)))"
    by (intro safe_bind dispatch_safe assms) simp
  with assms show ?thesis by (simp add: receive_def)
qed

lemma poll_safe: "recv_inv r \<Longrightarrow> \<exists>s. poll r = Some s \<and> recv_inv s"
  using processTimeouts_safe by (simp add: poll_def)

lemma workerTick_safe: "recv_inv r \<Longrightarrow> \<exists>s. workerTick r = Some s \<and> recv_inv s"
  using processTimeouts_safe by (simp add: workerTick_def)

lemma deliveryTick_inv: "recv_inv r \<Longrightarrow> recv_inv (deliveryTick r)"
  by (auto simp: deliveryTick_def recv_inv_def split: list.splits)

datatype ReceiverOp =
    Receive bytes u8
  | Poll
  | WorkerTick
  | DeliveryTick
  | Stop
  | GetReceiverStatistics

fun receiver_step :: "ReceiverOp \<Rightarrow> Receiver \<Rightarrow> (Result \<times> Receiver) option" where
  "receiver_step (Receive d src) r = receive d src r"
| "receiver_step Poll r = map_option (Pair OK) (poll r)"
| "receiver_step WorkerTick r = map_option (Pair OK) (workerTick r)"
| "receiver_step DeliveryTick r = Some (OK, deliveryTick r)"
| "receiver_step Stop r = Some (OK, stop r)"
| "receiver_step GetReceiverStatistics r = Some (OK, r)"

interpretation receiver: safe_machine recv_inv receiver_step
proof unfold_locales
  fix x r assume inv: "recv_inv r"
  show "\<exists>res s. receiver_step x r = Some (res, s) \<and> recv_inv s"
    using receive_safe [OF inv] poll_safe [OF inv] workerTick_safe [OF inv] deliveryTick_inv [OF inv] inv
    by (cases x) (auto simp: safe_result_def stop_def)
qed

end
