(* ===== verification/Efp_Pieces.thy ===== *)
theory Efp_Pieces
  imports Efp_SendSpec Efp_ReceiverMachine
begin

text \<open>
  The pieces of a payload in a frame buffer: where each of them lies while fragments are missing, that
  writing a piece leaves the others in place, and that all of them together are the payload.
\<close>

section \<open>A frame buffer that holds the received pieces\<close>

text \<open>
  What reassembly needs of a fragmentation. It is weaker than \<open>args_ok\<close>, so that a payload in one
  Type2 packet is a fragmentation too.
\<close>

definition asm_ok :: "FragArgs \<Rightarrow> bool" where
  "asm_ok a \<longleftrightarrow>
     type2_offset a + fa_aType2DataSize a = length (fa_apData a) \<and>
     fa_aType1PayloadSize a < 65536 \<and> 0 < fa_aType2DataSize a \<and> fa_aType2DataSize a < 65536 \<and>
     (0 < unat (fa_aOfFragmentNo a) \<longrightarrow> 0 < fa_aType1PayloadSize a \<and> fa_aType2DataSize a \<le> fa_aType1PayloadSize a) \<and>
     (fa_aNeedsType3 a \<longrightarrow> 0 < fa_aType3DataSize a \<and> fa_aType3DataSize a \<le> fa_aType1PayloadSize a) \<and>
     unat (fa_aOfFragmentNo a) = fa_aNumType1Fragments a + (if fa_aNeedsType3 a then 1 else 0) \<and>
     unat (fa_aOfFragmentNo a) < 8192 \<and>
     fa_aType1PayloadSize a * (unat (fa_aOfFragmentNo a) + 1) \<le> MAX_SUPERFRAME_SIZE \<and>
     (fa_aDtsPtsDiff a \<noteq> - 1 \<longrightarrow> ucast (fa_aDtsPtsDiff a) \<le> fa_aPts a)"

text \<open>The Type2 payload waits one slot further up until the Type3 fragment has arrived.\<close>

definition type2_pos :: "FragArgs \<Rightarrow> nat set \<Rightarrow> nat" where
  "type2_pos a S = (if fa_aNeedsType3 a \<and> fa_aNumType1Fragments a \<notin> S
     then unat (fa_aOfFragmentNo a) * fa_aType1PayloadSize a else type2_offset a)"

definition type1_piece_at :: "FragArgs \<Rightarrow> nat \<Rightarrow> bytes" where
  "type1_piece_at a i = piece (i * fa_aType1PayloadSize a) (fa_aType1PayloadSize a) (fa_apData a)"

definition type3_piece :: "FragArgs \<Rightarrow> bytes" where
  "type3_piece a = piece (fa_aNumType1Fragments a * fa_aType1PayloadSize a) (fa_aType3DataSize a) (fa_apData a)"

definition type2_piece :: "FragArgs \<Rightarrow> bytes" where
  "type2_piece a = piece (type2_offset a) (fa_aType2DataSize a) (fa_apData a)"

definition holds_pieces :: "FragArgs \<Rightarrow> nat set \<Rightarrow> cell list \<Rightarrow> bool" where
  "holds_pieces a S m \<longleftrightarrow>
     (\<forall>i \<in> S. i < fa_aNumType1Fragments a \<longrightarrow>
        region (i * fa_aType1PayloadSize a) (fa_aType1PayloadSize a) m = map Some (type1_piece_at a i)) \<and>
     (fa_aNeedsType3 a \<longrightarrow> fa_aNumType1Fragments a \<in> S \<longrightarrow>
        region (fa_aNumType1Fragments a * fa_aType1PayloadSize a) (fa_aType3DataSize a) m = map Some (type3_piece a)) \<and>
     (unat (fa_aOfFragmentNo a) \<in> S \<longrightarrow>
        region (type2_pos a S) (fa_aType2DataSize a) m = map Some (type2_piece a))"

lemma asm_pieces:
  assumes "asm_ok a"
  shows "i < fa_aNumType1Fragments a \<Longrightarrow> length (type1_piece_at a i) = fa_aType1PayloadSize a"
    "fa_aNeedsType3 a \<Longrightarrow> length (type3_piece a) = fa_aType3DataSize a"
    "length (type2_piece a) = fa_aType2DataSize a"
    "i < fa_aNumType1Fragments a \<Longrightarrow> i * fa_aType1PayloadSize a + fa_aType1PayloadSize a \<le> fa_aNumType1Fragments a * fa_aType1PayloadSize a"
    "fa_aNumType1Fragments a * fa_aType1PayloadSize a \<le> type2_pos a S"
    "fa_aNeedsType3 a \<Longrightarrow> fa_aNumType1Fragments a * fa_aType1PayloadSize a + fa_aType3DataSize a \<le> type2_pos a S"
proof -
  let ?N = "fa_aNumType1Fragments a" and ?t = "fa_aType1PayloadSize a"
  have sum: "type2_offset a + fa_aType2DataSize a = length (fa_apData a)" using assms by (simp add: asm_ok_def)
  show le: "i * ?t + ?t \<le> ?N * ?t" if "i < ?N"
    using mult_le_mono1 [of "Suc i" ?N ?t] that by simp
  show "length (type1_piece_at a i) = ?t" if "i < ?N"
    using le [OF that] sum by (simp add: type1_piece_at_def type2_offset_def length_piece)
  show "length (type3_piece a) = fa_aType3DataSize a" if "fa_aNeedsType3 a"
    using that sum by (simp add: type3_piece_def type2_offset_def type3_size_def length_piece)
  show "length (type2_piece a) = fa_aType2DataSize a"
    using sum by (simp add: type2_piece_def length_piece)
  have "?N * ?t \<le> unat (fa_aOfFragmentNo a) * ?t" using assms by (intro mult_le_mono1) (simp add: asm_ok_def)
  then show "?N * ?t \<le> type2_pos a S" by (simp add: type2_pos_def type2_offset_def)
  show "?N * ?t + fa_aType3DataSize a \<le> type2_pos a S" if "fa_aNeedsType3 a"
    using that assms by (simp add: type2_pos_def type2_offset_def type3_size_def asm_ok_def)
qed

lemma holds_type1:
  assumes ok: "asm_ok a" and H: "holds_pieces a S m" and i: "i < fa_aNumType1Fragments a"
    and w: "mem_write m (fa_aType1PayloadSize a * i) (map Some (type1_piece_at a i)) = Some m'"
  shows "holds_pieces a (insert i S) m'"
proof -
  let ?N = "fa_aNumType1Fragments a" and ?t = "fa_aType1PayloadSize a"
  note P = asm_pieces [OF ok]
  have len: "length (map Some (type1_piece_at a i)) = ?t" using P(1) [OF i] by simp
  have w': "mem_write m (i * ?t) (map Some (type1_piece_at a i)) = Some m'" using w by (simp add: mult.commute)
  have own: "region (i * ?t) ?t m' = map Some (type1_piece_at a i)"
    using region_write_same [OF w' len [symmetric]] .
  have after: "region o' n m' = region o' n m" if "i * ?t + ?t \<le> o'" for o' n
    by (rule region_write_after [OF w']) (use that P(1) [OF i] in simp)
  have before: "region o' n m' = region o' n m" if "o' + n \<le> i * ?t" for o' n
    using that by (rule region_write_before [OF w'])
  have "region (j * ?t) ?t m' = map Some (type1_piece_at a j)" if "j \<in> S" "j < ?N" "j \<noteq> i" for j
  proof -
    have "region (j * ?t) ?t m' = region (j * ?t) ?t m"
    proof (cases "j < i")
      case True
      then have "Suc j * ?t \<le> i * ?t" by (intro mult_le_mono1) simp
      then show ?thesis by (intro before) simp
    next
      case False
      with that(3) have "Suc i * ?t \<le> j * ?t" by (intro mult_le_mono1) simp
      then show ?thesis by (intro after) simp
    qed
    with H that show ?thesis by (simp add: holds_pieces_def)
  qed
  moreover have "type2_pos a (insert i S) = type2_pos a S" using i by (simp add: type2_pos_def)
  moreover have "region (type2_pos a S) n m' = region (type2_pos a S) n m" for n
    using P(4) [OF i] P(5) [of S] by (intro after) simp
  moreover have "region (?N * ?t) n m' = region (?N * ?t) n m" for n
    using P(4) [OF i] by (intro after) simp
  moreover have "unat (fa_aOfFragmentNo a) \<noteq> i" "?N \<noteq> i" using i ok by (simp_all add: asm_ok_def)
  ultimately show ?thesis using H own unfolding holds_pieces_def by auto
qed

lemma holds_type2:
  assumes ok: "asm_ok a" and H: "holds_pieces a S m" and new: "unat (fa_aOfFragmentNo a) \<notin> S"
    and w: "mem_write m (type2_pos a S) (map Some (type2_piece a)) = Some m'"
  shows "holds_pieces a (insert (unat (fa_aOfFragmentNo a)) S) m'"
proof -
  let ?N = "fa_aNumType1Fragments a" and ?t = "fa_aType1PayloadSize a" and ?of = "unat (fa_aOfFragmentNo a)"
  note P = asm_pieces [OF ok]
  have len: "fa_aType2DataSize a = length (map Some (type2_piece a))" using P(3) by simp
  have before: "region o' n m' = region o' n m" if "o' + n \<le> type2_pos a S" for o' n
    using that by (rule region_write_before [OF w])
  have "type2_pos a (insert ?of S) = type2_pos a S"
    using ok by (auto simp: type2_pos_def asm_ok_def)
  moreover have "region (j * ?t) ?t m' = region (j * ?t) ?t m" if "j < ?N" for j
    using P(4) [OF that] P(5) [of S] by (intro before) simp
  moreover have "region (?N * ?t) (fa_aType3DataSize a) m' = region (?N * ?t) (fa_aType3DataSize a) m" if "fa_aNeedsType3 a"
    using P(6) [OF that] by (intro before)
  moreover have "\<not> ?of < ?N" "fa_aNeedsType3 a \<Longrightarrow> ?of \<noteq> ?N" using ok by (simp_all add: asm_ok_def)
  ultimately show ?thesis
    using H region_write_same [OF w len] unfolding holds_pieces_def by auto
qed

lemma holds_type3:
  assumes ok: "asm_ok a" and H: "holds_pieces a S m" and three: "fa_aNeedsType3 a" and new: "fa_aNumType1Fragments a \<notin> S"
    and mv: "if unat (fa_aOfFragmentNo a) \<in> S
      then mem_move m (type2_offset a) (unat (fa_aOfFragmentNo a) * fa_aType1PayloadSize a) (fa_aType2DataSize a) = Some m1 else m1 = m"
    and w: "mem_write m1 (fa_aType1PayloadSize a * fa_aNumType1Fragments a) (map Some (type3_piece a)) = Some m'"
  shows "holds_pieces a (insert (fa_aNumType1Fragments a) S) m'"
proof -
  let ?N = "fa_aNumType1Fragments a" and ?t = "fa_aType1PayloadSize a" and ?of = "unat (fa_aOfFragmentNo a)"
  note P = asm_pieces [OF ok]
  have off: "type2_offset a = ?N * ?t + fa_aType3DataSize a" using three by (simp add: type2_offset_def type3_size_def)
  have len: "fa_aType3DataSize a = length (map Some (type3_piece a))" using P(2) [OF three] by simp
  have w': "mem_write m1 (?N * ?t) (map Some (type3_piece a)) = Some m'" using w by (simp add: mult.commute)
  have two: "region (type2_offset a) (fa_aType2DataSize a) m' = map Some (type2_piece a)" if "?of \<in> S"
  proof -
    have pos: "type2_pos a S = ?of * ?t" using three new by (simp add: type2_pos_def)
    from mv that obtain xs where xs: "mem_load (fa_aType2DataSize a) m (?of * ?t) = Some xs" "mem_write m (type2_offset a) xs = Some m1"
      by (auto simp: mem_move_def split: bind_splits)
    then have "xs = map Some (type2_piece a)" "fa_aType2DataSize a = length xs"
      using H that mem_load_length [OF xs(1)] by (auto simp: holds_pieces_def pos mem_load_def region_def split: if_splits)
    with region_write_same [OF xs(2)] have "region (type2_offset a) (fa_aType2DataSize a) m1 = map Some (type2_piece a)" by simp
    moreover have "region (type2_offset a) (fa_aType2DataSize a) m' = region (type2_offset a) (fa_aType2DataSize a) m1"
      by (rule region_write_after [OF w']) (simp add: off len)
    ultimately show ?thesis by simp
  qed
  have one: "region (j * ?t) ?t m' = region (j * ?t) ?t m" if j: "j < ?N" for j
  proof -
    have "region (j * ?t) ?t m1 = region (j * ?t) ?t m"
    proof (cases "?of \<in> S")
      case True
      with mv obtain xs where "mem_write m (type2_offset a) xs = Some m1" by (auto simp: mem_move_def split: bind_splits)
      then show ?thesis by (rule region_write_before) (use P(4) [OF j] off in simp)
    qed (use mv in simp)
    moreover have "region (j * ?t) ?t m' = region (j * ?t) ?t m1"
      by (rule region_write_before [OF w' P(4) [OF j]])
    ultimately show ?thesis by simp
  qed
  have "type2_pos a (insert ?N S) = type2_offset a" by (simp add: type2_pos_def)
  moreover have "?of \<noteq> ?N" using ok three by (simp add: asm_ok_def)
  ultimately show ?thesis
    using H one two region_write_same [OF w' len] unfolding holds_pieces_def by auto
qed

text \<open>With every fragment in place the buffer starts with the payload.\<close>

lemma holds_all:
  assumes ok: "asm_ok a" and H: "holds_pieces a {..unat (fa_aOfFragmentNo a)} m"
  shows "region 0 (length (fa_apData a)) m = map Some (fa_apData a)"
proof -
  let ?N = "fa_aNumType1Fragments a" and ?t = "fa_aType1PayloadSize a" and ?of = "unat (fa_aOfFragmentNo a)" and ?d = "fa_apData a"
  have of_no: "?N \<le> ?of" using ok by (simp add: asm_ok_def)
  have sum: "type2_offset a + fa_aType2DataSize a = length ?d" using ok by (simp add: asm_ok_def)
  have app: "region 0 (x + y) m = map Some (take (x + y) ?d)"
    if "region 0 x m = map Some (take x ?d)" "region x y m = map Some (piece x y ?d)" for x y
    using that region_append [of 0 x y m] by (simp add: take_add piece_def)
  have one: "region 0 (n * ?t) m = map Some (take (n * ?t) ?d)" if "n \<le> ?N" for n
    using that
  proof (induction n)
    case (Suc n)
    then have "region (n * ?t) ?t m = map Some (piece (n * ?t) ?t ?d)"
      using H of_no by (auto simp: holds_pieces_def type1_piece_at_def)
    from app [OF Suc.IH this] Suc.prems show ?case by (simp add: add.commute)
  qed (simp add: region_def)
  have "region (?N * ?t) (type3_size a) m = map Some (piece (?N * ?t) (type3_size a) ?d)"
    using H of_no by (auto simp: holds_pieces_def type3_size_def type3_piece_def region_def piece_def)
  from app [OF one this] have three: "region 0 (type2_offset a) m = map Some (take (type2_offset a) ?d)"
    by (simp add: type2_offset_def)
  have "type2_pos a {..?of} = type2_offset a" using of_no by (simp add: type2_pos_def)
  then have "region (type2_offset a) (fa_aType2DataSize a) m = map Some (piece (type2_offset a) (fa_aType2DataSize a) ?d)"
    using H by (simp add: holds_pieces_def type2_piece_def)
  from app [OF three this] show ?thesis by (simp add: sum)
qed

end
