(* ===== verification/Efp_Reassembly.thy ===== *)
theory Efp_Reassembly
  imports Efp_Pieces
begin

text \<open>
  Reassembly: the state of the bucket that collects the fragments of one payload, as a function of the
  set of fragments that have arrived, and the step every fragment makes in it, in any order and with
  duplicates. Packets of other superframes do not touch the bucket.
\<close>

section \<open>Fragments by number\<close>

definition fragment :: "FragArgs \<Rightarrow> nat \<Rightarrow> bytes" where
  "fragment a i = (if i < fa_aNumType1Fragments a then type1_frame a i
     else if fa_aNeedsType3 a \<and> i = fa_aNumType1Fragments a then type3_frame a
     else type2_frame a)"

definition received_dts :: "FragArgs \<Rightarrow> u64" where
  "received_dts a = (if fa_aDtsPtsDiff a = - 1 then - 1 else fa_aPts a - ucast (fa_aDtsPtsDiff a))"

section \<open>The collecting bucket\<close>

text \<open>The bucket of the payload after the fragments \<open>S\<close> have arrived from source \<open>src\<close>.\<close>

definition assembling :: "FragArgs \<Rightarrow> u8 \<Rightarrow> nat set \<Rightarrow> Bucket \<Rightarrow> bool" where
  "assembling a src S b \<longleftrightarrow>
     b_mActive b \<and> S \<noteq> {} \<and> S \<subseteq> {..unat (fa_aOfFragmentNo a)} \<and> b_mReceivedFragments b = S \<and>
     b_mSavedFrameNo b = fa_aSuperFrameNo a \<and> b_mStreamId b = fa_aStreamId a \<and> b_mSourceId b = src \<and>
     b_mOfFragmentNo b = fa_aOfFragmentNo a \<and> b_mFragmentSize b = fa_aType1PayloadSize a \<and>
     b_mFlags b = fa_aFlags a AND 0xF0 \<and>
     b_mType3Size b = (if fa_aNeedsType3 a \<and> fa_aNumType1Fragments a \<in> S then fa_aType3DataSize a else 0) \<and>
     b_mType2Size b = (if unat (fa_aOfFragmentNo a) \<in> S then fa_aType2DataSize a else 0) \<and>
     (unat (fa_aOfFragmentNo a) \<in> S \<longrightarrow> b_mPts b = fa_aPts a \<and> b_mDts b = received_dts a \<and>
        b_mPayloadType b = fa_aPayloadType a \<and> b_mPayloadCode b = fa_aPayloadCode a) \<and>
     (\<exists>f m. b_mpFrame b = Some f \<and> sf_mpData f = Some m \<and> holds_pieces a S m \<and>
        (unat (fa_aOfFragmentNo a) \<in> S \<and> (fa_aNeedsType3 a \<longrightarrow> fa_aNumType1Fragments a \<in> S) \<longrightarrow>
           sf_mSize f = length (fa_apData a)))"

lemma assemblingE:
  assumes "assembling a src S b"
  obtains f m where "b_mpFrame b = Some f" "sf_mpData f = Some m" "holds_pieces a S m"
    "unat (fa_aOfFragmentNo a) \<in> S \<and> (fa_aNeedsType3 a \<longrightarrow> fa_aNumType1Fragments a \<in> S) \<longrightarrow> sf_mSize f = length (fa_apData a)"
  using assms by (auto simp: assembling_def)

text \<open>The bucket of the payload is free and a new superframe number can open it.\<close>

definition can_open :: "u16 \<Rightarrow> Receiver \<Rightarrow> bool" where
  "can_open sf r \<longleftrightarrow>
     (let b = r_mpBuckets r (bucketIndex sf r)
      in \<not> b_mActive b \<and> fst (recalculateSuperFrameNo sf r) \<noteq> b_mDeliveryOrder b \<and> r_alloc r 0)"

definition collecting :: "FragArgs \<Rightarrow> u8 \<Rightarrow> nat set \<Rightarrow> Receiver \<Rightarrow> bool" where
  "collecting a src S r \<longleftrightarrow> recv_inv r \<and>
     (if S = {} then can_open (fa_aSuperFrameNo a) r else assembling a src S (r_mpBuckets r (bucketIndex (fa_aSuperFrameNo a) r)))"

section \<open>What no packet changes\<close>

definition same_world :: "Receiver \<Rightarrow> Receiver \<Rightarrow> bool" where
  "same_world r s \<longleftrightarrow> r_BUFFER_SIZE s = r_BUFFER_SIZE r \<and> r_mMode s = r_mMode r \<and> r_mRunning s = r_mRunning r \<and>
     r_mDeliveryQueue s = r_mDeliveryQueue r \<and> r_mDeliveryReady s = r_mDeliveryReady r \<and> r_delivered s = r_delivered r"

text \<open>
  A packet of superframe \<open>sf\<close> from source \<open>x\<close>, unwrapped to \<open>n\<close>, touches one slot, and only if that collects
  the superframe of the source, or is free and its last superframe was another one.
\<close>

definition numbering :: "Receiver \<Rightarrow> u16 \<times> int \<times> bool" where
  "numbering r = (r_mOldFrameNo r, r_mFrameNoRecalc r, r_mFirstFrame r)"

definition may_become :: "u8 \<Rightarrow> u16 \<Rightarrow> int \<Rightarrow> Bucket \<Rightarrow> Bucket \<Rightarrow> bool" where
  "may_become x sf n b c \<longleftrightarrow> b_mSavedFrameNo c = sf \<and> b_mSourceId c = x \<and>
     (if b_mActive b then b_mActive c \<and> b_mSavedFrameNo b = sf \<and> b_mSourceId b = x \<and> b_mDeliveryOrder c = b_mDeliveryOrder b
      else b_mDeliveryOrder c = n \<and> b_mDeliveryOrder b \<noteq> n)"

definition touches :: "u8 \<Rightarrow> u16 \<Rightarrow> int \<Rightarrow> Receiver \<Rightarrow> Receiver \<Rightarrow> bool" where
  "touches x sf n r s \<longleftrightarrow> same_world r s \<and> (numbering s = numbering r \<or> numbering s = (sf, n, False)) \<and>
     (\<forall>j. r_mpBuckets s j = r_mpBuckets r j \<or>
        j = bucketIndex sf r \<and> may_become x sf n (r_mpBuckets r j) (r_mpBuckets s j))"

definition local_to :: "u16 \<Rightarrow> Receiver \<Rightarrow> Receiver \<Rightarrow> bool" where
  "local_to sf r s \<longleftrightarrow> same_world r s \<and>
     (\<forall>j. j \<noteq> bucketIndex sf r \<or> b_mActive (r_mpBuckets r j) \<and> b_mSavedFrameNo (r_mpBuckets r j) \<noteq> sf \<longrightarrow>
        r_mpBuckets s j = r_mpBuckets r j)"

definition by_source :: "u8 \<Rightarrow> Receiver \<Rightarrow> Receiver \<Rightarrow> bool" where
  "by_source x r s \<longleftrightarrow> (\<forall>j. r_mpBuckets s j = r_mpBuckets r j \<or>
     (b_mActive (r_mpBuckets r j) \<longrightarrow> b_mSourceId (r_mpBuckets r j) = x) \<and>
     (b_mActive (r_mpBuckets s j) \<longrightarrow> b_mSourceId (r_mpBuckets s j) = x))"

lemma touches_local: "touches x sf n r s \<Longrightarrow> local_to sf r s"
  unfolding touches_def local_to_def may_become_def by metis

lemma touches_source: "touches x sf n r s \<Longrightarrow> by_source x r s"
  unfolding touches_def by_source_def may_become_def by metis

lemma same_world_trans: "same_world r s \<Longrightarrow> same_world s t \<Longrightarrow> same_world r t"
  by (simp add: same_world_def)

lemma touches_refl [simp]: "touches x sf n r r"
  by (simp add: touches_def same_world_def)

lemma touches_count [simp]:
  "touches x sf n r (count_received s) = touches x sf n r s" "touches x sf n r (count_duplicate s) = touches x sf n r s"
  "touches x sf n r (cache_stream h s) = touches x sf n r s" "touches x sf n (cache_stream h r) s = touches x sf n r s"
  "touches x sf n r (s\<lparr>r_mBucketMap := m\<rparr>) = touches x sf n r s" "touches x sf n r (s\<lparr>r_alloc := al\<rparr>) = touches x sf n r s"
  by (simp_all add: touches_def same_world_def numbering_def count_received_def count_duplicate_def cache_stream_def bucketIndex_def)

lemma touches_set:
  "idx = bucketIndex sf r \<Longrightarrow> may_become x sf n (r_mpBuckets r idx) b \<Longrightarrow> touches x sf n r s \<Longrightarrow>
   touches x sf n r (set_bucket idx b s)"
  by (auto simp: touches_def same_world_def numbering_def set_bucket_def)

lemma touches_jitter:
  assumes "r_nowUs r = (t, u)"
  shows "touches x sf n (updateJitter t u) s = touches x sf n r s"
proof -
  have "same_world (updateJitter t u) s = same_world r s" "numbering (updateJitter t u) = numbering r"
    "r_mpBuckets (updateJitter t u) = r_mpBuckets r" "bucketIndex sf (updateJitter t u) = bucketIndex sf r"
    using assms by (auto simp: r_nowUs_def nowUs_def updateJitter_def Let_def same_world_def numbering_def bucketIndex_def)
  then show ?thesis by (simp add: touches_def)
qed

lemma recalculate_jitter:
  "r_nowUs r = (t, u) \<Longrightarrow> fst (recalculateSuperFrameNo sf (updateJitter t u)) = fst (recalculateSuperFrameNo sf r)"
  by (auto simp: r_nowUs_def nowUs_def updateJitter_def Let_def recalculateSuperFrameNo_def)

lemma touches_recalculate:
  assumes "recalculateSuperFrameNo sf r = (n, u)"
  shows "touches x sf n u s \<Longrightarrow> touches x sf n r s" "touches x sf n r u"
proof -
  have u: "same_world u s = same_world r s" "same_world r u" "numbering u = (sf, n, False)"
    "r_mpBuckets u = r_mpBuckets r" "bucketIndex sf u = bucketIndex sf r"
    using assms by (auto simp: recalculateSuperFrameNo_def Let_def same_world_def numbering_def bucketIndex_def split: if_splits)
  then show "touches x sf n u s \<Longrightarrow> touches x sf n r s" "touches x sf n r u" by (simp_all add: touches_def)
qed

lemma openBucket_touches:
  assumes "openBucket idx b tot off payload r = Some (res, s)" "idx = bucketIndex sf r" "\<not> b_mActive (r_mpBuckets r idx)"
    "b_mSourceId b = x" "b_mSavedFrameNo b = sf" "b_mDeliveryOrder b = n" "b_mDeliveryOrder (r_mpBuckets r idx) \<noteq> n"
  shows "touches x sf n r s"
  using assms by (auto simp: openBucket_def allocSuperFrame_def may_become_def Let_def split: bind_splits option.splits intro!: touches_set)

lemma handleType1_touches:
  assumes run: "handleType1 d src r = Some (res, s)"
  shows "touches src (rd16 2 d) (fst (recalculateSuperFrameNo (rd16 2 d) r)) r s"
proof (cases "length d < 8")
  case True
  with run show ?thesis by (simp add: handleType1_def)
next
  case False
  obtain t u where t: "r_nowUs r = (t, u)" by (cases "r_nowUs r")
  let ?r = "updateJitter t u" and ?h = "dec_type1 d" and ?sf = "rd16 2 d"
  have sf: "t1_mSuperFrameNo ?h = ?sf" by (simp add: dec_type1_def)
  obtain n v where v: "recalculateSuperFrameNo ?sf ?r = (n, v)" by (cases "recalculateSuperFrameNo ?sf ?r")
  note lv = touches_recalculate [OF v, of src]
  have n: "n = fst (recalculateSuperFrameNo ?sf r)" using recalculate_jitter [OF t, of ?sf] v by simp
  have pv: "r_mpBuckets v = r_mpBuckets ?r" "bucketIndex ?sf ?r = bucketIndex ?sf v"
    using v by (auto simp: recalculateSuperFrameNo_def Let_def bucketIndex_def split: if_splits)
  have op: "touches src ?sf n ?r s" if "\<not> b_mActive (r_mpBuckets ?r (bucketIndex ?sf ?r))"
    "handleType1_open t ?h (drop 8 d) src ?r = Some (res, s)"
    using that lv pv openBucket_touches [of "bucketIndex ?sf v" _ _ _ _ v res s ?sf src n]
    by (auto simp: handleType1_open_def sf v Let_def split: if_splits bind_splits)
  have ex: "touches src ?sf n ?r s" if "b_mActive (r_mpBuckets ?r (bucketIndex ?sf ?r))"
    "handleType1_existing ?h (drop 8 d) src ?r = Some (res, s)"
    using that unfolding handleType1_existing_def Let_def sf
    by (auto split: if_splits bind_splits simp: may_become_def intro!: touches_set)
  have "touches src ?sf n ?r s"
    using run False op ex by (auto simp: handleType1_def t mem_simps Let_def sf split: if_splits)
  then show ?thesis by (simp add: touches_jitter [OF t] n)
qed

lemma handleType2_touches:
  assumes run: "handleType2 d src r = Some (res, s)"
  shows "touches src (rd16 5 d) (fst (recalculateSuperFrameNo (rd16 5 d) r)) r s"
proof (cases "length d < 27")
  case True
  with run show ?thesis by (simp add: handleType2_def)
next
  case False
  obtain t u where t: "r_nowUs r = (t, u)" by (cases "r_nowUs r")
  let ?r = "updateJitter t u" and ?h = "dec_type2 d" and ?sf = "rd16 5 d"
  have sf: "t2_mSuperFrameNo ?h = ?sf" by (simp add: dec_type2_def)
  obtain n v where v: "recalculateSuperFrameNo ?sf ?r = (n, v)" by (cases "recalculateSuperFrameNo ?sf ?r")
  note lv = touches_recalculate [OF v, of src]
  have n: "n = fst (recalculateSuperFrameNo ?sf r)" using recalculate_jitter [OF t, of ?sf] v by simp
  let ?w = "cache_stream ?h v"
  have pv: "r_mpBuckets ?w = r_mpBuckets ?r" "r_mpBuckets v = r_mpBuckets ?r" "bucketIndex ?sf ?r = bucketIndex ?sf ?w"
    using v by (auto simp: recalculateSuperFrameNo_def Let_def bucketIndex_def cache_stream_def split: if_splits)
  have op: "touches src ?sf n ?r s" if "\<not> b_mActive (r_mpBuckets ?r (bucketIndex ?sf ?r))"
    "handleType2_open t ?h (drop 27 d) src ?r = Some (res, s)"
    using that lv pv openBucket_touches [of "bucketIndex ?sf ?w" _ _ _ _ ?w res s ?sf src n]
    by (auto simp: handleType2_open_def sf v Let_def split: if_splits bind_splits)
  have ex: "touches src ?sf n ?r s" if "b_mActive (r_mpBuckets ?r (bucketIndex ?sf ?r))"
    "handleType2_existing ?h (drop 27 d) src ?r = Some (res, s)"
    using that unfolding handleType2_existing_def Let_def sf
    by (auto split: if_splits bind_splits prod.splits simp: may_become_def intro!: touches_set)
  have "touches src ?sf n ?r s"
    using run False op ex by (auto simp: handleType2_def t mem_simps Let_def sf split: if_splits)
  then show ?thesis by (simp add: touches_jitter [OF t] n)
qed

lemma handleType3_touches:
  assumes run: "handleType3 d src r = Some (res, s)"
  shows "touches src (rd16 2 d) (fst (recalculateSuperFrameNo (rd16 2 d) r)) r s"
proof (cases "length d < 8")
  case True
  with run show ?thesis by (simp add: handleType3_def)
next
  case False
  obtain t u where t: "r_nowUs r = (t, u)" by (cases "r_nowUs r")
  let ?r = "updateJitter t u" and ?h = "dec_type3 d" and ?sf = "rd16 2 d"
  let ?fn = "t3_mOfFragmentNo ?h - 1"
  have sf: "t3_mSuperFrameNo ?h = ?sf" by (simp add: dec_type3_def)
  obtain n v where v: "recalculateSuperFrameNo ?sf ?r = (n, v)" by (cases "recalculateSuperFrameNo ?sf ?r")
  note lv = touches_recalculate [OF v, of src]
  have n: "n = fst (recalculateSuperFrameNo ?sf r)" using recalculate_jitter [OF t, of ?sf] v by simp
  have pv: "r_mpBuckets v = r_mpBuckets ?r" "bucketIndex ?sf ?r = bucketIndex ?sf v"
    using v by (auto simp: recalculateSuperFrameNo_def Let_def bucketIndex_def split: if_splits)
  have op: "touches src ?sf n ?r s" if "\<not> b_mActive (r_mpBuckets ?r (bucketIndex ?sf ?r))"
    "handleType3_open t ?h ?fn (drop 8 d) src ?r = Some (res, s)"
    using that lv pv openBucket_touches [of "bucketIndex ?sf v" _ _ _ _ v res s ?sf src n]
    by (auto simp: handleType3_open_def sf v Let_def split: if_splits bind_splits)
  have ex: "touches src ?sf n ?r s" if "b_mActive (r_mpBuckets ?r (bucketIndex ?sf ?r))"
    "handleType3_existing ?h ?fn (drop 8 d) src ?r = Some (res, s)"
    using that unfolding handleType3_existing_def Let_def sf
    by (auto split: if_splits bind_splits simp: may_become_def intro!: touches_set)
  have "touches src ?sf n ?r s"
    using run False op ex by (auto simp: handleType3_def t mem_simps Let_def sf split: if_splits)
  then show ?thesis by (simp add: touches_jitter [OF t] n)
qed

lemmas handleType1_local = touches_local [OF handleType1_touches]
  and handleType2_local = touches_local [OF handleType2_touches]
  and handleType3_local = touches_local [OF handleType3_touches]

lemmas handleType1_source = touches_source [OF handleType1_touches]
  and handleType2_source = touches_source [OF handleType2_touches]
  and handleType3_source = touches_source [OF handleType3_touches]

section \<open>Opening the bucket\<close>

lemma openBucket_writes:
  assumes "r_alloc r 0" "0 < tot" "off + length payload \<le> tot"
  obtains f m s where "openBucket idx b tot off payload r = Some (OK, s)" "r_mpBuckets s idx = b\<lparr>b_mpFrame := Some f\<rparr>"
    "sf_mpData f = Some m" "sf_mSize f = tot" "mem_write (replicate tot None) off (map Some payload) = Some m"
proof -
  let ?f = "(newSuperFrame tot True)\<lparr>sf_mSize := tot\<rparr>"
  have f: "sf_mpData ?f = Some (replicate tot None)" using assms(2) by (simp add: newSuperFrame_def)
  from assms(3) obtain m where m: "mem_write (replicate tot None) off (map Some payload) = Some m"
    by (auto simp: mem_write_def)
  let ?u = "count_received (r\<lparr>r_mBucketMap := om_update (b_mDeliveryOrder b) idx (r_mBucketMap r)\<rparr>)"
  let ?s = "set_bucket idx (b\<lparr>b_mpFrame := Some (?f\<lparr>sf_mpData := Some m\<rparr>)\<rparr>) (?u\<lparr>r_alloc := \<lambda>k. r_alloc r (Suc k)\<rparr>)"
  have "openBucket idx b tot off payload r = Some (OK, ?s)"
    using assms f m by (simp add: openBucket_def allocSuperFrame_def sf_write_def count_received_def Let_def newSuperFrame_def)
  moreover have "r_mpBuckets ?s idx = b\<lparr>b_mpFrame := Some (?f\<lparr>sf_mpData := Some m\<rparr>)\<rparr>" by (simp add: set_bucket_def)
  ultimately show ?thesis using m by (intro that) (assumption, assumption, simp_all)
qed

lemma holds_nothing: "holds_pieces a {} m"
  by (simp add: holds_pieces_def)

lemma collecting_arrival:
  assumes "r_nowUs r = (t, u)"
  shows "collecting a src S (updateJitter t u) = collecting a src S r"
    "bucketIndex sf (updateJitter t u) = bucketIndex sf r"
proof -
  have 1: "recv_inv (updateJitter t u) = recv_inv r" using recv_inv_nowUs [OF assms] by simp
  have 2: "r_mpBuckets (updateJitter t u) = r_mpBuckets r" "r_BUFFER_SIZE (updateJitter t u) = r_BUFFER_SIZE r"
    "fst (recalculateSuperFrameNo n (updateJitter t u)) = fst (recalculateSuperFrameNo n r)"
    "r_alloc (updateJitter t u) = r_alloc r" for n
    using assms by (auto simp: r_nowUs_def nowUs_def updateJitter_def Let_def recalculateSuperFrameNo_def)
  show "bucketIndex sf (updateJitter t u) = bucketIndex sf r" using 2 by (simp add: bucketIndex_def)
  with 1 2 show "collecting a src S (updateJitter t u) = collecting a src S r"
    by (simp add: collecting_def can_open_def bucketIndex_def Let_def)
qed

lemma can_open_recalculate:
  assumes "can_open (fa_aSuperFrameNo a) r" "recalculateSuperFrameNo (fa_aSuperFrameNo a) r = (n, v)"
  shows "n \<noteq> b_mDeliveryOrder (r_mpBuckets r (bucketIndex (fa_aSuperFrameNo a) r))" "r_alloc v 0" "r_mpBuckets v = r_mpBuckets r"
    "\<not> b_mActive (r_mpBuckets r (bucketIndex (fa_aSuperFrameNo a) r))" "r_BUFFER_SIZE v = r_BUFFER_SIZE r"
  using assms by (auto simp: can_open_def recalculateSuperFrameNo_def Let_def split: if_splits)

lemma collectingI:
  assumes "recv_inv s" "local_to sf r s" "assembling a src S (r_mpBuckets s (bucketIndex (fa_aSuperFrameNo a) r))"
  shows "collecting a src S s"
proof -
  have "S \<noteq> {}" using assms(3) by (simp add: assembling_def)
  moreover have "bucketIndex (fa_aSuperFrameNo a) s = bucketIndex (fa_aSuperFrameNo a) r"
    using assms(2) by (simp add: local_to_def same_world_def bucketIndex_def)
  ultimately show ?thesis using assms by (simp add: collecting_def)
qed

section \<open>Type1 fragments\<close>

lemma unat_u16 [simp]: "n < 65536 \<Longrightarrow> unat (word_of_nat n :: u16) = n"
  by (simp add: unat_of_nat take_bit_eq_mod)

lemma assembling_of:
  assumes "asm_ok a" 
  shows "i < fa_aNumType1Fragments a \<Longrightarrow> i < unat (fa_aOfFragmentNo a) \<or> i = 0"
    "i < fa_aNumType1Fragments a \<Longrightarrow> i < unat (fa_aOfFragmentNo a)"
    "fa_aNeedsType3 a \<Longrightarrow> Suc (fa_aNumType1Fragments a) = unat (fa_aOfFragmentNo a)"
    "unat (fa_aOfFragmentNo a) < 8192"
    "\<not> fa_aNeedsType3 a \<Longrightarrow> fa_aNumType1Fragments a = unat (fa_aOfFragmentNo a)"
  using assms by (auto simp: asm_ok_def)

lemma collect_type1_open:
  assumes ok: "asm_ok a" and inv: "recv_inv r" and op: "can_open (fa_aSuperFrameNo a) r" and i: "i < fa_aNumType1Fragments a"
  shows "\<exists>s. handleType1_open t (type1_header a i) (type1_piece_at a i) src r = Some (OK, s) \<and>
    assembling a src {i} (r_mpBuckets s (bucketIndex (fa_aSuperFrameNo a) r))"
proof -
  let ?of = "unat (fa_aOfFragmentNo a)" and ?t = "fa_aType1PayloadSize a" and ?idx = "bucketIndex (fa_aSuperFrameNo a) r"
  obtain n v where v: "recalculateSuperFrameNo (fa_aSuperFrameNo a) r = (n, v)" by (cases "recalculateSuperFrameNo (fa_aSuperFrameNo a) r")
  note o = can_open_recalculate [OF op v]
  note len = asm_pieces(1) [OF ok i]
  have lt: "i < ?of" "?of < 8192" "0 < ?t" using assembling_of(2,4) [OF ok] i ok by (auto simp: asm_ok_def)
  have tot: "?t * (?of + 1) \<le> MAX_SUPERFRAME_SIZE" using ok unfolding asm_ok_def by blast
  then have "?t \<le> MAX_SUPERFRAME_SIZE div (?of + 1)" by (simp add: less_eq_div_iff_mult_less_eq del: mult_Suc_right)
  have "?t * (i + 1) \<le> ?t * (?of + 1)" using lt(1) by (intro mult_le_mono2) simp
  then have fit: "?t * i + length (type1_piece_at a i) \<le> ?t * (?of + 1)" using len by simp
  let ?b = "\<lparr>b_mActive = True, b_mPayloadType = st_mPayloadType (r_mStreams v (fa_aStreamId a)),
      b_mPayloadCode = st_mPayloadCode (r_mStreams v (fa_aStreamId a)), b_mSavedFrameNo = fa_aSuperFrameNo a,
      b_mTimeoutUs = timeoutUs t v, b_mFragmentCount = 1, b_mOfFragmentNo = fa_aOfFragmentNo a,
      b_mDeliveryOrder = n, b_mFragmentSize = ?t, b_mType3Size = 0,
      b_mType2Size = 0, b_mPts = - 1, b_mDts = - 1, b_mStreamId = fa_aStreamId a,
      b_mSourceId = src, b_mFlags = fa_aFlags a AND 0xF0, b_mFirstArrivalUs = t,
      b_mLastNackUs = 0, b_mNackCount = 0, b_mReceivedFragments = {i},
      b_mpFrame = b_mpFrame (r_mpBuckets v ?idx)\<rparr>"
  have "0 < ?t * (?of + 1)" using lt(3) by simp
  from openBucket_writes [OF o(2) this fit] obtain f m s where
    s: "openBucket ?idx ?b (?t * (?of + 1)) (?t * i) (type1_piece_at a i) v = Some (OK, s)" "r_mpBuckets s ?idx = ?b\<lparr>b_mpFrame := Some f\<rparr>"
    "sf_mpData f = Some m" "sf_mSize f = ?t * (?of + 1)"
    "mem_write (replicate (?t * (?of + 1)) None) (?t * i) (map Some (type1_piece_at a i)) = Some m" by metis
  have "holds_pieces a {i} m" using holds_type1 [OF ok holds_nothing i s(5)] .
  then have "assembling a src {i} (r_mpBuckets s ?idx)"
    using s lt i assembling_of(3) [OF ok] by (auto simp: assembling_def)
  moreover have "handleType1_open t (type1_header a i) (type1_piece_at a i) src r = Some (OK, s)"
    using s(1) o lt \<open>?t \<le> MAX_SUPERFRAME_SIZE div (?of + 1)\<close> v len
    by (simp add: handleType1_open_def type1_header_def Let_def bit_set_def)
  ultimately show ?thesis by blast
qed

lemma collect_type1_existing:
  assumes ok: "asm_ok a" and b: "assembling a src S (r_mpBuckets r (bucketIndex (fa_aSuperFrameNo a) r))" and i: "i < fa_aNumType1Fragments a"
    and run: "handleType1_existing (type1_header a i) (type1_piece_at a i) src r = Some (res, s)"
  shows "res = (if i \<in> S then DUPLICATE_FRAGMENT else OK) \<and>
    assembling a src (insert i S) (r_mpBuckets s (bucketIndex (fa_aSuperFrameNo a) r))"
proof -
  define idx where "idx = bucketIndex (fa_aSuperFrameNo a) r"
  define b where "b = r_mpBuckets r idx"
  let ?of = "unat (fa_aOfFragmentNo a)" and ?t = "fa_aType1PayloadSize a"
  have B: "assembling a src S b" using b by (simp add: b_def idx_def)
  then obtain f m where f: "b_mpFrame b = Some f" "sf_mpData f = Some m" "holds_pieces a S m"
    "?of \<in> S \<and> (fa_aNeedsType3 a \<longrightarrow> fa_aNumType1Fragments a \<in> S) \<longrightarrow> sf_mSize f = length (fa_apData a)" by (rule assemblingE)
  note len = asm_pieces(1) [OF ok i]
  have lt: "i < ?of" "?of < 8192" using assembling_of(2,4) [OF ok] i by auto
  have le: "\<not> fa_aOfFragmentNo a < word_of_nat i" using lt by (simp add: word_less_nat_alt)
  have h: "t1_mSuperFrameNo (type1_header a i) = fa_aSuperFrameNo a" "t1_mStreamId (type1_header a i) = fa_aStreamId a"
    "t1_mOfFragmentNo (type1_header a i) = fa_aOfFragmentNo a" "t1_mFragmentNo (type1_header a i) = word_of_nat i"
    by (simp_all add: type1_header_def)
  have bs: "b_mSavedFrameNo b = fa_aSuperFrameNo a" "b_mStreamId b = fa_aStreamId a" "b_mSourceId b = src"
    "b_mOfFragmentNo b = fa_aOfFragmentNo a" "b_mFragmentSize b = ?t" "b_mReceivedFragments b = S" using B by (simp_all add: assembling_def)
  show ?thesis
  proof (cases "i \<in> S")
    case True
    then show ?thesis using run B lt le unfolding handleType1_existing_def Let_def h idx_def [symmetric] b_def [symmetric]
      by (simp add: bs bit_get_def count_duplicate_def insert_absorb) (auto simp: b_def)
  next
    case False
    then obtain f' where f': "sf_write f (?t * i) (type1_piece_at a i) = Some f'" "res = OK"
      "r_mpBuckets s idx = b\<lparr>b_mReceivedFragments := insert i S, b_mFragmentCount := b_mFragmentCount b + 1, b_mpFrame := Some f'\<rparr>"
      using run f(1) lt le len unfolding handleType1_existing_def Let_def h idx_def [symmetric] b_def [symmetric]
      by (auto simp: bs bit_get_def bit_set_def count_received_def set_bucket_def split: bind_splits)
    then obtain m' where m': "mem_write m (?t * i) (map Some (type1_piece_at a i)) = Some m'" "f' = f\<lparr>sf_mpData := Some m'\<rparr>"
      using f(2) by (auto simp: sf_write_def split: bind_splits)
    have "holds_pieces a (insert i S) m'" by (rule holds_type1 [OF ok f(3) i m'(1)])
    then show ?thesis using False f'(2,3) B f(4) m'(2) lt i assembling_of(3) [OF ok] unfolding idx_def [symmetric] b_def [symmetric]
      by (auto simp: assembling_def)
  qed
qed

lemma collect_type1:
  assumes ok: "asm_ok a" and c: "collecting a src S r" and i: "i < fa_aNumType1Fragments a"
  shows "\<exists>res s. handleType1 (type1_frame a i) src r = Some (res, s) \<and> res \<in> {OK, DUPLICATE_FRAGMENT} \<and> collecting a src (insert i S) s"
proof -
  let ?d = "type1_frame a i" and ?h = "type1_header a i"
  have inv: "recv_inv r" using c by (simp add: collecting_def)
  obtain res s where run: "handleType1 ?d src r = Some (res, s)" and s: "recv_inv s"
    using handleType1_safe [OF inv, of ?d src] by (auto simp: safe_result_def)
  obtain t u where t: "r_nowUs r = (t, u)" by (cases "r_nowUs r")
  let ?r = "updateJitter t u"
  note A = collecting_arrival [OF t]
  have cr: "collecting a src S ?r" using c by (simp add: A)
  have d: "dec_type1 ?d = ?h" "drop 8 ?d = type1_piece_at a i" "8 \<le> length ?d" "rd16 2 ?d = fa_aSuperFrameNo a"
    using type1.length_enc by (simp_all add: type1_frame_def type1.dec_enc type1_piece_at_def)
      (simp add: enc_type1_def type1_header_def wire_simps)
  have lt: "i < unat (fa_aOfFragmentNo a)" "unat (fa_aOfFragmentNo a) < 8192" using assembling_of(2,4) [OF ok] i by auto
  then have g: "\<not> 8192 \<le> (word_of_nat i :: u16)" "\<not> 8192 \<le> fa_aOfFragmentNo a" "\<not> fa_aOfFragmentNo a < word_of_nat i"
    by (simp_all add: word_le_nat_alt word_less_nat_alt)
  have body: "handleType1 ?d src r = (if \<not> b_mActive (r_mpBuckets ?r (bucketIndex (fa_aSuperFrameNo a) ?r))
      then handleType1_open t ?h (type1_piece_at a i) src ?r else handleType1_existing ?h (type1_piece_at a i) src ?r)"
    using d(3) g by (simp add: handleType1_def t Let_def mem_simps d(1,2)) (simp add: type1_header_def)
  have "res \<in> {OK, DUPLICATE_FRAGMENT} \<and> assembling a src (insert i S) (r_mpBuckets s (bucketIndex (fa_aSuperFrameNo a) ?r))"
  proof (cases "S = {}")
    case True
    with cr have op: "can_open (fa_aSuperFrameNo a) ?r" and inv: "recv_inv ?r" by (simp_all add: collecting_def)
    from collect_type1_open [OF ok inv op i] obtain v where
      v: "handleType1_open t ?h (type1_piece_at a i) src ?r = Some (OK, v)" "assembling a src {i} (r_mpBuckets v (bucketIndex (fa_aSuperFrameNo a) ?r))" by blast
    have "\<not> b_mActive (r_mpBuckets ?r (bucketIndex (fa_aSuperFrameNo a) ?r))" using op by (simp add: can_open_def Let_def)
    with v(1) run body have "v = s" "res = OK" by simp_all
    with v(2) True show ?thesis by simp
  next
    case False
    with cr have b: "assembling a src S (r_mpBuckets ?r (bucketIndex (fa_aSuperFrameNo a) ?r))" by (simp add: collecting_def)
    then have "b_mActive (r_mpBuckets ?r (bucketIndex (fa_aSuperFrameNo a) ?r))" by (simp add: assembling_def)
    with run body have "handleType1_existing ?h (type1_piece_at a i) src ?r = Some (res, s)" by simp
    from collect_type1_existing [OF ok b i this] show ?thesis by auto
  qed
  moreover have "local_to (fa_aSuperFrameNo a) r s" using handleType1_local [OF run] by (simp add: d(4))
  ultimately show ?thesis using run collectingI [OF s, of "fa_aSuperFrameNo a" r] by (simp add: A(2))
qed


section \<open>Type2 fragments\<close>

lemma type2_dts_header: "type2_dts (type2_header a) = received_dts a"
  by (simp add: type2_dts_def received_dts_def type2_header_def)

lemma type2_fields:
  assumes "asm_ok a"
  shows "t2_mSuperFrameNo (type2_header a) = fa_aSuperFrameNo a" "t2_mStreamId (type2_header a) = fa_aStreamId a"
    "t2_mOfFragmentNo (type2_header a) = fa_aOfFragmentNo a" "unat (t2_mSizeOfData (type2_header a)) = fa_aType2DataSize a"
    "unat (t2_mType1PacketSize (type2_header a)) = fa_aType1PayloadSize a" "t2_mPts (type2_header a) = fa_aPts a"
    "t2_mDtsPtsDiff (type2_header a) = fa_aDtsPtsDiff a" "t2_mPayloadType (type2_header a) = fa_aPayloadType a"
    "t2_mPayloadCode (type2_header a) = fa_aPayloadCode a" "getFlags (t2_mFrameType (type2_header a)) = fa_aFlags a AND 0xF0"
  using assms by (simp_all add: type2_header_def asm_ok_def)

lemma type2_pos_up:
  assumes "asm_ok a" "\<not> (fa_aNeedsType3 a \<and> fa_aNumType1Fragments a \<in> S)"
  shows "type2_pos a S = fa_aType1PayloadSize a * unat (fa_aOfFragmentNo a)"
  using assms by (auto simp: type2_pos_def type2_offset_def type3_size_def assembling_of(5) mult.commute)

lemma asm_length: "asm_ok a \<Longrightarrow> type2_offset a + fa_aType2DataSize a = length (fa_apData a)"
  by (simp add: asm_ok_def)

lemma collect_type2_open:
  assumes ok: "asm_ok a" and inv: "recv_inv r" and op: "can_open (fa_aSuperFrameNo a) r"
  shows "\<exists>s. handleType2_open t (type2_header a) (type2_piece a) src r = Some (OK, s) \<and>
    assembling a src {unat (fa_aOfFragmentNo a)} (r_mpBuckets s (bucketIndex (fa_aSuperFrameNo a) r))"
proof -
  let ?of = "unat (fa_aOfFragmentNo a)" and ?t = "fa_aType1PayloadSize a" and ?t2 = "fa_aType2DataSize a"
  let ?idx = "bucketIndex (fa_aSuperFrameNo a) r" and ?h = "type2_header a"
  obtain n v where v: "recalculateSuperFrameNo (fa_aSuperFrameNo a) r = (n, v)" by (cases "recalculateSuperFrameNo (fa_aSuperFrameNo a) r")
  note o = can_open_recalculate [OF op v] and F = type2_fields [OF ok]
  note len = asm_pieces(3) [OF ok]
  have lt: "?of < 8192" "0 < ?t2" using ok by (simp_all add: asm_ok_def)
  have fit: "?t * ?of + length (type2_piece a) \<le> ?t * ?of + ?t2" "0 < ?t * ?of + ?t2" using len lt by simp_all
  let ?b = "\<lparr>b_mActive = True, b_mPayloadType = fa_aPayloadType a,
      b_mPayloadCode = fa_aPayloadCode a, b_mSavedFrameNo = fa_aSuperFrameNo a,
      b_mTimeoutUs = timeoutUs t v, b_mFragmentCount = 1, b_mOfFragmentNo = fa_aOfFragmentNo a,
      b_mDeliveryOrder = n, b_mFragmentSize = ?t, b_mType3Size = 0,
      b_mType2Size = ?t2, b_mPts = fa_aPts a, b_mDts = received_dts a, b_mStreamId = fa_aStreamId a,
      b_mSourceId = src, b_mFlags = fa_aFlags a AND 0xF0, b_mFirstArrivalUs = t,
      b_mLastNackUs = 0, b_mNackCount = 0, b_mReceivedFragments = {?of},
      b_mpFrame = b_mpFrame (r_mpBuckets v ?idx)\<rparr>"
  have al: "r_alloc (cache_stream ?h v) 0" using o(2) by (simp add: cache_stream_def)
  from openBucket_writes [OF al fit(2,1)] obtain f m s where
    s: "openBucket ?idx ?b (?t * ?of + ?t2) (?t * ?of) (type2_piece a) (cache_stream ?h v) = Some (OK, s)"
    "r_mpBuckets s ?idx = ?b\<lparr>b_mpFrame := Some f\<rparr>" "sf_mpData f = Some m" "sf_mSize f = ?t * ?of + ?t2"
    "mem_write (replicate (?t * ?of + ?t2) None) (?t * ?of) (map Some (type2_piece a)) = Some m" by metis
  have pos: "type2_pos a {} = ?t * ?of" by (rule type2_pos_up [OF ok]) simp
  have "holds_pieces a {?of} m"
    using holds_type2 [OF ok holds_nothing, of _ m] s(5) by (simp add: pos)
  moreover have "\<not> fa_aNeedsType3 a \<Longrightarrow> ?t * ?of + ?t2 = length (fa_apData a)"
    using asm_length [OF ok] assembling_of(5) [OF ok] by (simp add: type2_offset_def type3_size_def mult.commute)
  ultimately have "assembling a src {?of} (r_mpBuckets s ?idx)"
    using s(2-4) lt assembling_of(3) [OF ok] by (auto simp: assembling_def)
  moreover have "handleType2_open t ?h (type2_piece a) src r = Some (OK, s)"
    using s(1) o lt v by (simp add: handleType2_open_def F Let_def bit_set_def type2_dts_header)
  ultimately show ?thesis by blast
qed

lemma collect_type2_existing:
  assumes ok: "asm_ok a" and b: "assembling a src S (r_mpBuckets r (bucketIndex (fa_aSuperFrameNo a) r))"
    and run: "handleType2_existing (type2_header a) (type2_piece a) src r = Some (res, s)"
  shows "res = (if unat (fa_aOfFragmentNo a) \<in> S then DUPLICATE_FRAGMENT else OK) \<and>
    assembling a src (insert (unat (fa_aOfFragmentNo a)) S) (r_mpBuckets s (bucketIndex (fa_aSuperFrameNo a) r))"
proof -
  define idx where "idx = bucketIndex (fa_aSuperFrameNo a) r"
  define b where "b = r_mpBuckets r idx"
  let ?of = "unat (fa_aOfFragmentNo a)" and ?t = "fa_aType1PayloadSize a" and ?t2 = "fa_aType2DataSize a" and ?N = "fa_aNumType1Fragments a"
  have B: "assembling a src S b" using b by (simp add: b_def idx_def)
  then obtain f m where f: "b_mpFrame b = Some f" "sf_mpData f = Some m" "holds_pieces a S m"
    "?of \<in> S \<and> (fa_aNeedsType3 a \<longrightarrow> ?N \<in> S) \<longrightarrow> sf_mSize f = length (fa_apData a)" by (rule assemblingE)
  note F = type2_fields [OF ok] and len = asm_pieces(3) [OF ok]
  have lt: "?of < 8192" using ok by (simp add: asm_ok_def)
  have bs: "b_mSavedFrameNo b = fa_aSuperFrameNo a" "b_mStreamId b = fa_aStreamId a" "b_mSourceId b = src"
    "b_mOfFragmentNo b = fa_aOfFragmentNo a" "b_mFragmentSize b = ?t" "b_mReceivedFragments b = S"
    "b_mType3Size b = (if fa_aNeedsType3 a \<and> ?N \<in> S then fa_aType3DataSize a else 0)" using B by (simp_all add: assembling_def)
  show ?thesis
  proof (cases "?of \<in> S")
    case True
    then show ?thesis using run B lt unfolding handleType2_existing_def Let_def F idx_def [symmetric] b_def [symmetric]
      by (simp add: bs bit_get_def count_duplicate_def insert_absorb) (auto simp: b_def)
  next
    case False
    have "S \<noteq> {}" "S \<subseteq> {..?of}" using B by (simp_all add: assembling_def)
    with False have of0: "0 < ?of" by (metis atMost_0 empty_iff gr0I singletonD subset_singletonD insertI1)
    then have t2: "?t2 \<le> ?t" using ok by (simp add: asm_ok_def)
    have act: "(fa_aNeedsType3 a \<longrightarrow> ?N \<in> S) \<Longrightarrow> type2_pos a S + ?t2 = length (fa_apData a)"
      using asm_length [OF ok] by (auto simp: type2_pos_def)
    have pl: "type2_placement b (type2_header a) = (type2_pos a S, type2_pos a S + ?t2)"
    proof (cases "fa_aNeedsType3 a \<and> ?N \<in> S")
      case True
      moreover have "?t * size_sub ?of (Suc 0) = ?N * ?t" using assembling_of(3) [OF ok] True of0 by (metis One_nat_def Suc_leI diff_Suc_1 mult.commute size_sub_le)
      moreover have "0 < fa_aType3DataSize a" using True ok by (simp add: asm_ok_def)
      ultimately show ?thesis by (simp add: type2_placement_def bs F type2_pos_def type2_offset_def type3_size_def Let_def)
    next
      case False
      then show ?thesis by (auto simp: type2_placement_def bs F type2_pos_up [OF ok False])
    qed
    have le: "type2_pos a S \<le> ?t * ?of"
      using ok by (auto simp: type2_pos_def type2_offset_def type3_size_def asm_ok_def mult.commute algebra_simps)
    then have room: "\<not> ?t * (?of + 1) < type2_pos a S + ?t2" using t2 by simp
    obtain f' where f': "sf_write (f\<lparr>sf_mSize := type2_pos a S + ?t2\<rparr>) (type2_pos a S) (type2_piece a) = Some f'" "res = OK"
      "r_mpBuckets s idx = b\<lparr>b_mReceivedFragments := insert ?of S, b_mFragmentCount := b_mFragmentCount b + 1, b_mPts := fa_aPts a,
         b_mPayloadType := fa_aPayloadType a, b_mPayloadCode := fa_aPayloadCode a, b_mFlags := fa_aFlags a AND 0xF0,
         b_mType2Size := ?t2, b_mDts := received_dts a, b_mpFrame := Some f'\<rparr>"
      using run f(1) lt False room unfolding handleType2_existing_def Let_def F idx_def [symmetric] b_def [symmetric] pl bs
      by (auto simp: bit_get_def bit_set_def count_received_def cache_stream_def set_bucket_def type2_dts_header split: bind_splits)
    then obtain m' where m': "mem_write m (type2_pos a S) (map Some (type2_piece a)) = Some m'" "sf_mpData f' = Some m'" "sf_mSize f' = type2_pos a S + ?t2"
      using f(2) by (auto simp: sf_write_def split: bind_splits)
    have "holds_pieces a (insert ?of S) m'" by (rule holds_type2 [OF ok f(3) False m'(1)])
    then show ?thesis using False f'(2,3) B f(4) m'(2,3) act assembling_of(3) [OF ok] unfolding idx_def [symmetric] b_def [symmetric]
      by (auto simp: assembling_def)
  qed
qed

lemma collect_type2:
  assumes ok: "asm_ok a" and c: "collecting a src S r"
  shows "\<exists>res s. handleType2 (type2_frame a) src r = Some (res, s) \<and> res \<in> {OK, DUPLICATE_FRAGMENT} \<and>
    collecting a src (insert (unat (fa_aOfFragmentNo a)) S) s"
proof -
  let ?d = "type2_frame a" and ?h = "type2_header a" and ?of = "unat (fa_aOfFragmentNo a)"
  have inv: "recv_inv r" using c by (simp add: collecting_def)
  obtain res s where run: "handleType2 ?d src r = Some (res, s)" and s: "recv_inv s"
    using handleType2_safe [OF inv, of ?d src] by (auto simp: safe_result_def)
  obtain t u where t: "r_nowUs r = (t, u)" by (cases "r_nowUs r")
  let ?r = "updateJitter t u"
  note A = collecting_arrival [OF t] and F = type2_fields [OF ok]
  have cr: "collecting a src S ?r" using c by (simp add: A)
  have d: "dec_type2 ?d = ?h" "drop 27 ?d = type2_piece a" "27 \<le> length ?d" "rd16 5 ?d = fa_aSuperFrameNo a"
    "length ?d = 27 + fa_aType2DataSize a"
    using type2.length_enc asm_pieces(3) [OF ok] by (simp_all add: type2_frame_def type2.dec_enc type2_piece_def)
      (simp add: enc_type2_def type2_header_def wire_simps)
  have "?of < 8192" using ok by (simp add: asm_ok_def)
  then have g: "\<not> 8192 \<le> fa_aOfFragmentNo a" by (simp add: word_le_nat_alt)
  have z: "\<not> (0 < fa_aOfFragmentNo a \<and> t2_mType1PacketSize ?h = 0)"
  proof
    assume "0 < fa_aOfFragmentNo a \<and> t2_mType1PacketSize ?h = 0"
    then have "0 < ?of" "fa_aType1PayloadSize a = 0" using F(5) by (simp_all add: word_gt_0 unat_gt_0)
    then show False using ok by (simp add: asm_ok_def)
  qed
  have dt: "\<not> (fa_aDtsPtsDiff a \<noteq> - 1 \<and> fa_aPts a < ucast (fa_aDtsPtsDiff a))" using ok by (auto simp: asm_ok_def not_less)
  have tot: "fa_aType1PayloadSize a * ?of + fa_aType2DataSize a \<le> 100 * 1024 * 1024"
  proof (cases "?of = 0")
    case True
    then show ?thesis using ok by (simp add: asm_ok_def)
  next
    case False
    then have "fa_aType2DataSize a \<le> fa_aType1PayloadSize a" "fa_aType1PayloadSize a * (?of + 1) \<le> MAX_SUPERFRAME_SIZE"
      using ok unfolding asm_ok_def by (blast, blast)
    then show ?thesis by (simp add: MAX_SUPERFRAME_SIZE_def)
  qed
  have body: "handleType2 ?d src r = (if \<not> b_mActive (r_mpBuckets ?r (bucketIndex (fa_aSuperFrameNo a) ?r))
      then handleType2_open t ?h (type2_piece a) src ?r else handleType2_existing ?h (type2_piece a) src ?r)"
    using d(3,5) g tot by (simp add: handleType2_def t Let_def mem_simps d(1,2) F if_not_P [OF z] if_not_P [OF dt])
  have "res \<in> {OK, DUPLICATE_FRAGMENT} \<and> assembling a src (insert ?of S) (r_mpBuckets s (bucketIndex (fa_aSuperFrameNo a) ?r))"
  proof (cases "S = {}")
    case True
    with cr have op: "can_open (fa_aSuperFrameNo a) ?r" and inv: "recv_inv ?r" by (simp_all add: collecting_def)
    from collect_type2_open [OF ok inv op] obtain v where
      v: "handleType2_open t ?h (type2_piece a) src ?r = Some (OK, v)" "assembling a src {?of} (r_mpBuckets v (bucketIndex (fa_aSuperFrameNo a) ?r))" by blast
    have "\<not> b_mActive (r_mpBuckets ?r (bucketIndex (fa_aSuperFrameNo a) ?r))" using op by (simp add: can_open_def Let_def)
    with v(1) run body have "v = s" "res = OK" by simp_all
    with v(2) True show ?thesis by simp
  next
    case False
    with cr have b: "assembling a src S (r_mpBuckets ?r (bucketIndex (fa_aSuperFrameNo a) ?r))" by (simp add: collecting_def)
    then have "b_mActive (r_mpBuckets ?r (bucketIndex (fa_aSuperFrameNo a) ?r))" by (simp add: assembling_def)
    with run body have "handleType2_existing ?h (type2_piece a) src ?r = Some (res, s)" by simp
    from collect_type2_existing [OF ok b this] show ?thesis by auto
  qed
  moreover have "local_to (fa_aSuperFrameNo a) r s" using handleType2_local [OF run] by (simp add: d(4))
  ultimately show ?thesis using run collectingI [OF s, of "fa_aSuperFrameNo a" r] by (simp add: A(2))
qed

section \<open>Type3 fragments\<close>

lemma type3_fields:
  assumes "asm_ok a" "fa_aNeedsType3 a"
  shows "t3_mSuperFrameNo (type3_header a) = fa_aSuperFrameNo a" "t3_mStreamId (type3_header a) = fa_aStreamId a"
    "t3_mOfFragmentNo (type3_header a) = fa_aOfFragmentNo a"
    "unat (t3_mType1PacketSize (type3_header a)) = fa_aType1PayloadSize a"
    "getFlags (t3_mFrameType (type3_header a)) = fa_aFlags a AND 0xF0"
    "unat (fa_aOfFragmentNo a - 1) = fa_aNumType1Fragments a" "unat (fa_aOfFragmentNo a) - 1 = fa_aNumType1Fragments a"
proof -
  have "fa_aOfFragmentNo a \<noteq> 0" using assembling_of(3) [OF assms] by (metis nat.distinct(1) unat_0)
  then show "unat (fa_aOfFragmentNo a - 1) = fa_aNumType1Fragments a"
    using assembling_of(3) [OF assms] by (simp add: unat_minus_one)
  show "unat (fa_aOfFragmentNo a) - 1 = fa_aNumType1Fragments a" using assembling_of(3) [OF assms] by simp
qed (use assms in \<open>simp_all add: type3_header_def asm_ok_def\<close>)

lemma asm_type3:
  assumes "asm_ok a" "fa_aNeedsType3 a"
  shows "0 < fa_aType3DataSize a" "fa_aType3DataSize a \<le> fa_aType1PayloadSize a" "unat (fa_aOfFragmentNo a) < 8192"
    "fa_aType1PayloadSize a * (unat (fa_aOfFragmentNo a) + 1) \<le> MAX_SUPERFRAME_SIZE" "0 < unat (fa_aOfFragmentNo a)"
    "0 < fa_aType2DataSize a"
proof -
  show "fa_aType1PayloadSize a * (unat (fa_aOfFragmentNo a) + 1) \<le> MAX_SUPERFRAME_SIZE" using assms(1) unfolding asm_ok_def by blast
qed (use assms in \<open>simp_all add: asm_ok_def\<close>)

lemma collect_type3_open:
  assumes ok: "asm_ok a" and inv: "recv_inv r" and op: "can_open (fa_aSuperFrameNo a) r" and three: "fa_aNeedsType3 a"
  shows "\<exists>s. handleType3_open t (type3_header a) (fa_aOfFragmentNo a - 1) (type3_piece a) src r = Some (OK, s) \<and>
    assembling a src {fa_aNumType1Fragments a} (r_mpBuckets s (bucketIndex (fa_aSuperFrameNo a) r))"
proof -
  let ?of = "unat (fa_aOfFragmentNo a)" and ?t = "fa_aType1PayloadSize a" and ?N = "fa_aNumType1Fragments a"
  let ?idx = "bucketIndex (fa_aSuperFrameNo a) r" and ?h = "type3_header a"
  obtain n v where v: "recalculateSuperFrameNo (fa_aSuperFrameNo a) r = (n, v)" by (cases "recalculateSuperFrameNo (fa_aSuperFrameNo a) r")
  note o = can_open_recalculate [OF op v] and F = type3_fields [OF ok three] and T = asm_type3 [OF ok three]
  note len = asm_pieces(2) [OF ok three]
  have N: "?of = Suc ?N" using assembling_of(3) [OF ok three] by simp
  have fit: "?t * ?N + length (type3_piece a) \<le> ?t * (?of + 1)" "0 < ?t * (?of + 1)" using len N T by simp_all
  let ?b = "\<lparr>b_mActive = True, b_mPayloadType = st_mPayloadType (r_mStreams v (fa_aStreamId a)),
      b_mPayloadCode = st_mPayloadCode (r_mStreams v (fa_aStreamId a)), b_mSavedFrameNo = fa_aSuperFrameNo a,
      b_mTimeoutUs = timeoutUs t v, b_mFragmentCount = 1, b_mOfFragmentNo = fa_aOfFragmentNo a,
      b_mDeliveryOrder = n, b_mFragmentSize = ?t, b_mType3Size = fa_aType3DataSize a,
      b_mType2Size = 0, b_mPts = - 1, b_mDts = - 1, b_mStreamId = fa_aStreamId a,
      b_mSourceId = src, b_mFlags = fa_aFlags a AND 0xF0, b_mFirstArrivalUs = t,
      b_mLastNackUs = 0, b_mNackCount = 0, b_mReceivedFragments = {?N},
      b_mpFrame = b_mpFrame (r_mpBuckets v ?idx)\<rparr>"
  from openBucket_writes [OF o(2) fit(2,1)] obtain f m s where
    s: "openBucket ?idx ?b (?t * (?of + 1)) (?t * ?N) (type3_piece a) v = Some (OK, s)" "r_mpBuckets s ?idx = ?b\<lparr>b_mpFrame := Some f\<rparr>"
    "sf_mpData f = Some m" "sf_mSize f = ?t * (?of + 1)"
    "mem_write (replicate (?t * (?of + 1)) None) (?t * ?N) (map Some (type3_piece a)) = Some m" by metis
  have "holds_pieces a {?N} m" by (rule holds_type3 [OF ok holds_nothing three _ _ s(5)]) simp_all
  then have "assembling a src {?N} (r_mpBuckets s ?idx)" using s N three by (auto simp: assembling_def)
  moreover have "handleType3_open t ?h (fa_aOfFragmentNo a - 1) (type3_piece a) src r = Some (OK, s)"
    using s(1) o T v N len by (simp add: handleType3_open_def F Let_def bit_set_def)
  ultimately show ?thesis by blast
qed

lemma collect_type3_existing:
  assumes ok: "asm_ok a" and b: "assembling a src S (r_mpBuckets r (bucketIndex (fa_aSuperFrameNo a) r))" and three: "fa_aNeedsType3 a"
    and run: "handleType3_existing (type3_header a) (fa_aOfFragmentNo a - 1) (type3_piece a) src r = Some (res, s)"
  shows "res = (if fa_aNumType1Fragments a \<in> S then DUPLICATE_FRAGMENT else OK) \<and>
    assembling a src (insert (fa_aNumType1Fragments a) S) (r_mpBuckets s (bucketIndex (fa_aSuperFrameNo a) r))"
proof -
  define idx where "idx = bucketIndex (fa_aSuperFrameNo a) r"
  define b where "b = r_mpBuckets r idx"
  let ?of = "unat (fa_aOfFragmentNo a)" and ?t = "fa_aType1PayloadSize a" and ?N = "fa_aNumType1Fragments a"
  let ?t3 = "fa_aType3DataSize a" and ?t2 = "fa_aType2DataSize a"
  have B: "assembling a src S b" using b by (simp add: b_def idx_def)
  then obtain f m where f: "b_mpFrame b = Some f" "sf_mpData f = Some m" "holds_pieces a S m"
    "?of \<in> S \<and> (fa_aNeedsType3 a \<longrightarrow> ?N \<in> S) \<longrightarrow> sf_mSize f = length (fa_apData a)" by (rule assemblingE)
  note F = type3_fields [OF ok three] and T = asm_type3 [OF ok three]
  note len = asm_pieces(2) [OF ok three]
  have N: "?of = Suc ?N" using assembling_of(3) [OF ok three] by simp
  have le: "\<not> fa_aOfFragmentNo a < fa_aOfFragmentNo a - 1" using F(6) N by (simp add: word_less_nat_alt)
  have bs: "b_mSavedFrameNo b = fa_aSuperFrameNo a" "b_mStreamId b = fa_aStreamId a" "b_mSourceId b = src"
    "b_mOfFragmentNo b = fa_aOfFragmentNo a" "b_mFragmentSize b = ?t" "b_mReceivedFragments b = S"
    "b_mType2Size b = (if ?of \<in> S then ?t2 else 0)" using B by (simp_all add: assembling_def)
  show ?thesis
  proof (cases "?N \<in> S")
    case True
    then show ?thesis using run B T(3) le N unfolding handleType3_existing_def Let_def F idx_def [symmetric] b_def [symmetric]
      by (simp add: bs bit_get_def count_duplicate_def insert_absorb) (auto simp: b_def)
  next
    case False
    let ?b = "b\<lparr>b_mReceivedFragments := insert ?N S, b_mFragmentCount := b_mFragmentCount b + 1, b_mType3Size := ?t3\<rparr>"
    obtain f1 f2 where f1: "type3_relocate ?b (type3_header a) ?t3 f = Some f1" "sf_write f1 (?t * ?N) (type3_piece a) = Some f2"
      "res = OK" "r_mpBuckets s idx = ?b\<lparr>b_mpFrame := Some f2\<rparr>"
      using run f(1) T N le len False unfolding handleType3_existing_def Let_def F idx_def [symmetric] b_def [symmetric] bs
      by (auto simp: bit_get_def bit_set_def count_received_def set_bucket_def split: bind_splits if_splits)
    have off: "type2_offset a = ?t * ?N + ?t3" using three by (simp add: type2_offset_def type3_size_def mult.commute)
    have ne: "?of \<noteq> ?N" using N by simp
    have sub: "size_sub ?of (Suc 0) = ?N" using N by simp
    obtain m1 where m1: "sf_mpData f1 = Some m1"
      "if ?of \<in> S then mem_move m (type2_offset a) (?of * ?t) ?t2 = Some m1 \<and> sf_mSize f1 = length (fa_apData a) else m1 = m"
      using f1(1) T f(2) ne asm_length [OF ok] by (auto simp: type3_relocate_def F bs sub bit_get_def sf_move_def off mult.commute Let_def split: bind_splits if_splits)
    from f1(2) m1(1) obtain m2 where m2: "mem_write m1 (?t * ?N) (map Some (type3_piece a)) = Some m2" "f2 = f1\<lparr>sf_mpData := Some m2\<rparr>"
      by (auto simp: sf_write_def split: bind_splits)
    have "holds_pieces a (insert ?N S) m2"
      by (rule holds_type3 [OF ok f(3) three False _ m2(1)]) (use m1(2) in \<open>simp split: if_splits\<close>)
    then show ?thesis using False f1(3,4) B m1(2) m2(2) N three unfolding idx_def [symmetric] b_def [symmetric]
      by (auto simp: assembling_def split: if_splits)
  qed
qed

lemma collect_type3:
  assumes ok: "asm_ok a" and c: "collecting a src S r" and three: "fa_aNeedsType3 a"
  shows "\<exists>res s. handleType3 (type3_frame a) src r = Some (res, s) \<and> res \<in> {OK, DUPLICATE_FRAGMENT} \<and>
    collecting a src (insert (fa_aNumType1Fragments a) S) s"
proof -
  let ?d = "type3_frame a" and ?h = "type3_header a" and ?N = "fa_aNumType1Fragments a"
  have inv: "recv_inv r" using c by (simp add: collecting_def)
  obtain res s where run: "handleType3 ?d src r = Some (res, s)" and s: "recv_inv s"
    using handleType3_safe [OF inv, of ?d src] by (auto simp: safe_result_def)
  obtain t u where t: "r_nowUs r = (t, u)" by (cases "r_nowUs r")
  let ?r = "updateJitter t u"
  note A = collecting_arrival [OF t] and F = type3_fields [OF ok three] and T = asm_type3 [OF ok three]
  have cr: "collecting a src S ?r" using c by (simp add: A)
  have d: "dec_type3 ?d = ?h" "drop 8 ?d = type3_piece a" "8 \<le> length ?d" "rd16 2 ?d = fa_aSuperFrameNo a"
    "length ?d - 8 \<le> fa_aType1PayloadSize a"
    using type3.length_enc asm_pieces(2) [OF ok three] T by (simp_all add: type3_frame_def type3.dec_enc type3_piece_def)
      (simp add: enc_type3_def type3_header_def wire_simps)
  have g: "\<not> (8192 \<le> fa_aOfFragmentNo a \<or> fa_aOfFragmentNo a = 0)" using T by (auto simp: word_le_nat_alt)
  have tot: "\<not> 100 * 1024 * 1024 < fa_aType1PayloadSize a * (unat (fa_aOfFragmentNo a) + 1)"
    using T(4) by (simp add: MAX_SUPERFRAME_SIZE_def)
  have body: "handleType3 ?d src r = (if \<not> b_mActive (r_mpBuckets ?r (bucketIndex (fa_aSuperFrameNo a) ?r))
      then handleType3_open t ?h (fa_aOfFragmentNo a - 1) (type3_piece a) src ?r
      else handleType3_existing ?h (fa_aOfFragmentNo a - 1) (type3_piece a) src ?r)"
    using d(3,5) g tot unfolding handleType3_def t Let_def by (simp add: mem_simps d(1,2) F(1-4) t)
  have "res \<in> {OK, DUPLICATE_FRAGMENT} \<and> assembling a src (insert ?N S) (r_mpBuckets s (bucketIndex (fa_aSuperFrameNo a) ?r))"
  proof (cases "S = {}")
    case True
    with cr have op: "can_open (fa_aSuperFrameNo a) ?r" and inv: "recv_inv ?r" by (simp_all add: collecting_def)
    from collect_type3_open [OF ok inv op three] obtain v where
      v: "handleType3_open t ?h (fa_aOfFragmentNo a - 1) (type3_piece a) src ?r = Some (OK, v)"
      "assembling a src {?N} (r_mpBuckets v (bucketIndex (fa_aSuperFrameNo a) ?r))" by blast
    have "\<not> b_mActive (r_mpBuckets ?r (bucketIndex (fa_aSuperFrameNo a) ?r))" using op by (simp add: can_open_def Let_def)
    with v(1) run body have "v = s" "res = OK" by simp_all
    with v(2) True show ?thesis by simp
  next
    case False
    with cr have b: "assembling a src S (r_mpBuckets ?r (bucketIndex (fa_aSuperFrameNo a) ?r))" by (simp add: collecting_def)
    then have "b_mActive (r_mpBuckets ?r (bucketIndex (fa_aSuperFrameNo a) ?r))" by (simp add: assembling_def)
    with run body have "handleType3_existing ?h (fa_aOfFragmentNo a - 1) (type3_piece a) src ?r = Some (res, s)" by simp
    from collect_type3_existing [OF ok b three this] show ?thesis by auto
  qed
  moreover have "local_to (fa_aSuperFrameNo a) r s" using handleType3_local [OF run] by (simp add: d(4))
  ultimately show ?thesis using run collectingI [OF s, of "fa_aSuperFrameNo a" r] by (simp add: A(2))
qed

end
