(* ===== verification/Efp_Arrivals.thy ===== *)
theory Efp_Arrivals
  imports Efp_Reassembly
begin

text \<open>
  Sequences of arriving packets: every fragment of a payload, alone or in a bundle, in any order and
  with duplicates, between arbitrary packets of other superframes.
\<close>

section \<open>One packet of the payload\<close>

lemma fragment_type:
  assumes "asm_ok a"
  shows "i < fa_aNumType1Fragments a \<Longrightarrow> getFrameType (hd (fragment a i)) = TYPE1"
    "\<not> i < fa_aNumType1Fragments a \<Longrightarrow> getFrameType (hd (fragment a i)) \<noteq> TYPE1"
    "getFrameType (hd (fragment a i)) \<in> {TYPE1, TYPE2, TYPE3}" "fragment a i \<noteq> []"
  by (auto simp: fragment_def type1_frame_def type2_frame_def type3_frame_def enc_defs type1_header_def type2_header_def type3_header_def)

text \<open>The handlers a fragment can reach all behave alike: it is collected, whichever type it has.\<close>

lemma collect_fragment:
  assumes ok: "asm_ok a" and c: "collecting a src S r" and i: "i \<le> unat (fa_aOfFragmentNo a)"
  shows "\<exists>res s. dispatch (fragment a i) src r = Some (res, s) \<and> res \<in> {OK, DUPLICATE_FRAGMENT} \<and> collecting a src (insert i S) s"
proof -
  let ?N = "fa_aNumType1Fragments a"
  consider (one) "i < ?N" | (three) "fa_aNeedsType3 a" "i = ?N"
    | (two) "i = unat (fa_aOfFragmentNo a)" "\<not> i < ?N" "\<not> (fa_aNeedsType3 a \<and> i = ?N)"
    using i assembling_of(3,5) [OF ok] by fastforce
  then show ?thesis
  proof cases
    case one
    then have "fragment a i = type1_frame a i" by (simp add: fragment_def)
    with collect_type1 [OF ok c one] fragment_type(1) [OF ok one] show ?thesis by (simp add: dispatch_def)
  next
    case three
    then have "fragment a i = type3_frame a" by (simp add: fragment_def)
    moreover have "getFrameType (hd (type3_frame a)) = TYPE3" by (simp add: type3_frame_def enc_defs type3_header_def)
    ultimately show ?thesis using collect_type3 [OF ok c three(1)] three(2) by (simp add: dispatch_def)
  next
    case two
    then have "fragment a i = type2_frame a" by (auto simp: fragment_def)
    moreover have "getFrameType (hd (type2_frame a)) = TYPE2" by (simp add: type2_frame_def enc_defs type2_header_def)
    ultimately show ?thesis using collect_type2 [OF ok c] two(1) by (simp add: dispatch_def)
  qed
qed

section \<open>One bundle of the payload\<close>

text \<open>The fragment numbers of the payload in a packet.\<close>

definition numbers :: "FragArgs \<Rightarrow> bytes \<Rightarrow> nat set" where
  "numbers a p = {i \<in> {..unat (fa_aOfFragmentNo a)}. fragment a i \<in> set (unpack p)}"

definition own_packet :: "FragArgs \<Rightarrow> bytes \<Rightarrow> bool" where
  "own_packet a p \<longleftrightarrow> whole p \<and> set (unpack p) \<subseteq> fragment a ` {..unat (fa_aOfFragmentNo a)}"

lemma fragment_inject:
  assumes ok: "asm_ok a" and "i \<le> unat (fa_aOfFragmentNo a)" "j \<le> unat (fa_aOfFragmentNo a)" "fragment a i = fragment a j"
  shows "i = j"
proof (cases "i < fa_aNumType1Fragments a")
  case True
  then have j: "j < fa_aNumType1Fragments a" using fragment_type(1,2) [OF ok] assms(4) by metis
  then have "type1_frame a i = type1_frame a j" using assms(4) True by (simp add: fragment_def)
  then have "type1_header a i = type1_header a j" unfolding type1_frame_def by (simp add: type1.enc_append_inject)
  then have "(word_of_nat i :: u16) = word_of_nat j" by (simp add: type1_header_def)
  moreover have "i < 65536" "j < 65536" using assms(2,3) assembling_of(4) [OF ok] by simp_all
  ultimately show ?thesis by (metis unat_u16)
next
  case False
  then have "\<not> j < fa_aNumType1Fragments a" using fragment_type(1,2) [OF ok] assms(4) by metis
  moreover have "type2_frame a \<noteq> type3_frame a"
    by (rule notI, drule arg_cong [of _ _ "\<lambda>p. getFrameType (hd p)"])
      (simp add: type2_frame_def type3_frame_def enc_defs type2_header_def type3_header_def)
  ultimately show ?thesis using assms(2-4) False assembling_of(3,5) [OF ok]
    by (cases "fa_aNeedsType3 a") (auto simp: fragment_def split: if_splits)
qed

lemma collect_loop:
  assumes ok: "asm_ok a" and z: "0 < z" and fit: "off + n * z \<le> length p"
    and own: "\<And>k. k < n \<Longrightarrow> \<exists>i < fa_aNumType1Fragments a. take z (drop (off + k * z) p) = type1_frame a i"
    and c: "collecting a src S r"
  shows "\<exists>res s. type4_loop p z src n off r = Some (res, s) \<and> res = (if off + n * z = length p then OK else FRAME_SIZE_MISMATCH) \<and>
    collecting a src (S \<union> {i. i < fa_aNumType1Fragments a \<and> (\<exists>k < n. take z (drop (off + k * z) p) = type1_frame a i)}) s"
  using fit own c
proof (induction n arbitrary: off S r)
  case (Suc n)
  let ?N = "fa_aNumType1Fragments a"
  let ?chunk = "\<lambda>off k. take z (drop (off + k * z) p)"
  from Suc.prems(2) [of 0] obtain i where i: "i < ?N" "take z (drop off p) = type1_frame a i" by auto
  from collect_type1 [OF ok Suc.prems(3) i(1)] obtain res s where
    s: "handleType1 (type1_frame a i) src r = Some (res, s)" "res \<in> {OK, DUPLICATE_FRAGMENT}" "collecting a src (insert i S) s" by blast
  have shift: "?chunk (off + z) k = ?chunk off (Suc k)" for k by (simp add: add.assoc)
  have own': "\<exists>i < ?N. ?chunk (off + z) k = type1_frame a i" if "k < n" for k
    using Suc.prems(2) [of "Suc k"] that by (simp add: shift)
  have fit': "off + z + n * z \<le> length p" using Suc.prems(1) by simp
  from Suc.IH [OF fit' own' s(3)] obtain q t where
    t: "type4_loop p z src n (off + z) s = Some (q, t)" "q = (if off + z + n * z = length p then OK else FRAME_SIZE_MISMATCH)"
    "collecting a src (insert i S \<union> {i. i < ?N \<and> (\<exists>k < n. ?chunk (off + z) k = type1_frame a i)}) t" by blast
  have first: "mem_load 1 p off = Some [hd (drop off p)]" "mem_load z p off = Some (type1_frame a i)"
    using Suc.prems(1) z i(2) by (simp_all add: mem_load_def take_Suc)
  have "hd (drop off p) = hd (type1_frame a i)" using z i(2) by (metis hd_take)
  then have ty: "getFrameType (hd (drop off p)) = TYPE1" by (simp add: hd_type1_frame)
  have "type1_frame a j = type1_frame a i \<Longrightarrow> j < ?N \<Longrightarrow> j = i" for j
    using fragment_inject [OF ok, of j i] i(1) assembling_of(2) [OF ok] by (simp add: fragment_def less_imp_le)
  then have "insert i S \<union> {i. i < ?N \<and> (\<exists>k < n. ?chunk (off + z) k = type1_frame a i)} =
      S \<union> {i. i < ?N \<and> (\<exists>k < Suc n. ?chunk off k = type1_frame a i)}" (is "?l = ?r")
    using i by (auto simp: shift less_Suc_eq_0_disj)
  with t(3) have "collecting a src ?r t" by simp
  moreover have "type4_loop p z src (Suc n) off r = Some (q, t)" using first ty s(1,2) t(1) by auto
  ultimately show ?case using t(2) by (intro exI [of _ q] exI [of _ t]) (simp add: add.assoc)
qed simp


lemma collecting_statistics [simp]: "collecting a src S (r\<lparr>r_mStatistics := x\<rparr>) = collecting a src S r"
  by (simp add: collecting_def can_open_def bucketIndex_def recalculateSuperFrameNo_def Let_def)

lemma collect_packet:
  assumes ok: "asm_ok a" and c: "collecting a src S r" and own: "own_packet a p"
  shows "\<exists>res s. dispatch p src r = Some (res, s) \<and> res \<in> {OK, DUPLICATE_FRAGMENT} \<and> collecting a src (S \<union> numbers a p) s"
proof (cases "getFrameType (hd p) = TYPE4")
  case False
  then have u: "unpack p = [p]" by (simp add: unpack_def)
  with own obtain i where i: "i \<le> unat (fa_aOfFragmentNo a)" "p = fragment a i" by (auto simp: own_packet_def)
  then have "numbers a p = {i}" using u fragment_inject [OF ok _ i(1)] unfolding numbers_def by auto
  with collect_fragment [OF ok c i(1)] i(2) show ?thesis by simp
next
  case True
  let ?N = "fa_aNumType1Fragments a"
  define n where "n = unat (t4_mFrameCount (dec_type4 p))"
  define z where "z = (length p - 2) div n"
  let ?chunk = "\<lambda>k. take z (drop (2 + k * z) p)"
  have w: "p \<noteq> []" "2 \<le> length p" "0 < n" "(length p - 2) mod n = 0"
    "list_all (\<lambda>q. 8 \<le> length q \<and> getFrameType (hd q) = TYPE1) (unpack p)"
    using own True by (simp_all add: own_packet_def whole_def n_def Let_def)
  have u: "unpack p = map ?chunk [0 ..< n]" using w(1) True by (simp add: unpack_def n_def z_def Let_def)
  have len: "n * z = length p - 2" using mult_div_mod_eq [of n "length p - 2"] w(4) by (simp add: z_def)
  have chunk: "\<exists>i < ?N. ?chunk k = type1_frame a i" if "k < n" for k
  proof -
    have k: "?chunk k \<in> set (unpack p)" using that u by simp
    with own obtain i where "?chunk k = fragment a i" by (auto simp: own_packet_def)
    moreover from this k w(5) have "i < ?N" using fragment_type(2) [OF ok, of i] by (auto simp: list_all_iff)
    ultimately show ?thesis by (auto simp: fragment_def)
  qed
  have "8 \<le> length (?chunk 0)" using w(3,5) u by (auto simp: list_all_iff)
  then have z: "8 \<le> z" by simp
  let ?r = "r\<lparr>r_mStatistics := (r_mStatistics r)\<lparr>rs_mBundlesReceived := rs_mBundlesReceived (r_mStatistics r) + 1\<rparr>\<rparr>"
  have fit: "2 + n * z \<le> length p" "2 + n * z = length p" using len w(2) by simp_all
  from collect_loop [OF ok _ fit(1) chunk, of src S ?r] z c fit(2) obtain s where
    s: "type4_loop p z src n 2 ?r = Some (OK, s)" "collecting a src (S \<union> {i. i < ?N \<and> (\<exists>k < n. ?chunk k = type1_frame a i)}) s" by auto
  have lt: "i < ?N" if "fragment a i \<in> set (unpack p)" for i
    using that w(5) fragment_type(2) [OF ok, of i] by (auto simp: list_all_iff)
  have "i \<in> numbers a p \<longleftrightarrow> i < ?N \<and> (\<exists>k < n. ?chunk k = type1_frame a i)" for i
  proof
    assume i: "i \<in> numbers a p"
    then have "i < ?N" using lt by (simp add: numbers_def)
    moreover from this i obtain k where "k < n" "?chunk k = type1_frame a i"
      by (auto simp: numbers_def u fragment_def)
    ultimately show "i < ?N \<and> (\<exists>k < n. ?chunk k = type1_frame a i)" by blast
  next
    assume i: "i < ?N \<and> (\<exists>k < n. ?chunk k = type1_frame a i)"
    then have "fragment a i \<in> ?chunk ` {..<n}" by (auto simp: fragment_def intro: rev_image_eqI)
    with i assembling_of(2) [OF ok, of i] show "i \<in> numbers a p" by (simp add: numbers_def u lessThan_atLeast0)
  qed
  then have "numbers a p = {i. i < ?N \<and> (\<exists>k < n. ?chunk k = type1_frame a i)}" by blast
  moreover have "handleType4 p src r = Some (OK, s)"
    using w(2-4) z s(1) by (simp add: handleType4_def mem_simps n_def [symmetric] Let_def) (simp add: z_def [symmetric])
  ultimately show ?thesis using s(2) True by (simp add: dispatch_def)
qed


section \<open>Packets of other superframes\<close>

definition foreign :: "u16 \<Rightarrow> bytes \<Rightarrow> bool" where
  "foreign sf p = (case getFrameType (hd p) of
       TYPE1 \<Rightarrow> rd16 2 p \<noteq> sf
     | TYPE2 \<Rightarrow> rd16 5 p \<noteq> sf
     | TYPE3 \<Rightarrow> rd16 2 p \<noteq> sf
     | TYPE4 \<Rightarrow> list_all (\<lambda>q. rd16 2 q \<noteq> sf) (unpack p)
     | _ \<Rightarrow> True)"

text \<open>The bucket \<open>b\<close> in the slot of \<open>sf\<close>, while it collects that superframe.\<close>

definition untouched :: "u16 \<Rightarrow> Receiver \<Rightarrow> Receiver \<Rightarrow> bool" where
  "untouched sf r s \<longleftrightarrow> same_world r s \<and> r_mpBuckets s (bucketIndex sf r) = r_mpBuckets r (bucketIndex sf r)"

definition held :: "u16 \<Rightarrow> Receiver \<Rightarrow> bool" where
  "held sf r \<longleftrightarrow> b_mActive (r_mpBuckets r (bucketIndex sf r)) \<and> b_mSavedFrameNo (r_mpBuckets r (bucketIndex sf r)) = sf"

lemma same_world_simps [simp]: "same_world r r" "same_world (r\<lparr>r_mStatistics := x\<rparr>) s = same_world r s"
  by (simp_all add: same_world_def)

lemma untouched_refl: "untouched sf r r"
  by (simp add: untouched_def same_world_def)

lemma untouched_trans: "untouched sf r s \<Longrightarrow> untouched sf s t \<Longrightarrow> untouched sf r t"
  by (simp add: untouched_def same_world_def bucketIndex_def)

lemma untouched_held: "untouched sf r s \<Longrightarrow> held sf s = held sf r"
  by (simp add: untouched_def held_def same_world_def bucketIndex_def)

lemma local_untouched:
  assumes "local_to n r s" "held sf r" "n \<noteq> sf"
  shows "untouched sf r s"
  using assms unfolding local_to_def untouched_def held_def by metis

lemma foreign_loop:
  assumes "held sf r" "\<And>k. k < n \<Longrightarrow> rd16 2 (take z (drop (off + k * z) p)) \<noteq> sf"
    and "type4_loop p z src n off r = Some (res, s)"
  shows "untouched sf r s"
  using assms
proof (induction n arbitrary: off r)
  case 0
  then show ?case by (simp add: untouched_refl)
next
  case (Suc n)
  have shift: "take z (drop (off + z + k * z) p) = take z (drop (off + Suc k * z) p)" for k by (simp add: add.assoc)
  from Suc.prems(3) obtain first where first: "mem_load 1 p off = Some first" by (auto split: bind_splits)
  show ?case
  proof (cases "getFrameType (hd first) = TYPE1")
    case False
    with Suc.prems(3) first show ?thesis by (simp add: untouched_refl)
  next
    case True
    with Suc.prems(3) first obtain q u where u: "handleType1 (take z (drop off p)) src r = Some (q, u)"
      "(if q \<noteq> OK \<and> q \<noteq> DUPLICATE_FRAGMENT then Some (q, u) else type4_loop p z src n (off + z) u) = Some (res, s)"
      by (auto simp: mem_load_def split: bind_splits if_splits)
    have "rd16 2 (take z (drop off p)) \<noteq> sf" using Suc.prems(2) [of 0] by simp
    from local_untouched [OF handleType1_local [OF u(1)] Suc.prems(1) this] have ru: "untouched sf r u" .
    then have h: "held sf u" using Suc.prems(1) by (simp add: untouched_held)
    have ne: "rd16 2 (take z (drop (off + z + k * z) p)) \<noteq> sf" if "k < n" for k
      using Suc.prems(2) [of "Suc k"] that unfolding shift by simp
    show ?thesis
    proof (cases "q \<noteq> OK \<and> q \<noteq> DUPLICATE_FRAGMENT")
      case True
      with u(2) ru show ?thesis by simp
    next
      case False
      with u(2) have "type4_loop p z src n (off + z) u = Some (res, s)" by simp
      from Suc.IH [OF h ne this] untouched_trans [OF ru] show ?thesis by blast
    qed
  qed
qed

lemma foreign_type4:
  assumes run: "handleType4 p src r = Some (res, s)" and h: "held sf r"
    and ne: "list_all (\<lambda>q. rd16 2 q \<noteq> sf) (unpack p)" "getFrameType (hd p) = TYPE4" "p \<noteq> []"
  shows "untouched sf r s"
proof -
  let ?n = "unat (t4_mFrameCount (dec_type4 p))"
  let ?z = "(length p - 2) div ?n"
  have "\<forall>k < ?n. rd16 2 (take ?z (drop (2 + k * ?z) p)) \<noteq> sf"
    using ne by (simp add: unpack_def Let_def list_all_iff)
  then have ne': "rd16 2 (take ?z (drop (2 + k * ?z) p)) \<noteq> sf" if "k < ?n" for k using that by simp
  have u: "untouched sf r (r\<lparr>r_mStatistics := x\<rparr>)" for x by (simp add: untouched_def same_world_def)
  have loop: "untouched sf r s" if "type4_loop p ?z src ?n 2 (r\<lparr>r_mStatistics := x\<rparr>) = Some (res, s)" for x
    using foreign_loop [OF _ ne' that] h untouched_trans [OF u] untouched_held [OF u] by blast
  show ?thesis
    using run loop u untouched_refl [of sf r] by (auto simp: handleType4_def mem_simps Let_def split: if_splits)
qed

lemma foreign_packet:
  assumes run: "dispatch p src r = Some (res, s)" and h: "held sf r" and ne: "foreign sf p" "p \<noteq> []"
  shows "untouched sf r s"
proof (cases "getFrameType (hd p)")
  case TYPE0
  with run show ?thesis by (simp add: dispatch_def handleType0_def untouched_refl)
next
  case TYPE1
  with run ne have "handleType1 p src r = Some (res, s)" "rd16 2 p \<noteq> sf" by (simp_all add: dispatch_def foreign_def)
  with local_untouched [OF handleType1_local _ ] h show ?thesis by blast
next
  case TYPE2
  with run ne have "handleType2 p src r = Some (res, s)" "rd16 5 p \<noteq> sf" by (simp_all add: dispatch_def foreign_def)
  with local_untouched [OF handleType2_local] h show ?thesis by blast
next
  case TYPE3
  with run ne have "handleType3 p src r = Some (res, s)" "rd16 2 p \<noteq> sf" by (simp_all add: dispatch_def foreign_def)
  with local_untouched [OF handleType3_local] h show ?thesis by blast
next
  case TYPE4
  with run ne have "handleType4 p src r = Some (res, s)" "list_all (\<lambda>q. rd16 2 q \<noteq> sf) (unpack p)"
    by (simp_all add: dispatch_def foreign_def)
  with foreign_type4 [OF _ h _ TYPE4 ne(2)] show ?thesis by blast
next
  case (TYPE_UNNAMED v)
  with run show ?thesis by (simp add: dispatch_def untouched_refl)
qed


section \<open>Any order, duplicates, other traffic\<close>

lemma receive_threaded:
  assumes mode: "r_mMode r = THREADED" and p: "p \<noteq> []"
    and d: "dispatch p src r = Some (res, s)" "same_world r s"
  shows "receive p src r = Some (if named_type (getFrameType (hd p)) then (res, s) else (INVALID_PARAMETER, r))"
  using assms by (simp add: receive_def same_world_def)

lemma receive_empty: "receive [] src r = Some (INVALID_PARAMETER, r)"
  by (simp add: receive_def)

definition arrivals :: "(bytes \<times> u8) list \<Rightarrow> ReceiverOp list" where
  "arrivals ps = map (\<lambda>(p, src). Receive p src) ps"

text \<open>What may arrive while the payload \<open>a\<close> from \<open>src\<close> is collected.\<close>

definition arrival_ok :: "FragArgs \<Rightarrow> u8 \<Rightarrow> bytes \<times> u8 \<Rightarrow> bool" where
  "arrival_ok a src x \<longleftrightarrow> fst x \<noteq> [] \<and> (own_packet a (fst x) \<and> snd x = src \<or> foreign (fa_aSuperFrameNo a) (fst x))"

definition arrived :: "FragArgs \<Rightarrow> u8 \<Rightarrow> (bytes \<times> u8) list \<Rightarrow> nat set" where
  "arrived a src ps = \<Union> (numbers a ` fst ` set (filter (\<lambda>x. own_packet a (fst x) \<and> snd x = src) ps))"

lemma arrived_Cons:
  "arrived a src (x # ps) = (if own_packet a (fst x) \<and> snd x = src then numbers a (fst x) else {}) \<union> arrived a src ps"
  by (simp add: arrived_def)

lemma own_type:
  assumes "asm_ok a" "own_packet a p"
  shows "named_type (getFrameType (hd p))" "numbers a p \<noteq> {}"
proof -
  have p: "whole p" "set (unpack p) \<subseteq> fragment a ` {..unat (fa_aOfFragmentNo a)}" using assms(2) by (simp_all add: own_packet_def)
  have ne: "unpack p \<noteq> []" using p(1) by (auto simp: whole_def unpack_def Let_def)
  show "named_type (getFrameType (hd p))"
  proof (cases "getFrameType (hd p) = TYPE4")
    case False
    then have "unpack p = [p]" by (simp add: unpack_def)
    with p(2) fragment_type(3) [OF assms(1)] show ?thesis by (auto simp: named_type_def)
  qed (simp add: named_type_def)
  from ne p(2) show "numbers a p \<noteq> {}" unfolding numbers_def by (cases "unpack p") auto
qed

lemma same_world_dispatch:
  assumes "dispatch p src r = Some (res, s)"
  shows "same_world r s"
proof -
  have loop: "same_world r s" if "type4_loop p z src n off r = Some (res, s)" for z n off r
    using that
  proof (induction n arbitrary: off r)
    case 0
    then show ?case by (simp add: same_world_def)
  next
    case (Suc n)
    have "same_world r u" if "handleType1 q src r = Some (x, u)" for q x u
      using handleType1_local [OF that] by (simp add: local_to_def)
    with Suc show ?case
      by (auto split: bind_splits if_splits intro: same_world_trans) (auto simp: same_world_def)
  qed
  have u: "same_world r (r\<lparr>r_mStatistics := x\<rparr>)" for x by (simp add: same_world_def)
  have four: "same_world r s" if "handleType4 p src r = Some (res, s)"
    using that u by (auto simp: handleType4_def Let_def split: if_splits bind_splits dest: loop)
  show ?thesis
    using assms handleType1_local [of p src r res s] handleType2_local [of p src r res s] handleType3_local [of p src r res s] four
    by (auto simp: dispatch_def handleType0_def local_to_def split: FrameType.splits)
qed

lemma collecting_held: "collecting a src S r \<Longrightarrow> S \<noteq> {} \<Longrightarrow> held (fa_aSuperFrameNo a) r"
  by (simp add: collecting_def held_def assembling_def)

lemma collect_arrival:
  assumes ok: "asm_ok a" and c: "collecting a src S r" and x: "arrival_ok a src x" and mode: "r_mMode r = THREADED"
    and S: "S \<noteq> {} \<or> own_packet a (fst x) \<and> snd x = src"
  shows "\<exists>res s. receive (fst x) (snd x) r = Some (res, s) \<and> same_world r s \<and>
    collecting a src (S \<union> (if own_packet a (fst x) \<and> snd x = src then numbers a (fst x) else {})) s"
proof -
  let ?p = "fst x"
  have p: "?p \<noteq> []" using x by (simp add: arrival_ok_def)
  show ?thesis
  proof (cases "own_packet a ?p \<and> snd x = src")
    case True
    then have own: "own_packet a ?p" "snd x = src" by simp_all
    from collect_packet [OF ok c own(1)] obtain res s where
      s: "dispatch ?p src r = Some (res, s)" "collecting a src (S \<union> numbers a ?p) s" by blast
    with receive_threaded [OF mode p s(1) same_world_dispatch [OF s(1)]] own_type(1) [OF ok own(1)] own same_world_dispatch [OF s(1)]
    show ?thesis by simp
  next
    case False
    with x have f: "foreign (fa_aSuperFrameNo a) ?p" by (auto simp: arrival_ok_def)
    have S: "S \<noteq> {}" using S False by blast
    have inv: "recv_inv r" using c by (simp add: collecting_def)
    from dispatch_safe [OF inv, of ?p "snd x"] obtain res s where s: "dispatch ?p (snd x) r = Some (res, s)" "recv_inv s"
      by (auto simp: safe_result_def)
    have "untouched (fa_aSuperFrameNo a) r s" by (rule foreign_packet [OF s(1) collecting_held [OF c S] f p])
    then have "collecting a src S s" "same_world r s" using c s(2) S
      by (auto simp: collecting_def untouched_def same_world_def bucketIndex_def)
    moreover have "same_world r r" by (simp add: same_world_def)
    ultimately show ?thesis using receive_threaded [OF mode p s(1)] c False
      by (cases "named_type (getFrameType (hd ?p))") auto
  qed
qed


lemma collect_arrivals:
  assumes "asm_ok a" "collecting a src S r" "list_all (arrival_ok a src) ps" "r_mMode r = THREADED"
    "S \<noteq> {} \<or> ps \<noteq> [] \<and> own_packet a (fst (hd ps)) \<and> snd (hd ps) = src"
  shows "\<exists>s. run_ops receiver_step (arrivals ps) r = Some s \<and> same_world r s \<and> collecting a src (S \<union> arrived a src ps) s"
  using assms
proof (induction ps arbitrary: S r)
  case Nil
  then show ?case by (simp add: arrivals_def arrived_def)
next
  case (Cons x ps)
  let ?T = "S \<union> (if own_packet a (fst x) \<and> snd x = src then numbers a (fst x) else {})"
  have "S \<noteq> {} \<or> own_packet a (fst x) \<and> snd x = src" "arrival_ok a src x" using Cons.prems(3,5) by simp_all
  from collect_arrival [OF Cons.prems(1,2) this(2) Cons.prems(4) this(1)] obtain res s where
    s: "receive (fst x) (snd x) r = Some (res, s)" "same_world r s" "collecting a src ?T s" by blast
  have "?T \<noteq> {}" using Cons.prems(5) own_type(2) [OF Cons.prems(1)] by auto
  moreover have "r_mMode s = THREADED" using s(2) Cons.prems(4) by (simp add: same_world_def)
  ultimately obtain t where t: "run_ops receiver_step (arrivals ps) s = Some t" "same_world s t"
    "collecting a src (?T \<union> arrived a src ps) t"
    using Cons.IH [OF Cons.prems(1) s(3)] Cons.prems(3) by auto
  have "run_ops receiver_step (arrivals (x # ps)) r = Some t" using s(1) t(1) by (cases x) (simp add: arrivals_def)
  with same_world_trans [OF s(2) t(2)] t(3) show ?case by (auto simp: arrived_Cons Un_assoc)
qed

section \<open>The frame that is delivered\<close>

text \<open>The frame a receiver hands over for the payload: its bytes and its metadata.\<close>

definition is_delivery :: "FragArgs \<Rightarrow> u8 \<Rightarrow> SuperFrame \<Rightarrow> bool" where
  "is_delivery a src f \<longleftrightarrow> sf_contents f = Some (fa_apData a) \<and> \<not> sf_mBroken f \<and>
     sf_mSuperFrameNo f = fa_aSuperFrameNo a \<and> sf_mStreamId f = fa_aStreamId a \<and> sf_mSourceId f = src \<and>
     sf_mPayloadType f = fa_aPayloadType a \<and> sf_mPayloadCode f = fa_aPayloadCode a \<and>
     sf_mPts f = fa_aPts a \<and> sf_mDts f = received_dts a \<and> sf_mFlags f = fa_aFlags a AND 0xF0"

lemma assembled:
  assumes ok: "asm_ok a" and inv: "recv_inv r" and all: "assembling a src {..unat (fa_aOfFragmentNo a)} (r_mpBuckets r idx)"
  shows "bucket_complete (r_mpBuckets r idx)" "is_delivery a src (ready_frame r idx)"
proof -
  let ?b = "r_mpBuckets r idx" and ?of = "unat (fa_aOfFragmentNo a)"
  have active: "b_mActive ?b" using all by (simp add: assembling_def)
  from recv_invD(1) [OF inv active] obtain f m where f: "b_mpFrame ?b = Some f" "sf_mpData f = Some m" "sf_mSize f \<le> length m"
    and lay: "layout (length m) ?b" by (rule bucket_okD)
  have of_no: "fa_aNeedsType3 a \<longrightarrow> fa_aNumType1Fragments a \<le> ?of" using assembling_of(3) [OF ok] by auto
  from all f of_no have holds: "holds_pieces a {..?of} m" "sf_mSize f = length (fa_apData a)" by (auto simp: assembling_def)
  have "unat (b_mFragmentCount ?b) = ?of + 1" "b_mOfFragmentNo ?b = fa_aOfFragmentNo a"
    using lay all by (simp_all add: layout_def assembling_def)
  then show complete: "bucket_complete ?b" by (simp add: bucket_complete_def)
  have "sf_contents (finishedFrame ?b f) = Some (fa_apData a)"
    using holds_all [OF ok holds(1)] holds(2) f by (intro sf_contentsI [of _ m]) (simp_all add: finishedFrame_def)
  with complete all f(1) show "is_delivery a src (ready_frame r idx)"
    by (simp add: ready_frame_def is_delivery_def finishedFrame_def assembling_def)
qed

lemma filter_distinct_one: "x \<in> set xs \<Longrightarrow> distinct xs \<Longrightarrow> filter (\<lambda>y. y = x) xs = [x]"
  by (induction xs) (auto simp: filter_empty_conv)

text \<open>Of the frames a turn of the worker hands over, exactly one has the superframe number of the payload.\<close>

lemma complete_delivered:
  assumes ok: "asm_ok a" and c: "collecting a src {..unat (fa_aOfFragmentNo a)} r"
    and mode: "r_mMode r = THREADED" "r_mRunning r"
  shows "\<exists>s fs f. workerTick r = Some s \<and> r_mDeliveryQueue s = r_mDeliveryQueue r @ fs \<and>
    filter (\<lambda>f. sf_mSuperFrameNo f = fa_aSuperFrameNo a) fs = [f] \<and> is_delivery a src f"
proof -
  let ?idx = "bucketIndex (fa_aSuperFrameNo a) r"
  have inv: "recv_inv r" and all: "assembling a src {..unat (fa_aOfFragmentNo a)} (r_mpBuckets r ?idx)"
    using c by (auto simp: collecting_def split: if_splits)
  from processTimeouts_spec [OF inv] obtain s where
    s: "processTimeouts r = Some s" "hands_over r s (map (ready_frame r) (due r))" by blast
  note A = assembled [OF ok inv all] and D = due_facts [OF inv]
  have due: "?idx \<in> set (due r)" using A(1) all by (simp add: D(1) to_deliver_def assembling_def)
  have slot: "sf_mSuperFrameNo (ready_frame r i) = fa_aSuperFrameNo a \<longleftrightarrow> i = ?idx" if "i \<in> set (due r)" for i
  proof -
    have active: "b_mActive (r_mpBuckets r i)" using that by (simp add: D(1))
    from recv_invD(1) [OF inv active] have "b_mSavedFrameNo (r_mpBuckets r i) AND r_BUFFER_SIZE r = i" by (rule bucket_okD)
    with A(2) show ?thesis by (auto simp: ready_frame_def finishedFrame_def bucketIndex_def is_delivery_def)
  qed
  have "filter (\<lambda>i. i = ?idx) (due r) = [?idx]"
    using due D(2) by (rule filter_distinct_one)
  moreover have "filter (\<lambda>i. sf_mSuperFrameNo (ready_frame r i) = fa_aSuperFrameNo a) (due r) = filter (\<lambda>i. i = ?idx) (due r)"
    using slot by (intro filter_cong) simp_all
  ultimately have "filter (\<lambda>f. sf_mSuperFrameNo f = fa_aSuperFrameNo a) (map (ready_frame r) (due r)) = [ready_frame r ?idx]"
    by (simp add: filter_map comp_def)
  with s A(2) mode show ?thesis by (force simp: workerTick_def hands_over_def)
qed

lemma reassembly:
  assumes "asm_ok a" "recv_inv r" "can_open (fa_aSuperFrameNo a) r" "r_mMode r = THREADED" "r_mRunning r"
    and "list_all (arrival_ok a src) ps" "ps \<noteq> []" "own_packet a (fst (hd ps))" "snd (hd ps) = src"
    and "arrived a src ps = {..unat (fa_aOfFragmentNo a)}"
  shows "\<exists>s t fs f. run_ops receiver_step (arrivals ps) r = Some s \<and> r_mDeliveryQueue s = r_mDeliveryQueue r \<and>
    workerTick s = Some t \<and> r_mDeliveryQueue t = r_mDeliveryQueue r @ fs \<and>
    filter (\<lambda>f. sf_mSuperFrameNo f = fa_aSuperFrameNo a) fs = [f] \<and> is_delivery a src f"
proof -
  have "collecting a src {} r" using assms(2,3) by (simp add: collecting_def)
  from collect_arrivals [OF assms(1) this assms(6,4)] assms(7-10) obtain s where
    s: "run_ops receiver_step (arrivals ps) r = Some s" "same_world r s" "collecting a src {..unat (fa_aOfFragmentNo a)} s" by auto
  then have "r_mMode s = THREADED" "r_mRunning s" "r_mDeliveryQueue s = r_mDeliveryQueue r"
    using assms(4,5) by (simp_all add: same_world_def)
  with complete_delivered [OF assms(1) s(3)] s(1) show ?thesis by metis
qed

end
