(* ===== verification/Efp_EndToEnd.thy ===== *)
theory Efp_EndToEnd
  imports Efp_SenderProps Efp_Arrivals
begin

text \<open>
  Sender and receiver together: what \<open>send\<close> hands to the transport is, for a receiver, a set of packets
  that reassembly takes in any order.
\<close>

section \<open>Time stamps\<close>

text \<open>The DTS that survives the 32-bit difference of the Type2 header.\<close>

definition carried_dts :: "u64 \<Rightarrow> u64 \<Rightarrow> u64" where
  "carried_dts pts dts = (if pts \<noteq> - 1 \<and> dts \<noteq> - 1 \<and> dts \<le> pts \<and> pts - dts \<le> 0xFFFFFFFE then dts else - 1)"

lemma dts_roundtrip:
  "dtsPtsDiff pts dts \<noteq> - 1 \<Longrightarrow> ucast (dtsPtsDiff pts dts) \<le> pts"
  "(if dtsPtsDiff pts dts = - 1 then - 1 else pts - ucast (dtsPtsDiff pts dts)) = carried_dts pts dts"
proof -
  have small: "unat (ucast x :: u32) = unat x" "(ucast (ucast x :: u32) :: u64) = x" "(ucast x :: u32) \<noteq> - 1"
    if "x \<le> 0xFFFFFFFE" for x :: u64
  proof -
    have x: "unat x \<le> 0xFFFFFFFE" using that by (simp add: word_le_nat_alt)
    then show u: "unat (ucast x :: u32) = unat x" by (simp add: unsigned_ucast_eq take_bit_eq_mod)
    have up: "unat (ucast y :: u64) = unat y" for y :: u32
      using unat_bounds(3) [of y] by (simp add: unsigned_ucast_eq take_bit_eq_mod)
    show "(ucast (ucast x :: u32) :: u64) = x"
      using up [of "ucast x"] u by (intro unsigned_word_eqI [where ?'a = nat]) (simp only:)
    show "(ucast x :: u32) \<noteq> - 1"
    proof
      assume "(ucast x :: u32) = - 1"
      with u have "unat x = unat (- 1 :: u32)" by simp
      also have "\<dots> = 0xFFFFFFFF" by (simp add: unsigned_minus_1_eq_mask mask_eq_exp_minus_1)
      finally show False using x by simp
    qed
  qed
  have sub: "pts - dts \<le> pts" if "dts \<le> pts" using that by (rule word_sub_le)
  show "dtsPtsDiff pts dts \<noteq> - 1 \<Longrightarrow> ucast (dtsPtsDiff pts dts) \<le> pts"
    using small(2) sub by (auto simp: dtsPtsDiff_def Let_def split: if_splits)
  show "(if dtsPtsDiff pts dts = - 1 then - 1 else pts - ucast (dtsPtsDiff pts dts)) = carried_dts pts dts"
    using small(2,3) by (auto simp: dtsPtsDiff_def carried_dts_def Let_def)
qed

section \<open>The fragmentation as reassembly sees it\<close>

definition single_args :: "bytes \<Rightarrow> u8 \<Rightarrow> u64 \<Rightarrow> u32 \<Rightarrow> u32 \<Rightarrow> u8 \<Rightarrow> u8 \<Rightarrow> u16 \<Rightarrow> FragArgs" where
  "single_args d ptype pts diff code st flags sf =
     \<lparr>fa_apData = d, fa_aPayloadType = ptype, fa_aPts = pts, fa_aDtsPtsDiff = diff, fa_aPayloadCode = code,
      fa_aStreamId = st, fa_aFlags = flags, fa_aType1PayloadSize = 0, fa_aSuperFrameNo = sf, fa_aOfFragmentNo = 0,
      fa_aNumType1Fragments = 0, fa_aNeedsType3 = False, fa_aType3DataSize = 0, fa_aType2DataSize = length d\<rparr>"

definition payload_args :: "bytes \<Rightarrow> u8 \<Rightarrow> u64 \<Rightarrow> u64 \<Rightarrow> u32 \<Rightarrow> u8 \<Rightarrow> u8 \<Rightarrow> Sender \<Rightarrow> FragArgs" where
  "payload_args d ptype pts dts code st flags s =
     (if length d \<le> unat (s_mMtu s) - 27
      then single_args d ptype pts (dtsPtsDiff pts dts) code st flags (s_mSuperFrameNo s)
      else sent_args d ptype pts dts code st flags s)"

lemma payload_fields:
  "fa_apData (payload_args d ptype pts dts code st flags s) = d"
  "fa_aSuperFrameNo (payload_args d ptype pts dts code st flags s) = s_mSuperFrameNo s"
  "fa_aStreamId (payload_args d ptype pts dts code st flags s) = st"
  "fa_aFlags (payload_args d ptype pts dts code st flags s) = flags"
  "fa_aPayloadType (payload_args d ptype pts dts code st flags s) = ptype"
  "fa_aPayloadCode (payload_args d ptype pts dts code st flags s) = code"
  "fa_aPts (payload_args d ptype pts dts code st flags s) = pts"
  "fa_aDtsPtsDiff (payload_args d ptype pts dts code st flags s) = dtsPtsDiff pts dts"
  by (simp_all add: payload_args_def single_args_def sent_args_def plan_args_def Let_def)

lemma payload_dts: "received_dts (payload_args d ptype pts dts code st flags s) = carried_dts pts dts"
  unfolding received_dts_def payload_fields by (rule dts_roundtrip(2))

text \<open>
  Reassembly needs room for one more full fragment than the payload has bytes; the receiver's limit is
  that of the sender, so payloads within 128 KiB of it are excluded.
\<close>

lemma payload_asm_ok:
  assumes inv: "sender_inv s" and out: "send_outcome d s = OK" and size: "length d + 131072 \<le> MAX_SUPERFRAME_SIZE"
  shows "asm_ok (payload_args d ptype pts dts code st flags s)"
proof -
  have mtu: "256 \<le> unat (s_mMtu s)" "unat (s_mMtu s) < 65536" using inv unat_bounds(2) by (simp_all add: sender_inv_def)
  show ?thesis
  proof (cases "length d \<le> unat (s_mMtu s) - 27")
    case True
    moreover have "0 < length d" using out by (auto simp: send_outcome_def split: if_splits)
    ultimately show ?thesis using mtu dts_roundtrip(1) [of pts dts]
      by (auto simp: payload_args_def single_args_def asm_ok_def type2_offset_def type3_size_def)
  next
    case False
    let ?a = "sent_args d ptype pts dts code st flags s"
    have "sent_total d s \<le> MAX_FRAGMENTS_PER_SUPERFRAME" using out by (simp add: send_outcome_def split: if_splits)
    with False have ok: "args_ok (unat (s_mMtu s)) ?a" by (intro sent_args_ok(1) mtu) simp_all
    have f: "fa_apData ?a = d" "fa_aPts ?a = pts" "fa_aDtsPtsDiff ?a = dtsPtsDiff pts dts"
      by (simp_all add: sent_args_def plan_args_def Let_def)
    have of_no: "unat (fa_aOfFragmentNo ?a) \<le> fa_aNumType1Fragments ?a + 1" using ok by (simp add: args_ok_def)
    then have "fa_aType1PayloadSize ?a * (unat (fa_aOfFragmentNo ?a) + 1) \<le> fa_aType1PayloadSize ?a * (fa_aNumType1Fragments ?a + 2)"
      by (intro mult_le_mono2) simp
    also have "\<dots> = fa_aNumType1Fragments ?a * fa_aType1PayloadSize ?a + 2 * fa_aType1PayloadSize ?a" by (simp add: mult.commute)
    also have "\<dots> \<le> length d + 131072"
      using ok mtu by (simp add: args_ok_def f type2_offset_def)
    finally have "fa_aType1PayloadSize ?a * (unat (fa_aOfFragmentNo ?a) + 1) \<le> MAX_SUPERFRAME_SIZE" using size by simp
    moreover have "\<And>P. args_ok (unat (s_mMtu s)) ?a \<Longrightarrow> type2_offset ?a + fa_aType2DataSize ?a = length (fa_apData ?a)"
      by (simp add: args_ok_def)
    ultimately show ?thesis using ok mtu False dts_roundtrip(1) [of pts dts]
      unfolding payload_args_def asm_ok_def args_ok_def by (simp add: f)
  qed
qed

lemma frames_are_fragments:
  assumes ok: "asm_ok a"
  shows "map snd (frames_of a) = map (fragment a) [0 ..< Suc (unat (fa_aOfFragmentNo a))]"
proof -
  let ?N = "fa_aNumType1Fragments a"
  have one: "map (fragment a) [0 ..< ?N] = map (type1_frame a) [0 ..< ?N]" by (simp add: fragment_def)
  show ?thesis
  proof (cases "fa_aNeedsType3 a")
    case True
    have "Suc (unat (fa_aOfFragmentNo a)) = Suc (Suc ?N)" using assembling_of(3) [OF ok True] by simp
    then have "map (fragment a) [0 ..< Suc (unat (fa_aOfFragmentNo a))] = map (fragment a) [0 ..< ?N] @ [fragment a ?N, fragment a (Suc ?N)]"
      by simp
    with True one show ?thesis by (simp add: frames_of_def fragment_def comp_def)
  next
    case False
    have "Suc (unat (fa_aOfFragmentNo a)) = Suc ?N" using assembling_of(5) [OF ok False] by simp
    then have "map (fragment a) [0 ..< Suc (unat (fa_aOfFragmentNo a))] = map (fragment a) [0 ..< ?N] @ [fragment a ?N]" by simp
    with False one show ?thesis by (simp add: frames_of_def fragment_def comp_def)
  qed
qed

lemma sent_are_fragments:
  assumes "asm_ok (payload_args d ptype pts dts code st flags s)"
  shows "map snd (sent_frames d ptype pts dts code st flags s) =
    map (fragment (payload_args d ptype pts dts code st flags s)) [0 ..< Suc (unat (fa_aOfFragmentNo (payload_args d ptype pts dts code st flags s)))]"
proof (cases "length d \<le> unat (s_mMtu s) - 27")
  case True
  then show ?thesis
    by (simp add: sent_frames_def payload_args_def fragment_def single_args_def single_frame_def single_header_def
        type2_frame_def type2_header_def piece_def type2_offset_def type3_size_def)
next
  case False
  then show ?thesis using frames_are_fragments [of "sent_args d ptype pts dts code st flags s"] assms
    by (simp add: sent_frames_def payload_args_def)
qed


section \<open>The packets of a send\<close>

lemma sent_packets_own:
  assumes asm: "asm_ok (payload_args d ptype pts dts code st flags s)" (is "asm_ok ?a")
    and un: "unpacked ps = map snd (sent_frames d ptype pts dts code st flags s)" "list_all (whole \<circ> fst) ps"
  shows "x \<in> set ps \<Longrightarrow> own_packet ?a (fst x) \<and> fst x \<noteq> []" "ps \<noteq> []"
    "\<Union> (numbers ?a ` fst ` set ps) = {..unat (fa_aOfFragmentNo ?a)}"
proof -
  have all: "\<Union> (set ` unpack ` fst ` set ps) = fragment ?a ` {..unat (fa_aOfFragmentNo ?a)}"
    using arg_cong [OF un(1), of set] unfolding sent_are_fragments [OF asm] unpacked_def
    by (simp add: atLeast0LessThan lessThan_Suc_atMost image_comp comp_def del: upt_Suc lessThan_Suc)
  show own: "own_packet ?a (fst x) \<and> fst x \<noteq> []" if "x \<in> set ps"
    using un(2) that all by (auto simp: own_packet_def list_all_iff whole_def)
  show "ps \<noteq> []" using all by auto
  show "\<Union> (numbers ?a ` fst ` set ps) = {..unat (fa_aOfFragmentNo ?a)}"
  proof
    show "\<Union> (numbers ?a ` fst ` set ps) \<subseteq> {..unat (fa_aOfFragmentNo ?a)}" by (auto simp: numbers_def)
    show "{..unat (fa_aOfFragmentNo ?a)} \<subseteq> \<Union> (numbers ?a ` fst ` set ps)"
    proof
      fix i assume i: "i \<in> {..unat (fa_aOfFragmentNo ?a)}"
      then have "fragment ?a i \<in> \<Union> (set ` unpack ` fst ` set ps)" unfolding all by blast
      then obtain x where "x \<in> set ps" "fragment ?a i \<in> set (unpack (fst x))" by blast
      with i show "i \<in> \<Union> (numbers ?a ` fst ` set ps)" by (auto simp: numbers_def)
    qed
  qed
qed

text \<open>
  The network: it may reorder, duplicate and mix in packets of other superframes, but loses nothing of
  the payload; its first packet belongs to the payload.
\<close>

definition network :: "u16 \<Rightarrow> u8 \<Rightarrow> (bytes \<times> u8) list \<Rightarrow> (bytes \<times> u8) list \<Rightarrow> bool" where
  "network sf src ps qs \<longleftrightarrow> qs \<noteq> [] \<and> fst (hd qs) \<in> fst ` set ps \<and> snd (hd qs) = src \<and>
     list_all (\<lambda>(p, x). p \<noteq> [] \<and> (p \<in> fst ` set ps \<and> x = src \<or> foreign sf p)) qs \<and>
     list_all (\<lambda>(p, x). (p, src) \<in> set qs) ps"

definition delivers :: "bytes \<Rightarrow> u8 \<Rightarrow> u64 \<Rightarrow> u64 \<Rightarrow> u32 \<Rightarrow> u8 \<Rightarrow> u8 \<Rightarrow> u8 \<Rightarrow> SuperFrame \<Rightarrow> bool" where
  "delivers d ptype pts dts code st flags src f \<longleftrightarrow> sf_contents f = Some d \<and> \<not> sf_mBroken f \<and>
     sf_mStreamId f = st \<and> sf_mSourceId f = src \<and> sf_mPayloadType f = ptype \<and> sf_mPayloadCode f = code \<and>
     sf_mPts f = pts \<and> sf_mDts f = carried_dts pts dts \<and> sf_mFlags f = flags AND 0xF0"

lemma sent_is_delivered:
  assumes snd: "sender_inv s" "s_mRetransmitQueue s = []" "send d ptype pts dts code st flags s = Some (OK, t)"
      "s_out t = s_out s @ ps" "length d + 131072 \<le> MAX_SUPERFRAME_SIZE"
    and rcv: "recv_inv r" "can_open (s_mSuperFrameNo s) r" "r_mMode r = THREADED" "r_mRunning r"
    and net: "network (s_mSuperFrameNo s) src ps qs"
  shows "\<exists>u v fs f. run_ops receiver_step (arrivals qs) r = Some u \<and> r_mDeliveryQueue u = r_mDeliveryQueue r \<and>
    workerTick u = Some v \<and> r_mDeliveryQueue v = r_mDeliveryQueue r @ fs \<and>
    filter (\<lambda>f. sf_mSuperFrameNo f = s_mSuperFrameNo s) fs = [f] \<and> delivers d ptype pts dts code st flags src f"
proof -
  let ?a = "payload_args d ptype pts dts code st flags s"
  note sc = send_carries [OF snd(1,3)]
  have out: "send_outcome d s = OK" using sc(1) by simp
  have asm: "asm_ok ?a" by (rule payload_asm_ok [OF snd(1) out snd(5)])
  have un: "unpacked ps = map snd (sent_frames d ptype pts dts code st flags s)" "list_all (whole \<circ> fst) ps"
    using sc(2) snd(2,4) by (auto simp: carries_def)
  note own = sent_packets_own [OF asm un]
  have N: "qs \<noteq> []" "fst (hd qs) \<in> fst ` set ps" "snd (hd qs) = src"
    "list_all (\<lambda>(p, x). p \<noteq> [] \<and> (p \<in> fst ` set ps \<and> x = src \<or> foreign (s_mSuperFrameNo s) p)) qs"
    "list_all (\<lambda>(p, x). (p, src) \<in> set qs) ps" using net by (simp_all add: network_def)
  have sub: "fst ` set ps \<subseteq> fst ` {x \<in> set qs. own_packet ?a (fst x) \<and> snd x = src}"
  proof
    fix p assume "p \<in> fst ` set ps"
    then obtain x where x: "x \<in> set ps" "p = fst x" by blast
    then have "(p, src) \<in> set qs" "own_packet ?a p" using N(5) own(1) [OF x(1)] by (auto simp: list_all_iff)
    then have "(p, src) \<in> {x \<in> set qs. own_packet ?a (fst x) \<and> snd x = src}" by simp
    then show "p \<in> fst ` {x \<in> set qs. own_packet ?a (fst x) \<and> snd x = src}" by force
  qed
  have ok: "list_all (arrival_ok ?a src) qs"
    using N(4) own(1) by (auto simp: list_all_iff arrival_ok_def payload_fields)
  have first: "own_packet ?a (fst (hd qs))" using N(2) own(1) by auto
  have "\<Union> (numbers ?a ` fst ` set ps) \<subseteq> arrived ?a src qs"
    unfolding arrived_def set_filter by (intro Union_mono image_mono [OF sub])
  then have "{..unat (fa_aOfFragmentNo ?a)} \<subseteq> arrived ?a src qs" unfolding own(3) .
  moreover have "arrived ?a src qs \<subseteq> {..unat (fa_aOfFragmentNo ?a)}" by (auto simp: arrived_def numbers_def)
  ultimately have all: "arrived ?a src qs = {..unat (fa_aOfFragmentNo ?a)}" by blast
  have "can_open (fa_aSuperFrameNo ?a) r" using rcv(2) by (simp add: payload_fields)
  from reassembly [OF asm rcv(1) this rcv(3,4) ok N(1) first N(3) all] show ?thesis
    by (simp add: is_delivery_def delivers_def payload_fields payload_dts) metis
qed

text \<open>A network that turns the packets of a payload round and then delivers them once more.\<close>

lemma turned_round:
  assumes "sender_inv s" "s_mRetransmitQueue s = []" "send d ptype pts dts code st flags s = Some (OK, t)" "s_out t = s_out s @ ps"
  shows "network (s_mSuperFrameNo s) src ps (map (\<lambda>(p, i). (p, src)) (rev ps @ ps))"
proof -
  let ?qs = "map (\<lambda>(p, i). (p, src)) (rev ps @ ps)"
  have "sent_frames d ptype pts dts code st flags s \<noteq> []" by (simp add: sent_frames_def frames_of_def Let_def)
  then have un: "unpacked ps \<noteq> []" "list_all (whole \<circ> fst) ps"
    using send_carries(2) [OF assms(1,3)] assms(2,4) by (auto simp: carries_def)
  have ne: "ps \<noteq> []" using un(1) by (auto simp: unpacked_def)
  have p: "p \<noteq> []" if "(p, i) \<in> set ps" for p i using un(2) that by (auto simp: list_all_iff whole_def)
  have "hd ?qs = (fst (last ps), src)" using ne by (simp add: hd_append hd_map hd_rev split: prod.split)
  with ne p show ?thesis by (auto simp: network_def list_all_iff rev_image_eqI)
qed

text \<open>A new receiver can open any superframe once its allocator answers.\<close>

lemma new_can_open:
  assumes "newReceiver n tmo hol retries iv THREADED clk alloc = Inr r" "alloc 0"
  shows "can_open sf r" "r_mMode r = THREADED" "r_mRunning r"
proof -
  have "(uint sf :: int) \<noteq> 2 ^ 63 - 1" using unsigned_less [of sf, where ?'a = int] by simp
  with assms show "can_open sf r" "r_mMode r = THREADED" "r_mRunning r"
    by (auto simp: newReceiver_def can_open_def recalculateSuperFrameNo_def emptyBucket_def Let_def split: if_splits)
qed

end
