(* ===== verification/Efp_NackSpec.thy ===== *)
theory Efp_NackSpec
  imports Efp_EndToEnd
begin

text \<open>
  What a NACK means: the entries \<open>buildNack\<close> writes name exactly the missing fragments of a bucket (the
  first of them, when they do not fit one packet), the sender accepts the packet, and the copies it
  then retransmits complete the payload.
\<close>

section \<open>The scan for missing fragments\<close>

definition entry_range :: "NackEntry \<Rightarrow> nat list" where
  "entry_range e = [unat (ne_mFragmentNo e) ..< Suc (unat (ne_mFragmentNo e) + unat (ne_mFragmentCount e))]"

definition missing :: "Bucket \<Rightarrow> nat \<Rightarrow> nat list" where
  "missing b n = filter (\<lambda>i. i \<notin> b_mReceivedFragments b) [0 ..< n]"

definition entry_of :: "Bucket \<Rightarrow> nat \<Rightarrow> NackEntry \<Rightarrow> bool" where
  "entry_of b n e \<longleftrightarrow> ne_mStreamId e = b_mStreamId b \<and> ne_mSuperFrameNo e = b_mSavedFrameNo b \<and>
     unat (ne_mFragmentNo e) + unat (ne_mFragmentCount e) < n"

text \<open>The state of the scan before fragment \<open>n\<close>: what is named and what the pending range adds.\<close>

definition scanned :: "Bucket \<Rightarrow> nat \<Rightarrow> NackEntry list \<times> u16 \<times> u16 \<Rightarrow> bool" where
  "scanned b n st = (case st of (es, start, cnt) \<Rightarrow>
     list_all (entry_of b n) es \<and>
     (start \<noteq> - 1 \<longrightarrow> unat start + unat cnt + 1 = n \<and> unat cnt \<le> 255) \<and>
     concat (map entry_range es) @ (if start = - 1 then [] else [unat start ..< n]) = missing b n)"

lemma missing_Suc: "missing b (Suc n) = missing b n @ (if n \<in> b_mReceivedFragments b then [] else [n])"
  by (simp add: missing_def)

lemma entry_of_mono: "list_all (entry_of b n) es \<Longrightarrow> list_all (entry_of b (Suc n)) es"
  by (auto simp: list_all_iff entry_of_def)

lemma u16_not_max: "n < 65535 \<Longrightarrow> (word_of_nat n :: u16) \<noteq> - 1"
proof
  assume n: "n < 65535" "(word_of_nat n :: u16) = - 1"
  then have "unat (word_of_nat n :: u16) = unat (- 1 :: u16)" by simp
  then show False using n(1) by (simp add: unsigned_minus_1_eq_mask mask_eq_exp_minus_1)
qed

lemma pending_entry:
  assumes "unat start + unat cnt + 1 = n" "unat cnt \<le> 255"
  shows "entry_range (nackEntryOf b start cnt) = [unat start ..< n]" "entry_of b n (nackEntryOf b start cnt)"
proof -
  have "unat (ucast cnt :: u8) = unat cnt" using assms(2) by (simp add: unsigned_ucast_eq take_bit_eq_mod)
  with assms(1) show "entry_range (nackEntryOf b start cnt) = [unat start ..< n]" "entry_of b n (nackEntryOf b start cnt)"
    by (auto simp: entry_range_def nackEntryOf_def entry_of_def simp del: upt_Suc)
qed

lemma scanned_step:
  assumes inv: "scanned b n st" and n: "n < 8192"
  shows "\<exists>st'. nack_scan_step b (word_of_nat n) st = Some st' \<and> scanned b (Suc n) st'"
proof -
  obtain es start cnt where st: "st = (es, start, cnt)" by (cases st)
  have I: "list_all (entry_of b n) es" "start \<noteq> - 1 \<longrightarrow> unat start + unat cnt + 1 = n \<and> unat cnt \<le> 255"
    "concat (map entry_range es) @ (if start = - 1 then [] else [unat start ..< n]) = missing b n"
    using inv by (simp_all add: scanned_def st)
  have un: "unat (word_of_nat n :: u16) = n" "(word_of_nat n :: u16) \<noteq> - 1" using n u16_not_max by simp_all
  note es = entry_of_mono [OF I(1)]
  have emitted: "list_all (entry_of b (Suc n)) (es @ [nackEntryOf b start cnt])"
    "concat (map entry_range (es @ [nackEntryOf b start cnt])) = missing b n" if "start \<noteq> - 1"
    using pending_entry [of start cnt n b] I(2,3) that es entry_of_mono [of b n "[nackEntryOf b start cnt]"] by simp_all
  show ?thesis
  proof (cases "n \<in> b_mReceivedFragments b")
    case True
    then show ?thesis using es emitted I n
      by (auto simp: nack_scan_step_def st un bit_get_def scanned_def missing_Suc)
  next
    case False
    have cnt: "unat (cnt + 1) = unat cnt + 1" if "unat cnt < 255" using that by (simp add: unat_plus_if_size size_word.rep_eq)
    consider (new) "start = - 1" | (more) "start \<noteq> - 1" "unat cnt < 255" | (full) "start \<noteq> - 1" "\<not> unat cnt < 255" by blast
    then show ?thesis
    proof cases
      case new
      then show ?thesis using False es I(3) n by (simp add: nack_scan_step_def st un bit_get_def scanned_def missing_Suc)
    next
      case more
      have "cnt < 255" using more by (simp add: word_less_nat_alt)
      moreover have "unat start \<le> n" using I(2) more by simp
      ultimately show ?thesis using more False es I n cnt
        by (simp add: nack_scan_step_def st un bit_get_def scanned_def missing_Suc)
    next
      case full
      then have "\<not> cnt < 255" by (simp add: word_less_nat_alt)
      with full False emitted n un show ?thesis
        by (simp add: nack_scan_step_def st bit_get_def scanned_def missing_Suc)
    qed
  qed
qed

lemma scanned_scan:
  assumes "scanned b k st" "n \<le> 8192" "k \<le> n"
  shows "\<exists>st'. nack_scan b [k ..< n] st = Some st' \<and> scanned b n st'"
  using assms
proof (induction "n - k" arbitrary: k st)
  case 0
  then show ?case by simp
next
  case (Suc m)
  then have k: "k < n" "k < 8192" "m = n - Suc k" by simp_all
  from scanned_step [OF Suc.prems(1) k(2)] obtain st1 where
    1: "nack_scan_step b (word_of_nat k) st = Some st1" "scanned b (Suc k) st1" by blast
  from Suc.hyps(1) [OF k(3) 1(2)] Suc.prems(2) k(1) 1(1) show ?case by (simp add: upt_conv_Cons)
qed

text \<open>The entries name exactly the missing fragments, in order.\<close>

lemma nack_missing_spec:
  assumes "unat (b_mOfFragmentNo b) < 8192"
  shows "\<exists>es. nack_missing b = Some es \<and> concat (map entry_range es) = missing b (Suc (unat (b_mOfFragmentNo b))) \<and>
    list_all (entry_of b (Suc (unat (b_mOfFragmentNo b)))) es"
proof -
  let ?n = "Suc (unat (b_mOfFragmentNo b))"
  have "scanned b 0 ([], - 1, 0)" by (simp add: scanned_def missing_def)
  from scanned_scan [OF this, of ?n] assms obtain es start cnt where
    s: "nack_scan b [0 ..< ?n] ([], - 1, 0) = Some (es, start, cnt)" "scanned b ?n (es, start, cnt)" by auto
  show ?thesis
  proof (cases "start = - 1")
    case True
    with s show ?thesis by (simp add: nack_missing_def scanned_def del: upt_Suc)
  next
    case False
    with s(2) have I: "list_all (entry_of b ?n) es" "unat start + unat cnt + 1 = ?n" "unat cnt \<le> 255"
      "concat (map entry_range es) @ [unat start ..< ?n] = missing b ?n" by (simp_all add: scanned_def del: upt_Suc)
    from pending_entry [OF I(2,3)] I(1,4) have
      "concat (map entry_range (es @ [nackEntryOf b start cnt])) = missing b ?n"
      "list_all (entry_of b ?n) (es @ [nackEntryOf b start cnt])" by (simp_all del: upt_Suc)
    with s(1) False show ?thesis by (simp add: nack_missing_def del: upt_Suc)
  qed
qed

section \<open>The packet\<close>

lemma nack_packet_decode:
  assumes "length es \<le> 255"
  shows "nack_decode (nack_packet es) = es" "nack_wellformed (nack_packet es)"
proof -
  have n: "unat (word_of_nat (length es) :: u8) = length es" using assms by (simp add: unat_of_nat take_bit_eq_mod)
  let ?h = "\<lparr>nk_mFrameType = makeFrameTypeByte TYPE0 0, nk_mSubtype = type0SubtypeValue NACK, nk_mNackCount = word_of_nat (length es)\<rparr>"
  have p: "nack_packet es = enc_nack ?h @ concat (map enc_nackEntry es)" by (simp add: nack_packet_def)
  have "dec_nackEntry (take 6 (drop (3 + i * 6) (nack_packet es))) = es ! i" if "i < length es" for i
    using nackEntry.view_array [OF that, of "enc_nack ?h"] by (auto simp: p nackHeader.length_enc mem_load_def split: if_splits)
  moreover have "nk_mNackCount (dec_nack (nack_packet es)) = word_of_nat (length es)" by (simp add: p nackHeader.dec_enc)
  ultimately show "nack_decode (nack_packet es) = es"
    unfolding nack_decode_def by (intro nth_equalityI) (simp_all add: n)
  show "nack_wellformed (nack_packet es)"
    by (simp add: nack_wellformed_def p nackHeader.dec_enc nackHeader.length_enc nackEntry.length_array n)
qed

lemma nack_keys_entry:
  assumes "entry_of b n e" "n \<le> 65536"
  shows "nack_keys e = map (\<lambda>i. (b_mStreamId b, makeRetentionKey (b_mSavedFrameNo b) (word_of_nat i))) (entry_range e)"
    "nack_in_range e"
proof -
  have "ne_mFragmentNo e + word_of_nat j = (word_of_nat (unat (ne_mFragmentNo e) + j) :: u16)" for j by simp
  moreover have "entry_range e = map (\<lambda>j. unat (ne_mFragmentNo e) + j) [0 ..< Suc (unat (ne_mFragmentCount e))]"
    unfolding entry_range_def by (simp add: map_add_upt add.commute del: upt_Suc)
  ultimately show "nack_keys e = map (\<lambda>i. (b_mStreamId b, makeRetentionKey (b_mSavedFrameNo b) (word_of_nat i))) (entry_range e)"
    using assms(1) by (simp add: nack_keys_def entry_of_def del: upt_Suc)
  show "nack_in_range e" using assms by (simp add: entry_of_def nack_in_range_def)
qed

text \<open>
  A NACK for a bucket is accepted by every sender and asks for missing fragments only, from the lowest
  up, and for all of them when they form at most 255 entries.
\<close>

definition nack_asks :: "Bucket \<Rightarrow> bytes \<Rightarrow> nat list \<Rightarrow> bool" where
  "nack_asks b d js \<longleftrightarrow> nack_wellformed d \<and> list_all nack_in_range (nack_decode d) \<and>
     concat (map nack_keys (nack_decode d)) = map (\<lambda>i. (b_mStreamId b, makeRetentionKey (b_mSavedFrameNo b) (word_of_nat i))) js"

lemma buildNack_spec:
  assumes "unat (b_mOfFragmentNo b) < 8192"
  shows "\<exists>d es. buildNack b = Some d \<and> nack_missing b = Some es \<and> (d = [] \<longleftrightarrow> es = []) \<and>
    concat (map entry_range es) = missing b (Suc (unat (b_mOfFragmentNo b))) \<and>
    (es \<noteq> [] \<longrightarrow> nack_asks b d (concat (map entry_range (take 255 es))))"
proof -
  let ?n = "Suc (unat (b_mOfFragmentNo b))"
  obtain es where es: "nack_missing b = Some es" "concat (map entry_range es) = missing b ?n" "list_all (entry_of b ?n) es"
    using nack_missing_spec [OF assms] by blast
  have e: "list_all (entry_of b ?n) (take 255 es)" using es(3) by (auto simp: list_all_iff dest: in_set_takeD)
  have n: "?n \<le> 65536" using assms by simp
  note K = nack_keys_entry [OF _ n]
  have range: "list_all nack_in_range (take 255 es)" using e K(2) by (auto simp: list_all_iff)
  have keys: "concat (map nack_keys xs) = map (\<lambda>i. (b_mStreamId b, makeRetentionKey (b_mSavedFrameNo b) (word_of_nat i)))
      (concat (map entry_range xs))" if "list_all (entry_of b ?n) xs" for xs
    using that by (induction xs) (simp_all add: K(1))
  have "nack_asks b (nack_packet (take 255 es)) (concat (map entry_range (take 255 es)))"
    using nack_packet_decode [of "take 255 es"] range keys [OF e] by (simp add: nack_asks_def)
  moreover have "nack_packet (take 255 es) \<noteq> []" by (simp add: nack_packet_def enc_nack_def)
  ultimately show ?thesis using es(1,2) by (auto simp: buildNack_def)
qed


section \<open>Recovery of lost fragments\<close>

text \<open>The sender still retains the fragments \<open>M\<close> of the payload.\<close>

definition retains :: "FragArgs \<Rightarrow> nat set \<Rightarrow> Sender \<Rightarrow> bool" where
  "retains a M s \<longleftrightarrow> (\<forall>i \<in> M. \<exists>f. s_mRetentionBuffer s (makeRetentionKey (fa_aSuperFrameNo a) (word_of_nat i)) = Some f \<and>
     rf_mData f = fragment a i \<and> rf_mStreamId f = fa_aStreamId a)"

definition fragment_key :: "FragArgs \<Rightarrow> nat \<Rightarrow> u32" where
  "fragment_key a i = makeRetentionKey (fa_aSuperFrameNo a) (word_of_nat i)"

lemma fragment_key_inj: "inj_on (fragment_key a) {..<65536}"
proof (rule inj_onI)
  fix i j assume ij: "i \<in> {..<65536}" "j \<in> {..<65536}" "fragment_key a i = fragment_key a j"
  have low: "(ucast (makeRetentionKey sf fn) :: u16) = fn" for sf fn
    by (rule bit_word_eqI) (simp add: makeRetentionKey_def bit_simps)
  have "(word_of_nat i :: u16) = word_of_nat j" using ij(3) low unfolding fragment_key_def by metis
  then have "unat (word_of_nat i :: u16) = unat (word_of_nat j :: u16)" by simp
  with ij(1,2) show "i = j" by (simp add: unsigned_of_nat take_bit_nat_eq_self)
qed

lemma requested_are_missing:
  assumes asks: "nack_asks b d js" and b: "b_mStreamId b = fa_aStreamId a" "b_mSavedFrameNo b = fa_aSuperFrameNo a"
    and ret: "retains a (set js) s"
  shows "requested_keys s d = fragment_key a ` set js"
    "i \<in> set js \<Longrightarrow> copy_at s (fragment_key a i) = (fragment a i, fa_aStreamId a)"
proof -
  have keys: "set (concat (map nack_keys (nack_decode d))) = (\<lambda>i. (fa_aStreamId a, fragment_key a i)) ` set js"
    using asks b by (simp add: nack_asks_def fragment_key_def del: set_concat)
  have kept: "\<exists>f. s_mRetentionBuffer s (fragment_key a i) = Some f \<and> rf_mData f = fragment a i \<and> rf_mStreamId f = fa_aStreamId a"
    if "i \<in> set js" for i using ret that by (simp add: retains_def fragment_key_def)
  then show "i \<in> set js \<Longrightarrow> copy_at s (fragment_key a i) = (fragment a i, fa_aStreamId a)"
    by (fastforce simp: copy_at_def)
  show "requested_keys s d = fragment_key a ` set js"
    unfolding requested_keys_def keys using kept by fastforce
qed

text \<open>Each of the fragments asked for leaves once.\<close>

lemma nack_resends:
  assumes ok: "asm_ok a" and asks: "nack_asks b d js" and b: "b_mStreamId b = fa_aStreamId a" "b_mSavedFrameNo b = fa_aSuperFrameNo a"
    and js: "set js \<subseteq> {..unat (fa_aOfFragmentNo a)}" and snd: "queue_inv s" "s_mRetransmitQueue s = []" "retains a (set js) s"
    and u: "receiveNack d s = Some (OK, u)" "processRetransmits (length (s_mRetransmitQueue u)) u = (k, t)"
  shows "\<exists>ms. distinct ms \<and> set ms = set js \<and> s_out t = s_out s @ map (\<lambda>i. (fragment a i, fa_aStreamId a)) ms \<and> k = length ms"
proof -
  from nack_then_retransmit [OF snd(1,2) u] obtain ks where
    ks: "distinct ks" "set ks = requested_keys s d" "s_out t = s_out s @ map (copy_at s) ks" "k = length ks" by auto
  note R = requested_are_missing [OF asks b snd(3)]
  have "set js \<subseteq> {..<65536}" using js unat_bounds(2) [of "fa_aOfFragmentNo a"] by auto
  then have inj: "inj_on (fragment_key a) (set js)" using fragment_key_inj inj_on_subset by blast
  let ?ms = "map (the_inv_into (set js) (fragment_key a)) ks"
  have preimage: "the_inv_into (set js) (fragment_key a) x \<in> set js" "fragment_key a (the_inv_into (set js) (fragment_key a) x) = x"
    if "x \<in> set ks" for x
    using that the_inv_into_into [OF inj, of x "set js"] f_the_inv_into_f [OF inj] unfolding ks(2) R(1) by auto
  have "set ?ms = set js" using ks(2) R(1) inj by (simp add: image_image the_inv_into_f_f)
  moreover have "distinct ?ms" using ks(1) inj by (simp add: distinct_map inj_on_the_inv_into ks(2) R(1))
  moreover have "map (copy_at s) ks = map (\<lambda>i. (fragment a i, fa_aStreamId a)) ?ms"
    using preimage R(2) by (auto simp: comp_def) metis
  ultimately show ?thesis using ks(3,4) by (intro exI [of _ ?ms]) simp
qed

lemma fragment_own:
  assumes ok: "asm_ok a" and i: "i \<le> unat (fa_aOfFragmentNo a)"
  shows "own_packet a (fragment a i)" "numbers a (fragment a i) = {i}"
proof -
  have ty: "getFrameType (hd (fragment a i)) \<noteq> TYPE4" using fragment_type(3) [OF ok, of i] by auto
  then have u: "unpack (fragment a i) = [fragment a i]" by (simp add: unpack_def)
  with i ty fragment_type(4) [OF ok] show "own_packet a (fragment a i)" by (simp add: own_packet_def whole_def)
  show "numbers a (fragment a i) = {i}" using u i fragment_inject [OF ok _ i] by (auto simp: numbers_def)
qed

text \<open>
  One round of recovery: the fragments \<open>A\<close> the NACK of a bucket asks for, those of its first 255 ranges,
  leave once each and arrive.
\<close>

lemma nack_recovery:
  assumes ok: "asm_ok a" and c: "collecting a src S r" "S \<noteq> {}" "S \<noteq> {..unat (fa_aOfFragmentNo a)}"
    and mode: "r_mMode r = THREADED" "r_mRunning r"
    and es: "nack_missing (r_mpBuckets r (bucketIndex (fa_aSuperFrameNo a) r)) = Some es"
    and snd: "queue_inv s" "s_mRetransmitQueue s = []" "retains a ({..unat (fa_aOfFragmentNo a)} - S) s"
  shows "\<exists>d u k t ms v. buildNack (r_mpBuckets r (bucketIndex (fa_aSuperFrameNo a) r)) = Some d \<and>
    receiveNack d s = Some (OK, u) \<and> processRetransmits (length (s_mRetransmitQueue u)) u = (k, t) \<and>
    distinct ms \<and> ms \<noteq> [] \<and> set ms \<subseteq> {..unat (fa_aOfFragmentNo a)} - S \<and>
    s_out t = s_out s @ map (\<lambda>i. (fragment a i, fa_aStreamId a)) ms \<and>
    run_ops receiver_step (arrivals (map (\<lambda>i. (fragment a i, src)) ms)) r = Some v \<and> collecting a src (S \<union> set ms) v \<and>
    (length es \<le> 255 \<longrightarrow> set ms = {..unat (fa_aOfFragmentNo a)} - S \<and>
      (\<exists>w fs f. workerTick v = Some w \<and> r_mDeliveryQueue w = r_mDeliveryQueue r @ fs \<and>
        filter (\<lambda>f. sf_mSuperFrameNo f = fa_aSuperFrameNo a) fs = [f] \<and> is_delivery a src f))"
proof -
  let ?b = "r_mpBuckets r (bucketIndex (fa_aSuperFrameNo a) r)" and ?of = "unat (fa_aOfFragmentNo a)"
  let ?js = "concat (map entry_range (take 255 es))"
  have b: "assembling a src S ?b" using c by (simp add: collecting_def)
  then have B: "b_mStreamId ?b = fa_aStreamId a" "b_mSavedFrameNo ?b = fa_aSuperFrameNo a" "b_mOfFragmentNo ?b = fa_aOfFragmentNo a"
    "b_mReceivedFragments ?b = S" "S \<subseteq> {..?of}" by (simp_all add: assembling_def)
  have lt: "unat (b_mOfFragmentNo ?b) < 8192" using assembling_of(4) [OF ok] by (simp add: B(3))
  obtain d where d: "buildNack ?b = Some d" "concat (map entry_range es) = missing ?b (Suc ?of)" "es \<noteq> [] \<longrightarrow> nack_asks ?b d ?js"
    using buildNack_spec [OF lt] es by (auto simp: B(3))
  have all: "set (missing ?b (Suc ?of)) = {..?of} - S" unfolding missing_def by (auto simp: B(4) simp del: upt_Suc)
  with B(5) c(3) have "missing ?b (Suc ?of) \<noteq> []" by auto
  then have ne: "es \<noteq> []" using d(2) by auto
  have "set ?js \<subseteq> set (concat (map entry_range es))" by (auto dest: in_set_takeD)
  then have js: "set ?js \<subseteq> {..?of} - S" unfolding d(2) all .
  have "?js \<noteq> []" using ne by (cases es) (auto simp: entry_range_def)
  have asks: "nack_asks ?b d ?js" using d(3) ne by simp
  then obtain u where u: "receiveNack d s = Some (OK, u)" by (simp add: receiveNack_spec nack_asks_def nack_process_spec)
  obtain k t where t: "processRetransmits (length (s_mRetransmitQueue u)) u = (k, t)" by fastforce
  have "retains a (set ?js) s" using snd(3) js unfolding retains_def by blast
  from nack_resends [OF ok asks B(1,2) _ snd(1,2) this u t] js obtain ms where
    i: "distinct ms" "set ms = set ?js" "s_out t = s_out s @ map (\<lambda>i. (fragment a i, fa_aStreamId a)) ms" by auto
  have sub: "set ms \<subseteq> {..?of} - S" and nonempty: "ms \<noteq> []" using js i(2) \<open>?js \<noteq> []\<close> by auto
  let ?qs = "map (\<lambda>i. (fragment a i, src)) ms"
  have own: "own_packet a p \<and> p \<noteq> []" if "p \<in> fragment a ` set ms" for p
    using that sub fragment_own(1) [OF ok] fragment_type(4) [OF ok] by auto
  then have arr: "list_all (arrival_ok a src) ?qs" by (auto simp: list_all_iff arrival_ok_def)
  have "arrived a src ?qs = \<Union> (numbers a ` fragment a ` set ms)" using own by (force simp: arrived_def)
  also have "\<dots> = set ms" using sub fragment_own(2) [OF ok] by force
  finally have arrived: "arrived a src ?qs = set ms" .
  from collect_arrivals [OF ok c(1) arr mode(1)] c(2) obtain v where
    v: "run_ops receiver_step (arrivals ?qs) r = Some v" "same_world r v" "collecting a src (S \<union> set ms) v" by (auto simp: arrived)
  have w: "r_mMode v = THREADED" "r_mRunning v" "r_mDeliveryQueue v = r_mDeliveryQueue r"
    using v(2) mode by (simp_all add: same_world_def)
  have "set ms = {..?of} - S \<and> (\<exists>w fs f. workerTick v = Some w \<and> r_mDeliveryQueue w = r_mDeliveryQueue r @ fs \<and>
        filter (\<lambda>f. sf_mSuperFrameNo f = fa_aSuperFrameNo a) fs = [f] \<and> is_delivery a src f)" if "length es \<le> 255"
  proof -
    have "set ms = {..?of} - S" using that i(2) d(2) all by simp
    moreover from this v(3) B(5) have full: "collecting a src {..?of} v" by (simp add: Un_absorb1)
    ultimately show ?thesis using complete_delivered [OF ok full w(1,2)] unfolding w(3) by blast
  qed
  with d(1) u t i(1,3) sub nonempty v(1,3) show ?thesis by blast
qed

end
