(* ===== verification/Efp_ReceiverRuns.thy ===== *)
theory Efp_ReceiverRuns
  imports Efp_NackSpec
begin

text \<open>
  Invariants of whole runs of a receiver beyond memory safety: deadlines and NACK counts of the open
  buckets, the frame counters, and the jitter estimate. Each is kept by every operation; together with
  \<open>recv_inv\<close> they make another safe machine.
\<close>

section \<open>The ledger\<close>

text \<open>
  An open bucket is due one timeout after its first fragment and is NACKed at most \<open>mMaxNackRetries\<close>
  times; the statistics count the frames handed over, to the queue of the delivery thread (not used in
  the run-to-completion mode) or to the callback.
\<close>

definition times_ok :: "Receiver \<Rightarrow> Bucket \<Rightarrow> bool" where
  "times_ok r b \<longleftrightarrow> b_mTimeoutUs b = b_mFirstArrivalUs b + uint (r_mTimeoutMs r * 1000) \<and> b_mNackCount b \<le> r_mMaxNackRetries r"

definition handed :: "Receiver \<Rightarrow> SuperFrame list" where
  "handed r = r_delivered r @ r_mDeliveryQueue r"

definition counted :: "Receiver \<Rightarrow> bool" where
  "counted r \<longleftrightarrow> rs_mCompleteFrames (r_mStatistics r) = word_of_nat (length (filter (\<lambda>f. \<not> sf_mBroken f) (handed r))) \<and>
     rs_mBrokenFrames (r_mStatistics r) = word_of_nat (length (filter sf_mBroken (handed r)))"

definition ledger :: "Receiver \<Rightarrow> bool" where
  "ledger r \<longleftrightarrow> (\<forall>idx. b_mActive (r_mpBuckets r idx) \<longrightarrow> times_ok r (r_mpBuckets r idx)) \<and>
     counted r \<and> (r_mMode r = RUN_TO_COMPLETION \<longrightarrow> r_mDeliveryQueue r = []) \<and> 0 \<le> r_mJitterUs r"

lemma ledger_frame [simp]:
  "ledger (r\<lparr>r_mBucketMap := m\<rparr>) = ledger r" "ledger (r\<lparr>r_clock := c\<rparr>) = ledger r" "ledger (r\<lparr>r_alloc := al\<rparr>) = ledger r"
  "ledger (cache_stream h r) = ledger r" "ledger (count_received r) = ledger r" "ledger (count_duplicate r) = ledger r"
  "ledger (r\<lparr>r_mLastArrivalUs := t\<rparr>) = ledger r" "ledger (r\<lparr>r_mRunning := x\<rparr>) = ledger r"
  "ledger (r\<lparr>r_mDeliveryReady := x\<rparr>) = ledger r" "ledger (r\<lparr>r_nacks := ns\<rparr>) = ledger r"
  "ledger (r\<lparr>r_mStatistics := (r_mStatistics r)\<lparr>rs_mBundlesReceived := n\<rparr>\<rparr>) = ledger r"
  "ledger (r\<lparr>r_clock := c, r_nacks := ns, r_mStatistics := (r_mStatistics r)\<lparr>rs_mNacksSent := n\<rparr>\<rparr>) = ledger r"
  by (simp_all add: ledger_def counted_def handed_def times_ok_def cache_stream_def count_received_def count_duplicate_def)

lemma ledger_set:
  assumes "ledger r" "b_mActive b \<Longrightarrow> times_ok r b"
  shows "ledger (set_bucket idx b r)"
  using assms by (simp add: ledger_def counted_def handed_def set_bucket_def times_ok_def)

lemma ledgerD:
  assumes "ledger r"
  shows "b_mActive (r_mpBuckets r idx) \<Longrightarrow> times_ok r (r_mpBuckets r idx)" "counted r" "0 \<le> r_mJitterUs r"
    "r_mMode r = RUN_TO_COMPLETION \<Longrightarrow> r_mDeliveryQueue r = []"
  using assms by (simp_all add: ledger_def)

lemma ledger_nowUs: "r_nowUs r = (t, u) \<Longrightarrow> ledger u = ledger r"
  by (auto simp: r_nowUs_def nowUs_def)

lemma ledger_recalculate: "recalculateSuperFrameNo sf r = (n, v) \<Longrightarrow> ledger v = ledger r \<and> r_mTimeoutMs v = r_mTimeoutMs r"
  by (auto simp: recalculateSuperFrameNo_def ledger_def counted_def handed_def times_ok_def Let_def split: if_splits)

section \<open>The jitter estimate\<close>

definition deviation :: "int \<Rightarrow> Receiver \<Rightarrow> int" where
  "deviation t r = \<bar>t - r_mLastArrivalUs r - r_mExpectedIntervalUs r\<bar>"

lemma updateJitter_jitter:
  "r_mJitterUs (updateJitter t r) =
     (if r_mLastArrivalUs r > 0 then r_mJitterUs r + (deviation t r - r_mJitterUs r) sdiv 16 else r_mJitterUs r)"
  by (auto simp: updateJitter_def deviation_def Let_def abs_if)

lemma ledger_jitter: "ledger r \<Longrightarrow> ledger (updateJitter t r)"
proof -
  assume r: "ledger r"
  have "0 \<le> r_mJitterUs (updateJitter t r)"
  proof -
    have "0 \<le> min (r_mJitterUs r) (deviation t r)" using ledgerD(3) [OF r] by (simp add: deviation_def)
    then have "0 \<le> r_mJitterUs r + (deviation t r - r_mJitterUs r) sdiv 16"
      using average_between [of 16 "r_mJitterUs r" "deviation t r"] by linarith
    with ledgerD(3) [OF r] show ?thesis by (simp add: updateJitter_jitter)
  qed
  with r show ?thesis
    by (auto simp: ledger_def updateJitter_def Let_def counted_def handed_def times_ok_def)
qed

section \<open>Every operation keeps the ledger\<close>

lemma openBucket_ledger:
  assumes "openBucket idx b tot off payload r = Some (res, s)" "ledger r" "times_ok r b"
  shows "ledger s"
  using assms by (auto simp: openBucket_def allocSuperFrame_def Let_def split: bind_splits option.splits intro!: ledger_set)
    (auto simp: times_ok_def count_received_def)

lemma times_fresh: "times_ok r b \<longleftrightarrow> b_mTimeoutUs b = b_mFirstArrivalUs b + uint (r_mTimeoutMs r * 1000) \<and> b_mNackCount b \<le> r_mMaxNackRetries r"
  by (simp add: times_ok_def)

lemma existing_ledger:
  assumes "ledger r"
  shows "handleType1_existing h1 p src r = Some (res, s) \<Longrightarrow> b_mActive (r_mpBuckets r (bucketIndex (t1_mSuperFrameNo h1) r)) \<Longrightarrow> ledger s"
    "handleType2_existing h2 p src r = Some (res, s) \<Longrightarrow> b_mActive (r_mpBuckets r (bucketIndex (t2_mSuperFrameNo h2) r)) \<Longrightarrow> ledger s"
    "handleType3_existing h3 fn p src r = Some (res, s) \<Longrightarrow> b_mActive (r_mpBuckets r (bucketIndex (t3_mSuperFrameNo h3) r)) \<Longrightarrow> ledger s"
proof -
  note D = ledgerD(1) [OF assms]
  show "handleType1_existing h1 p src r = Some (res, s) \<Longrightarrow> b_mActive (r_mpBuckets r (bucketIndex (t1_mSuperFrameNo h1) r)) \<Longrightarrow> ledger s"
    using assms D [of "bucketIndex (t1_mSuperFrameNo h1) r"] unfolding handleType1_existing_def Let_def
    by (auto split: if_splits bind_splits intro!: ledger_set simp: times_ok_def)
  show "handleType2_existing h2 p src r = Some (res, s) \<Longrightarrow> b_mActive (r_mpBuckets r (bucketIndex (t2_mSuperFrameNo h2) r)) \<Longrightarrow> ledger s"
    using assms D [of "bucketIndex (t2_mSuperFrameNo h2) r"] unfolding handleType2_existing_def Let_def
    by (auto split: if_splits bind_splits prod.splits intro!: ledger_set simp: times_ok_def)
  show "handleType3_existing h3 fn p src r = Some (res, s) \<Longrightarrow> b_mActive (r_mpBuckets r (bucketIndex (t3_mSuperFrameNo h3) r)) \<Longrightarrow> ledger s"
    using assms D [of "bucketIndex (t3_mSuperFrameNo h3) r"] unfolding handleType3_existing_def Let_def
    by (auto split: if_splits bind_splits intro!: ledger_set simp: times_ok_def)
qed

lemma open_ledger:
  assumes "ledger r"
  shows "handleType1_open t h1 p src r = Some (res, s) \<Longrightarrow> ledger s"
    "handleType2_open t h2 p src r = Some (res, s) \<Longrightarrow> ledger s"
    "handleType3_open t h3 fn p src r = Some (res, s) \<Longrightarrow> ledger s"
proof -
  have rec: "ledger v \<and> timeoutUs t v = t + uint (r_mTimeoutMs v * 1000) \<and> (\<forall>h. timeoutUs t v = t + uint (r_mTimeoutMs (cache_stream h v) * 1000))"
    if "recalculateSuperFrameNo sf r = (n, v)" for sf n v
    using ledger_recalculate [OF that] assms by (simp add: timeoutUs_def cache_stream_def)
  show "handleType1_open t h1 p src r = Some (res, s) \<Longrightarrow> ledger s"
    by (auto simp: handleType1_open_def Let_def times_ok_def dest: rec split: prod.splits if_splits bind_splits elim!: openBucket_ledger)
  show "handleType2_open t h2 p src r = Some (res, s) \<Longrightarrow> ledger s"
    by (auto simp: handleType2_open_def Let_def times_ok_def dest: rec split: prod.splits if_splits bind_splits elim!: openBucket_ledger)
  show "handleType3_open t h3 fn p src r = Some (res, s) \<Longrightarrow> ledger s"
    by (auto simp: handleType3_open_def Let_def times_ok_def dest: rec split: prod.splits if_splits bind_splits elim!: openBucket_ledger)
qed

lemma handler_ledger:
  assumes r: "ledger r"
  shows "handleType1 d src r = Some (res, s) \<Longrightarrow> ledger s"
    "handleType2 d src r = Some (res, s) \<Longrightarrow> ledger s"
    "handleType3 d src r = Some (res, s) \<Longrightarrow> ledger s"
proof -
  obtain t u where t: "r_nowUs r = (t, u)" by (cases "r_nowUs r")
  have j: "ledger (updateJitter t u)" using r ledger_nowUs [OF t] ledger_jitter by simp
  show "handleType1 d src r = Some (res, s) \<Longrightarrow> ledger s"
    using r j open_ledger(1) [OF j] existing_ledger(1) [OF j] by (auto simp: handleType1_def t Let_def split: if_splits bind_splits)
  show "handleType2 d src r = Some (res, s) \<Longrightarrow> ledger s"
    using r j open_ledger(2) [OF j] existing_ledger(2) [OF j] by (auto simp: handleType2_def t Let_def split: if_splits bind_splits)
  show "handleType3 d src r = Some (res, s) \<Longrightarrow> ledger s"
    using r j open_ledger(3) [OF j] existing_ledger(3) [OF j] by (auto simp: handleType3_def t Let_def split: if_splits bind_splits)
qed

lemma type4_loop_ledger: "ledger r \<Longrightarrow> type4_loop d z src n off r = Some (res, s) \<Longrightarrow> ledger s"
proof (induction n arbitrary: off r)
  case (Suc n)
  then show ?case by (auto split: if_splits bind_splits dest: handler_ledger(1))
qed simp

lemma handleType4_ledger: "ledger r \<Longrightarrow> handleType4 d src r = Some (res, s) \<Longrightarrow> ledger s"
  by (auto simp: handleType4_def Let_def split: if_splits bind_splits dest!: type4_loop_ledger [rotated])

lemma dispatch_ledger: "ledger r \<Longrightarrow> dispatch d src r = Some (res, s) \<Longrightarrow> ledger s"
  by (auto simp: dispatch_def handleType0_def split: FrameType.splits dest: handler_ledger handleType4_ledger)

section \<open>NACKs and delivery\<close>

lemma nack_bucket_ledger:
  assumes r: "ledger r" and run: "nack_bucket t idx r = Some s" and active: "b_mActive (r_mpBuckets r idx)"
  shows "ledger s"
proof -
  let ?b = "r_mpBuckets r idx"
  have ok: "times_ok r ?b" using ledgerD(1) [OF r active] .
  have lt: "b_mNackCount ?b + 1 \<le> r_mMaxNackRetries r" if "\<not> r_mMaxNackRetries r \<le> b_mNackCount ?b"
    using that by (simp add: not_le inc_le)
  show ?thesis
    using r run ok lt
    by (auto simp: nack_bucket_def calculateNackDelayUs_def r_nowUs_def nowUs_def Let_def times_ok_def
        split: if_splits bind_splits intro!: ledger_set)
qed

lemma nack_loop_ledger:
  assumes "recv_inv r" "ledger r" "list_all (\<lambda>(n, idx). b_mActive (r_mpBuckets r idx)) m" "nack_loop t m r = Some s"
  shows "ledger s"
  using assms
proof (induction m arbitrary: r)
  case (Cons x m)
  obtain n idx where x: "x = (n, idx)" by (cases x)
  then have a: "b_mActive (r_mpBuckets r idx)" using Cons.prems(3) by simp
  from nack_bucket_safe [OF Cons.prems(1) a, of t] obtain u where u: "nack_bucket t idx r = Some u" "nacked r u" by blast
  have same: "b_mActive (r_mpBuckets u i) = b_mActive (r_mpBuckets r i)" for i
    using u(2) by (intro without_nack_fields(1)) (simp add: nacked_def)
  have "list_all (\<lambda>(n, idx). b_mActive (r_mpBuckets u idx)) m" using Cons.prems(3) by (simp add: same)
  with Cons.IH [OF nacked_inv [OF u(2) Cons.prems(1)] nack_bucket_ledger [OF Cons.prems(2) u(1) a]] Cons.prems(4) x u(1)
  show ?case by simp
qed simp

lemma processNacks_ledger:
  assumes "recv_inv r" "ledger r" "processNacks r = Some s"
  shows "ledger s"
proof (cases "r_mMaxNackRetries r = 0")
  case True
  with assms show ?thesis by (simp add: processNacks_def)
next
  case False
  obtain t u where t: "r_nowUs r = (t, u)" by (cases "r_nowUs r")
  have u: "recv_inv u" "ledger u" using assms recv_inv_nowUs [OF t] ledger_nowUs [OF t] by simp_all
  have "nack_loop t (r_mBucketMap u) u = Some s" using assms(3) False t by (auto simp: processNacks_def r_nowUs_def nowUs_def)
  from nack_loop_ledger [OF u map_ok_entries(1) [OF recv_invD(2) [OF u(1)]] this] show ?thesis .
qed

lemma deliverFrame_ledger:
  assumes r: "ledger r" and run: "deliverFrame idx r = Some s"
  shows "ledger s"
proof -
  have "ledger (hand_over f (count_delivered (sf_mBroken f) r))" for f
    using r by (auto simp: ledger_def counted_def handed_def times_ok_def hand_over_def count_delivered_def)
  with run show ?thesis
    by (auto simp: deliverFrame_def Let_def split: bind_splits intro!: ledger_set)
qed

lemma deliver_loop_ledger: "ledger r \<Longrightarrow> deliver_loop is r = Some s \<Longrightarrow> ledger s"
  by (induction "is" arbitrary: r) (auto split: bind_splits dest: deliverFrame_ledger)

lemma processTimeouts_ledger:
  assumes "recv_inv r" "ledger r" "processTimeouts r = Some s"
  shows "ledger s"
proof -
  obtain t u where t: "r_nowUs r = (t, u)" by (cases "r_nowUs r")
  have u: "recv_inv u" "ledger u" using assms recv_inv_nowUs [OF t] ledger_nowUs [OF t] by simp_all
  from assms(3) t obtain v m where "processNacks u = Some v" "deliver_loop m v = Some s"
    by (auto simp: processTimeouts_def Let_def split: bind_splits)
  with processNacks_ledger [OF u] deliver_loop_ledger show ?thesis by blast
qed

lemma receive_ledger:
  assumes "recv_inv r" "ledger r" "receive d src r = Some (res, s)"
  shows "ledger s"
proof -
  have "recv_inv u \<and> ledger u" if "dispatch d src r = Some (q, u)" for q u
    using dispatch_safe [OF assms(1), of d src] dispatch_ledger [OF assms(2)] that by (auto simp: safe_result_def)
  with assms show ?thesis
    by (auto simp: receive_def split: if_splits bind_splits dest: processTimeouts_ledger)
qed

lemma deliveryTick_ledger: "ledger r \<Longrightarrow> ledger (deliveryTick r)"
  by (auto simp: deliveryTick_def ledger_def counted_def handed_def times_ok_def split: list.splits)

definition run_inv :: "Receiver \<Rightarrow> bool" where
  "run_inv r \<longleftrightarrow> recv_inv r \<and> ledger r"

interpretation run: safe_machine run_inv receiver_step
proof unfold_locales
  fix x r assume "run_inv r"
  then have r: "recv_inv r" "ledger r" by (simp_all add: run_inv_def)
  from receiver.step_safe [OF r(1), of x] obtain res s where s: "receiver_step x r = Some (res, s)" "recv_inv s" by blast
  moreover have "ledger s" using s(1) r deliveryTick_ledger
    by (cases x) (auto simp: poll_def workerTick_def stop_def split: if_splits dest: receive_ledger processTimeouts_ledger)
  ultimately show "\<exists>res s. receiver_step x r = Some (res, s) \<and> run_inv s" by (simp add: run_inv_def)
qed

lemma ledger_new: "newReceiver n tmo hol retries iv mode clk alloc = Inr r \<Longrightarrow> ledger r"
  by (auto simp: newReceiver_def ledger_def counted_def handed_def zeroReceiverStatistics_def emptyBucket_def split: if_splits)

text \<open>\<open>pendingCount\<close> is the number of open buckets.\<close>

lemma pendingCount_buckets:
  assumes "recv_inv r"
  shows "pendingCount r = card {idx. b_mActive (r_mpBuckets r idx)}"
proof -
  note M = recv_invD(2) [OF assms]
  have "set (map snd (r_mBucketMap r)) = {idx. b_mActive (r_mpBuckets r idx)}" using map_ok_entries(3) [OF M] by force
  with distinct_card [OF map_ok_entries(2) [OF M]] show ?thesis by (simp add: pendingCount_def)
qed

text \<open>A turn of the worker at or after every deadline leaves no bucket open.\<close>

lemma worker_drains:
  assumes "recv_inv r" "ledger r" "r_mRunning r"
    and late: "\<And>idx. b_mActive (r_mpBuckets r idx) \<Longrightarrow> b_mFirstArrivalUs (r_mpBuckets r idx) + uint (r_mTimeoutMs r * 1000) \<le> r_clock r 0"
  shows "\<exists>s. workerTick r = Some s \<and> pendingCount s = 0"
proof -
  from processTimeouts_spec [OF assms(1)] obtain s where
    s: "processTimeouts r = Some s" "recv_inv s" "\<forall>i. if i \<in> set (due r)
         then \<not> b_mActive (r_mpBuckets s i) \<and> b_mDeliveryOrder (r_mpBuckets s i) = b_mDeliveryOrder (r_mpBuckets r i)
         else without_nack (r_mpBuckets s i) = without_nack (r_mpBuckets r i)" by blast
  have "\<not> b_mActive (r_mpBuckets s i)" for i
  proof (cases "b_mActive (r_mpBuckets r i)")
    case True
    then have "b_mTimeoutUs (r_mpBuckets r i) \<le> r_clock r 0"
      using ledgerD(1) [OF assms(2) True] assms(4) [OF True] by (simp add: times_ok_def)
    with True have "i \<in> set (due r)" by (simp add: due_facts(1) [OF assms(1)] to_deliver_def)
    with s(3) [rule_format, of i] show ?thesis by simp
  next
    case False
    with s(3) [rule_format, of i] without_nack_fields(1) [of "r_mpBuckets s i" "r_mpBuckets r i"] show ?thesis by (auto split: if_splits)
  qed
  with s(1,2) assms(3) show ?thesis by (auto simp: workerTick_def pendingCount_buckets)
qed

end
