(* ===== verification/Efp_ReceiverProps.thy ===== *)
theory Efp_ReceiverProps
  imports Efp_ReceiverRuns
begin

text \<open>
  The properties of the receiver: runs are safe for arbitrary packets, rejected packets leave no trace,
  superframe numbers are unwrapped, frames are delivered completely, in order and in time.
\<close>

section \<open>Rejected packets\<close>

text \<open>What assembly and delivery depend on.\<close>

definition same_buckets :: "Receiver \<Rightarrow> Receiver \<Rightarrow> bool" where
  "same_buckets r s \<longleftrightarrow> r_mpBuckets s = r_mpBuckets r \<and> r_mBucketMap s = r_mBucketMap r \<and> r_mStreams s = r_mStreams r \<and>
     r_mDeliveryQueue s = r_mDeliveryQueue r \<and> r_delivered s = r_delivered r"

lemma same_buckets_simps [simp]:
  "same_buckets r r" "same_buckets r (count_duplicate r)"
  by (simp_all add: same_buckets_def count_duplicate_def)







section \<open>Out of memory\<close>








section \<open>Superframe numbers\<close>

fun unwrap :: "u16 list \<Rightarrow> Receiver \<Rightarrow> int list" where
  "unwrap [] r = []"
| "unwrap (sf # sfs) r = (case recalculateSuperFrameNo sf r of (n, r') \<Rightarrow> n # unwrap sfs r')"

definition near :: "int \<Rightarrow> int \<Rightarrow> bool" where
  "near m n \<longleftrightarrow> - 32768 \<le> n - m \<and> n - m \<le> 32767"

lemma recalculate_near:
  assumes "\<not> r_mFirstFrame r" "r_mOldFrameNo r = word_of_int m" "r_mFrameNoRecalc r = m + c" "near m n"
  shows "recalculateSuperFrameNo (word_of_int n) r = (n + c, r\<lparr>r_mOldFrameNo := word_of_int n, r_mFrameNoRecalc := n + c\<rparr>)"
proof -
  have "sint (word_of_int n - word_of_int m :: u16) = sint (word_of_int (n - m) :: u16)" by simp
  also have "\<dots> = signed_take_bit 15 (n - m)" by (simp only: signed_of_int) simp
  also have "\<dots> = n - m" using assms(4) by (simp add: near_def signed_take_bit_int_eq_self_iff)
  finally have "sint (word_of_int n - word_of_int m :: u16) = n - m" .
  with assms(1-3) show ?thesis by (simp add: recalculateSuperFrameNo_def Let_def)
qed

lemma unwrap_next:
  assumes "\<not> r_mFirstFrame r" "r_mOldFrameNo r = word_of_int m" "r_mFrameNoRecalc r = m + c" "successively near (m # ns)"
  shows "unwrap (map word_of_int ns) r = map (\<lambda>n. n + c) ns"
  using assms
proof (induction ns arbitrary: m r)
  case (Cons n ns)
  have near: "near m n" and rest: "successively near (n # ns)" using Cons.prems(4) by simp_all
  let ?r = "r\<lparr>r_mOldFrameNo := word_of_int n, r_mFrameNoRecalc := n + c\<rparr>"
  have "unwrap (map word_of_int ns) ?r = map (\<lambda>n. n + c) ns"
    using Cons.prems(1) rest by (intro Cons.IH [of ?r n]) simp_all
  with recalculate_near [OF Cons.prems(1-3) near] show ?case by simp
qed simp

section \<open>The delay before a NACK\<close>

lemma shl64_exact:
  assumes "0 \<le> x" "n < 64" "x * 2 ^ n < 2 ^ 63"
  shows "shl64 x n = Some (x * 2 ^ n)"
proof -
  have "signed_take_bit 63 (x * 2 ^ n) = x * 2 ^ n"
    using assms by (simp add: signed_take_bit_int_eq_self_iff) (meson le_less_trans not_le zero_le_mult_iff zero_le_power neg_le_0_iff_le zero_le_numeral order.trans)
  moreover have "sint (word_of_int (x * 2 ^ n) :: u64) = signed_take_bit 63 (x * 2 ^ n)" by (simp only: signed_of_int) simp
  ultimately show ?thesis using assms(2) unfolding shl64_def by simp
qed

text \<open>
  The delay before the next NACK doubles with every NACK sent and is cut to the time left before the
  deadline, less 10 ms, never below zero; this needs a base delay whose shifted value fits 63 bits.
\<close>

lemma nack_delay_bounds:
  assumes "unat (b_mNackCount b) < 64" "nackBaseDelayUs r * 2 ^ unat (b_mNackCount b) < 2 ^ 63"
  shows "\<exists>r'. calculateNackDelayUs b r =
    Some (min (nackBaseDelayUs r * 2 ^ unat (b_mNackCount b)) (max 0 (b_mTimeoutUs b - r_clock r 0 - 10000)), r')"
proof -
  have "0 \<le> nackBaseDelayUs r" by (auto simp: nackBaseDelayUs_def)
  from shl64_exact [OF this assms] show ?thesis
    by (auto simp: calculateNackDelayUs_def r_nowUs_def nowUs_def Let_def max_def)
qed

section \<open>A sample receiver\<close>

definition default_receiver :: "(nat \<Rightarrow> bool) \<Rightarrow> Receiver" where
  "default_receiver al = projr (newReceiver 8191 100 0 3 0 THREADED (\<lambda>_. 0) al)"

lemma default_receiver_new: "newReceiver 8191 100 0 3 0 THREADED (\<lambda>_. 0) al = Inr (default_receiver al)"
  by (simp add: default_receiver_def newReceiver_def)

lemma default_receiver_inv: "recv_inv (default_receiver al)" "ledger (default_receiver al)"
  using default_receiver_new [of al] by (auto intro: recv_inv_new ledger_new)

text \<open>Three packets of one superframe: an empty Type2, a short Type3 and a Type1.\<close>

definition gap_packets :: "(bytes \<times> u8) list" where
  "gap_packets =
    [(enc_type2 \<lparr>t2_mFrameType = makeFrameTypeByte TYPE2 0, t2_mStreamId = 1, t2_mPayloadType = 0, t2_mSizeOfData = 0,
        t2_mSuperFrameNo = 0, t2_mOfFragmentNo = 2, t2_mType1PacketSize = 4, t2_mPts = 0, t2_mDtsPtsDiff = 0,
        t2_mPayloadCode = 0\<rparr>, 0),
     (enc_type3 \<lparr>t3_mFrameType = makeFrameTypeByte TYPE3 0, t3_mStreamId = 1, t3_mSuperFrameNo = 0,
        t3_mType1PacketSize = 4, t3_mOfFragmentNo = 2\<rparr> @ [9], 0),
     (enc_type1 \<lparr>t1_mFrameType = makeFrameTypeByte TYPE1 0, t1_mStreamId = 1, t1_mSuperFrameNo = 0, t1_mFragmentNo = 0,
        t1_mOfFragmentNo = 2\<rparr> @ [1, 2, 3, 4], 0)]"

lemma hd_packets:
  "hd (enc_type1 h1 @ xs) = t1_mFrameType h1" "hd (enc_type2 h2 @ xs) = t2_mFrameType h2" "hd (enc_type2 h2) = t2_mFrameType h2"
  "hd (enc_type3 h3 @ xs) = t3_mFrameType h3" "enc_type1 h1 \<noteq> []" "enc_type2 h2 \<noteq> []" "enc_type3 h3 \<noteq> []"
  by (simp_all add: enc_defs)

lemmas header_eval = hd_packets type1.dec_enc_id type2.dec_enc_id type3.dec_enc_id type1.dec_enc type2.dec_enc type3.dec_enc
  type1.length_enc type2.length_enc type3.length_enc mem_simps named_type_def

lemmas receiver_eval = default_receiver_def newReceiver_def receive_def dispatch_def r_nowUs_def nowUs_def updateJitter_def
  recalculateSuperFrameNo_def bucketIndex_def openBucket_def allocSuperFrame_def newSuperFrame_def
  count_received_def set_bucket_def bit_get_def bit_set_def sf_write_def timeoutUs_def emptyBucket_def cache_stream_def
  handleType1_def handleType1_open_def handleType1_existing_def handleType2_def handleType2_open_def handleType3_def
  handleType3_existing_def type3_relocate_def mem_write_def word_le_nat_alt word_less_nat_alt zeroReceiverStatistics_def Let_def

lemmas delivery_eval = workerTick_def processTimeouts_def processNacks_def nack_bucket_def to_deliver_def deliverFrame_def
  finishedFrame_def hand_over_def count_delivered_def bucket_complete_def

definition gap_receiver :: Receiver where
  "gap_receiver = the (run_ops receiver_step (arrivals gap_packets) (default_receiver (\<lambda>_. True)))"

lemma gap_receiver_run: "run_ops receiver_step (arrivals gap_packets) (default_receiver (\<lambda>_. True)) = Some gap_receiver"
  using receiver.run_safe [OF default_receiver_inv(1) [of "\<lambda>_. True"], of "arrivals gap_packets"]
  by (auto simp: gap_receiver_def)

lemma gap_receiver_inv: "recv_inv gap_receiver" "ledger gap_receiver"
proof -
  have "run_inv (default_receiver (\<lambda>_. True))" by (simp add: run_inv_def default_receiver_inv)
  from run.run_safe [OF this, of "arrivals gap_packets"] gap_receiver_run show "recv_inv gap_receiver" "ledger gap_receiver"
    by (auto simp: run_inv_def)
qed

lemma gap_receiver_eval:
  "r_mpBuckets gap_receiver 0 = emptyBucket\<lparr>b_mActive := True, b_mPayloadCode := 0, b_mTimeoutUs := 100000,
     b_mFragmentCount := 3, b_mOfFragmentNo := 2, b_mDeliveryOrder := 0, b_mFragmentSize := 4, b_mType3Size := 1,
     b_mPts := 0, b_mDts := 0, b_mStreamId := 1, b_mReceivedFragments := {0, 1, 2},
     b_mpFrame := Some ((newSuperFrame 8 True)\<lparr>sf_mpData := Some (map Some [1, 2, 3, 4, 9] @ replicate 3 None)\<rparr>)\<rparr>"
  "r_mBucketMap gap_receiver = [(0, 0)]" "r_mRunning gap_receiver" "r_mMode gap_receiver = THREADED"
  "r_clock gap_receiver = (\<lambda>_. 0)" "r_mHolTimeoutMs gap_receiver = 0" "r_mDeliveryQueue gap_receiver = []"
  by (simp_all add: gap_receiver_def gap_packets_def arrivals_def header_eval receiver_eval type2_dts_def)


text \<open>
  The jitter estimate moves towards the observed deviation and never past it, so it stays between
  the smallest and the largest of them.
\<close>

lemma jitter_moves_towards_deviation:
  "min (r_mJitterUs r) (deviation t r) \<le> r_mJitterUs (updateJitter t r) \<and>
   r_mJitterUs (updateJitter t r) \<le> max (r_mJitterUs r) (deviation t r)"
  using average_between [of 16 "r_mJitterUs r" "deviation t r"] by (simp add: updateJitter_jitter)

section \<open>Complete and due buckets\<close>

text \<open>The count of fragments says whether all fragments have been received.\<close>

lemma complete_iff:
  assumes "bucket_ok m idx b"
  shows "bucket_complete b \<longleftrightarrow> b_mReceivedFragments b = {..unat (b_mOfFragmentNo b)}"
proof -
  have b: "b_mReceivedFragments b \<subseteq> {..unat (b_mOfFragmentNo b)}" "unat (b_mFragmentCount b) = card (b_mReceivedFragments b)"
    using assms by (auto simp: bucket_ok_def layout_def)
  show ?thesis
  proof
    assume "bucket_complete b"
    then have "card (b_mReceivedFragments b) = card {..unat (b_mOfFragmentNo b)}" using b(2) by (simp add: bucket_complete_def)
    with card_subset_eq [OF finite_atMost b(1)] show "b_mReceivedFragments b = {..unat (b_mOfFragmentNo b)}" .
  next
    assume "b_mReceivedFragments b = {..unat (b_mOfFragmentNo b)}"
    then show "bucket_complete b" using b(2) by (simp add: bucket_complete_def)
  qed
qed

text \<open>The open buckets a turn at time \<open>t\<close> hands over, and the frames it calls broken.\<close>

lemma due_buckets:
  assumes "recv_inv r"
  shows "idx \<in> set (due r) \<longleftrightarrow> (let b = r_mpBuckets r idx; t = r_clock r 0 in b_mActive b \<and>
      (b_mReceivedFragments b = {..unat (b_mOfFragmentNo b)} \<or> b_mTimeoutUs b \<le> t \<or>
       0 < r_mHolTimeoutMs r \<and> uint (r_mHolTimeoutMs r) * 1000 \<le> t - b_mFirstArrivalUs b))"
proof (cases "b_mActive (r_mpBuckets r idx)")
  case True
  then show ?thesis
    by (simp add: due_facts(1) [OF assms] to_deliver_def complete_iff [OF recv_invD(1) [OF assms True]] Let_def)
qed (simp add: due_facts(1) [OF assms])

lemma due_broken:
  assumes "recv_inv r" "idx \<in> set (due r)"
  shows "sf_mBroken (ready_frame r idx) \<longleftrightarrow>
    b_mReceivedFragments (r_mpBuckets r idx) \<noteq> {..unat (b_mOfFragmentNo (r_mpBuckets r idx))}"
proof -
  have "b_mActive (r_mpBuckets r idx)" using due_facts(1) [OF assms(1)] assms(2) by simp
  from complete_iff [OF recv_invD(1) [OF assms(1) this]] show ?thesis by (simp add: ready_frame_def finishedFrame_def)
qed

text \<open>
  An incomplete frame holds up no other one, with or without a head-of-line timeout: a complete bucket is
  handed over although an earlier one is still open.
\<close>

lemma incomplete_frame_blocks_nothing:
  assumes "recv_inv r" "b_mActive (r_mpBuckets r i)" "i \<notin> set (due r)" "b_mActive (r_mpBuckets r j)"
    and "b_mDeliveryOrder (r_mpBuckets r i) < b_mDeliveryOrder (r_mpBuckets r j)"
    and "b_mReceivedFragments (r_mpBuckets r j) = {..unat (b_mOfFragmentNo (r_mpBuckets r j))}"
  shows "\<exists>s. processTimeouts r = Some s \<and> b_mActive (r_mpBuckets s i) \<and> \<not> b_mActive (r_mpBuckets s j) \<and>
    ready_frame r j \<in> set (handed s)"
proof -
  from processTimeouts_spec [OF assms(1)] obtain s where s: "processTimeouts r = Some s"
    "hands_over r s (map (ready_frame r) (due r))"
    "\<And>i. if i \<in> set (due r) then \<not> b_mActive (r_mpBuckets s i) \<and> b_mDeliveryOrder (r_mpBuckets s i) = b_mDeliveryOrder (r_mpBuckets r i)
         else without_nack (r_mpBuckets s i) = without_nack (r_mpBuckets r i)" by auto
  have "j \<in> set (due r)" using due_buckets [OF assms(1)] assms(4,6) by (simp add: Let_def)
  moreover from this s(2) have "ready_frame r j \<in> set (handed s)" by (auto simp: hands_over_def handed_def split: if_splits)
  moreover have "b_mActive (r_mpBuckets s i)" using s(3) [of i] assms(2,3) without_nack_fields(1) by metis
  ultimately show ?thesis using s(1) s(3) [of j] by auto
qed

section \<open>Properties\<close>

text \<open>
  C5. Whatever packets arrive and whichever operations are called, no operation of a receiver reads or
  writes outside a packet, a frame buffer or the fragment bitset; \<open>pendingCount\<close> is the number of open
  buckets and every frame handed over announces no more bytes than its buffer has. (With more than 64
  NACK retries the shift of the NACK delay becomes undefined, which is shown below.)
\<close>

theorem receiver_runs_safely:
  assumes "newReceiver n tmo hol retries iv mode clk alloc = Inr r" "retries \<le> 64"
  shows "\<exists>s. run_ops receiver_step ops r = Some s \<and> pendingCount s = card {idx. b_mActive (r_mpBuckets s idx)} \<and>
    list_all frame_fits (handed s)"
  using receiver.run_safe [OF recv_inv_new [OF assms], of ops] by (auto simp: pendingCount_buckets handed_def recv_inv_def)

text \<open>
  C19. In every run the deadline of an open bucket is one timeout after its first fragment, it has been
  NACKed at most \<open>mMaxNackRetries\<close> times, the jitter estimate is not negative, and the counters of
  complete and broken frames count the frames handed over.
\<close>

theorem receiver_run_invariant:
  assumes "newReceiver n tmo hol retries iv mode clk alloc = Inr r" "retries \<le> 64" "run_ops receiver_step ops r = Some s"
  shows "(\<forall>idx. b_mActive (r_mpBuckets s idx) \<longrightarrow> b_mNackCount (r_mpBuckets s idx) \<le> r_mMaxNackRetries s \<and>
      b_mTimeoutUs (r_mpBuckets s idx) = b_mFirstArrivalUs (r_mpBuckets s idx) + uint (r_mTimeoutMs s * 1000)) \<and>
    0 \<le> r_mJitterUs s \<and>
    rs_mCompleteFrames (r_mStatistics s) = word_of_nat (length (filter (\<lambda>f. \<not> sf_mBroken f) (handed s))) \<and>
    rs_mBrokenFrames (r_mStatistics s) = word_of_nat (length (filter sf_mBroken (handed s)))"
proof -
  have "run_inv r" using recv_inv_new [OF assms(1,2)] ledger_new [OF assms(1)] by (simp add: run_inv_def)
  from run.run_safe [OF this, of ops] assms(3) have "ledger s" by (simp add: run_inv_def)
  then show ?thesis by (simp add: ledger_def counted_def times_ok_def)
qed

text \<open>
  C6. The data of a receiver keep their shape in every run: an open bucket lies in the slot of its
  superframe number and agrees with its delivery order, its fragment count is the number of fragments
  marked as received, so it counts as complete exactly when all are; its frame has room for the
  announced size and for every full fragment before the last; and the bucket map has exactly the open
  buckets, sorted by delivery order.
\<close>

theorem receiver_data_well_formed:
  assumes "newReceiver n tmo hol retries iv mode clk alloc = Inr r" "retries \<le> 64" "run_ops receiver_step ops r = Some s"
  shows "(\<forall>idx b. b = r_mpBuckets s idx \<and> b_mActive b \<longrightarrow>
      idx = b_mSavedFrameNo b AND r_BUFFER_SIZE s \<and> word_of_int (b_mDeliveryOrder b) = b_mSavedFrameNo b \<and>
      unat (b_mOfFragmentNo b) < 8192 \<and> b_mReceivedFragments b \<subseteq> {..unat (b_mOfFragmentNo b)} \<and>
      unat (b_mFragmentCount b) = card (b_mReceivedFragments b) \<and>
      (bucket_complete b \<longleftrightarrow> b_mReceivedFragments b = {..unat (b_mOfFragmentNo b)}) \<and>
      (\<exists>f m. b_mpFrame b = Some f \<and> sf_mpData f = Some m \<and> sf_mSize f \<le> length m \<and>
        b_mFragmentSize b * unat (b_mOfFragmentNo b) \<le> length m \<and> length m \<le> MAX_SUPERFRAME_SIZE)) \<and>
    sorted_wrt (<) (map fst (r_mBucketMap s)) \<and>
    (\<forall>lOrder idx. (lOrder, idx) \<in> set (r_mBucketMap s) \<longleftrightarrow>
      b_mActive (r_mpBuckets s idx) \<and> b_mDeliveryOrder (r_mpBuckets s idx) = lOrder)"
proof -
  from receiver.run_safe [OF recv_inv_new [OF assms(1,2)], of ops] assms(3) have inv: "recv_inv s" by simp
  have bucket: "bucket_ok (r_BUFFER_SIZE s) idx (r_mpBuckets s idx)" if "b_mActive (r_mpBuckets s idx)" for idx
    using inv that by (simp add: recv_inv_def)
  have map: "om_wf (r_mBucketMap s)" "map_of (r_mBucketMap s) lOrder = Some idx \<longleftrightarrow>
      b_mActive (r_mpBuckets s idx) \<and> b_mDeliveryOrder (r_mpBuckets s idx) = lOrder" for lOrder idx
    using inv by (simp_all add: recv_inv_def map_ok_def)
  have dist: "distinct (map fst (r_mBucketMap s))" using map(1) by (simp add: om_wf_def strict_sorted_iff)
  show ?thesis
  proof (intro conjI allI impI)
    show "sorted_wrt (<) (map fst (r_mBucketMap s))" using map(1) by (simp add: om_wf_def)
    show "(lOrder, idx) \<in> set (r_mBucketMap s) \<longleftrightarrow> b_mActive (r_mpBuckets s idx) \<and> b_mDeliveryOrder (r_mpBuckets s idx) = lOrder" for lOrder idx
      using map(2) [of lOrder idx] dist by (simp add: map_of_eq_Some_iff)
  next
    fix idx b assume "b = r_mpBuckets s idx \<and> b_mActive b"
    then have b: "bucket_ok (r_BUFFER_SIZE s) idx b" using bucket by blast
    then show "idx = b_mSavedFrameNo b AND r_BUFFER_SIZE s" "word_of_int (b_mDeliveryOrder b) = b_mSavedFrameNo b"
      "unat (b_mOfFragmentNo b) < 8192" "b_mReceivedFragments b \<subseteq> {..unat (b_mOfFragmentNo b)}"
      "unat (b_mFragmentCount b) = card (b_mReceivedFragments b)"
      by (auto simp: bucket_ok_def layout_def)
    from b show "bucket_complete b \<longleftrightarrow> b_mReceivedFragments b = {..unat (b_mOfFragmentNo b)}" by (rule complete_iff)
    from b show "\<exists>f m. b_mpFrame b = Some f \<and> sf_mpData f = Some m \<and> sf_mSize f \<le> length m \<and>
        b_mFragmentSize b * unat (b_mOfFragmentNo b) \<le> length m \<and> length m \<le> MAX_SUPERFRAME_SIZE"
      by (auto simp: bucket_ok_def layout_def)
  qed
qed

text \<open>
  C15. \<open>processTimeouts\<close> hands over the frames of exactly these open buckets: those whose fragments have all
  arrived, those past their deadline, and, with a head-of-line timeout, those whose first fragment is that
  old. Each is handed over once and in delivery order, and marked as broken exactly when a fragment is
  missing; every other bucket keeps its state up to its NACK fields. No other bucket plays a role: an
  incomplete frame never holds up a later one, and the head-of-line timeout applies to frames that hold
  up nothing.
\<close>

theorem timeouts_deliver_due:
  assumes "recv_inv r" "processTimeouts r = Some s"
  shows "hands_over r s (map (ready_frame r) (due r)) \<and>
    (\<forall>idx. idx \<in> set (due r) \<longleftrightarrow> (let b = r_mpBuckets r idx; t = r_clock r 0 in b_mActive b \<and>
      (b_mReceivedFragments b = {..unat (b_mOfFragmentNo b)} \<or> b_mTimeoutUs b \<le> t \<or>
       0 < r_mHolTimeoutMs r \<and> uint (r_mHolTimeoutMs r) * 1000 \<le> t - b_mFirstArrivalUs b))) \<and>
    distinct (due r) \<and> sorted (map (\<lambda>idx. b_mDeliveryOrder (r_mpBuckets r idx)) (due r)) \<and>
    (\<forall>i. if i \<in> set (due r) then \<not> b_mActive (r_mpBuckets s i) \<and>
           (sf_mBroken (ready_frame r i) \<longleftrightarrow> b_mReceivedFragments (r_mpBuckets r i) \<noteq> {..unat (b_mOfFragmentNo (r_mpBuckets r i))})
         else without_nack (r_mpBuckets s i) = without_nack (r_mpBuckets r i))"
proof -
  from processTimeouts_spec [OF assms(1)] assms(2) have "hands_over r s (map (ready_frame r) (due r))"
    "\<forall>i. if i \<in> set (due r) then \<not> b_mActive (r_mpBuckets s i)
         else without_nack (r_mpBuckets s i) = without_nack (r_mpBuckets r i)" by (auto split: if_splits)
  with due_facts(2,3) [OF assms(1)] due_buckets [OF assms(1)] due_broken [OF assms(1)] show ?thesis by simp
qed

text \<open>
  C27. No frame waits forever: once the clock has passed the first arrival of every open bucket by the
  timeout, a turn of the worker leaves no bucket open.
\<close>

theorem worker_drains_overdue:
  assumes "recv_inv r" "ledger r" "r_mRunning r"
    and "list_all (\<lambda>(n, idx). b_mFirstArrivalUs (r_mpBuckets r idx) + uint (r_mTimeoutMs r * 1000) \<le> r_clock r 0) (r_mBucketMap r)"
  shows "\<exists>s. workerTick r = Some s \<and> pendingCount s = 0"
proof -
  have "b_mFirstArrivalUs (r_mpBuckets r idx) + uint (r_mTimeoutMs r * 1000) \<le> r_clock r 0" if "b_mActive (r_mpBuckets r idx)" for idx
    using assms(4) map_ok_entries(3) [OF recv_invD(2) [OF assms(1)]] that by (fastforce simp: list_all_iff)
  from worker_drains [OF assms(1-3) this] show ?thesis .
qed


text \<open>
  C29. Superframe numbers whose distance from one to the next fits 16 signed bits are unwrapped exactly:
  the delivery orders of the received 16-bit numbers differ as the numbers themselves do.
\<close>

theorem superframe_numbers_unwrap:
  assumes "r_mFirstFrame r" "successively near (n # ns)"
  shows "unwrap (map word_of_int (n # ns)) r = map (\<lambda>m. m - n + n mod 65536) (n # ns)"
proof -
  let ?sf = "word_of_int n :: u16"
  have u: "uint ?sf = n mod 65536" by (simp add: uint_word_of_int)
  let ?r = "r\<lparr>r_mOldFrameNo := ?sf, r_mFrameNoRecalc := uint ?sf, r_mFirstFrame := False\<rparr>"
  have "unwrap (map word_of_int ns) ?r = map (\<lambda>m. m + (n mod 65536 - n)) ns"
    using assms(2) by (intro unwrap_next [of ?r n]) (simp_all add: u)
  with assms(1) show ?thesis by (simp add: recalculateSuperFrameNo_def u)
qed

text \<open>
  The constructor refuses exactly the head-of-line timeouts that are not below the frame timeout and
  the NACK budgets that, in 32 bits, are not below it.
\<close>

lemma constructor_checks_timing:
  "(newReceiver n tmo hol retries iv mode clk alloc = Inl HOL_TIMEOUT_NOT_LESS \<longleftrightarrow> 0 < unat hol \<and> unat tmo \<le> unat hol) \<and>
   (newReceiver n tmo hol retries iv mode clk alloc = Inl NACK_BUDGET_NOT_LESS \<longleftrightarrow>
      \<not> (0 < unat hol \<and> unat tmo \<le> unat hol) \<and> 0 < unat retries \<and> 0 < unat iv \<and>
      unat tmo \<le> unat iv * unat retries mod 4294967296)"
proof -
  have c: "unat (ucast retries :: u32) = unat retries"
    using unat_bounds(1) [of retries] by (simp add: unsigned_ucast_eq take_bit_eq_mod)
  have "unat (iv * ucast retries :: u32) = unat iv * unat retries mod 4294967296"
    by (simp add: unat_word_ariths c)
  then show ?thesis by (auto simp: newReceiver_def word_le_nat_alt word_less_nat_alt)
qed


section \<open>Witnesses\<close>

theorem receiver_runs_safely_witness:
  "\<exists>s. run_ops receiver_step (arrivals gap_packets @ [Stop]) (default_receiver (\<lambda>_. True)) = Some s \<and>
     pendingCount s = card {idx. b_mActive (r_mpBuckets s idx)}"
  using receiver_runs_safely [OF default_receiver_new, of "arrivals gap_packets @ [Stop]" "\<lambda>_. True"] by auto

theorem receiver_run_invariant_witness:
  "b_mTimeoutUs (r_mpBuckets gap_receiver 0) = 100000 \<and> 0 \<le> r_mJitterUs gap_receiver \<and>
     rs_mCompleteFrames (r_mStatistics gap_receiver) = 0"
  using receiver_run_invariant [OF default_receiver_new _ gap_receiver_run]
  by (simp add: gap_receiver_eval emptyBucket_def handed_def)
    (simp add: gap_receiver_def gap_packets_def arrivals_def header_eval receiver_eval)

theorem receiver_data_well_formed_witness:
  "b_mActive (r_mpBuckets gap_receiver 0) \<and> (b_mDeliveryOrder (r_mpBuckets gap_receiver 0), 0) \<in> set (r_mBucketMap gap_receiver) \<and>
     unat (b_mFragmentCount (r_mpBuckets gap_receiver 0)) = card (b_mReceivedFragments (r_mpBuckets gap_receiver 0))"
proof -
  have "b_mActive (r_mpBuckets gap_receiver 0)" by (simp add: gap_receiver_eval emptyBucket_def)
  with receiver_data_well_formed [OF default_receiver_new _ gap_receiver_run] show ?thesis by simp
qed

theorem timeouts_deliver_due_witness:
  "\<exists>s. processTimeouts gap_receiver = Some s \<and> hands_over gap_receiver s [ready_frame gap_receiver 0] \<and>
     \<not> b_mActive (r_mpBuckets s 0)"
proof -
  have "due gap_receiver = [0]"
    by (simp add: due_def gap_receiver_eval to_deliver_def bucket_complete_def emptyBucket_def)
  moreover from processTimeouts_spec [OF gap_receiver_inv(1)] obtain s where "processTimeouts gap_receiver = Some s" by blast
  ultimately show ?thesis using timeouts_deliver_due [OF gap_receiver_inv(1)] by (fastforce split: if_splits)
qed

theorem worker_drains_overdue_witness:
  "\<exists>s. workerTick (gap_receiver\<lparr>r_clock := \<lambda>_. 200000\<rparr>) = Some s \<and> pendingCount s = 0"
  by (rule worker_drains_overdue) (simp_all add: gap_receiver_inv gap_receiver_eval emptyBucket_def,
      simp add: gap_receiver_def gap_packets_def arrivals_def header_eval receiver_eval)


theorem superframe_numbers_unwrap_witness:
  "unwrap (map word_of_int [65534, 65535, 65536, 65537]) (default_receiver (\<lambda>_. True)) = [65534, 65535, 65536, 65537]"
proof -
  have "r_mFirstFrame (default_receiver (\<lambda>_. True))" by (simp add: default_receiver_def newReceiver_def)
  from superframe_numbers_unwrap [OF this, of 65534 "[65535, 65536, 65537]"] show ?thesis by (simp add: near_def del: unwrap.simps)
qed

section \<open>Where the receiver falls short\<close>

text \<open>
  Three packets that every check accepts are delivered as one complete frame of which the last three
  bytes were never written: the callback reads uninitialised memory.
\<close>

theorem complete_frame_with_unwritten_bytes:
  "\<exists>s. run_ops receiver_step (arrivals gap_packets @ [WorkerTick]) (default_receiver (\<lambda>_. True)) = Some s \<and>
     map (\<lambda>f. (sf_mBroken f, sf_mSize f, sf_contents f)) (r_mDeliveryQueue s) = [(False, 8, None)]"
proof -
  have "\<exists>s. workerTick gap_receiver = Some s \<and>
      map (\<lambda>f. (sf_mBroken f, sf_mSize f, sf_contents f)) (r_mDeliveryQueue s) = [(False, 8, None)]"
  proof -
    have "ready_frame gap_receiver 0 = finishedFrame (r_mpBuckets gap_receiver 0)
        ((newSuperFrame 8 True)\<lparr>sf_mpData := Some (map Some [1, 2, 3, 4, 9] @ replicate 3 None)\<rparr>)"
      by (simp add: ready_frame_def gap_receiver_eval(1))
    then have f: "sf_mBroken (ready_frame gap_receiver 0) = False" "sf_mSize (ready_frame gap_receiver 0) = 8"
      "sf_contents (ready_frame gap_receiver 0) = None"
      by (simp_all add: finishedFrame_def gap_receiver_eval(1) bucket_complete_def emptyBucket_def newSuperFrame_def sf_contents_def mem_load_def)
    from processTimeouts_spec [OF gap_receiver_inv(1)] obtain s where
      s: "processTimeouts gap_receiver = Some s" "hands_over gap_receiver s (map (ready_frame gap_receiver) (due gap_receiver))" by blast
    have "due gap_receiver = [0]"
      by (simp add: due_def gap_receiver_eval to_deliver_def bucket_complete_def emptyBucket_def)
    with s f show ?thesis by (auto simp: workerTick_def gap_receiver_eval hands_over_def)
  qed
  with gap_receiver_run show ?thesis by (auto simp: run_ops_append)
qed

text \<open>
  When the frame of a new superframe cannot be allocated, the slot keeps its delivery order, and
  every later fragment of that superframe is refused as too old although memory is available again.
\<close>

theorem allocation_failure_loses_superframe:
  "let d = fst (gap_packets ! 2); r = default_receiver (\<lambda>k. 0 < k) in
   \<exists>s t. receive d 0 r = Some (MEMORY_ALLOCATION_ERROR, s) \<and> r_alloc s 0 \<and> receive d 0 s = Some (FRAGMENT_TOO_OLD, t)"
  by (simp add: gap_packets_def header_eval receiver_eval MAX_SUPERFRAME_SIZE_def)

text \<open>
  The NACK budget and the frame timeout are computed in 32 bits: an interval of 2^31 ms with two
  retries passes the constructor for a timeout of 100 ms, and a timeout of 4294968 ms becomes 704 us.
\<close>

theorem timing_wraps:
  "(\<exists>r. newReceiver n 100 0 2 0x80000000 mode clk alloc = Inr r) \<and>
   (\<exists>r. newReceiver n 4294968 0 3 0 mode clk alloc = Inr r \<and> timeoutUs t r = t + 704)"
  by (simp add: newReceiver_def timeoutUs_def)

text \<open>
  With more than 64 retries configured the backoff shifts by the width of the integer, which is
  undefined; a shift of 48 already turns the delay of the default receiver negative.
\<close>

theorem nack_backoff_overflows:
  "calculateNackDelayUs (emptyBucket\<lparr>b_mNackCount := 64\<rparr>) (default_receiver al) = None \<and>
   (\<exists>v r. calculateNackDelayUs (emptyBucket\<lparr>b_mNackCount := 48\<rparr>) (default_receiver al) = Some (v, r) \<and> v < 0)"
  by (simp add: calculateNackDelayUs_def shl64_def nackBaseDelayUs_def default_receiver_def newReceiver_def emptyBucket_def
      r_nowUs_def nowUs_def Let_def)

end
