(* ===== verification/Efp_Unread.thy ===== *)
theory Efp_Unread
  imports Efp_Arrivals
begin

text \<open>
  What the packet handlers do not look at. The locale \<open>unread\<close> is the interface between the handlers and
  the parts of a receiver that only delivery uses: an update \<open>U\<close> that commutes with every field the
  handlers read and write commutes with the handlers, with NACK processing and with the scan for
  timeouts. Instances are another delivery queue (\<open>Efp_Requeue\<close>) and another mode (\<open>Efp_Modes\<close>).
\<close>

named_theorems unread_simps \<open>an unread update commutes with the operations\<close>

text \<open>Plumbing of results.\<close>

lemma map_bind [unread_simps]: "map_option g (m \<bind> f) = m \<bind> (\<lambda>x. map_option g (f x))"
  by (cases m) simp_all

lemma bind_map [unread_simps]: "map_option g m \<bind> f = m \<bind> (\<lambda>x. f (g x))"
  by (cases m) simp_all

lemmas [unread_simps] = Let_def case_prod_beta option.case_distrib [where h = "map_option g" for g] if_distrib [where f = "map_option g" for g]

locale unread =
  fixes U :: "Receiver \<Rightarrow> Receiver"
  assumes reads [simp]:
      "r_BUFFER_SIZE (U r) = r_BUFFER_SIZE r" "r_mTimeoutMs (U r) = r_mTimeoutMs r" "r_mHolTimeoutMs (U r) = r_mHolTimeoutMs r"
      "r_mMaxNackRetries (U r) = r_mMaxNackRetries r" "r_mNackIntervalMs (U r) = r_mNackIntervalMs r"
      "r_mpBuckets (U r) = r_mpBuckets r" "r_mBucketMap (U r) = r_mBucketMap r" "r_mStreams (U r) = r_mStreams r"
      "r_mOldFrameNo (U r) = r_mOldFrameNo r" "r_mFrameNoRecalc (U r) = r_mFrameNoRecalc r" "r_mFirstFrame (U r) = r_mFirstFrame r"
      "r_mJitterUs (U r) = r_mJitterUs r" "r_mLastArrivalUs (U r) = r_mLastArrivalUs r" "r_mExpectedIntervalUs (U r) = r_mExpectedIntervalUs r"
      "r_mStatistics (U r) = r_mStatistics r" "r_clock (U r) = r_clock r" "r_alloc (U r) = r_alloc r" "r_nacks (U r) = r_nacks r"
    and writes [unread_simps]:
      "(U r)\<lparr>r_mpBuckets := bs\<rparr> = U (r\<lparr>r_mpBuckets := bs\<rparr>)" "(U r)\<lparr>r_mBucketMap := m\<rparr> = U (r\<lparr>r_mBucketMap := m\<rparr>)"
      "(U r)\<lparr>r_mStreams := st\<rparr> = U (r\<lparr>r_mStreams := st\<rparr>)" "(U r)\<lparr>r_mOldFrameNo := i\<rparr> = U (r\<lparr>r_mOldFrameNo := i\<rparr>)"
      "(U r)\<lparr>r_mFrameNoRecalc := j\<rparr> = U (r\<lparr>r_mFrameNoRecalc := j\<rparr>)" "(U r)\<lparr>r_mFirstFrame := x\<rparr> = U (r\<lparr>r_mFirstFrame := x\<rparr>)"
      "(U r)\<lparr>r_mJitterUs := j\<rparr> = U (r\<lparr>r_mJitterUs := j\<rparr>)" "(U r)\<lparr>r_mLastArrivalUs := j\<rparr> = U (r\<lparr>r_mLastArrivalUs := j\<rparr>)"
      "(U r)\<lparr>r_mExpectedIntervalUs := j\<rparr> = U (r\<lparr>r_mExpectedIntervalUs := j\<rparr>)"
      "(U r)\<lparr>r_mStatistics := s\<rparr> = U (r\<lparr>r_mStatistics := s\<rparr>)" "(U r)\<lparr>r_clock := c\<rparr> = U (r\<lparr>r_clock := c\<rparr>)"
      "(U r)\<lparr>r_alloc := al\<rparr> = U (r\<lparr>r_alloc := al\<rparr>)" "(U r)\<lparr>r_nacks := ns\<rparr> = U (r\<lparr>r_nacks := ns\<rparr>)"
begin

lemma derived [simp]:
  "bucketIndex sf (U r) = bucketIndex sf r" "timeoutUs t (U r) = timeoutUs t r" "nackBaseDelayUs (U r) = nackBaseDelayUs r"
  "to_deliver t (U r) = to_deliver t r" "ready_frame (U r) = ready_frame r"
  by (simp_all add: bucketIndex_def timeoutUs_def nackBaseDelayUs_def to_deliver_def ready_frame_def fun_eq_iff)

lemma parts [unread_simps]:
  "count_received (U r) = U (count_received r)" "count_duplicate (U r) = U (count_duplicate r)"
  "count_delivered y (U r) = U (count_delivered y r)" "cache_stream h (U r) = U (cache_stream h r)"
  "set_bucket i k (U r) = U (set_bucket i k r)" "updateJitter t (U r) = U (updateJitter t r)"
  "recalculateSuperFrameNo sf (U r) = map_prod id U (recalculateSuperFrameNo sf r)"
  "r_nowUs (U r) = map_prod id U (r_nowUs r)" "allocSuperFrame n (U r) = map_prod id U (allocSuperFrame n r)"
  by (simp_all add: unread_simps count_received_def count_duplicate_def count_delivered_def cache_stream_def set_bucket_def
      updateJitter_def recalculateSuperFrameNo_def r_nowUs_def allocSuperFrame_def)

lemma openBucket [unread_simps]: "openBucket i b t off p (U r) = map_option (map_prod id U) (openBucket i b t off p r)"
  unfolding openBucket_def by (simp add: unread_simps cong: option.case_cong)

lemma handleType1 [unread_simps]: "handleType1 x src (U r) = map_option (map_prod id U) (handleType1 x src r)"
  unfolding handleType1_def handleType1_open_def handleType1_existing_def by (simp add: unread_simps cong: if_cong)

lemma handleType2 [unread_simps]: "handleType2 x src (U r) = map_option (map_prod id U) (handleType2 x src r)"
  unfolding handleType2_def handleType2_open_def handleType2_existing_def by (simp add: unread_simps cong: if_cong)

lemma handleType3 [unread_simps]: "handleType3 x src (U r) = map_option (map_prod id U) (handleType3 x src r)"
  unfolding handleType3_def handleType3_open_def handleType3_existing_def by (simp add: unread_simps cong: if_cong)

lemma type4_loop [unread_simps]: "type4_loop x z src n off (U r) = map_option (map_prod id U) (type4_loop x z src n off r)"
  by (induction n arbitrary: off r) (simp_all add: unread_simps map_prod_def cong: if_cong)

lemma dispatch [unread_simps]: "dispatch x src (U r) = map_option (map_prod id U) (dispatch x src r)"
  unfolding dispatch_def handleType4_def handleType0_def by (cases "getFrameType (hd x)") (simp_all add: unread_simps cong: if_cong)

text \<open>NACKs and the scan.\<close>

lemma nack_bucket [unread_simps]: "nack_bucket t i (U r) = map_option U (nack_bucket t i r)"
  unfolding nack_bucket_def calculateNackDelayUs_def by (simp add: unread_simps cong: if_cong)

lemma nack_loop [unread_simps]: "nack_loop t m (U r) = map_option U (nack_loop t m r)"
  by (induction m arbitrary: r) (auto simp: unread_simps)

lemma processNacks [unread_simps]: "processNacks (U r) = map_option U (processNacks r)"
  unfolding processNacks_def by (simp add: unread_simps)

end

end
