(* ===== verification/Efp_Requeue.thy ===== *)
theory Efp_Requeue
  imports Efp_Unread
begin

text \<open>
  The receiver does not look at the frames it has handed over: with another delivery queue and another
  log of callbacks, every operation on packets and timeouts does the same. This is what lets the turns
  of the delivery thread move past the steps of the other threads.
\<close>

definition requeue :: "SuperFrame list \<Rightarrow> bool \<Rightarrow> SuperFrame list \<Rightarrow> Receiver \<Rightarrow> Receiver" where
  "requeue q b d r = r\<lparr>r_mDeliveryQueue := q, r_mDeliveryReady := b, r_delivered := d\<rparr>"

interpretation rq: unread "requeue q b d" for q b d
  by unfold_locales (simp_all add: requeue_def)

lemma requeue_read [simp]:
  "r_mDeliveryQueue (requeue q b d r) = q" "r_mDeliveryReady (requeue q b d r) = b" "r_delivered (requeue q b d r) = d"
  "r_mMode (requeue q b d r) = r_mMode r" "r_mRunning (requeue q b d r) = r_mRunning r"
  by (simp_all add: requeue_def)

lemma requeue_running: "(requeue q b d r)\<lparr>r_mRunning := u\<rparr> = requeue q b d (r\<lparr>r_mRunning := u\<rparr>)"
  by (simp add: requeue_def)

lemma requeue_id: "requeue (r_mDeliveryQueue r) (r_mDeliveryReady r) (r_delivered r) r = r"
  by (simp add: requeue_def)

lemma requeue_twice [simp]: "requeue q b d (requeue q' b' d' r) = requeue q b d r"
  by (simp add: requeue_def)

lemma receive_requeue:
  assumes "r_mMode r = THREADED"
  shows "receive x src (requeue q b d r) = map_option (map_prod id (requeue q b d)) (receive x src r)"
proof (cases "x = [] \<or> \<not> named_type (getFrameType (hd x))")
  case False
  show ?thesis
  proof (cases "dispatch x src r")
    case (Some y)
    with same_world_dispatch [of x src r "fst y" "snd y"] assms have "r_mMode (snd y) = THREADED" by (simp add: same_world_def)
    with False Some assms show ?thesis by (simp add: receive_def rq.dispatch case_prod_beta map_prod_def)
  qed (use False in \<open>simp add: receive_def rq.dispatch\<close>)
qed (auto simp: receive_def)

text \<open>The delivery loop.\<close>

lemma deliverFrame_requeue:
  "r_mMode r = THREADED \<Longrightarrow> deliverFrame i (requeue q b d r) =
     map_option (requeue (q @ [ready_frame r i]) True d) (deliverFrame i r)"
  by (cases "b_mpFrame (r_mpBuckets r i)")
    (simp_all add: deliverFrame_def hand_over_def ready_frame_def count_delivered_def set_bucket_def requeue_def Let_def)

lemma deliverFrame_result:
  "r_mMode r = THREADED \<Longrightarrow> deliverFrame i r = Some s \<Longrightarrow> r_mMode s = THREADED \<and> r_mRunning s = r_mRunning r \<and>
     r_mDeliveryQueue s = r_mDeliveryQueue r @ [ready_frame r i] \<and> r_mDeliveryReady s \<and> r_delivered s = r_delivered r"
  by (auto simp: deliverFrame_def hand_over_def ready_frame_def count_delivered_def set_bucket_def Let_def split: bind_splits)

lemma deliver_loop_requeue:
  assumes "r_mMode r = THREADED" "deliver_loop js r = Some s"
  shows "\<exists>fs. length fs = length js \<and> (\<forall>q b d. deliver_loop js (requeue q b d r) = Some (requeue (q @ fs) (b \<or> js \<noteq> []) d s))"
  using assms
proof (induction js arbitrary: r)
  case (Cons j js)
  from Cons.prems(2) obtain u where u: "deliverFrame j r = Some u" "deliver_loop js u = Some s" by (auto split: bind_splits)
  have m: "r_mMode u = THREADED" using deliverFrame_result [OF Cons.prems(1) u(1)] by simp
  from Cons.IH [OF m u(2)] obtain fs where
    "length fs = length js" "deliver_loop js (requeue q b d u) = Some (requeue (q @ fs) (b \<or> js \<noteq> []) d s)" for q b d by blast
  with deliverFrame_requeue [OF Cons.prems(1)] u(1) show ?case by (intro exI [of _ "ready_frame r j # fs"]) simp
qed (intro exI [of _ "[]"], simp)

text \<open>Read off for the receiver itself.\<close>

lemma deliver_loop_frames:
  assumes "r_mMode r = THREADED" "deliver_loop js r = Some s"
  obtains fs where "length fs = length js" "\<And>q b d. deliver_loop js (requeue q b d r) = Some (requeue (q @ fs) (b \<or> js \<noteq> []) d s)"
    "s = requeue (r_mDeliveryQueue r @ fs) (r_mDeliveryReady r \<or> js \<noteq> []) (r_delivered r) s"
proof -
  from deliver_loop_requeue [OF assms] obtain fs where fs: "length fs = length js"
    "\<And>q b d. deliver_loop js (requeue q b d r) = Some (requeue (q @ fs) (b \<or> js \<noteq> []) d s)" by blast
  from fs(2) [of "r_mDeliveryQueue r" "r_mDeliveryReady r" "r_delivered r"] assms(2)
  have "s = requeue (r_mDeliveryQueue r @ fs) (r_mDeliveryReady r \<or> js \<noteq> []) (r_delivered r) s" by (simp add: requeue_id)
  with that fs show ?thesis by blast
qed

lemma deliver_loop_running: "r_mMode r = THREADED \<Longrightarrow> deliver_loop js r = Some s \<Longrightarrow> r_mRunning s = r_mRunning r"
proof (induction js arbitrary: r)
  case (Cons j js)
  from Cons.prems(2) obtain u where u: "deliverFrame j r = Some u" "deliver_loop js u = Some s" by (auto split: bind_splits)
  with Cons.IH [of u] deliverFrame_result [OF Cons.prems(1) u(1)] show ?case by simp
qed simp

end
