(* ===== verification/Efp_Modes.thy ===== *)
theory Efp_Modes
  imports Efp_Requeue Efp_ReceiverProps
begin

text \<open>
  The two modes of a receiver do the same: a receiver that runs to completion behaves like a threaded
  one whose worker gets its turn right after every packet and every call of \<open>poll\<close>, with its queue
  appended to the frames already called back.
\<close>

definition inline :: "Receiver \<Rightarrow> Receiver" where
  "inline r = r\<lparr>r_mMode := RUN_TO_COMPLETION, r_mRunning := False, r_mDeliveryQueue := [], r_mDeliveryReady := False,
     r_delivered := r_delivered r @ r_mDeliveryQueue r\<rparr>"

interpretation inline: unread inline
  by unfold_locales (simp_all add: inline_def)

definition threaded :: "Receiver \<Rightarrow> bool" where
  "threaded r \<longleftrightarrow> recv_inv r \<and> r_mMode r = THREADED \<and> r_mRunning r"

text \<open>An operation of a threaded receiver, then a turn of its worker.\<close>

fun worker_step :: "ReceiverOp \<Rightarrow> Receiver \<Rightarrow> (Result \<times> Receiver) option" where
  "worker_step (Receive d src) r = do {
     (q, u) \<leftarrow> receive d src r;
     if d = [] \<or> \<not> named_type (getFrameType (hd d)) then Some (q, u) else map_option (Pair q) (workerTick u)
   }"
| "worker_step Poll r = map_option (Pair OK) (workerTick r)"
| "worker_step _ r = Some (OK, r)"

fun inline_op :: "ReceiverOp \<Rightarrow> bool" where
  "inline_op (Receive d src) = True"
| "inline_op Poll = True"
| "inline_op _ = False"

section \<open>Delivery in the two modes\<close>

lemma deliverFrame_inline: "r_mMode r = THREADED \<Longrightarrow> deliverFrame i (inline r) = map_option inline (deliverFrame i r)"
  by (cases "b_mpFrame (r_mpBuckets r i)")
    (simp_all add: deliverFrame_def hand_over_def count_delivered_def set_bucket_def inline_def Let_def)

lemma deliver_loop_inline: "r_mMode r = THREADED \<Longrightarrow> deliver_loop js (inline r) = map_option inline (deliver_loop js r)"
proof (induction js arbitrary: r)
  case (Cons j js)
  show ?case
  proof (cases "deliverFrame j r")
    case (Some u)
    with Cons.IH [of u] deliverFrame_result [OF Cons.prems Some] show ?thesis by (simp add: deliverFrame_inline [OF Cons.prems])
  qed (simp add: deliverFrame_inline [OF Cons.prems])
qed simp

lemma deliver_loop_mode: "r_mMode r = THREADED \<Longrightarrow> deliver_loop js r = Some s \<Longrightarrow> r_mMode s = THREADED"
proof (induction js arbitrary: r)
  case (Cons j js)
  from Cons.prems(2) obtain u where u: "deliverFrame j r = Some u" "deliver_loop js u = Some s" by (auto split: bind_splits)
  with Cons.IH [of u] deliverFrame_result [OF Cons.prems(1) u(1)] show ?case by simp
qed simp

lemma processTimeouts_inline:
  assumes "threaded r"
  shows "\<exists>s. processTimeouts r = Some s \<and> threaded s \<and> processTimeouts (inline r) = Some (inline s) \<and> r_delivered s = r_delivered r"
proof -
  obtain t u where t: "r_nowUs r = (t, u)" by (cases "r_nowUs r")
  then have u: "recv_inv u" "r_mMode u = THREADED" "r_mRunning u" "r_delivered u = r_delivered r"
    using assms by (auto simp: threaded_def r_nowUs_def nowUs_def recv_inv_def)
  from processNacks_safe [OF u(1)] obtain v where v: "processNacks u = Some v" "nacked u v" by blast
  have m: "r_mMode v = THREADED" "r_mRunning v" "r_delivered v = r_delivered r" using u v(2) by (simp_all add: nacked_def)
  let ?js = "sort_key (\<lambda>idx. b_mDeliveryOrder (r_mpBuckets v idx)) (filter (\<lambda>idx. to_deliver t v (r_mpBuckets v idx)) (map snd (r_mBucketMap v)))"
  have run: "processTimeouts r = deliver_loop ?js v" by (simp add: processTimeouts_def t v(1))
  from processTimeouts_safe [of r] assms obtain s where s: "processTimeouts r = Some s" "recv_inv s" by (auto simp: threaded_def)
  obtain fs where fs: "s = requeue (r_mDeliveryQueue v @ fs) (r_mDeliveryReady v \<or> ?js \<noteq> []) (r_delivered v) s"
    by (rule deliver_loop_frames [OF m(1), of ?js s]) (use s(1) run in auto)
  have d: "r_delivered s = r_delivered v" by (subst fs) simp
  have "processTimeouts (inline r) = deliver_loop ?js (inline v)"
    by (simp add: processTimeouts_def inline.parts t inline.processNacks v(1))
  with s run deliver_loop_inline [OF m(1), of ?js] have i: "processTimeouts (inline r) = Some (inline s)" by simp
  have "r_mMode s = THREADED" using s(1) run deliver_loop_mode [OF m(1)] by simp
  moreover have "r_mRunning s" using s(1) run deliver_loop_running [OF m(1), of ?js s] m(2) by simp
  ultimately show ?thesis using s i d m(3) by (auto simp: threaded_def)
qed

lemma worker_turn: "threaded r \<Longrightarrow> workerTick r = processTimeouts r"
  by (simp add: workerTick_def threaded_def)

lemma poll_inline: "poll (inline r) = processTimeouts (inline r)"
  by (simp add: poll_def inline_def)

section \<open>Runs\<close>

lemma inline_step:
  assumes "threaded r" "inline_op x"
  shows "\<exists>q s. worker_step x r = Some (q, s) \<and> threaded s \<and> receiver_step x (inline r) = Some (q, inline s) \<and> r_delivered s = r_delivered r"
proof (cases x)
  case Poll
  with processTimeouts_inline [OF assms(1)] worker_turn [OF assms(1)] show ?thesis by (auto simp: poll_inline)
next
  case (Receive d src)
  show ?thesis
  proof (cases "d = [] \<or> \<not> named_type (getFrameType (hd d))")
    case True
    with Receive assms(1) show ?thesis by (auto simp: receive_def)
  next
    case False
    from dispatch_safe [of r d src] assms(1) obtain q u where u: "dispatch d src r = Some (q, u)" "recv_inv u"
      by (auto simp: safe_result_def threaded_def)
    have w: "same_world r u" by (rule same_world_dispatch [OF u(1)])
    with assms(1) u(2) have th: "threaded u" "r_delivered u = r_delivered r" by (auto simp: threaded_def same_world_def)
    from processTimeouts_inline [OF th(1)] obtain s where
      s: "processTimeouts u = Some s" "threaded s" "processTimeouts (inline u) = Some (inline s)" "r_delivered s = r_delivered u" by blast
    have "receive d src r = Some (q, u)" "receive d src (inline r) = Some (q, inline s)"
      using False u(1) s(3) th(1) by (simp_all add: receive_def inline.dispatch threaded_def, simp add: inline_def)
    with False Receive s th(2) worker_turn [OF th(1)] show ?thesis by simp
  qed
qed (use assms(2) in simp_all)

lemma inline_run:
  "threaded r \<Longrightarrow> list_all inline_op ops \<Longrightarrow>
   \<exists>s. run_ops worker_step ops r = Some s \<and> threaded s \<and> run_ops receiver_step ops (inline r) = Some (inline s) \<and> r_delivered s = r_delivered r"
proof (induction ops arbitrary: r)
  case (Cons x ops)
  from inline_step [of r x] Cons.prems obtain q s where
    s: "worker_step x r = Some (q, s)" "threaded s" "receiver_step x (inline r) = Some (q, inline s)" "r_delivered s = r_delivered r" by auto
  with Cons.IH [OF s(2)] Cons.prems(2) show ?case by auto
qed simp

text \<open>
  C20. Both modes of a receiver do the same: whatever packets arrive and whenever the application polls,
  a receiver that runs to completion is, up to where its frames are kept, in the state of a threaded
  receiver whose worker takes its turn after each packet and each poll. It has called back exactly the
  frames that one has queued, in that order, and answers every further operation alike.
\<close>

theorem modes_agree:
  assumes "newReceiver n tmo hol retries iv RUN_TO_COMPLETION clk alloc = Inr r" "newReceiver n tmo hol retries iv THREADED clk alloc = Inr w"
    and "retries \<le> 64" "list_all inline_op ops"
  shows "\<exists>s v. run_ops receiver_step ops r = Some s \<and> run_ops worker_step ops w = Some v \<and>
    r_delivered s = r_mDeliveryQueue v \<and> r_mDeliveryQueue s = [] \<and> r_mpBuckets s = r_mpBuckets v \<and> r_mBucketMap s = r_mBucketMap v \<and>
    r_mStatistics s = r_mStatistics v \<and> r_nacks s = r_nacks v \<and> r_clock s = r_clock v \<and>
    (\<forall>x. inline_op x \<longrightarrow> map_option fst (receiver_step x s) = map_option fst (worker_step x v))"
proof -
  have w: "threaded w" "r_delivered w = []" and r: "r = inline w"
    using recv_inv_new [OF assms(2,3)] assms(1,2) by (auto simp: newReceiver_def threaded_def inline_def split: if_splits)
  from inline_run [OF w(1) assms(4)] obtain v where
    v: "run_ops worker_step ops w = Some v" "threaded v" "run_ops receiver_step ops (inline w) = Some (inline v)" "r_delivered v = []"
    using w(2) by auto
  have "inline_op x \<longrightarrow> map_option fst (receiver_step x (inline v)) = map_option fst (worker_step x v)" for x
    using inline_step [OF v(2), of x] by auto
  moreover have "r_delivered (inline v) = r_mDeliveryQueue v" "r_mDeliveryQueue (inline v) = []" using v(4) by (simp_all add: inline_def)
  ultimately show ?thesis using v(1,3) r by (intro exI [of _ "inline v"] exI [of _ v]) simp
qed

theorem modes_agree_witness:
  "\<exists>r s v. newReceiver 8191 100 0 3 0 RUN_TO_COMPLETION (\<lambda>_. 0) (\<lambda>_. True) = Inr r \<and>
     run_ops receiver_step (arrivals gap_packets @ [Poll]) r = Some s \<and>
     run_ops worker_step (arrivals gap_packets @ [Poll]) (default_receiver (\<lambda>_. True)) = Some v \<and> r_delivered s = r_mDeliveryQueue v"
proof -
  obtain r where r: "newReceiver 8191 100 0 3 0 RUN_TO_COMPLETION (\<lambda>_. 0) (\<lambda>_. True) = Inr r" by (simp add: newReceiver_def)
  have "list_all inline_op (arrivals gap_packets @ [Poll])" by (simp add: arrivals_def gap_packets_def)
  from modes_agree [OF r default_receiver_new _ this] r show ?thesis by auto
qed

end
