(* ===== verification/Efp_Threads.thy ===== *)
theory Efp_Threads
  imports Efp_Arrivals
begin

text \<open>
  The threads of a receiver (\<^verbatim>\<open>efp.h\<close>): \<open>workerLoop\<close>, \<open>deliveryLoop\<close>, the callers of \<open>receive\<close> and a caller
  of \<open>stop\<close>, interleaved. The delivery thread holds \<open>mDeliveryMutex\<close> at several control points: the test of
  its predicate and the moment before it goes to sleep are different steps. The sections of the worker
  and of \<open>stop\<close> under that mutex do not block and are one step each, possible only while the delivery
  thread does not hold it. A thread asleep on \<open>mDeliveryCondition\<close> is woken by a notification or for no
  reason, and not by its predicate becoming true. \<open>mNetMutex\<close> is held by the worker from the scan of its
  buckets to the delivery of the last one, and by a caller throughout \<open>receive\<close>; so a caller waits while
  the worker delivers, and the delivery thread does not.
\<close>

section \<open>Control points\<close>

text \<open>
  The worker at the head of its loop, before \<open>processTimeouts\<close>, in it with the buckets left to deliver,
  or gone.
\<close>

datatype WorkerPc = W_Check | W_Lock | W_Deliver "u16 list" | W_Exit

text \<open>
  The delivery thread at the head of its loop; before it takes the mutex; with the mutex, before it tests
  its predicate; with the mutex, after a test that failed; asleep, without the mutex; woken, before it
  takes the mutex again; with the mutex, behind the wait; with the frame it took; or gone.
\<close>

datatype DeliveryPc =
    D_Check | D_Acquire | D_Test | D_Block | D_Asleep | D_Woken | D_Section | D_Call "SuperFrame option" | D_Exit

text \<open>
  A caller of \<open>stop\<close>: none yet that found the receiver running; before \<open>notify_all\<close>; before either \<open>join\<close>;
  or returned. Any other caller of \<open>stop\<close> finds \<open>mRunning\<close> false and returns at once.
\<close>

datatype StopPc = S_None | S_Notify | S_JoinWorker | S_JoinDelivery | S_Returned

record Threads =
  th_r :: Receiver
  th_worker :: WorkerPc
  th_delivery :: DeliveryPc
  th_stop :: StopPc

definition startThreads :: "Receiver \<Rightarrow> Threads" where
  "startThreads r = \<lparr>th_r = r, th_worker = W_Check, th_delivery = D_Check, th_stop = S_None\<rparr>"

text \<open>Whether the delivery thread holds \<open>mDeliveryMutex\<close>.\<close>

fun holds_mutex :: "DeliveryPc \<Rightarrow> bool" where
  "holds_mutex D_Test = True"
| "holds_mutex D_Block = True"
| "holds_mutex D_Section = True"
| "holds_mutex _ = False"

text \<open>
  \<open>notify_one\<close> and \<open>notify_all\<close> of \<open>mDeliveryCondition\<close>, on which no other thread waits. A notification
  that finds no thread asleep is lost.
\<close>

fun notify :: "DeliveryPc \<Rightarrow> DeliveryPc" where
  "notify D_Asleep = D_Woken"
| "notify p = p"

section \<open>Steps\<close>

text \<open>The first half of \<open>processTimeouts\<close>: NACKs, and the buckets to deliver.\<close>

definition scan_timeouts :: "Receiver \<Rightarrow> (u16 list \<times> Receiver) option" where
  "scan_timeouts r =
     (let (lNow, r) = r_nowUs r
      in do {
        r \<leftarrow> processNacks r;
        let lToDeliver = filter (\<lambda>idx. to_deliver lNow r (r_mpBuckets r idx)) (map snd (r_mBucketMap r));
        Some (sort_key (\<lambda>idx. b_mDeliveryOrder (r_mpBuckets r idx)) lToDeliver, r)
      })"

lemma processTimeouts_scan: "processTimeouts r = do { (js, r) \<leftarrow> scan_timeouts r; deliver_loop js r }"
  by (simp add: processTimeouts_def scan_timeouts_def Let_def split: prod.split option.split)

text \<open>What a step shows: who made it, and the frame handed over or passed to the callback.\<close>

datatype ThreadEvent =
    WorkerStep | HandOver SuperFrame | DeliveryStep | Callback SuperFrame | CallerStep | StopStep | SpuriousWakeup

definition take_front :: "SuperFrame list \<Rightarrow> Receiver \<Rightarrow> Receiver" where
  "take_front q r = r\<lparr>r_mDeliveryQueue := q, r_mDeliveryReady := (if q = [] then False else r_mDeliveryReady r)\<rparr>"

text \<open>The predicate of the wait.\<close>

definition delivery_wanted :: "Receiver \<Rightarrow> bool" where
  "delivery_wanted r \<longleftrightarrow> r_mDeliveryReady r \<or> \<not> r_mRunning r"

inductive thread_step :: "Threads \<Rightarrow> ThreadEvent \<Rightarrow> Threads \<Rightarrow> bool" where
  worker_continue: "th_worker T = W_Check \<Longrightarrow> r_mRunning (th_r T) \<Longrightarrow> thread_step T WorkerStep (T\<lparr>th_worker := W_Lock\<rparr>)"
| worker_leave: "th_worker T = W_Check \<Longrightarrow> \<not> r_mRunning (th_r T) \<Longrightarrow> thread_step T WorkerStep (T\<lparr>th_worker := W_Exit\<rparr>)"
| worker_scan: "th_worker T = W_Lock \<Longrightarrow> scan_timeouts (th_r T) = Some (js, r) \<Longrightarrow>
    thread_step T WorkerStep (T\<lparr>th_r := r, th_worker := W_Deliver js\<rparr>)"
| worker_deliver: "th_worker T = W_Deliver (j # js) \<Longrightarrow> \<not> holds_mutex (th_delivery T) \<Longrightarrow>
    deliverFrame j (th_r T) = Some r \<Longrightarrow>
    thread_step T (HandOver (ready_frame (th_r T) j))
      (T\<lparr>th_r := r, th_worker := W_Deliver js, th_delivery := notify (th_delivery T)\<rparr>)"
| worker_unlock: "th_worker T = W_Deliver [] \<Longrightarrow> thread_step T WorkerStep (T\<lparr>th_worker := W_Check\<rparr>)"
| delivery_continue: "th_delivery T = D_Check \<Longrightarrow> r_mRunning (th_r T) \<Longrightarrow> thread_step T DeliveryStep (T\<lparr>th_delivery := D_Acquire\<rparr>)"
| delivery_leave: "th_delivery T = D_Check \<Longrightarrow> \<not> r_mRunning (th_r T) \<Longrightarrow> thread_step T DeliveryStep (T\<lparr>th_delivery := D_Exit\<rparr>)"
| delivery_lock: "th_delivery T = D_Acquire \<Longrightarrow> thread_step T DeliveryStep (T\<lparr>th_delivery := D_Test\<rparr>)"
| delivery_pass: "th_delivery T = D_Test \<Longrightarrow> delivery_wanted (th_r T) \<Longrightarrow> thread_step T DeliveryStep (T\<lparr>th_delivery := D_Section\<rparr>)"
| delivery_fail: "th_delivery T = D_Test \<Longrightarrow> \<not> delivery_wanted (th_r T) \<Longrightarrow> thread_step T DeliveryStep (T\<lparr>th_delivery := D_Block\<rparr>)"
| delivery_sleep: "th_delivery T = D_Block \<Longrightarrow> thread_step T DeliveryStep (T\<lparr>th_delivery := D_Asleep\<rparr>)"
| delivery_spurious: "th_delivery T = D_Asleep \<Longrightarrow> thread_step T SpuriousWakeup (T\<lparr>th_delivery := D_Woken\<rparr>)"
| delivery_relock: "th_delivery T = D_Woken \<Longrightarrow> thread_step T DeliveryStep (T\<lparr>th_delivery := D_Test\<rparr>)"
| delivery_break: "th_delivery T = D_Section \<Longrightarrow> \<not> r_mRunning (th_r T) \<Longrightarrow> r_mDeliveryQueue (th_r T) = [] \<Longrightarrow>
    thread_step T DeliveryStep (T\<lparr>th_delivery := D_Exit\<rparr>)"
| delivery_take: "th_delivery T = D_Section \<Longrightarrow> r_mDeliveryQueue (th_r T) = f # q \<Longrightarrow>
    thread_step T DeliveryStep (T\<lparr>th_r := take_front q (th_r T), th_delivery := D_Call (Some f)\<rparr>)"
| delivery_nothing: "th_delivery T = D_Section \<Longrightarrow> r_mRunning (th_r T) \<Longrightarrow> r_mDeliveryQueue (th_r T) = [] \<Longrightarrow>
    thread_step T DeliveryStep (T\<lparr>th_r := take_front [] (th_r T), th_delivery := D_Call None\<rparr>)"
| delivery_call: "th_delivery T = D_Call (Some f) \<Longrightarrow>
    thread_step T (Callback f) (T\<lparr>th_r := (th_r T)\<lparr>r_delivered := r_delivered (th_r T) @ [f]\<rparr>, th_delivery := D_Check\<rparr>)"
| delivery_skip: "th_delivery T = D_Call None \<Longrightarrow> thread_step T DeliveryStep (T\<lparr>th_delivery := D_Check\<rparr>)"
| caller_receive: "\<forall>js. th_worker T \<noteq> W_Deliver js \<Longrightarrow> receive d src (th_r T) = Some (res, r) \<Longrightarrow>
    thread_step T CallerStep (T\<lparr>th_r := r\<rparr>)"
| caller_stop: "\<not> holds_mutex (th_delivery T) \<Longrightarrow> r_mRunning (th_r T) \<Longrightarrow>
    thread_step T CallerStep (T\<lparr>th_r := stop (th_r T), th_stop := S_Notify\<rparr>)"
| caller_stop_again: "\<not> holds_mutex (th_delivery T) \<Longrightarrow> \<not> r_mRunning (th_r T) \<Longrightarrow> thread_step T CallerStep T"
| stop_notify: "th_stop T = S_Notify \<Longrightarrow>
    thread_step T StopStep (T\<lparr>th_delivery := notify (th_delivery T), th_stop := S_JoinWorker\<rparr>)"
| stop_join_worker: "th_stop T = S_JoinWorker \<Longrightarrow> th_worker T = W_Exit \<Longrightarrow> thread_step T StopStep (T\<lparr>th_stop := S_JoinDelivery\<rparr>)"
| stop_join_delivery: "th_stop T = S_JoinDelivery \<Longrightarrow> th_delivery T = D_Exit \<Longrightarrow> thread_step T StopStep (T\<lparr>th_stop := S_Returned\<rparr>)"

inductive_cases thread_stepE: "thread_step T e U"
inductive_simps delivery_thread_simps: "thread_step T (Callback f) U"

text \<open>Interleaved runs, with their events.\<close>

inductive thread_run :: "Threads \<Rightarrow> ThreadEvent list \<Rightarrow> Threads \<Rightarrow> bool" where
  run_none: "thread_run T [] T"
| run_step: "thread_run T es U \<Longrightarrow> thread_step U e V \<Longrightarrow> thread_run T (es @ [e]) V"

fun handed_over :: "ThreadEvent list \<Rightarrow> SuperFrame list" where
  "handed_over [] = []"
| "handed_over (HandOver f # es) = f # handed_over es"
| "handed_over (_ # es) = handed_over es"

fun called_back :: "ThreadEvent list \<Rightarrow> SuperFrame list" where
  "called_back [] = []"
| "called_back (Callback f # es) = f # called_back es"
| "called_back (_ # es) = called_back es"

lemma event_append [simp]:
  "handed_over (es @ es') = handed_over es @ handed_over es'" "called_back (es @ es') = called_back es @ called_back es'"
  by (induction es rule: handed_over.induct) simp_all

end
