(* ===== verification/Efp_ThreadsInv.thy ===== *)
theory Efp_ThreadsInv
  imports Efp_Threads Efp_Requeue Efp_ReceiverProps
begin

text \<open>
  The threads of a receiver: what every interleaving preserves, the order of the frames, the work left
  after \<open>stop\<close>, and that an interleaved run does what atomic turns of the threads do.
\<close>

section \<open>The invariant\<close>

text \<open>
  The test of the delivery thread holds as long as it has the mutex, so it is asleep in spite of its
  predicate only until \<open>stop\<close> gets to its notification; and \<open>stop\<close> is past a \<open>join\<close> only when the thread
  has ended.
\<close>

definition sync_inv :: "Threads \<Rightarrow> bool" where
  "sync_inv T \<longleftrightarrow> (th_delivery T = D_Block \<longrightarrow> \<not> delivery_wanted (th_r T)) \<and>
     (th_delivery T = D_Section \<longrightarrow> delivery_wanted (th_r T)) \<and>
     (th_delivery T = D_Asleep \<and> delivery_wanted (th_r T) \<longrightarrow> th_stop T = S_Notify) \<and>
     (if r_mRunning (th_r T) then th_stop T = S_None else th_stop T \<noteq> S_None) \<and>
     (th_stop T \<in> {S_JoinDelivery, S_Returned} \<longrightarrow> th_worker T = W_Exit) \<and>
     (th_stop T = S_Returned \<longrightarrow> th_delivery T = D_Exit)"

definition thread_inv :: "Threads \<Rightarrow> bool" where
  "thread_inv T \<longleftrightarrow> recv_inv (th_r T) \<and> r_mMode (th_r T) = THREADED \<and>
     r_mDeliveryReady (th_r T) = (r_mDeliveryQueue (th_r T) \<noteq> []) \<and> th_delivery T \<noteq> D_Call None \<and>
     (\<forall>f. th_delivery T = D_Call (Some f) \<longrightarrow> frame_fits f) \<and>
     (\<forall>js. th_worker T = W_Deliver js \<longrightarrow> distinct js \<and> list_all (\<lambda>j. b_mActive (r_mpBuckets (th_r T) j)) js) \<and>
     sync_inv T"

lemma scan_spec:
  assumes "recv_inv r"
  shows "\<exists>js s. scan_timeouts r = Some (js, s) \<and> nacked r s \<and> recv_inv s \<and> distinct js \<and>
    list_all (\<lambda>j. b_mActive (r_mpBuckets s j)) js"
proof -
  obtain t u where t: "r_nowUs r = (t, u)" by (cases "r_nowUs r")
  then have u: "nacked r u" "recv_inv u" using assms recv_inv_nowUs [OF t] by (auto simp: r_nowUs_def nowUs_def nacked_def)
  from processNacks_safe [OF u(2)] obtain v where v: "processNacks u = Some v" "nacked u v" by blast
  have n: "nacked r v" using u(1) v(2) by (rule nacked_trans)
  have inv: "recv_inv v" using n assms by (rule nacked_inv)
  note M = map_ok_entries [OF recv_invD(2) [OF inv]]
  let ?js = "filter (\<lambda>i. to_deliver t v (r_mpBuckets v i)) (map snd (r_mBucketMap v))"
  have "distinct ?js" "list_all (\<lambda>j. b_mActive (r_mpBuckets v j)) ?js" using M(1,2) by (auto simp: list_all_iff simp del: map_map)
  then show ?thesis using t v(1) n inv by (simp add: scan_timeouts_def list_all_iff)
qed

lemma scan_result:
  assumes "recv_inv r" "scan_timeouts r = Some (js, s)"
  shows "nacked r s" "recv_inv s" "distinct js" "list_all (\<lambda>j. b_mActive (r_mpBuckets s j)) js"
  using scan_spec [OF assms(1)] assms(2) by auto

lemma receive_result:
  assumes "recv_inv r" "r_mMode r = THREADED" "receive d src r = Some (c, s)"
  shows "recv_inv s" "same_world r s"
proof -
  show "recv_inv s" using receive_safe [OF assms(1), of d src] assms(3) by (auto simp: safe_result_def)
  show "same_world r s" using assms(2,3) same_world_dispatch [of d src r]
    by (auto simp: receive_def same_world_def split: if_splits bind_splits)
qed

lemma deliver_result:
  assumes "recv_inv r" "r_mMode r = THREADED" "list_all (\<lambda>j. b_mActive (r_mpBuckets r j)) (j # js)" "distinct (j # js)"
    "deliverFrame j r = Some s"
  shows "recv_inv s" "list_all (\<lambda>j. b_mActive (r_mpBuckets s j)) js"
proof -
  from deliverFrame_spec [OF assms(1), of j] assms(3,5) obtain b where "recv_inv s" "r_mpBuckets s = (r_mpBuckets r)(j := b)" by auto
  with assms(3,4) show "recv_inv s" "list_all (\<lambda>j. b_mActive (r_mpBuckets s j)) js" by (auto simp: list_all_iff)
qed

lemma thread_inv_start:
  assumes "newReceiver n tmo hol retries iv THREADED clk al = Inr r" "retries \<le> 64"
  shows "thread_inv (startThreads r)"
  using recv_inv_new [OF assms] assms(1)
  by (auto simp: thread_inv_def sync_inv_def startThreads_def newReceiver_def split: if_splits)

lemma recv_inv_take: "recv_inv r \<Longrightarrow> r_mDeliveryQueue r = fs @ q \<Longrightarrow> recv_inv (take_front q r)"
  by (auto simp: take_front_def recv_inv_def)

lemma notify_cases: "notify p = (if p = D_Asleep then D_Woken else p)"
  by (cases p) simp_all

lemma notify_simps [simp]:
  "notify p \<noteq> D_Asleep" "notify p = D_Call x \<longleftrightarrow> p = D_Call x" "notify p = D_Block \<longleftrightarrow> p = D_Block"
  "notify p = D_Section \<longleftrightarrow> p = D_Section" "notify p = D_Exit \<longleftrightarrow> p = D_Exit"
  by (simp_all add: notify_cases)

text \<open>Behind its wait the delivery thread of a running receiver finds a frame.\<close>

lemma section_has_frame: "thread_inv T \<Longrightarrow> th_delivery T = D_Section \<Longrightarrow> r_mRunning (th_r T) \<Longrightarrow> r_mDeliveryQueue (th_r T) \<noteq> []"
  unfolding thread_inv_def sync_inv_def delivery_wanted_def by blast

lemma sync_cong:
  assumes "sync_inv T" "r_mRunning (th_r U) = r_mRunning (th_r T)" "r_mDeliveryReady (th_r U) = r_mDeliveryReady (th_r T)"
    and "th_delivery U = th_delivery T" "th_stop U = th_stop T" "th_worker T = W_Exit \<Longrightarrow> th_worker U = W_Exit"
  shows "sync_inv U"
  using assms unfolding sync_inv_def delivery_wanted_def by metis

lemma sync_wake:
  assumes "sync_inv T" "r_mRunning (th_r U) = r_mRunning (th_r T)" "\<not> holds_mutex (th_delivery T)"
    and "th_delivery U = notify (th_delivery T)" "th_stop U = th_stop T" "th_worker T \<noteq> W_Exit"
  shows "sync_inv U"
  using assms unfolding sync_inv_def by (cases "th_delivery T") simp_all

lemma sync_delivery:
  assumes "sync_inv T" "r_mRunning (th_r U) = r_mRunning (th_r T)" "th_stop U = th_stop T" "th_worker U = th_worker T"
    and "th_delivery T \<noteq> D_Exit" "th_delivery U \<notin> {D_Block, D_Section, D_Asleep}"
  shows "sync_inv U"
  using assms unfolding sync_inv_def by auto

text \<open>The mutex keeps the worker and \<open>stop\<close> away from the predicate between its test and what follows.\<close>

lemma thread_step_sync:
  assumes "thread_step T e U" "thread_inv T"
  shows "sync_inv U"
proof -
  have inv: "recv_inv (th_r T)" "r_mMode (th_r T) = THREADED" "sync_inv T" using assms(2) by (simp_all add: thread_inv_def)
  show ?thesis using assms(1)
  proof (cases rule: thread_step.cases)
    case (worker_scan js r)
    from scan_result(1) [OF inv(1) worker_scan(4)] have "r_mRunning r = r_mRunning (th_r T)" "r_mDeliveryReady r = r_mDeliveryReady (th_r T)"
      by (simp_all add: nacked_def)
    with worker_scan(2,3) show ?thesis by (intro sync_cong [OF inv(3)]) simp_all
  next
    case (worker_deliver j js r)
    from deliverFrame_result [OF inv(2) worker_deliver(5)] have "r_mRunning r = r_mRunning (th_r T)" "r_mDeliveryReady r" by simp_all
    with worker_deliver(2,3,4) show ?thesis by (intro sync_wake [OF inv(3)]) simp_all
  next
    case (caller_receive d src res r)
    from receive_result(2) [OF inv(1,2) caller_receive(4)] have
      "r_mRunning r = r_mRunning (th_r T)" "r_mDeliveryReady r = r_mDeliveryReady (th_r T)" by (simp_all add: same_world_def)
    with caller_receive(2) show ?thesis by (intro sync_cong [OF inv(3)]) simp_all
  next
    case caller_stop
    then have "th_delivery T \<noteq> D_Block" by auto
    with caller_stop inv(3) show ?thesis by (simp add: sync_inv_def delivery_wanted_def stop_def)
  next
    case worker_continue
    then show ?thesis by (intro sync_cong [OF inv(3)]) simp_all
  next
    case worker_unlock
    then show ?thesis by (intro sync_cong [OF inv(3)]) simp_all
  next
    case worker_leave
    then show ?thesis by (intro sync_cong [OF inv(3)]) simp_all
  next
    case delivery_pass
    with inv(3) show ?thesis unfolding sync_inv_def by auto
  next
    case delivery_fail
    with inv(3) show ?thesis unfolding sync_inv_def by auto
  next
    case delivery_sleep
    with inv(3) show ?thesis unfolding sync_inv_def by auto
  next
    case stop_notify
    with inv(3) show ?thesis unfolding sync_inv_def by auto
  next
    case stop_join_worker
    with inv(3) show ?thesis unfolding sync_inv_def by auto
  next
    case stop_join_delivery
    with inv(3) show ?thesis unfolding sync_inv_def by auto
  qed (use inv(3) in \<open>auto simp: take_front_def intro: sync_delivery\<close>)
qed

lemma thread_step_inv:
  assumes "thread_step T e U" "thread_inv T"
  shows "thread_inv U"
  using assms thread_step_sync [OF assms]
proof (cases rule: thread_step.cases)
  case (worker_scan js r)
  with scan_result [of "th_r T" js r] assms(2) thread_step_sync [OF assms] show ?thesis by (auto simp: thread_inv_def nacked_def)
next
  case (worker_deliver j js r)
  with assms(2) have inv: "recv_inv (th_r T)" "r_mMode (th_r T) = THREADED"
    "list_all (\<lambda>j. b_mActive (r_mpBuckets (th_r T) j)) (j # js)" "distinct (j # js)" by (simp_all add: thread_inv_def)
  with deliver_result [OF inv, of r] deliverFrame_result [OF inv(2), of j r] worker_deliver assms(2) thread_step_sync [OF assms] show ?thesis
    by (auto simp: thread_inv_def)
next
  case (delivery_take f q)
  with assms(2) recv_inv_take [of "th_r T" "[f]" q] recv_invD(5) [of "th_r T"] thread_step_sync [OF assms] show ?thesis
    by (auto simp: thread_inv_def take_front_def)
next
  case (delivery_call f)
  with assms(2) thread_step_sync [OF assms] show ?thesis by (auto simp: thread_inv_def recv_inv_def)
next
  case (caller_receive d src res r)
  with receive_result [of "th_r T" d src res r] assms(2) thread_step_sync [OF assms] show ?thesis by (auto simp: thread_inv_def same_world_def)
next
  case delivery_nothing
  with section_has_frame [OF assms(2)] show ?thesis by simp
qed (auto simp: thread_inv_def stop_def take_front_def)

lemma thread_run_inv: "thread_run T es U \<Longrightarrow> thread_inv T \<Longrightarrow> thread_inv U"
  by (induction rule: thread_run.induct) (auto intro: thread_step_inv)

section \<open>The order of the frames\<close>

text \<open>The frame on its way to the callback, and all frames on their way.\<close>

definition in_flight :: "Threads \<Rightarrow> SuperFrame list" where
  "in_flight T = (case th_delivery T of D_Call (Some f) \<Rightarrow> [f] | _ \<Rightarrow> [])"

definition backlog :: "Threads \<Rightarrow> SuperFrame list" where
  "backlog T = in_flight T @ r_mDeliveryQueue (th_r T)"

lemma in_flight_simps [simp]:
  "th_delivery T = D_Check \<Longrightarrow> in_flight T = []" "th_delivery T = D_Acquire \<Longrightarrow> in_flight T = []"
  "th_delivery T = D_Test \<Longrightarrow> in_flight T = []" "th_delivery T = D_Block \<Longrightarrow> in_flight T = []"
  "th_delivery T = D_Asleep \<Longrightarrow> in_flight T = []" "th_delivery T = D_Woken \<Longrightarrow> in_flight T = []"
  "th_delivery T = D_Section \<Longrightarrow> in_flight T = []" "th_delivery T = D_Exit \<Longrightarrow> in_flight T = []" "th_delivery T = D_Call (Some f) \<Longrightarrow> in_flight T = [f]"
  "th_delivery T = D_Call None \<Longrightarrow> in_flight T = []"
  by (simp_all add: in_flight_def)

lemma in_flight_notify: "th_delivery U = notify (th_delivery T) \<Longrightarrow> in_flight U = in_flight T"
  by (simp add: in_flight_def notify_cases)

lemma thread_step_order:
  assumes "thread_step T e U" "thread_inv T"
  shows "backlog T @ handed_over [e] = called_back [e] @ backlog U \<and>
    r_delivered (th_r U) = r_delivered (th_r T) @ called_back [e]"
  using assms
proof (cases rule: thread_step.cases)
  case (worker_scan js r)
  with scan_result(1) [of "th_r T" js r] assms(2) show ?thesis by (auto simp: thread_inv_def nacked_def backlog_def in_flight_def)
next
  case (worker_deliver j js r)
  with deliverFrame_result [of "th_r T" j r] in_flight_notify [of U T] assms(2) show ?thesis by (simp add: thread_inv_def backlog_def)
next
  case (caller_receive d src res r)
  with receive_result(2) [of "th_r T" d src res r] assms(2) show ?thesis
    by (auto simp: thread_inv_def same_world_def backlog_def in_flight_def)
next
  case stop_notify
  with in_flight_notify [of U T] show ?thesis by (simp add: backlog_def)
qed (auto simp: backlog_def in_flight_def stop_def take_front_def)

lemma thread_run_order:
  "thread_run T es U \<Longrightarrow> thread_inv T \<Longrightarrow>
     backlog T @ handed_over es = called_back es @ backlog U \<and> r_delivered (th_r U) = r_delivered (th_r T) @ called_back es"
proof (induction rule: thread_run.induct)
  case (run_step T es U e V)
  with thread_step_order [OF run_step.hyps(2) thread_run_inv [OF run_step.hyps(1) run_step.prems]] show ?case
    by (metis append.assoc event_append)
qed simp

section \<open>Nothing waits for ever\<close>

definition by_worker :: "ThreadEvent \<Rightarrow> bool" where
  "by_worker e \<longleftrightarrow> e = WorkerStep \<or> (\<exists>f. e = HandOver f)"

definition by_delivery :: "ThreadEvent \<Rightarrow> bool" where
  "by_delivery e \<longleftrightarrow> e = DeliveryStep \<or> (\<exists>f. e = Callback f)"

lemma worker_enabled:
  assumes "thread_inv T" "th_worker T \<noteq> W_Exit"
  shows "(\<exists>e U. by_worker e \<and> thread_step T e U) \<or> holds_mutex (th_delivery T)"
proof (cases "th_worker T")
  case W_Check
  then show ?thesis using worker_continue [of T] worker_leave [of T] by (cases "r_mRunning (th_r T)") (auto simp: by_worker_def)
next
  case W_Lock
  from scan_spec [of "th_r T"] assms(1) obtain js s where "scan_timeouts (th_r T) = Some (js, s)" by (auto simp: thread_inv_def)
  from worker_scan [OF W_Lock this] show ?thesis by (auto simp: by_worker_def)
next
  case (W_Deliver js)
  show ?thesis
  proof (cases js)
    case Nil
    with W_Deliver worker_unlock [of T] show ?thesis by (auto simp: by_worker_def)
  next
    case (Cons j js')
    with assms(1) W_Deliver have "b_mActive (r_mpBuckets (th_r T) j)" "recv_inv (th_r T)" by (auto simp: thread_inv_def)
    with deliverFrame_spec [of "th_r T" j] obtain s where "deliverFrame j (th_r T) = Some s" by blast
    from worker_deliver [OF W_Deliver [unfolded Cons] _ this] show ?thesis by (auto simp: by_worker_def)
  qed
qed (use assms(2) in simp)

lemma delivery_enabled:
  assumes "thread_inv T" "th_delivery T \<notin> {D_Exit, D_Asleep}"
  shows "\<exists>e U. by_delivery e \<and> thread_step T e U"
proof (cases "th_delivery T")
  case D_Check
  then show ?thesis using delivery_continue [of T] delivery_leave [of T] by (cases "r_mRunning (th_r T)") (auto simp: by_delivery_def)
next
  case D_Acquire
  with delivery_lock [of T] show ?thesis by (auto simp: by_delivery_def)
next
  case D_Test
  with delivery_pass [of T] delivery_fail [of T] show ?thesis by (cases "delivery_wanted (th_r T)") (auto simp: by_delivery_def)
next
  case D_Block
  with delivery_sleep [of T] show ?thesis by (auto simp: by_delivery_def)
next
  case D_Woken
  with delivery_relock [of T] show ?thesis by (auto simp: by_delivery_def)
next
  case D_Section
  show ?thesis
  proof (cases "r_mDeliveryQueue (th_r T)")
    case Nil
    with D_Section delivery_break [of T] delivery_nothing [of T] show ?thesis
      by (cases "r_mRunning (th_r T)") (auto simp: by_delivery_def)
  next
    case (Cons f q)
    with D_Section delivery_take [of T f q] show ?thesis by (auto simp: by_delivery_def)
  qed
next
  case (D_Call x)
  with assms(1) obtain f where "x = Some f" by (auto simp: thread_inv_def)
  with D_Call delivery_call [of T f] show ?thesis by (auto simp: by_delivery_def)
qed (use assms(2) in simp_all)

text \<open>A thread sleeps for a reason, or a notification is on its way.\<close>

lemma asleep_reason:
  "thread_inv T \<Longrightarrow> th_delivery T = D_Asleep \<Longrightarrow> r_mRunning (th_r T) \<and> r_mDeliveryQueue (th_r T) = [] \<or> th_stop T = S_Notify"
  by (auto simp: thread_inv_def sync_inv_def delivery_wanted_def)

text \<open>As long as \<open>stop\<close> has not returned, some thread can make a step of its own.\<close>

lemma stop_progress:
  assumes inv: "thread_inv T" and stop: "th_stop T \<notin> {S_None, S_Returned}"
  shows "\<exists>e U. thread_step T e U \<and> e \<notin> {CallerStep, SpuriousWakeup}"
proof -
  have delivery: ?thesis if "th_delivery T \<notin> {D_Exit, D_Asleep}"
    using delivery_enabled [OF inv that] by (auto simp: by_delivery_def)
  have worker: ?thesis if "th_worker T \<noteq> W_Exit"
  proof -
    from worker_enabled [OF inv that] show ?thesis
    proof
      assume "holds_mutex (th_delivery T)"
      then show ?thesis by (intro delivery) auto
    qed (auto simp: by_worker_def)
  qed
  show ?thesis
  proof (cases "th_stop T")
    case S_Notify
    with stop_notify [of T] show ?thesis by blast
  next
    case S_JoinWorker
    with worker stop_join_worker [of T] show ?thesis by blast
  next
    case S_JoinDelivery
    have "\<not> r_mRunning (th_r T)" using inv S_JoinDelivery by (auto simp: thread_inv_def sync_inv_def)
    with asleep_reason [OF inv] S_JoinDelivery have "th_delivery T \<noteq> D_Asleep" by auto
    with delivery stop_join_delivery [OF S_JoinDelivery] show ?thesis by blast
  qed (use stop in simp_all)
qed

section \<open>After \<open>stop\<close>\<close>

lemma stopped_step:
  assumes "thread_step T e U" "thread_inv T" "\<not> r_mRunning (th_r T)"
  shows "\<not> r_mRunning (th_r U)"
  using assms
proof (cases rule: thread_step.cases)
  case (worker_scan js r)
  with scan_result(1) [of "th_r T" js r] assms(2,3) show ?thesis by (auto simp: thread_inv_def nacked_def)
next
  case (worker_deliver j js r)
  with deliverFrame_result [of "th_r T" j r] assms(2,3) show ?thesis by (auto simp: thread_inv_def)
next
  case (caller_receive d src res r)
  with receive_result(2) [of "th_r T" d src res r] assms(2,3) show ?thesis by (auto simp: thread_inv_def same_world_def)
qed (auto simp: stop_def take_front_def)

text \<open>What the two threads and the caller of \<open>stop\<close> have left to do, at most.\<close>

fun worker_work :: "WorkerPc \<Rightarrow> nat" where
  "worker_work W_Exit = 0"
| "worker_work W_Check = 1"
| "worker_work (W_Deliver js) = length js + 2"
| "worker_work W_Lock = 65539"

fun delivery_work :: "DeliveryPc \<Rightarrow> nat" where
  "delivery_work D_Exit = 0"
| "delivery_work D_Check = 1"
| "delivery_work (D_Call x) = 2"
| "delivery_work D_Section = 3"
| "delivery_work D_Test = 4"
| "delivery_work D_Acquire = 5"
| "delivery_work D_Woken = 5"
| "delivery_work D_Asleep = 6"
| "delivery_work D_Block = 7"

fun stop_work :: "StopPc \<Rightarrow> nat" where
  "stop_work S_Notify = 3"
| "stop_work S_JoinWorker = 2"
| "stop_work S_JoinDelivery = 1"
| "stop_work S_Returned = 0"
| "stop_work S_None = 0"

definition thread_work :: "Threads \<Rightarrow> nat" where
  "thread_work T = worker_work (th_worker T) + delivery_work (th_delivery T) + stop_work (th_stop T)"

fun calls_left :: "DeliveryPc \<Rightarrow> nat" where
  "calls_left D_Check = 0"
| "calls_left D_Exit = 0"
| "calls_left _ = 1"

lemma notify_work: "delivery_work (notify p) \<le> delivery_work p" "calls_left (notify p) = calls_left p"
  by (cases p; simp)+

lemma distinct_slots: "distinct (js :: u16 list) \<Longrightarrow> length js \<le> 65536"
  using card_mono [of UNIV "set js"] distinct_card [of js] card_word [where 'a = 16] by simp

lemma stopping_step:
  assumes "thread_step T e U" "thread_inv T" "\<not> r_mRunning (th_r T)"
  shows "length (filter (\<lambda>e. e \<noteq> CallerStep) [e]) + thread_work U \<le> thread_work T"
    "length (called_back [e]) + calls_left (th_delivery U) \<le> calls_left (th_delivery T)"
proof -
  have slots: "length js \<le> 65536" if "th_worker T = W_Lock" "scan_timeouts (th_r T) = Some (js, s)" for js s
    using that scan_result(3) [of "th_r T" js s] assms(2) by (auto simp: thread_inv_def intro: distinct_slots)
  have st: "th_stop T \<noteq> S_None" "th_delivery T \<noteq> D_Block" "th_delivery T = D_Test \<Longrightarrow> delivery_wanted (th_r T)"
    using assms(2,3) by (auto simp: thread_inv_def sync_inv_def delivery_wanted_def)
  show "length (filter (\<lambda>e. e \<noteq> CallerStep) [e]) + thread_work U \<le> thread_work T"
    using assms(1)
  proof (cases rule: thread_step.cases)
    case (worker_scan js r)
    with slots show ?thesis by (simp add: thread_work_def)
  qed (use assms(3) st notify_work(1) [of "th_delivery T"] in \<open>simp_all add: thread_work_def\<close>)
  show "length (called_back [e]) + calls_left (th_delivery U) \<le> calls_left (th_delivery T)"
    using assms by (cases rule: thread_step.cases) (auto simp: notify_work(2))
qed

lemma stopping_run:
  "thread_run T es U \<Longrightarrow> thread_inv T \<Longrightarrow> \<not> r_mRunning (th_r T) \<Longrightarrow> \<not> r_mRunning (th_r U) \<and>
     length (filter (\<lambda>e. e \<noteq> CallerStep) es) + thread_work U \<le> thread_work T \<and>
     length (called_back es) + calls_left (th_delivery U) \<le> calls_left (th_delivery T)"
proof (induction rule: thread_run.induct)
  case (run_step T es U e V)
  then have U: "thread_inv U" "\<not> r_mRunning (th_r U)" by (auto intro: thread_run_inv)
  with stopped_step [OF run_step.hyps(2) U] stopping_step [OF run_step.hyps(2) U] run_step show ?case by auto
qed simp

section \<open>Atomic turns\<close>

text \<open>
  The receiver with the deliveries that the worker has begun made, and the frame in flight called back:
  an interleaved run reaches, in this sense, a state that whole turns of the threads reach.
\<close>

definition pending_slots :: "Threads \<Rightarrow> u16 list" where
  "pending_slots T = (case th_worker T of W_Deliver js \<Rightarrow> js | _ \<Rightarrow> [])"

definition called :: "SuperFrame list \<Rightarrow> Receiver \<Rightarrow> Receiver" where
  "called fs r = r\<lparr>r_delivered := r_delivered r @ fs\<rparr>"

definition settled :: "Threads \<Rightarrow> Receiver option" where
  "settled T = map_option (called (in_flight T)) (deliver_loop (pending_slots T) (th_r T))"

lemma called_requeue: "called fs r = requeue (r_mDeliveryQueue r) (r_mDeliveryReady r) (r_delivered r @ fs) r"
  by (simp add: called_def requeue_def)

lemma called_Nil [simp]: "called [] r = r"
  by (simp add: called_def)

lemma called_of_requeue [simp]: "called fs (requeue q b d r) = requeue q b (d @ fs) r"
  by (simp add: called_def requeue_def)

lemma take_front_requeue: "take_front q r = requeue q (q \<noteq> [] \<and> r_mDeliveryReady r) (r_delivered r) r"
  by (simp add: take_front_def requeue_def)

lemma scan_requeue: "scan_timeouts (requeue q b d r) = map_option (map_prod id (requeue q b d)) (scan_timeouts r)"
  unfolding scan_timeouts_def by (simp add: unread_simps)

lemma settled_defined:
  assumes "thread_inv T"
  obtains s where "deliver_loop (pending_slots T) (th_r T) = Some s" "settled T = Some (called (in_flight T) s)"
proof -
  have "list_all (\<lambda>j. b_mActive (r_mpBuckets (th_r T) j)) (pending_slots T)" "distinct (pending_slots T)" "recv_inv (th_r T)"
    using assms by (auto simp: thread_inv_def pending_slots_def split: WorkerPc.split)
  from deliver_loop_spec [OF this(3,1,2)] that show ?thesis by (auto simp: settled_def)
qed

lemma scan_settles:
  assumes "thread_inv T" "r_mRunning (th_r T)" "scan_timeouts (th_r T) = Some (js, r)" "deliver_loop js r = Some s"
  shows "workerTick (called F (th_r T)) = Some (called F s)"
proof -
  have n: "nacked (th_r T) r" and m: "r_mMode r = THREADED"
    using scan_result(1) [of "th_r T" js r] assms(1,3) by (auto simp: thread_inv_def nacked_def)
  obtain fs where fs: "length fs = length js" "\<And>q b d. deliver_loop js (requeue q b d r) = Some (requeue (q @ fs) (b \<or> js \<noteq> []) d s)"
    "s = requeue (r_mDeliveryQueue r @ fs) (r_mDeliveryReady r \<or> js \<noteq> []) (r_delivered r) s"
    by (rule deliver_loop_frames [OF m assms(4)]) blast
  have "called F s = requeue (r_mDeliveryQueue r @ fs) (r_mDeliveryReady r \<or> js \<noteq> []) (r_delivered r @ F) s"
    by (subst fs(3)) simp
  moreover have "processTimeouts (called F (th_r T)) =
      Some (requeue (r_mDeliveryQueue (th_r T) @ fs) (r_mDeliveryReady (th_r T) \<or> js \<noteq> []) (r_delivered (th_r T) @ F) s)"
    by (simp add: processTimeouts_scan called_requeue scan_requeue assms(3) fs(2))
  moreover have "r_mRunning (called F (th_r T))" using assms(2) by (simp add: called_def)
  ultimately show ?thesis using n by (simp add: workerTick_def nacked_def)
qed

lemma take_settles:
  assumes "thread_inv T" "r_mRunning (th_r T)" "r_mDeliveryQueue (th_r T) = f # q" "deliver_loop js (th_r T) = Some s"
  shows "map_option (called [f]) (deliver_loop js (take_front q (th_r T))) = Some (deliveryTick s)"
proof -
  have m: "r_mMode (th_r T) = THREADED" and ready: "r_mDeliveryReady (th_r T)" using assms(1,3) by (auto simp: thread_inv_def)
  obtain fs where fs: "length fs = length js"
    "\<And>q b d. deliver_loop js (requeue q b d (th_r T)) = Some (requeue (q @ fs) (b \<or> js \<noteq> []) d s)"
    "s = requeue (f # q @ fs) True (r_delivered (th_r T)) s"
    using deliver_loop_frames [OF m assms(4)] assms(3) ready by auto
  have "deliveryTick (requeue (f # q @ fs) True d s) = requeue (q @ fs) (q @ fs \<noteq> []) (d @ [f]) s" for d
    using deliver_loop_running [OF m assms(4)] assms(2) by (simp add: deliveryTick_def requeue_def)
  then have "deliveryTick s = requeue (q @ fs) (q @ fs \<noteq> []) (r_delivered (th_r T) @ [f]) s" using fs(3) by metis
  moreover have "fs = [] \<longleftrightarrow> js = []" using fs(1) by auto
  ultimately show ?thesis using fs(2) ready by (simp add: take_front_requeue)
qed

lemma thread_step_settled:
  assumes "thread_step T e U" "thread_inv T" "r_mRunning (th_r U)" "settled T = Some r"
  shows "\<exists>ops s. settled U = Some s \<and> run_ops receiver_step ops r = Some s"
proof -
  have U: "thread_inv U" by (rule thread_step_inv [OF assms(1,2)])
  obtain t where t: "deliver_loop (pending_slots T) (th_r T) = Some t" "r = called (in_flight T) t"
    using settled_defined [OF assms(2)] assms(4) by auto
  have same: ?thesis if "settled U = settled T" using that assms(4) by (intro exI [of _ "[]"]) simp
  show ?thesis using assms(1)
  proof (cases rule: thread_step.cases)
    case (worker_scan js v)
    then have run: "r_mRunning (th_r T)" using scan_result(1) [of "th_r T" js v] assms(2,3) by (auto simp: thread_inv_def nacked_def)
    obtain w where w: "deliver_loop js v = Some w" "settled U = Some (called (in_flight T) w)"
      using settled_defined [OF U] worker_scan by (auto simp: pending_slots_def in_flight_def)
    have "workerTick r = Some (called (in_flight T) w)"
      using scan_settles [OF assms(2) run worker_scan(4) w(1)] t worker_scan(3) by (simp add: pending_slots_def)
    with w(2) show ?thesis by (intro exI [of _ "[WorkerTick]"]) simp
  next
    case (worker_deliver j js v)
    then have "in_flight U = in_flight T" by (intro in_flight_notify) simp
    with worker_deliver show ?thesis by (intro same) (simp add: settled_def pending_slots_def)
  next
    case (delivery_take f q)
    have "r_mRunning (th_r T)" using delivery_take assms(3) by (simp add: take_front_def)
    from take_settles [OF assms(2) this delivery_take(4) t(1)] delivery_take t show ?thesis
      by (intro exI [of _ "[DeliveryTick]"]) (simp add: settled_def pending_slots_def)
  next
    case (delivery_call f)
    have m: "r_mMode (th_r T) = THREADED" using assms(2) by (simp add: thread_inv_def)
    obtain fs where fs: "length fs = length (pending_slots T)" "\<And>q b d. deliver_loop (pending_slots T) (requeue q b d (th_r T)) =
        Some (requeue (q @ fs) (b \<or> pending_slots T \<noteq> []) d t)"
      "t = requeue (r_mDeliveryQueue (th_r T) @ fs) (r_mDeliveryReady (th_r T) \<or> pending_slots T \<noteq> []) (r_delivered (th_r T)) t"
      by (rule deliver_loop_frames [OF m t(1)]) blast
    have "called [f] t = requeue (r_mDeliveryQueue (th_r T) @ fs) (r_mDeliveryReady (th_r T) \<or> pending_slots T \<noteq> []) (r_delivered (th_r T) @ [f]) t"
      by (subst fs(3)) simp
    moreover have "th_r U = called [f] (th_r T)" "in_flight U = []" "in_flight T = [f]" "pending_slots U = pending_slots T"
      using delivery_call by (simp_all add: called_def pending_slots_def)
    ultimately have "settled U = Some r" using t(2) by (simp add: settled_def fs(2) called_requeue [of "[f]" "th_r T"])
    with assms(4) show ?thesis by (intro same) simp
  next
    case (caller_receive d src c v)
    have R: "same_world (th_r T) v" "r_mMode (th_r T) = THREADED"
      using receive_result(2) [of "th_r T" d src c v] caller_receive assms(2) by (auto simp: thread_inv_def)
    have none: "pending_slots T = []" "pending_slots U = []" "in_flight U = in_flight T" "th_r U = v"
      using caller_receive by (auto simp: pending_slots_def in_flight_def split: WorkerPc.split)
    have "receive d src (called (in_flight T) (th_r T)) = Some (c, called (in_flight T) v)"
      using R caller_receive(4) by (simp add: called_requeue receive_requeue same_world_def)
    with none t show ?thesis by (intro exI [of _ "[Receive d src]"]) (simp add: settled_def)
  next
    case delivery_nothing
    with section_has_frame [OF assms(2)] show ?thesis by simp
  next
    case stop_notify
    then have "in_flight U = in_flight T" by (intro in_flight_notify) simp
    with stop_notify show ?thesis by (intro same) (simp add: settled_def pending_slots_def)
  qed (use assms(2,3) same in \<open>auto simp: settled_def pending_slots_def in_flight_def stop_def take_front_def thread_inv_def\<close>)
qed

lemma running_before: "thread_step T e U \<Longrightarrow> thread_inv T \<Longrightarrow> r_mRunning (th_r U) \<Longrightarrow> r_mRunning (th_r T)"
  using stopped_step by blast

lemma thread_run_settled:
  "thread_run T es U \<Longrightarrow> thread_inv T \<Longrightarrow> r_mRunning (th_r U) \<Longrightarrow> settled T = Some r \<Longrightarrow>
     \<exists>ops s. settled U = Some s \<and> run_ops receiver_step ops r = Some s"
proof (induction rule: thread_run.induct)
  case (run_none T)
  then show ?case by (intro exI [of _ "[]"]) simp
next
  case (run_step T es U e V)
  have U: "thread_inv U" by (rule thread_run_inv [OF run_step.hyps(1) run_step.prems(1)])
  from run_step.IH [OF run_step.prems(1) running_before [OF run_step.hyps(2) U run_step.prems(2)] run_step.prems(3)]
  obtain ops s where s: "settled U = Some s" "run_ops receiver_step ops r = Some s" by blast
  from thread_step_settled [OF run_step.hyps(2) U run_step.prems(2) s(1)] obtain ops' s' where
    "settled V = Some s'" "run_ops receiver_step ops' s = Some s'" by blast
  with s(2) show ?case by (intro exI [of _ "ops @ ops'"]) (simp add: run_ops_append)
qed

end
