(* ===== verification/Efp_ThreadsProps.thy ===== *)
theory Efp_ThreadsProps
  imports Efp_ThreadsInv
begin

text \<open>
  Properties of the threads of a receiver, for every interleaving: the order of the frames, the match
  with atomic turns, that no thread waits in vain, and what happens after \<open>stop\<close>.
\<close>

lemma thread_run_append: "thread_run U es' V \<Longrightarrow> thread_run T es U \<Longrightarrow> thread_run T (es @ es') V"
proof (induction rule: thread_run.induct)
  case (run_step U es' V e W)
  from run_step.IH [OF run_step.prems] run_step.hyps(2) have "thread_run T ((es @ es') @ [e]) W" by (rule thread_run.run_step)
  then show ?case by simp
qed simp

lemma run_single: "thread_step T e U \<Longrightarrow> thread_run T [e] U"
  using thread_run.run_step [OF thread_run.run_none] by fastforce

lemma run_more: "thread_run T es U \<Longrightarrow> thread_step U e V \<Longrightarrow> es' = es @ [e] \<Longrightarrow> thread_run T es' V"
  by (simp add: thread_run.run_step)

lemma started_inv:
  "newReceiver n tmo hol retries iv THREADED clk al = Inr r \<Longrightarrow> retries \<le> 64 \<Longrightarrow> thread_run (startThreads r) es T \<Longrightarrow> thread_inv T"
  using thread_inv_start thread_run_inv by blast

section \<open>Draining the queue\<close>

text \<open>A delivery thread that is not asleep gets to the queue, and calls back its front.\<close>

lemma to_section:
  assumes "th_delivery T \<in> {D_Check, D_Acquire, D_Woken, D_Test, D_Section}" "r_mRunning (th_r T)" "delivery_wanted (th_r T)"
  shows "\<exists>es. thread_run T es (T\<lparr>th_delivery := D_Section\<rparr>) \<and> list_all by_delivery es \<and> called_back es = []"
proof -
  have test: "thread_run (T\<lparr>th_delivery := D_Test\<rparr>) [DeliveryStep] (T\<lparr>th_delivery := D_Section\<rparr>)"
    using run_single [OF delivery_pass [of "T\<lparr>th_delivery := D_Test\<rparr>"]] assms(3) by simp
  have lock: "thread_run (T\<lparr>th_delivery := D_Acquire\<rparr>) [DeliveryStep] (T\<lparr>th_delivery := D_Test\<rparr>)"
    using run_single [OF delivery_lock [of "T\<lparr>th_delivery := D_Acquire\<rparr>"]] by simp
  have acquire: "thread_run (T\<lparr>th_delivery := D_Acquire\<rparr>) [DeliveryStep, DeliveryStep] (T\<lparr>th_delivery := D_Section\<rparr>)"
    using thread_run_append [OF test lock] by simp
  have same: "T\<lparr>th_delivery := p\<rparr> = T" if "th_delivery T = p" for p using that by (cases T) simp
  show ?thesis
  proof (cases "th_delivery T")
    case D_Check
    have "thread_run T ([DeliveryStep] @ [DeliveryStep, DeliveryStep]) (T\<lparr>th_delivery := D_Section\<rparr>)"
      by (rule thread_run_append [OF acquire run_single [OF delivery_continue [OF D_Check assms(2)]]])
    then show ?thesis by (intro exI conjI) (auto simp: by_delivery_def)
  next
    case D_Acquire
    with acquire show ?thesis by (intro exI [of _ "[DeliveryStep, DeliveryStep]"]) (simp add: same by_delivery_def)
  next
    case D_Woken
    have "thread_run T ([DeliveryStep] @ [DeliveryStep]) (T\<lparr>th_delivery := D_Section\<rparr>)"
      by (rule thread_run_append [OF test run_single [OF delivery_relock [OF D_Woken]]])
    then show ?thesis by (intro exI conjI) (auto simp: by_delivery_def)
  next
    case D_Test
    with test show ?thesis by (intro exI [of _ "[DeliveryStep]"]) (simp add: same by_delivery_def)
  next
    case D_Section
    then show ?thesis by (intro exI [of _ "[]"]) (simp add: same thread_run.run_none)
  qed (use assms(1) in simp_all)
qed

lemma drain_front:
  assumes "th_delivery T \<in> {D_Check, D_Acquire, D_Woken, D_Test, D_Section}" "r_mRunning (th_r T)" "thread_inv T"
    and q: "r_mDeliveryQueue (th_r T) = f # q"
  shows "\<exists>es U. thread_run T es U \<and> list_all by_delivery es \<and> called_back es = [f] \<and>
    th_delivery U = D_Check \<and> r_mRunning (th_r U) \<and> r_mDeliveryQueue (th_r U) = q"
proof -
  have "delivery_wanted (th_r T)" using assms(3) q by (simp add: thread_inv_def delivery_wanted_def)
  from to_section [OF assms(1,2) this] obtain es where
    es: "thread_run T es (T\<lparr>th_delivery := D_Section\<rparr>)" "list_all by_delivery es" "called_back es = []" by blast
  let ?T2 = "T\<lparr>th_r := take_front q (th_r T), th_delivery := D_Call (Some f)\<rparr>"
  let ?T3 = "?T2\<lparr>th_r := (th_r ?T2)\<lparr>r_delivered := r_delivered (th_r ?T2) @ [f]\<rparr>, th_delivery := D_Check\<rparr>"
  have "thread_step (T\<lparr>th_delivery := D_Section\<rparr>) DeliveryStep ?T2"
    using delivery_take [of "T\<lparr>th_delivery := D_Section\<rparr>" f q] q by simp
  moreover have "thread_step ?T2 (Callback f) ?T3" by (intro delivery_call) simp
  ultimately have "thread_run T ((es @ [DeliveryStep]) @ [Callback f]) ?T3" by (intro thread_run.run_step [OF thread_run.run_step [OF es(1)]])
  with es(2,3) assms(2) show ?thesis
    by (intro exI [of _ "(es @ [DeliveryStep]) @ [Callback f]"] exI [of _ ?T3]) (simp add: by_delivery_def take_front_def)
qed

lemma drain:
  assumes "th_delivery T = D_Check" "r_mRunning (th_r T)" "thread_inv T"
  shows "\<exists>es U. thread_run T es U \<and> list_all by_delivery es \<and> called_back es = r_mDeliveryQueue (th_r T) \<and> r_mDeliveryQueue (th_r U) = []"
  using assms
proof (induction "r_mDeliveryQueue (th_r T)" arbitrary: T)
  case Nil
  then show ?case by (intro exI [of _ "[]"] exI [of _ T]) (simp add: thread_run.run_none)
next
  case (Cons f q)
  from drain_front [OF _ Cons.prems(2,3) Cons.hyps(2) [symmetric]] Cons.prems(1) obtain ds V where
    V: "thread_run T ds V" "list_all by_delivery ds" "called_back ds = [f]" "th_delivery V = D_Check" "r_mRunning (th_r V)"
      "r_mDeliveryQueue (th_r V) = q" by auto
  from Cons.hyps(1) [OF V(6) [symmetric] V(4,5) thread_run_inv [OF V(1) Cons.prems(3)]] obtain es U where
    U: "thread_run V es U" "list_all by_delivery es" "called_back es = q" "r_mDeliveryQueue (th_r U) = []"
    using V(6) by auto
  from thread_run_append [OF U(1) V(1)] U(2-4) V(2,3) Cons.hyps(2) show ?case
    by (intro exI [of _ "ds @ es"] exI [of _ U]) simp
qed

lemma drain_any:
  assumes "th_delivery T \<noteq> D_Exit" "r_mRunning (th_r T)" "thread_inv T"
  shows "\<exists>es U. thread_run T es U \<and> list_all by_delivery es \<and> called_back es = backlog T \<and> backlog U = []"
proof -
  have rest: "\<exists>es U. thread_run T es U \<and> list_all by_delivery es \<and> called_back es = backlog T \<and> backlog U = []"
    if run: "thread_run T ds V" "list_all by_delivery ds" "th_delivery V = D_Check" "r_mRunning (th_r V)"
      "called_back ds @ r_mDeliveryQueue (th_r V) = backlog T" for ds V
  proof -
    from drain [OF run(3,4) thread_run_inv [OF run(1) assms(3)]] obtain es U where
      U: "thread_run V es U" "list_all by_delivery es" "called_back es = r_mDeliveryQueue (th_r V)" "r_mDeliveryQueue (th_r U) = []" by blast
    from thread_run_append [OF U(1) run(1)] have r: "thread_run T (ds @ es) U" .
    have "called_back (ds @ es) = backlog T" using run(5) U(3) by simp
    with thread_run_order [OF r assms(3)] have "backlog T @ handed_over (ds @ es) = backlog T @ backlog U" by (simp only:)
    then have "handed_over (ds @ es) = backlog U" by (simp only: same_append_eq)
    moreover have "handed_over es = []" if "list_all by_delivery es" for es
      using that by (induction es rule: handed_over.induct) (auto simp: by_delivery_def)
    ultimately show ?thesis using r U(2) run(2,5) U(3) by (intro exI [of _ "ds @ es"] exI [of _ U]) simp
  qed
  show ?thesis
  proof (cases "\<exists>x. th_delivery T = D_Call x")
    case True
    with assms(3) obtain f where x: "th_delivery T = D_Call (Some f)" by (auto simp: thread_inv_def)
    show ?thesis using x assms(2) by (intro rest [OF run_single [OF delivery_call [OF x]]]) (simp_all add: by_delivery_def backlog_def)
  next
    case False
    then have idle: "in_flight T = []" by (auto simp: in_flight_def split: DeliveryPc.split)
    show ?thesis
    proof (cases "r_mDeliveryQueue (th_r T)")
      case Nil
      with idle show ?thesis by (intro exI [of _ "[]"] exI [of _ T]) (simp add: thread_run.run_none backlog_def)
    next
      case (Cons f q)
      have "th_delivery T \<noteq> D_Block" "th_delivery T \<noteq> D_Asleep"
        using assms(2,3) Cons by (auto simp: thread_inv_def sync_inv_def delivery_wanted_def)
      with False assms(1) have "th_delivery T \<in> {D_Check, D_Acquire, D_Woken, D_Test, D_Section}" by (cases "th_delivery T") auto
      from drain_front [OF this assms(2,3) Cons] obtain ds V where "thread_run T ds V" "list_all by_delivery ds"
        "called_back ds = [f]" "th_delivery V = D_Check" "r_mRunning (th_r V)" "r_mDeliveryQueue (th_r V) = q" by blast
      with Cons idle show ?thesis by (intro rest [of ds V]) (simp_all add: backlog_def)
    qed
  qed
qed

section \<open>Properties\<close>

text \<open>
  C16. Frames are passed to the callback in the order in which the worker handed them over, none twice
  and none left out: at any moment of any interleaving of worker, delivery thread, callers of
  \<open>receive\<close> and \<open>stop\<close>, the frames handed over are those called back, then the one in flight, then the
  queue.
\<close>

theorem frames_called_in_order:
  assumes "newReceiver n tmo hol retries iv THREADED clk al = Inr r" "retries \<le> 64" "thread_run (startThreads r) es T"
  shows "handed_over es = called_back es @ in_flight T @ r_mDeliveryQueue (th_r T) \<and> r_delivered (th_r T) = called_back es"
proof -
  have "backlog (startThreads r) = []" "r_delivered (th_r (startThreads r)) = []"
    using assms(1) by (auto simp: backlog_def in_flight_def startThreads_def newReceiver_def split: if_splits)
  with thread_run_order [OF assms(3) thread_inv_start [OF assms(1,2)]] show ?thesis by (simp add: backlog_def)
qed

text \<open>
  C8. Interleaving changes nothing: as long as the receiver has not been stopped, what an interleaved
  run has done, with the deliveries that the worker has begun made and the frame in flight called back,
  is what some sequence of whole operations does, each turn of a thread taken at once. So what holds
  for sequences of operations holds for the threads.
\<close>

theorem threads_refine_turns:
  assumes "newReceiver n tmo hol retries iv THREADED clk al = Inr r" "retries \<le> 64" "thread_run (startThreads r) es T"
    and "r_mRunning (th_r T)"
  shows "\<exists>ops s. settled T = Some s \<and> run_ops receiver_step ops r = Some s"
proof -
  have "settled (startThreads r) = Some r" by (simp add: settled_def pending_slots_def startThreads_def in_flight_def)
  from thread_run_settled [OF assms(3) thread_inv_start [OF assms(1,2)] assms(4) this] show ?thesis by blast
qed

text \<open>
  C18. No wake-up is lost. The worker can make its next step unless the delivery thread holds the mutex;
  the delivery thread can make its next step, without being woken for no reason, unless it is asleep; and
  it is asleep only while the receiver runs and its queue is empty, or while \<open>stop\<close> has yet to make its
  notification. While the receiver runs, the delivery thread alone brings all frames on their way to the
  callback, in order.
\<close>

theorem no_thread_waits_in_vain:
  assumes "newReceiver n tmo hol retries iv THREADED clk al = Inr r" "retries \<le> 64" "thread_run (startThreads r) es T"
  shows "(th_worker T \<noteq> W_Exit \<longrightarrow> (\<exists>e U. by_worker e \<and> thread_step T e U) \<or> holds_mutex (th_delivery T)) \<and>
    (th_delivery T \<notin> {D_Exit, D_Asleep} \<longrightarrow> (\<exists>e U. by_delivery e \<and> thread_step T e U)) \<and>
    (th_delivery T = D_Asleep \<longrightarrow> r_mRunning (th_r T) \<and> r_mDeliveryQueue (th_r T) = [] \<or> th_stop T = S_Notify) \<and>
    (th_delivery T \<noteq> D_Exit \<and> r_mRunning (th_r T) \<longrightarrow>
       (\<exists>ds U. thread_run T ds U \<and> list_all by_delivery ds \<and> called_back ds = backlog T \<and> backlog U = []))"
  using worker_enabled delivery_enabled asleep_reason drain_any started_inv [OF assms] by simp

text \<open>
  C17. \<open>stop\<close> returns: once the receiver has been stopped, the two threads and the caller of \<open>stop\<close> make at
  most 65548 steps more, whatever other callers do in between. As long as \<open>stop\<close> has not made its
  notification and joined both threads, one of the three can make its next step, without a spurious
  wake-up; when it has returned, both threads have ended.
\<close>

theorem stop_terminates:
  assumes "newReceiver n tmo hol retries iv THREADED clk al = Inr r" "retries \<le> 64" "thread_run (startThreads r) es T"
    and "\<not> r_mRunning (th_r T)" "thread_run T ds U"
  shows "length (filter (\<lambda>e. e \<noteq> CallerStep) ds) \<le> 65548 \<and>
    (if th_stop U = S_Returned then th_worker U = W_Exit \<and> th_delivery U = D_Exit
     else \<exists>e V. thread_step U e V \<and> e \<notin> {CallerStep, SpuriousWakeup})"
proof -
  have T: "thread_inv T" by (rule started_inv [OF assms(1-3)])
  have slots: "length js \<le> 65536" if "th_worker T = W_Deliver js" for js using T that distinct_slots by (simp add: thread_inv_def)
  have "th_delivery T \<noteq> D_Block" using T assms(4) unfolding thread_inv_def sync_inv_def delivery_wanted_def by blast
  then have "delivery_work (th_delivery T) \<le> 6" by (cases "th_delivery T") simp_all
  moreover have "worker_work (th_worker T) \<le> 65539" using slots by (cases "th_worker T") auto
  moreover have "stop_work (th_stop T) \<le> 3" by (cases "th_stop T") simp_all
  ultimately have "thread_work T \<le> 65548" by (simp add: thread_work_def)
  moreover have U: "thread_inv U" by (rule thread_run_inv [OF assms(5) T])
  moreover note run = stopping_run [OF assms(5) T assms(4)]
  moreover have "th_stop U \<noteq> S_None" using U run unfolding thread_inv_def sync_inv_def by meson
  moreover have "th_stop U = S_Returned \<Longrightarrow> th_worker U = W_Exit \<and> th_delivery U = D_Exit"
    using U by (simp add: thread_inv_def sync_inv_def)
  ultimately show ?thesis using stop_progress [OF U] by auto
qed

text \<open>
  C37. Frames that wait when the receiver is stopped are abandoned: at most one more frame reaches the
  callback, whatever is in the queue and whatever the worker still hands over.
\<close>

theorem stop_abandons_queue:
  assumes "newReceiver n tmo hol retries iv THREADED clk al = Inr r" "retries \<le> 64" "thread_run (startThreads r) es T"
    and "\<not> r_mRunning (th_r T)" "thread_run T ds U"
  shows "length (called_back ds) \<le> 1 \<and> backlog T @ handed_over ds = called_back ds @ backlog U"
proof -
  have T: "thread_inv T" by (rule started_inv [OF assms(1-3)])
  have "calls_left (th_delivery T) \<le> 1" by (cases "th_delivery T") simp_all
  with stopping_run [OF assms(5) T assms(4)] thread_run_order [OF assms(5) T] show ?thesis by auto
qed

section \<open>Witnesses\<close>

text \<open>
  A receiver that gets the packets of one frame and whose worker hands it over; the delivery thread has
  not moved yet.
\<close>

lemma callers_run:
  assumes "run_ops receiver_step (arrivals ps) r = Some s"
  shows "thread_run (startThreads r) (replicate (length ps) CallerStep) (startThreads s)"
  using assms
proof (induction ps arbitrary: s rule: rev_induct)
  case Nil
  then show ?case by (simp add: arrivals_def thread_run.run_none)
next
  case (snoc p ps)
  obtain d src where p: "p = (d, src)" by (cases p)
  with snoc.prems obtain u c where u: "run_ops receiver_step (arrivals ps) r = Some u" "receive d src u = Some (c, s)"
    by (auto simp: arrivals_def run_ops_append split: bind_splits option.splits)
  have "thread_step (startThreads u) CallerStep ((startThreads u)\<lparr>th_r := s\<rparr>)"
    by (rule caller_receive [where d = d and src = src and res = c]) (simp_all add: startThreads_def u(2))
  from run_more [OF snoc.IH [OF u(1)] this, of "replicate (length (ps @ [p])) CallerStep"] show ?case
    by (simp add: startThreads_def replicate_append_same)
qed

abbreviation gap_start :: Threads where
  "gap_start \<equiv> startThreads (default_receiver (\<lambda>_. True))"

lemma gap_handed_over:
  obtains f u where "thread_run gap_start ([CallerStep, CallerStep, CallerStep, WorkerStep, WorkerStep, HandOver f])
      \<lparr>th_r = u, th_worker = W_Deliver [], th_delivery = D_Check, th_stop = S_None\<rparr>"
    "r_mDeliveryQueue u = [f]" "r_mRunning u"
proof -
  let ?g = "startThreads gap_receiver"
  have c: "thread_run gap_start [CallerStep, CallerStep, CallerStep] ?g"
    using callers_run [OF gap_receiver_run] by (simp add: gap_packets_def numeral_3_eq_3)
  have w1: "thread_step ?g WorkerStep (?g\<lparr>th_worker := W_Lock\<rparr>)"
    by (rule worker_continue) (simp_all add: startThreads_def gap_receiver_eval)
  have g: "recv_inv gap_receiver" "r_mMode gap_receiver = THREADED" by (simp_all add: gap_receiver_inv gap_receiver_eval)
  obtain s where s: "scan_timeouts gap_receiver = Some ([0], s)"
    by (simp add: scan_timeouts_def processNacks_def nack_bucket_def gap_receiver_eval r_nowUs_def nowUs_def bucket_complete_def
        to_deliver_def emptyBucket_def Let_def)
  note S = scan_result [OF g(1) s]
  have w2: "thread_step (?g\<lparr>th_worker := W_Lock\<rparr>) WorkerStep \<lparr>th_r = s, th_worker = W_Deliver [0], th_delivery = D_Check, th_stop = S_None\<rparr>"
    using worker_scan [of "?g\<lparr>th_worker := W_Lock\<rparr>", OF _ _] s by (fastforce simp: startThreads_def)
  from deliverFrame_spec [OF S(2), of 0] S(4) obtain u where u: "deliverFrame 0 s = Some u" by auto
  have w3: "thread_step \<lparr>th_r = s, th_worker = W_Deliver [0], th_delivery = D_Check, th_stop = S_None\<rparr> (HandOver (ready_frame s 0))
      \<lparr>th_r = u, th_worker = W_Deliver [], th_delivery = D_Check, th_stop = S_None\<rparr>"
    using worker_deliver [of "\<lparr>th_r = s, th_worker = W_Deliver [0], th_delivery = D_Check, th_stop = S_None\<rparr>" 0 "[]" u] u by simp
  have "thread_run gap_start [CallerStep, CallerStep, CallerStep, WorkerStep, WorkerStep, HandOver (ready_frame s 0)]
      \<lparr>th_r = u, th_worker = W_Deliver [], th_delivery = D_Check, th_stop = S_None\<rparr>"
    by (rule run_more [OF run_more [OF run_more [OF c w1 refl] w2 refl] w3]) simp
  moreover have "r_mDeliveryQueue u = [ready_frame s 0]" "r_mRunning u"
    using deliverFrame_result [of s 0 u] u S(1) by (simp_all add: nacked_def gap_receiver_eval)
  ultimately show ?thesis by (rule that)
qed

theorem frames_called_in_order_witness:
  "\<exists>f T. thread_run gap_start [CallerStep, CallerStep, CallerStep, WorkerStep, WorkerStep, HandOver f] T \<and>
     r_mDeliveryQueue (th_r T) = [f] \<and> r_delivered (th_r T) = []"
proof -
  obtain f u where run: "thread_run gap_start [CallerStep, CallerStep, CallerStep, WorkerStep, WorkerStep, HandOver f]
      \<lparr>th_r = u, th_worker = W_Deliver [], th_delivery = D_Check, th_stop = S_None\<rparr>" by (rule gap_handed_over)
  from frames_called_in_order [OF default_receiver_new _ this] run show ?thesis
    by (intro exI [of _ f] exI [of _ "\<lparr>th_r = u, th_worker = W_Deliver [], th_delivery = D_Check, th_stop = S_None\<rparr>"]) simp
qed

theorem threads_refine_turns_witness:
  "\<exists>f u T ops s. thread_run gap_start [CallerStep, CallerStep, CallerStep, WorkerStep, WorkerStep, HandOver f] T \<and>
     T = \<lparr>th_r = u, th_worker = W_Deliver [], th_delivery = D_Check, th_stop = S_None\<rparr> \<and> settled T = Some s \<and>
     run_ops receiver_step ops (default_receiver (\<lambda>_. True)) = Some s"
proof -
  obtain f u where run: "thread_run gap_start [CallerStep, CallerStep, CallerStep, WorkerStep, WorkerStep, HandOver f]
      \<lparr>th_r = u, th_worker = W_Deliver [], th_delivery = D_Check, th_stop = S_None\<rparr>" "r_mRunning u" by (rule gap_handed_over)
  from threads_refine_turns [OF default_receiver_new _ run(1)] run show ?thesis by auto
qed

theorem no_thread_waits_in_vain_witness:
  "\<exists>f es ds T U. thread_run gap_start es T \<and> thread_run T ds U \<and> list_all by_delivery ds \<and> called_back ds = [f]"
proof -
  obtain f u where run: "thread_run gap_start [CallerStep, CallerStep, CallerStep, WorkerStep, WorkerStep, HandOver f]
      \<lparr>th_r = u, th_worker = W_Deliver [], th_delivery = D_Check, th_stop = S_None\<rparr>" "r_mDeliveryQueue u = [f]" "r_mRunning u" by (rule gap_handed_over)
  from no_thread_waits_in_vain [OF default_receiver_new _ run(1)] run show ?thesis by (fastforce simp: backlog_def)
qed

text \<open>The same receiver, stopped at that moment: both threads end, and the frame stays in the queue.\<close>

lemma gap_stopped:
  obtains f es T U where "thread_run gap_start es T" "\<not> r_mRunning (th_r T)"
    "thread_run T [WorkerStep, WorkerStep, DeliveryStep, StopStep, StopStep, StopStep] U"
    "th_worker U = W_Exit" "th_delivery U = D_Exit" "th_stop U = S_Returned" "backlog T = [f]" "backlog U = [f]"
proof -
  obtain f u where run: "thread_run gap_start [CallerStep, CallerStep, CallerStep, WorkerStep, WorkerStep, HandOver f]
      \<lparr>th_r = u, th_worker = W_Deliver [], th_delivery = D_Check, th_stop = S_None\<rparr>" "r_mDeliveryQueue u = [f]" "r_mRunning u"
    by (rule gap_handed_over)
  let ?S = "\<lambda>w d s. \<lparr>th_r = stop u, th_worker = w, th_delivery = d, th_stop = s\<rparr>"
  have stopped: "\<not> r_mRunning (stop u)" "r_mDeliveryQueue (stop u) = [f]" using run(2) by (simp_all add: stop_def)
  have "thread_step \<lparr>th_r = u, th_worker = W_Deliver [], th_delivery = D_Check, th_stop = S_None\<rparr> CallerStep (?S (W_Deliver []) D_Check S_Notify)"
    using caller_stop [of "\<lparr>th_r = u, th_worker = W_Deliver [], th_delivery = D_Check, th_stop = S_None\<rparr>"] run(3) by simp
  from thread_run.run_step [OF run(1) this] have start: "thread_run gap_start
      ([CallerStep, CallerStep, CallerStep, WorkerStep, WorkerStep, HandOver f] @ [CallerStep]) (?S (W_Deliver []) D_Check S_Notify)" .
  have 1: "thread_step (?S (W_Deliver []) D_Check S_Notify) WorkerStep (?S W_Check D_Check S_Notify)"
    using worker_unlock [of "?S (W_Deliver []) D_Check S_Notify"] by simp
  have 2: "thread_step (?S W_Check D_Check S_Notify) WorkerStep (?S W_Exit D_Check S_Notify)"
    using worker_leave [of "?S W_Check D_Check S_Notify"] stopped by simp
  have 3: "thread_step (?S W_Exit D_Check S_Notify) DeliveryStep (?S W_Exit D_Exit S_Notify)"
    using delivery_leave [of "?S W_Exit D_Check S_Notify"] stopped by simp
  have 4: "thread_step (?S W_Exit D_Exit S_Notify) StopStep (?S W_Exit D_Exit S_JoinWorker)"
    using stop_notify [of "?S W_Exit D_Exit S_Notify"] by simp
  have 5: "thread_step (?S W_Exit D_Exit S_JoinWorker) StopStep (?S W_Exit D_Exit S_JoinDelivery)"
    using stop_join_worker [of "?S W_Exit D_Exit S_JoinWorker"] by simp
  have 6: "thread_step (?S W_Exit D_Exit S_JoinDelivery) StopStep (?S W_Exit D_Exit S_Returned)"
    using stop_join_delivery [of "?S W_Exit D_Exit S_JoinDelivery"] by simp
  have "thread_run (?S (W_Deliver []) D_Check S_Notify) [WorkerStep, WorkerStep, DeliveryStep, StopStep, StopStep, StopStep]
      (?S W_Exit D_Exit S_Returned)"
    by (rule run_more [OF run_more [OF run_more [OF run_more [OF run_more [OF run_single [OF 1] 2 refl] 3 refl] 4 refl] 5 refl] 6]) simp
  with start stopped show ?thesis using that by (fastforce simp: backlog_def)
qed

theorem stop_terminates_witness:
  "\<exists>es ds T U. thread_run gap_start es T \<and> thread_run T ds U \<and> th_stop U = S_Returned \<and> th_worker U = W_Exit \<and>
     th_delivery U = D_Exit \<and> length (filter (\<lambda>e. e \<noteq> CallerStep) ds) = 6"
proof -
  obtain f es T U where r: "thread_run gap_start es T" "\<not> r_mRunning (th_r T)"
    "thread_run T [WorkerStep, WorkerStep, DeliveryStep, StopStep, StopStep, StopStep] U" "th_stop U = S_Returned" by (rule gap_stopped)
  from stop_terminates [OF default_receiver_new _ r(1,2,3)] r show ?thesis
    by (intro exI [of _ es] exI [of _ "[WorkerStep, WorkerStep, DeliveryStep, StopStep, StopStep, StopStep]"] exI [of _ T] exI [of _ U]) simp
qed

theorem stop_abandons_queue_witness:
  "\<exists>f es ds T U. thread_run gap_start es T \<and> thread_run T ds U \<and> th_worker U = W_Exit \<and> th_delivery U = D_Exit \<and>
     backlog T = [f] \<and> called_back ds = []"
proof -
  obtain f es T U where r: "thread_run gap_start es T" "\<not> r_mRunning (th_r T)"
    "thread_run T [WorkerStep, WorkerStep, DeliveryStep, StopStep, StopStep, StopStep] U"
    "th_worker U = W_Exit" "th_delivery U = D_Exit" "th_stop U = S_Returned" "backlog T = [f]" "backlog U = [f]" by (rule gap_stopped)
  from stop_abandons_queue [OF default_receiver_new _ r(1,2,3)] r show ?thesis by fastforce
qed

end
