(* ===== verification/Efp_Float.thy ===== *)
theory Efp_Float
  imports Efp_Prelude "HOL-Library.Log_Nat"
begin

text \<open>
  The C++ type \<open>float\<close> as far as the bandwidth manager uses it: binary32 values with the arithmetic of
  IEEE 754, rounding to nearest with ties to even. A finite value is a rational number; the two zeros
  are one value, since the code never divides by a negative zero.
\<close>

section \<open>Rounding\<close>

definition round_even :: "rat \<Rightarrow> int" where
  "round_even x = (let f = \<lfloor>x\<rfloor>; d = x - of_int f
     in if d < 1 / 2 \<or> (d = 1 / 2 \<and> even f) then f else f + 1)"

lemma round_even_bounds: "\<lfloor>x\<rfloor> \<le> round_even x" "round_even x \<le> \<lceil>x\<rceil>"
proof -
  show "\<lfloor>x\<rfloor> \<le> round_even x" by (simp add: round_even_def Let_def)
  have "x = of_int \<lfloor>x\<rfloor> \<or> \<lceil>x\<rceil> = \<lfloor>x\<rfloor> + 1" by (metis ceiling_altdef)
  then show "round_even x \<le> \<lceil>x\<rceil>" by (auto simp: round_even_def Let_def)
qed

lemma round_even_ge: "of_int k \<le> x \<Longrightarrow> k \<le> round_even x"
  using round_even_bounds(1) [of x] by (meson le_floor_iff order.trans)

lemma round_even_le: "x \<le> of_int k \<Longrightarrow> round_even x \<le> k"
  using round_even_bounds(2) [of x] by (meson ceiling_le_iff order.trans)

text \<open>The binade of a positive rational: the \<open>k\<close> with \<open>2^k \<le> x < 2^(k+1)\<close>.\<close>

definition ilog2 :: "rat \<Rightarrow> int" where
  "ilog2 x = (case quotient_of x of (n, d) \<Rightarrow>
     let k = bitlen n - bitlen d in if 2 powi k \<le> x then k else k - 1)"

lemma bitlen_powi:
  assumes "0 < n"
  shows "2 powi (bitlen n - 1) \<le> (of_int n :: rat)" "of_int n < (2 :: rat) powi bitlen n"
proof -
  have b: "0 < bitlen n" using assms by (metis bitlen_eq_zero_iff bitlen_nonneg not_le order_le_less)
  have "2 ^ nat (bitlen n - 1) \<le> n" "n < 2 ^ nat (bitlen n)" using bitlen_bounds [OF assms] by simp_all
  then have "(2 :: rat) ^ nat (bitlen n - 1) \<le> of_int n" "of_int n < (2 :: rat) ^ nat (bitlen n)"
    by (metis of_int_le_iff of_int_numeral of_int_power, metis of_int_less_iff of_int_numeral of_int_power)
  with b show "2 powi (bitlen n - 1) \<le> (of_int n :: rat)" "of_int n < (2 :: rat) powi bitlen n"
    by (simp_all add: power_int_def)
qed

lemma ilog2_bounds:
  assumes "0 < x"
  shows "2 powi ilog2 x \<le> x" "x < 2 powi (ilog2 x + 1)"
proof -
  obtain n d where q: "quotient_of x = (n, d)" by (cases "quotient_of x")
  have d: "0 < d" using quotient_of_denom_pos [OF q] .
  have x: "x = of_int n / of_int d" using quotient_of_div [OF q] .
  with assms d have n: "0 < n" by (simp add: zero_less_divide_iff)
  note N = bitlen_powi [OF n] and D = bitlen_powi [OF d]
  let ?k = "bitlen n - bitlen d"
  have "of_int n < 2 powi (?k + 1) * (2 powi (bitlen d - 1) :: rat)"
    using N(2) by (simp add: power_int_add [symmetric])
  also have "\<dots> \<le> 2 powi (?k + 1) * of_int d" using D(1) by (intro mult_left_mono) simp_all
  finally have up: "x < 2 powi (?k + 1)" using d by (simp add: x divide_less_eq)
  have "2 powi (?k - 1) * of_int d < 2 powi (?k - 1) * (2 powi bitlen d :: rat)"
    using D(2) by (intro mult_strict_left_mono) simp_all
  also have "\<dots> = 2 powi (bitlen n - 1)" by (simp add: power_int_add [symmetric])
  also have "\<dots> \<le> of_int n" by (rule N(1))
  finally have low: "2 powi (?k - 1) \<le> x" using d by (simp add: x le_divide_eq)
  show "2 powi ilog2 x \<le> x" "x < 2 powi (ilog2 x + 1)"
    using up low by (simp_all add: ilog2_def q Let_def)
qed

lemma powi2_less [simp]: "(2 :: rat) powi a < 2 powi b \<longleftrightarrow> a < b"
  by (metis linorder_cases order_less_asym power_int_strict_increasing rel_simps(49) one_less_numeral_iff semiring_norm(76) less_irrefl)

lemma powi2_le [simp]: "(2 :: rat) powi a \<le> 2 powi b \<longleftrightarrow> a \<le> b"
  by (meson linorder_not_le powi2_less)

lemma ilog2_unique:
  assumes "2 powi k \<le> x" "x < 2 powi (k + 1)"
  shows "ilog2 x = k"
proof -
  have "0 < x" using assms(1) by (metis less_le_trans zero_less_numeral zero_less_power_int)
  note b = ilog2_bounds [OF this]
  have "2 powi ilog2 x < (2 :: rat) powi (k + 1)" "2 powi k < (2 :: rat) powi (ilog2 x + 1)"
    using b assms by linarith+
  then show ?thesis by simp
qed

text \<open>The distance of neighbouring values around \<open>x\<close>, and the rounding with it.\<close>

definition quantum :: "rat \<Rightarrow> int" where
  "quantum x = (if x = 0 then - 149 else max (- 149) (ilog2 \<bar>x\<bar> - 23))"

definition rnd :: "rat \<Rightarrow> rat" where
  "rnd x = of_int (if x < 0 then - round_even (- x * 2 powi (- quantum x)) else round_even (x * 2 powi (- quantum x)))
     * 2 powi quantum x"

text \<open>The values of the format, without a bound on the exponent.\<close>

definition rep :: "rat \<Rightarrow> bool" where
  "rep z \<longleftrightarrow> (\<exists>m e. z = of_int m * 2 powi e \<and> \<bar>m\<bar> \<le> 2 ^ 24 \<and> - 149 \<le> e)"

lemma rep_neg [simp]: "rep (- z) \<longleftrightarrow> rep z"
proof -
  have "rep (- z)" if "rep z" for z
    using that unfolding rep_def by (elim exE conjE, rule_tac x = "- m" in exI, rule_tac x = e in exI) simp
  from this [of z] this [of "- z"] show ?thesis by auto
qed

lemma quantum_neg [simp]: "quantum (- x) = quantum x"
  by (simp add: quantum_def)

lemma rnd_neg: "rnd (- x) = - rnd x"
  by (auto simp: rnd_def round_even_def)

lemma rep_ints: "\<bar>m\<bar> \<le> 2 ^ 24 \<Longrightarrow> rep (of_int m)"
  unfolding rep_def by (intro exI [of _ m] exI [of _ 0]) simp

lemma scaled:
  assumes "0 < x"
  shows "x * 2 powi (- quantum x) < 2 ^ 24" "quantum x \<noteq> - 149 \<Longrightarrow> 2 ^ 23 \<le> x * 2 powi (- quantum x)"
proof -
  note b = ilog2_bounds [OF assms]
  have q: "quantum x = max (- 149) (ilog2 x - 23)" using assms by (simp add: quantum_def)
  have "x * 2 powi (- quantum x) < 2 powi (ilog2 x + 1) * 2 powi (- quantum x)"
    using b(2) by (intro mult_strict_right_mono) simp_all
  also have "\<dots> \<le> 2 powi 24" by (simp add: power_int_add [symmetric] q del: power_int_numeral) 
  finally show "x * 2 powi (- quantum x) < 2 ^ 24" by simp
  assume "quantum x \<noteq> - 149"
  then have "(2 :: rat) powi 23 = 2 powi ilog2 x * 2 powi (- quantum x)" using q
    by (simp add: power_int_add [symmetric] max_def split: if_splits del: power_int_numeral)
  also have "\<dots> \<le> x * 2 powi (- quantum x)" using b(1) by (intro mult_right_mono) simp_all
  finally show "2 ^ 23 \<le> x * 2 powi (- quantum x)" by simp
qed

lemma rep_rnd: "rep (rnd x)"
proof -
  have pos: "rep (rnd x)" if "0 < x" for x
  proof -
    let ?m = "round_even (x * 2 powi (- quantum x))"
    have "x * 2 powi (- quantum x) \<le> of_int (2 ^ 24)" using scaled(1) [OF that] by simp
    then have "?m \<le> 2 ^ 24" by (rule round_even_le)
    moreover have "0 \<le> ?m" using that by (intro round_even_ge) simp
    moreover have "- 149 \<le> quantum x" by (simp add: quantum_def)
    ultimately show ?thesis using that unfolding rep_def rnd_def by (intro exI [of _ ?m] exI [of _ "quantum x"]) simp
  qed
  consider "x = 0" | "0 < x" | "0 < - x" by linarith
  then show ?thesis
  proof cases
    case 1
    then show ?thesis using rep_ints [of 0] by (simp add: rnd_def round_even_def)
  next
    case 3
    from pos [OF this] show ?thesis by (simp add: rnd_neg)
  qed (rule pos)
qed

text \<open>Rounding does not cross a value of the format.\<close>

lemma rnd_ge_pos:
  assumes "rep z" "z \<le> x" "0 < x"
  shows "z \<le> rnd x"
proof -
  let ?q = "quantum x" and ?y = "x * 2 powi (- quantum x)"
  from assms(1) obtain m e where z: "z = of_int m * 2 powi e" "\<bar>m\<bar> \<le> 2 ^ 24" "- 149 \<le> e" by (auto simp: rep_def)
  have one: "(2 :: rat) powi (- ?q) * 2 powi ?q = 1" by (simp add: power_int_minus)
  have "of_int k * 2 powi ?q \<le> rnd x" if "of_int k \<le> ?y" for k
    using round_even_ge [OF that] assms(3) by (simp add: rnd_def)
  note ge = this
  show ?thesis
  proof (cases "?q \<le> e")
    case True
    let ?k = "m * 2 ^ nat (e - ?q)"
    have "(2 :: rat) powi (e - ?q) = 2 ^ nat (e - ?q)" using True by (simp add: power_int_def)
    then have k: "of_int ?k = z * 2 powi (- ?q)" by (simp add: z(1) power_int_diff power_int_minus divide_inverse mult.assoc)
    have "of_int ?k \<le> ?y" unfolding k using assms(2) by (intro mult_right_mono) simp_all
    from ge [OF this] show ?thesis unfolding k by (simp add: mult.assoc one)
  next
    case False
    then have "?q \<noteq> - 149" using z(3) by simp
    from ge [of "2 ^ 23"] scaled(2) [OF assms(3) this] have "2 ^ 23 * 2 powi ?q \<le> rnd x" by simp
    moreover have "(of_int m :: rat) \<le> of_int (2 ^ 24)" using z(2) by (simp only: of_int_le_iff)
    then have "z \<le> 2 ^ 24 * 2 powi e" unfolding z(1) by (intro mult_right_mono) simp_all
    moreover have "(2 :: rat) ^ 24 * 2 powi e \<le> 2 ^ 23 * 2 powi ?q"
    proof -
      have "(2 :: rat) powi (24 + e) \<le> 2 powi (23 + ?q)" using False by (simp del: power_int_numeral)
      then show ?thesis by (simp add: power_int_add)
    qed
    ultimately show ?thesis by linarith
  qed
qed

lemma rnd_0 [simp]: "rnd 0 = 0"
  by (simp add: rnd_def round_even_def)

lemma rnd_nonneg: "0 \<le> x \<Longrightarrow> 0 \<le> rnd x"
  using rnd_ge_pos [of 0 x] rep_ints [of 0] by (cases "x = 0") simp_all

lemma rnd_le_pos:
  assumes "rep z" "x \<le> z" "0 < x"
  shows "rnd x \<le> z"
proof -
  let ?q = "quantum x" and ?y = "x * 2 powi (- quantum x)"
  from assms(1) obtain m e where z: "z = of_int m * 2 powi e" "\<bar>m\<bar> \<le> 2 ^ 24" "- 149 \<le> e" by (auto simp: rep_def)
  have one: "(2 :: rat) powi (- ?q) * 2 powi ?q = 1" by (simp add: power_int_minus)
  have le: "rnd x \<le> of_int k * 2 powi ?q" if "?y \<le> of_int k" for k
    using round_even_le [OF that] assms(3) by (simp add: rnd_def)
  show ?thesis
  proof (cases "?q \<le> e")
    case True
    let ?k = "m * 2 ^ nat (e - ?q)"
    have "(2 :: rat) powi (e - ?q) = 2 ^ nat (e - ?q)" using True by (simp add: power_int_def)
    then have k: "of_int ?k = z * 2 powi (- ?q)" by (simp add: z(1) power_int_diff power_int_minus divide_inverse mult.assoc)
    have "?y \<le> of_int ?k" unfolding k using assms(2) by (intro mult_right_mono) simp_all
    from le [OF this] show ?thesis unfolding k by (simp add: mult.assoc one)
  next
    case False
    then have "2 ^ 23 * 2 powi ?q \<le> x"
      using mult_right_mono [OF scaled(2) [OF assms(3)], of "2 powi ?q"] z(3) one by (simp add: mult.assoc)
    moreover have "(of_int m :: rat) \<le> of_int (2 ^ 24)" using z(2) by (simp only: of_int_le_iff)
    then have "z \<le> 2 ^ 24 * 2 powi e" unfolding z(1) by (intro mult_right_mono) simp_all
    moreover have "(2 :: rat) ^ 24 * 2 powi e \<le> 2 ^ 23 * 2 powi ?q"
    proof -
      have "(2 :: rat) powi (24 + e) \<le> 2 powi (23 + ?q)" using False by (simp del: power_int_numeral)
      then show ?thesis by (simp add: power_int_add)
    qed
    ultimately have e: "x = 2 ^ 23 * 2 powi ?q" "z = 2 ^ 23 * 2 powi ?q" using assms(2) by linarith+
    have "?y = 2 ^ 23 * (2 powi (- ?q) * 2 powi ?q)" by (subst (1) e(1)) (simp only: mult_ac)
    then have "?y \<le> of_int (2 ^ 23)" by (simp only: one) simp
    from le [OF this] show ?thesis unfolding e(2) by simp
  qed
qed

lemma rnd_ge: "rep z \<Longrightarrow> z \<le> x \<Longrightarrow> z \<le> rnd x"
proof -
  assume z: "rep z" "z \<le> x"
  consider "x = 0" | "0 < x" | "0 < - x" by linarith
  then show ?thesis
  proof cases
    case 3
    with rnd_le_pos [of "- z" "- x"] z show ?thesis by (simp add: rnd_neg)
  qed (use z rnd_ge_pos in auto)
qed

lemma rnd_le: "rep z \<Longrightarrow> x \<le> z \<Longrightarrow> rnd x \<le> z"
  using rnd_ge [of "- z" "- x"] by (simp add: rnd_neg)

lemma rnd_rep: "rep z \<Longrightarrow> rnd z = z"
  using rnd_ge [of z z] rnd_le [of z z] by simp

section \<open>Values and operations\<close>

text \<open>\<open>F_Inf neg\<close> is the infinity with that sign.\<close>

datatype f32 = F_NaN | F_Inf bool | F_Fin rat

definition f32_max :: rat where
  "f32_max = (2 ^ 24 - 1) * 2 ^ 104"

definition f_round :: "rat \<Rightarrow> f32" where
  "f_round x = (let y = rnd x in if \<bar>y\<bar> \<le> f32_max then F_Fin y else F_Inf (y < 0))"

fun f_add :: "f32 \<Rightarrow> f32 \<Rightarrow> f32" where
  "f_add (F_Fin a) (F_Fin b) = f_round (a + b)"
| "f_add (F_Inf s) (F_Fin b) = F_Inf s"
| "f_add (F_Fin a) (F_Inf t) = F_Inf t"
| "f_add (F_Inf s) (F_Inf t) = (if s = t then F_Inf s else F_NaN)"
| "f_add F_NaN y = F_NaN"
| "f_add x F_NaN = F_NaN"

fun f_mul :: "f32 \<Rightarrow> f32 \<Rightarrow> f32" where
  "f_mul (F_Fin a) (F_Fin b) = f_round (a * b)"
| "f_mul (F_Inf s) (F_Fin b) = (if b = 0 then F_NaN else F_Inf (s \<noteq> (b < 0)))"
| "f_mul (F_Fin a) (F_Inf t) = (if a = 0 then F_NaN else F_Inf ((a < 0) \<noteq> t))"
| "f_mul (F_Inf s) (F_Inf t) = F_Inf (s \<noteq> t)"
| "f_mul F_NaN y = F_NaN"
| "f_mul x F_NaN = F_NaN"

fun f_div :: "f32 \<Rightarrow> f32 \<Rightarrow> f32" where
  "f_div (F_Fin a) (F_Fin b) =
     (if b = 0 then (if a = 0 then F_NaN else F_Inf (a < 0)) else f_round (a / b))"
| "f_div (F_Inf s) (F_Fin b) = F_Inf (s \<noteq> (b < 0))"
| "f_div (F_Fin a) (F_Inf t) = F_Fin 0"
| "f_div (F_Inf s) (F_Inf t) = F_NaN"
| "f_div F_NaN y = F_NaN"
| "f_div x F_NaN = F_NaN"

fun f_less :: "f32 \<Rightarrow> f32 \<Rightarrow> bool" where
  "f_less (F_Fin a) (F_Fin b) \<longleftrightarrow> a < b"
| "f_less (F_Inf s) (F_Fin b) \<longleftrightarrow> s"
| "f_less (F_Fin a) (F_Inf t) \<longleftrightarrow> \<not> t"
| "f_less (F_Inf s) (F_Inf t) \<longleftrightarrow> s \<and> \<not> t"
| "f_less F_NaN y \<longleftrightarrow> False"
| "f_less x F_NaN \<longleftrightarrow> False"

text \<open>C++ equality and \<open>>=\<close>: false on a NaN; \<open>!=\<close> is the negation of equality.\<close>

definition f_eq :: "f32 \<Rightarrow> f32 \<Rightarrow> bool" where
  "f_eq x y \<longleftrightarrow> x = y \<and> x \<noteq> F_NaN"

definition f_geq :: "f32 \<Rightarrow> f32 \<Rightarrow> bool" where
  "f_geq x y \<longleftrightarrow> f_less y x \<or> f_eq x y"

definition f_of_int :: "int \<Rightarrow> f32" where
  "f_of_int i = f_round (of_int i)"

text \<open>\<open>std::min\<close>, and \<open>std::clamp\<close>, whose behaviour is undefined when the upper bound is below the lower.\<close>

definition f_min :: "f32 \<Rightarrow> f32 \<Rightarrow> f32" where
  "f_min a b = (if f_less b a then b else a)"

definition f_clamp :: "f32 \<Rightarrow> f32 \<Rightarrow> f32 \<Rightarrow> f32 option" where
  "f_clamp v lo hi = (if f_less hi lo then None else Some (if f_less v lo then lo else if f_less hi v then hi else v))"

lemma f_round_cases: "\<bar>rnd x\<bar> \<le> f32_max \<and> f_round x = F_Fin (rnd x) \<or> f32_max < \<bar>rnd x\<bar> \<and> f_round x = F_Inf (rnd x < 0)"
  by (auto simp: f_round_def Let_def)

text \<open>The order of the values that are not NaN.\<close>

lemma f_less_irrefl [simp]: "\<not> f_less x x"
  by (cases x) simp_all

lemma f_less_trans: "f_less x y \<Longrightarrow> f_less y z \<Longrightarrow> f_less x z"
  by (cases x; cases y; cases z) auto

lemma f_less_asym: "f_less x y \<Longrightarrow> \<not> f_less y x"
  using f_less_trans f_less_irrefl by blast

lemma f_less_total: "x \<noteq> F_NaN \<Longrightarrow> y \<noteq> F_NaN \<Longrightarrow> f_less x y \<or> x = y \<or> f_less y x"
  by (cases x; cases y) auto

lemma f_less_nan [simp]: "\<not> f_less F_NaN y" "\<not> f_less x F_NaN"
  by (cases x; simp)+

definition f_within :: "f32 \<Rightarrow> f32 \<Rightarrow> f32 \<Rightarrow> bool" where
  "f_within lo v hi \<longleftrightarrow> v \<noteq> F_NaN \<and> \<not> f_less v lo \<and> \<not> f_less hi v"

lemma f_clamp_within:
  assumes "lo \<noteq> F_NaN" "hi \<noteq> F_NaN" "\<not> f_less hi lo" "v \<noteq> F_NaN"
  shows "\<exists>w. f_clamp v lo hi = Some w \<and> f_within lo w hi"
  using assms f_less_trans by (auto simp: f_clamp_def f_within_def)

lemma f_clamp_id: "f_within lo v hi \<Longrightarrow> \<not> f_less hi lo \<Longrightarrow> f_clamp v lo hi = Some v"
  by (simp add: f_clamp_def f_within_def)

lemma f_clamp_mono:
  assumes "f_clamp a lo hi = Some x" "f_clamp b lo hi = Some y" "\<not> f_less a b" "a \<noteq> F_NaN" "b \<noteq> F_NaN" "lo \<noteq> F_NaN" "hi \<noteq> F_NaN"
  shows "\<not> f_less x y"
  using assms f_less_trans f_less_total [of a b] f_less_irrefl unfolding f_clamp_def
  by (auto split: if_splits)

text \<open>The values a \<open>float\<close> can have.\<close>

definition f32_ok :: "f32 \<Rightarrow> bool" where
  "f32_ok v \<longleftrightarrow> (case v of F_Fin r \<Rightarrow> rep r \<and> \<bar>r\<bar> \<le> f32_max | _ \<Rightarrow> True)"

lemma f32_ok_round [simp]: "f32_ok (f_round x)"
  using f_round_cases [of x] rep_rnd [of x] by (auto simp: f32_ok_def)

lemma f32_ok_add: "f32_ok (f_add x y)"
  by (cases "(x, y)" rule: f_add.cases) (auto, simp_all add: f32_ok_def)

lemma f32_ok_choice: "f32_ok a \<Longrightarrow> f32_ok b \<Longrightarrow> f32_ok (f_min a b)"
  "f_clamp v lo hi = Some w \<Longrightarrow> f32_ok v \<Longrightarrow> f32_ok lo \<Longrightarrow> f32_ok hi \<Longrightarrow> f32_ok w"
  by (auto simp: f_min_def f_clamp_def split: if_splits)

lemma f32_ok_small: "\<bar>m\<bar> \<le> 2 ^ 24 \<Longrightarrow> f32_ok (F_Fin (of_int m))"
proof -
  assume m: "\<bar>m\<bar> \<le> 2 ^ 24"
  then have "\<bar>of_int m :: rat\<bar> \<le> of_int (2 ^ 24)" by (simp only: of_int_abs [symmetric] of_int_le_iff)
  with rep_ints [OF m] show ?thesis by (simp add: f32_ok_def f32_max_def)
qed

text \<open>Adding a number that is not negative does not lower a finite value of the format.\<close>

lemma f_add_increases:
  assumes "rep a" "\<bar>a\<bar> \<le> f32_max" "0 \<le> b"
  shows "\<not> f_less (f_add (F_Fin a) (F_Fin b)) (F_Fin a)" "f_add (F_Fin a) (F_Fin b) \<noteq> F_NaN"
proof -
  have le: "a \<le> rnd (a + b)" using assms(1,3) by (intro rnd_ge) simp_all
  with assms(2) have "f32_max < \<bar>rnd (a + b)\<bar> \<Longrightarrow> 0 \<le> rnd (a + b)" by linarith
  with le f_round_cases [of "a + b"] show "\<not> f_less (f_add (F_Fin a) (F_Fin b)) (F_Fin a)" by auto
  show "f_add (F_Fin a) (F_Fin b) \<noteq> F_NaN" using f_round_cases [of "a + b"] by auto
qed

lemma f_add_increases_ok:
  assumes "f32_ok v" "v \<noteq> F_NaN" "0 \<le> b"
  shows "\<not> f_less (f_add v (F_Fin b)) v"
  using assms f_add_increases(1) by (cases v) (auto simp: f32_ok_def)

end
