(* ===== verification/Efp_Bandwidth.thy ===== *)
theory Efp_Bandwidth
  imports Efp_SenderMachine Efp_Float
begin

text \<open>
  \<^verbatim>\<open>bandwidth_manager.h\<close>: a sender wrapped with an estimate of the network's health, from the rate
  of NACKs and the jitter, which sets a multiplier per stream and may drop streams. Arrays over the 256
  streams are functions of the stream number; the two callbacks append to \<open>bm_calls\<close>. Undefined
  behaviour (a clamp between crossed bounds, a division by zero, a signed overflow of an \<open>int64_t\<close>) is \<open>None\<close>.
\<close>

section \<open>Configuration and state\<close>

datatype NetworkHealth = HEALTHY | DEGRADED | CONGESTED | SEVERE

fun networkHealthValue :: "NetworkHealth \<Rightarrow> u8" where
  "networkHealthValue HEALTHY = 0"
| "networkHealthValue DEGRADED = 1"
| "networkHealthValue CONGESTED = 2"
| "networkHealthValue SEVERE = 3"

lemma networkHealthValue_inject [simp]: "networkHealthValue a = networkHealthValue b \<longleftrightarrow> a = b"
  by (cases a; cases b) simp_all

text \<open>An enumeration class is ordered by its values.\<close>

instantiation NetworkHealth :: linorder
begin

definition less_eq_NetworkHealth :: "NetworkHealth \<Rightarrow> NetworkHealth \<Rightarrow> bool" where
  "less_eq_NetworkHealth a b \<longleftrightarrow> networkHealthValue a \<le> networkHealthValue b"

definition less_NetworkHealth :: "NetworkHealth \<Rightarrow> NetworkHealth \<Rightarrow> bool" where
  "less_NetworkHealth a b \<longleftrightarrow> networkHealthValue a < networkHealthValue b"

instance
proof
  fix x y z :: NetworkHealth
  note defs = less_eq_NetworkHealth_def less_NetworkHealth_def
  show "(x < y) = (x \<le> y \<and> \<not> y \<le> x)" "x \<le> x" by (simp_all add: defs less_le_not_le)
  show "x \<le> y \<Longrightarrow> y \<le> z \<Longrightarrow> x \<le> z" unfolding defs by (rule order.trans)
  show "x \<le> y \<Longrightarrow> y \<le> x \<Longrightarrow> x = y" unfolding defs using networkHealthValue_inject order.antisym by blast
  show "x \<le> y \<or> y \<le> x" unfolding defs by (rule linear)
qed

end

record StreamBandwidthConfig =
  sc_mMinMultiplier :: f32
  sc_mMaxMultiplier :: f32
  sc_mDropOnSevereCongestion :: bool
  sc_mPriority :: u8

definition defaultStreamConfig :: StreamBandwidthConfig where
  "defaultStreamConfig = \<lparr>sc_mMinMultiplier = F_Fin 0, sc_mMaxMultiplier = F_Fin 1,
     sc_mDropOnSevereCongestion = False, sc_mPriority = 128\<rparr>"

record BandwidthManagerConfig =
  bc_mNackRateDegraded :: f32
  bc_mNackRateCongested :: f32
  bc_mNackRateSevere :: f32
  bc_mJitterDegradedUs :: int
  bc_mJitterCongestedUs :: int
  bc_mProbeIntervalMs :: u32
  bc_mRecoveryWindowMs :: u32
  bc_mMaxProbeFailures :: u8
  bc_mUpdateIntervalMs :: u32
  bc_mAdditiveIncrease :: f32
  bc_mMultiplicativeDecrease :: f32

definition defaultBandwidthConfig :: BandwidthManagerConfig where
  "defaultBandwidthConfig = \<lparr>bc_mNackRateDegraded = F_Fin 5, bc_mNackRateCongested = F_Fin 15,
     bc_mNackRateSevere = F_Fin 30, bc_mJitterDegradedUs = 50000, bc_mJitterCongestedUs = 100000,
     bc_mProbeIntervalMs = 100, bc_mRecoveryWindowMs = 1000, bc_mMaxProbeFailures = 3,
     bc_mUpdateIntervalMs = 50, bc_mAdditiveIncrease = f_round (1 / 10),
     bc_mMultiplicativeDecrease = F_Fin (1 / 2)\<rparr>"

record BandwidthManagerStatistics =
  bs_mCurrentHealth :: NetworkHealth
  bs_mSmoothedNackRate :: f32
  bs_mSmoothedJitterUs :: int
  bs_mSmoothedRttUs :: int
  bs_mProbesSent :: u64
  bs_mProbesReceived :: u64
  bs_mBandwidthReductions :: u64
  bs_mBandwidthIncreases :: u64
  bs_mStreamsDropped :: u64

text \<open>A call of one of the two callbacks.\<close>

datatype BandwidthCall = BandwidthChange u8 f32 | StreamDrop u8 bool

record BandwidthManager =
  bm_mSender :: Sender
  bm_mConfig :: BandwidthManagerConfig
  bm_mMtu :: u16
  bm_mStreamConfigs :: "u8 \<Rightarrow> StreamBandwidthConfig"
  bm_mCurrentMultipliers :: "u8 \<Rightarrow> f32"
  bm_mStreamDropped :: "u8 \<Rightarrow> bool"
  bm_mManualMultiplier :: "u8 \<Rightarrow> f32"
  bm_mCurrentHealth :: NetworkHealth
  bm_mSmoothedNackRate :: f32
  bm_mSmoothedJitterUs :: int
  bm_mSmoothedRttUs :: int
  bm_mLastUpdateUs :: int
  bm_mRecoveryStartUs :: int
  bm_mRecentNackCount :: u32
  bm_mProbeSequenceNo :: u16
  bm_mProbesSent :: u64
  bm_mProbesReceived :: u64
  bm_mProbeFailures :: u8
  bm_mBaselineRttUs :: int
  bm_mStableRttSamples :: u32
  bm_mBandwidthReductions :: u64
  bm_mBandwidthIncreases :: u64
  bm_mStreamsDropped :: u64
  bm_clock :: clock
  bm_calls :: "BandwidthCall list"

definition newBandwidthManager :: "u16 \<Rightarrow> SubFragmentMode \<Rightarrow> u32 \<Rightarrow> nat \<Rightarrow> BandwidthManagerConfig \<Rightarrow> clock \<Rightarrow> clock \<Rightarrow>
    BandwidthManager" where
  "newBandwidthManager aMtu aSubFragmentMode aRetentionMs aRetentionMaxBytes aConfig sclk clk =
     \<lparr>bm_mSender = newSender aMtu aSubFragmentMode aRetentionMs aRetentionMaxBytes sclk,
      bm_mConfig = aConfig, bm_mMtu = aMtu, bm_mStreamConfigs = (\<lambda>_. defaultStreamConfig),
      bm_mCurrentMultipliers = (\<lambda>_. F_Fin 1), bm_mStreamDropped = (\<lambda>_. False),
      bm_mManualMultiplier = (\<lambda>_. F_Fin (- 1)), bm_mCurrentHealth = HEALTHY,
      bm_mSmoothedNackRate = F_Fin 0, bm_mSmoothedJitterUs = 0, bm_mSmoothedRttUs = 0,
      bm_mLastUpdateUs = 0, bm_mRecoveryStartUs = 0, bm_mRecentNackCount = 0, bm_mProbeSequenceNo = 0,
      bm_mProbesSent = 0, bm_mProbesReceived = 0, bm_mProbeFailures = 0, bm_mBaselineRttUs = 0,
      bm_mStableRttSamples = 0, bm_mBandwidthReductions = 0, bm_mBandwidthIncreases = 0,
      bm_mStreamsDropped = 0, bm_clock = clk, bm_calls = []\<rparr>"

definition bm_nowUs :: "BandwidthManager \<Rightarrow> int \<times> BandwidthManager" where
  "bm_nowUs m = (case nowUs (bm_clock m) of (t, c) \<Rightarrow> (t, m\<lparr>bm_clock := c\<rparr>))"

definition getBandwidthStatistics :: "BandwidthManager \<Rightarrow> BandwidthManagerStatistics" where
  "getBandwidthStatistics m = \<lparr>bs_mCurrentHealth = bm_mCurrentHealth m,
     bs_mSmoothedNackRate = bm_mSmoothedNackRate m, bs_mSmoothedJitterUs = bm_mSmoothedJitterUs m,
     bs_mSmoothedRttUs = bm_mSmoothedRttUs m, bs_mProbesSent = bm_mProbesSent m,
     bs_mProbesReceived = bm_mProbesReceived m, bs_mBandwidthReductions = bm_mBandwidthReductions m,
     bs_mBandwidthIncreases = bm_mBandwidthIncreases m, bs_mStreamsDropped = bm_mStreamsDropped m\<rparr>"

definition getStreamConfig :: "u8 \<Rightarrow> BandwidthManager \<Rightarrow> StreamBandwidthConfig" where
  "getStreamConfig aStreamId m = bm_mStreamConfigs m aStreamId"

definition getCurrentMultiplier :: "u8 \<Rightarrow> BandwidthManager \<Rightarrow> f32" where
  "getCurrentMultiplier aStreamId m = bm_mCurrentMultipliers m aStreamId"

definition isStreamDropped :: "u8 \<Rightarrow> BandwidthManager \<Rightarrow> bool" where
  "isStreamDropped aStreamId m = bm_mStreamDropped m aStreamId"

definition getNetworkHealth :: "BandwidthManager \<Rightarrow> NetworkHealth" where
  "getNetworkHealth m = bm_mCurrentHealth m"

definition bm_getSenderStatistics :: "BandwidthManager \<Rightarrow> SenderStatistics" where
  "bm_getSenderStatistics m = getSenderStatistics (bm_mSender m)"

section \<open>Multipliers\<close>

definition set_multiplier :: "u8 \<Rightarrow> f32 \<Rightarrow> BandwidthManager \<Rightarrow> BandwidthManager" where
  "set_multiplier i v m = m\<lparr>bm_mCurrentMultipliers := (bm_mCurrentMultipliers m)(i := v)\<rparr>"

definition notifyBandwidthChange :: "u8 \<Rightarrow> BandwidthManager \<Rightarrow> BandwidthManager" where
  "notifyBandwidthChange aStreamId m =
     m\<lparr>bm_calls := bm_calls m @ [BandwidthChange aStreamId (bm_mCurrentMultipliers m aStreamId)]\<rparr>"

definition getTargetMultiplier :: "u8 \<Rightarrow> NetworkHealth \<Rightarrow> BandwidthManager \<Rightarrow> f32 option" where
  "getTargetMultiplier aStreamId aHealth m =
     (let lConfig = bm_mStreamConfigs m aStreamId;
          lTarget = (case aHealth of
              HEALTHY \<Rightarrow> F_Fin 1
            | DEGRADED \<Rightarrow> f_round (7 / 10)
            | CONGESTED \<Rightarrow> F_Fin (1 / 2)
            | SEVERE \<Rightarrow> sc_mMinMultiplier lConfig)
      in f_clamp lTarget (sc_mMinMultiplier lConfig) (sc_mMaxMultiplier lConfig))"

text \<open>\<open>if (v != mCurrentMultipliers[i]) { mCurrentMultipliers[i] = v; notifyBandwidthChange(i); }\<close>\<close>

definition change_multiplier :: "u8 \<Rightarrow> f32 \<Rightarrow> BandwidthManager \<Rightarrow> BandwidthManager" where
  "change_multiplier i v m =
     (if \<not> f_eq v (bm_mCurrentMultipliers m i) then notifyBandwidthChange i (set_multiplier i v m) else m)"

definition updateStreamMultiplier :: "u8 \<Rightarrow> BandwidthManager \<Rightarrow> BandwidthManager option" where
  "updateStreamMultiplier aStreamId m =
     (if f_geq (bm_mManualMultiplier m aStreamId) (F_Fin 0) then do {
        let lConfig = bm_mStreamConfigs m aStreamId;
        lNewMult \<leftarrow> f_clamp (bm_mManualMultiplier m aStreamId) (sc_mMinMultiplier lConfig) (sc_mMaxMultiplier lConfig);
        Some (change_multiplier aStreamId lNewMult m)
      }
      else do {
        lTarget \<leftarrow> getTargetMultiplier aStreamId (bm_mCurrentHealth m) m;
        Some (change_multiplier aStreamId lTarget m)
      })"

definition setStreamConfig :: "u8 \<Rightarrow> StreamBandwidthConfig \<Rightarrow> BandwidthManager \<Rightarrow> BandwidthManager option" where
  "setStreamConfig aStreamId aConfig m = updateStreamMultiplier aStreamId
     (m\<lparr>bm_mStreamConfigs := (bm_mStreamConfigs m)(aStreamId := aConfig)\<rparr>)"

definition setManualMultiplier :: "u8 \<Rightarrow> f32 \<Rightarrow> BandwidthManager \<Rightarrow> BandwidthManager option" where
  "setManualMultiplier aStreamId aMultiplier m = do {
     v \<leftarrow> f_clamp aMultiplier (F_Fin 0) (F_Fin 1);
     updateStreamMultiplier aStreamId (m\<lparr>bm_mManualMultiplier := (bm_mManualMultiplier m)(aStreamId := v)\<rparr>)
   }"

definition clearManualMultiplier :: "u8 \<Rightarrow> BandwidthManager \<Rightarrow> BandwidthManager option" where
  "clearManualMultiplier aStreamId m = updateStreamMultiplier aStreamId
     (m\<lparr>bm_mManualMultiplier := (bm_mManualMultiplier m)(aStreamId := F_Fin (- 1))\<rparr>)"

section \<open>Health\<close>

definition evaluateNackHealth :: "BandwidthManager \<Rightarrow> NetworkHealth" where
  "evaluateNackHealth m =
     (if f_geq (bm_mSmoothedNackRate m) (bc_mNackRateSevere (bm_mConfig m)) then SEVERE
      else if f_geq (bm_mSmoothedNackRate m) (bc_mNackRateCongested (bm_mConfig m)) then CONGESTED
      else if f_geq (bm_mSmoothedNackRate m) (bc_mNackRateDegraded (bm_mConfig m)) then DEGRADED
      else HEALTHY)"

definition evaluateDelayHealth :: "BandwidthManager \<Rightarrow> NetworkHealth" where
  "evaluateDelayHealth m =
     (if bm_mSmoothedJitterUs m \<ge> bc_mJitterCongestedUs (bm_mConfig m) then CONGESTED
      else if bm_mSmoothedJitterUs m \<ge> bc_mJitterDegradedUs (bm_mConfig m) then DEGRADED
      else HEALTHY)"

definition evaluateHealth :: "BandwidthManager \<Rightarrow> NetworkHealth" where
  "evaluateHealth m =
     (let lNackHealth = evaluateNackHealth m; lDelayHealth = evaluateDelayHealth m
      in if lNackHealth > lDelayHealth then lNackHealth else lDelayHealth)"

text \<open>The loops over all streams, \<open>for (size_t lI = 0; lI < 256; lI++)\<close>.\<close>

fun for_streams :: "(u8 \<Rightarrow> BandwidthManager \<Rightarrow> BandwidthManager option) \<Rightarrow> u8 list \<Rightarrow> BandwidthManager \<Rightarrow>
    BandwidthManager option" where
  "for_streams body [] m = Some m"
| "for_streams body (i # is) m = do { m \<leftarrow> body i m; for_streams body is m }"

definition all_streams :: "u8 list" where
  "all_streams = map word_of_nat [0 ..< 256]"

definition decrease_stream :: "NetworkHealth \<Rightarrow> u8 \<Rightarrow> BandwidthManager \<Rightarrow> BandwidthManager option" where
  "decrease_stream aNewHealth i m =
     (if f_less (bm_mManualMultiplier m i) (F_Fin 0) then do {
        lTarget \<leftarrow> getTargetMultiplier i aNewHealth m;
        let m = (if f_less lTarget (bm_mCurrentMultipliers m i)
                 then notifyBandwidthChange i (set_multiplier i lTarget m) else m);
        Some (if aNewHealth = SEVERE \<and> sc_mDropOnSevereCongestion (bm_mStreamConfigs m i) \<and> \<not> bm_mStreamDropped m i
              then m\<lparr>bm_mStreamDropped := (bm_mStreamDropped m)(i := True),
                     bm_mStreamsDropped := bm_mStreamsDropped m + 1,
                     bm_calls := bm_calls m @ [StreamDrop i True]\<rparr>
              else m)
      }
      else Some m)"

definition increase_stream :: "NetworkHealth \<Rightarrow> u8 \<Rightarrow> BandwidthManager \<Rightarrow> BandwidthManager option" where
  "increase_stream aNewHealth i m =
     (if f_less (bm_mManualMultiplier m i) (F_Fin 0) then do {
        lTarget \<leftarrow> getTargetMultiplier i aNewHealth m;
        let lNewMult = f_min (f_add (bm_mCurrentMultipliers m i) (bc_mAdditiveIncrease (bm_mConfig m))) lTarget;
        lNewMult \<leftarrow> f_clamp lNewMult (sc_mMinMultiplier (bm_mStreamConfigs m i)) (sc_mMaxMultiplier (bm_mStreamConfigs m i));
        let m = change_multiplier i lNewMult m;
        Some (if bm_mStreamDropped m i \<and> aNewHealth \<noteq> SEVERE
              then m\<lparr>bm_mStreamDropped := (bm_mStreamDropped m)(i := False),
                     bm_calls := bm_calls m @ [StreamDrop i False]\<rparr>
              else m)
      }
      else Some m)"

definition reset_recovery :: "BandwidthManager \<Rightarrow> BandwidthManager" where
  "reset_recovery m = (let m = m\<lparr>bm_mStableRttSamples := 0\<rparr>; (t, m) = bm_nowUs m in m\<lparr>bm_mRecoveryStartUs := t\<rparr>)"

definition handleHealthChange :: "NetworkHealth \<Rightarrow> BandwidthManager \<Rightarrow> BandwidthManager option" where
  "handleHealthChange aNewHealth m =
     (let lOldHealth = bm_mCurrentHealth m; m = m\<lparr>bm_mCurrentHealth := aNewHealth\<rparr>
      in do {
        m \<leftarrow> (if aNewHealth > lOldHealth
              then for_streams (decrease_stream aNewHealth) all_streams
                     (m\<lparr>bm_mBandwidthReductions := bm_mBandwidthReductions m + 1\<rparr>)
              else if aNewHealth < lOldHealth
              then for_streams (increase_stream aNewHealth) all_streams
                     (m\<lparr>bm_mBandwidthIncreases := bm_mBandwidthIncreases m + 1\<rparr>)
              else Some m);
        Some (reset_recovery m)
      })"

fun better_health :: "NetworkHealth \<Rightarrow> NetworkHealth option" where
  "better_health SEVERE = Some CONGESTED"
| "better_health CONGESTED = Some DEGRADED"
| "better_health DEGRADED = Some HEALTHY"
| "better_health HEALTHY = None"

definition tryBandwidthIncrease :: "BandwidthManager \<Rightarrow> BandwidthManager option" where
  "tryBandwidthIncrease m = (case better_health (bm_mCurrentHealth m) of
       None \<Rightarrow> Some m
     | Some h \<Rightarrow> do {
         m \<leftarrow> for_streams (increase_stream h) all_streams
                (m\<lparr>bm_mCurrentHealth := h, bm_mBandwidthIncreases := bm_mBandwidthIncreases m + 1\<rparr>);
         Some (reset_recovery m)
       })"

definition udiv32 :: "u32 \<Rightarrow> u32 \<Rightarrow> u32 option" where
  "udiv32 a b = (if b = 0 then None else Some (a div b))"

definition processProbing :: "int \<Rightarrow> BandwidthManager \<Rightarrow> BandwidthManager option" where
  "processProbing aNow m =
     (if aNow - bm_mRecoveryStartUs m < uint (bc_mRecoveryWindowMs (bm_mConfig m)) * 1000 then Some m
      else do {
        lRequiredSamples \<leftarrow> udiv32 (bc_mRecoveryWindowMs (bm_mConfig m)) (bc_mProbeIntervalMs (bm_mConfig m));
        if bm_mStableRttSamples m \<ge> lRequiredSamples then tryBandwidthIncrease m else Some m
      })"

definition bm_update :: "BandwidthManager \<Rightarrow> BandwidthManager option" where
  "bm_update m =
     (let (lNow, m) = bm_nowUs m
      in if lNow - bm_mLastUpdateUs m < uint (bc_mUpdateIntervalMs (bm_mConfig m)) * 1000 then Some m
         else
           let lElapsedMs = f_div (f_of_int (lNow - bm_mLastUpdateUs m)) (F_Fin 1000);
               m = m\<lparr>bm_mLastUpdateUs := lNow\<rparr>;
               lNackRate = f_div (f_of_int (uint (bm_mRecentNackCount m))) (f_div lElapsedMs (F_Fin 1000));
               m = m\<lparr>bm_mRecentNackCount := 0,
                     bm_mSmoothedNackRate := f_add (f_mul (bm_mSmoothedNackRate m) (f_round (7 / 10)))
                       (f_mul lNackRate (f_round (3 / 10)))\<rparr>;
               lNewHealth = evaluateHealth m
           in do {
             m \<leftarrow> (if lNewHealth \<noteq> bm_mCurrentHealth m then handleHealthChange lNewHealth m else Some m);
             if bm_mCurrentHealth m \<noteq> HEALTHY then processProbing lNow m else Some m
           })"

section \<open>Jitter and round trip times\<close>

text \<open>The result of an operation of \<open>int64_t\<close>, which is undefined when it does not fit.\<close>

definition int64 :: "int \<Rightarrow> int option" where
  "int64 x = (if - (2 ^ 63) \<le> x \<and> x < 2 ^ 63 then Some x else None)"

definition bm_updateJitter :: "int \<Rightarrow> BandwidthManager \<Rightarrow> BandwidthManager option" where
  "bm_updateJitter aJitterUs m = do {
     lDeviation \<leftarrow> (if aJitterUs < 0 then int64 (- aJitterUs) else Some aJitterUs);
     d \<leftarrow> int64 (lDeviation - bm_mSmoothedJitterUs m);
     v \<leftarrow> int64 (bm_mSmoothedJitterUs m + d sdiv 16);
     Some (m\<lparr>bm_mSmoothedJitterUs := v\<rparr>)
   }"

definition updateRtt :: "int \<Rightarrow> BandwidthManager \<Rightarrow> BandwidthManager option" where
  "updateRtt aRttUs m = do {
     d \<leftarrow> int64 (aRttUs - bm_mSmoothedRttUs m);
     v \<leftarrow> int64 (bm_mSmoothedRttUs m + d sdiv 8);
     let m = m\<lparr>bm_mSmoothedRttUs := v, bm_mProbesReceived := bm_mProbesReceived m + 1, bm_mProbeFailures := 0\<rparr>;
     Some (if bm_mBaselineRttUs m = 0 then m\<lparr>bm_mBaselineRttUs := bm_mSmoothedRttUs m\<rparr>
         else
           let lRatio = f_div (f_of_int (bm_mSmoothedRttUs m)) (f_of_int (bm_mBaselineRttUs m))
           in if f_geq lRatio (f_round (8 / 10)) \<and> f_geq (f_round (12 / 10)) lRatio
              then m\<lparr>bm_mStableRttSamples := bm_mStableRttSamples m + 1\<rparr>
              else m\<lparr>bm_mStableRttSamples := 0\<rparr>)
   }"

definition buildRttProbe :: "BandwidthManager \<Rightarrow> bytes \<times> BandwidthManager" where
  "buildRttProbe m =
     (let (t, n) = bm_nowUs m
      in (enc_rttProbe \<lparr>rp_mFrameType = makeFrameTypeByte TYPE0 0, rp_mSubtype = type0SubtypeValue RTT_PROBE,
            rp_mSequenceNo = bm_mProbeSequenceNo m, rp_mTimestampUs = word_of_int t\<rparr>,
          n\<lparr>bm_mProbeSequenceNo := bm_mProbeSequenceNo m + 1, bm_mProbesSent := bm_mProbesSent m + 1\<rparr>))"

text \<open>A static function: \<open>now\<close> is the reading of the clock.\<close>

definition buildRttResponse :: "int \<Rightarrow> bytes \<Rightarrow> bytes option" where
  "buildRttResponse now aProbeData =
     (if length aProbeData < 12 then Some []
      else do {
        d \<leftarrow> mem_load 12 aProbeData 0;
        let lpProbe = dec_rttProbe d;
        if getFrameType (rp_mFrameType lpProbe) \<noteq> TYPE0 then Some []
        else if rp_mSubtype lpProbe \<noteq> type0SubtypeValue RTT_PROBE then Some []
        else Some (enc_rttResponse \<lparr>rr_mFrameType = makeFrameTypeByte TYPE0 0,
          rr_mSubtype = type0SubtypeValue RTT_RESPONSE, rr_mSequenceNo = rp_mSequenceNo lpProbe,
          rr_mTimestampUs = rp_mTimestampUs lpProbe, rr_mReceiverTimeUs = word_of_int now\<rparr>)
      })"

definition processRttResponse :: "bytes \<Rightarrow> BandwidthManager \<Rightarrow> (Result \<times> BandwidthManager) option" where
  "processRttResponse aData m =
     (if length aData < 20 then Some (FRAME_SIZE_MISMATCH, m)
      else do {
        d \<leftarrow> mem_load 20 aData 0;
        let lpResponse = dec_rttResponse d;
        if getFrameType (rr_mFrameType lpResponse) \<noteq> TYPE0 then Some (INVALID_PARAMETER, m)
        else if rr_mSubtype lpResponse \<noteq> type0SubtypeValue RTT_RESPONSE then Some (INVALID_PARAMETER, m)
        else do {
          let (lNow, m) = bm_nowUs m;
          lRtt \<leftarrow> int64 (lNow - sint (rr_mTimestampUs lpResponse));
          m \<leftarrow> (if lRtt > 0 \<and> lRtt < 30000000 then updateRtt lRtt m else Some m);
          Some (OK, m)
        }
      })"

section \<open>The wrapped sender\<close>

definition bm_send :: "bytes \<Rightarrow> u8 \<Rightarrow> u64 \<Rightarrow> u64 \<Rightarrow> u32 \<Rightarrow> u8 \<Rightarrow> u8 \<Rightarrow> BandwidthManager \<Rightarrow>
    (Result \<times> BandwidthManager) option" where
  "bm_send aData aPayloadType aPts aDts aPayloadCode aStreamId aFlags m =
     (if bm_mStreamDropped m aStreamId then Some (OK, m)
      else do {
        (r, s) \<leftarrow> send aData aPayloadType aPts aDts aPayloadCode aStreamId aFlags (bm_mSender m);
        Some (r, m\<lparr>bm_mSender := s\<rparr>)
      })"

definition bm_receiveNack :: "bytes \<Rightarrow> BandwidthManager \<Rightarrow> (Result \<times> BandwidthManager) option" where
  "bm_receiveNack aData m = do {
     (lResult, s) \<leftarrow> receiveNack aData (bm_mSender m);
     let m = m\<lparr>bm_mSender := s\<rparr>;
     Some (lResult, if lResult = OK then m\<lparr>bm_mRecentNackCount := bm_mRecentNackCount m + 1\<rparr> else m)
   }"

definition bm_processRetransmits :: "nat \<Rightarrow> BandwidthManager \<Rightarrow> nat \<times> BandwidthManager" where
  "bm_processRetransmits aMaxCount m =
     (case processRetransmits aMaxCount (bm_mSender m) of (n, s) \<Rightarrow> (n, m\<lparr>bm_mSender := s\<rparr>))"

end
