(* ===== verification/Efp_BandwidthInv.thy ===== *)
theory Efp_BandwidthInv
  imports Efp_Bandwidth
begin

text \<open>
  The invariant of the bandwidth manager: every multiplier lies in the range configured for its
  stream, the callbacks have reported every multiplier and every dropped stream, the estimates leave
  the room that the next update of them needs, and the wrapped sender keeps its own invariant. Under a valid configuration no operation is undefined.
\<close>

section \<open>The invariant\<close>

definition stream_config_ok :: "StreamBandwidthConfig \<Rightarrow> bool" where
  "stream_config_ok c \<longleftrightarrow> sc_mMinMultiplier c \<noteq> F_NaN \<and> sc_mMaxMultiplier c \<noteq> F_NaN \<and>
     f32_ok (sc_mMinMultiplier c) \<and> f32_ok (sc_mMaxMultiplier c) \<and> \<not> f_less (sc_mMaxMultiplier c) (sc_mMinMultiplier c)"

definition bandwidth_config_ok :: "BandwidthManagerConfig \<Rightarrow> bool" where
  "bandwidth_config_ok c \<longleftrightarrow> (\<exists>b. bc_mAdditiveIncrease c = F_Fin b \<and> 0 \<le> b) \<and> bc_mProbeIntervalMs c \<noteq> 0"

text \<open>What the callbacks last said of a stream.\<close>

definition reported_multiplier :: "u8 \<Rightarrow> BandwidthCall list \<Rightarrow> f32" where
  "reported_multiplier i cs = foldl (\<lambda>v c. case c of BandwidthChange j w \<Rightarrow> if j = i then w else v | StreamDrop j d \<Rightarrow> v) (F_Fin 1) cs"

definition reported_drop :: "u8 \<Rightarrow> BandwidthCall list \<Rightarrow> bool" where
  "reported_drop i cs = foldl (\<lambda>v c. case c of BandwidthChange j w \<Rightarrow> v | StreamDrop j d \<Rightarrow> if j = i then d else v) False cs"

lemma reported_append [simp]:
  "reported_multiplier i (cs @ [BandwidthChange j w]) = (if j = i then w else reported_multiplier i cs)"
  "reported_multiplier i (cs @ [StreamDrop j d]) = reported_multiplier i cs"
  "reported_drop i (cs @ [BandwidthChange j w]) = reported_drop i cs"
  "reported_drop i (cs @ [StreamDrop j d]) = (if j = i then d else reported_drop i cs)"
  by (simp_all add: reported_multiplier_def reported_drop_def)

definition stream_inv :: "BandwidthManager \<Rightarrow> u8 \<Rightarrow> bool" where
  "stream_inv m i \<longleftrightarrow>
     f_within (sc_mMinMultiplier (bm_mStreamConfigs m i)) (bm_mCurrentMultipliers m i) (sc_mMaxMultiplier (bm_mStreamConfigs m i)) \<and>
     reported_multiplier i (bm_calls m) = bm_mCurrentMultipliers m i \<and>
     reported_drop i (bm_calls m) = bm_mStreamDropped m i"

definition configs_ok :: "BandwidthManager \<Rightarrow> bool" where
  "configs_ok m \<longleftrightarrow> (\<forall>i. stream_config_ok (bm_mStreamConfigs m i)) \<and> bandwidth_config_ok (bm_mConfig m)"

definition clock_ok :: "clock \<Rightarrow> bool" where
  "clock_ok c \<longleftrightarrow> (\<forall>n. 0 \<le> c n \<and> c n < 2 ^ 62)"

text \<open>The smoothed jitter and round trip time.\<close>

definition estimates_ok :: "BandwidthManager \<Rightarrow> bool" where
  "estimates_ok m \<longleftrightarrow> 0 \<le> bm_mSmoothedJitterUs m \<and> bm_mSmoothedJitterUs m < 2 ^ 63 \<and>
     - (2 ^ 62) \<le> bm_mSmoothedRttUs m \<and> bm_mSmoothedRttUs m < 2 ^ 62"

definition bm_inv :: "BandwidthManager \<Rightarrow> bool" where
  "bm_inv m \<longleftrightarrow> configs_ok m \<and> (\<forall>i. stream_inv m i) \<and> sender_inv (bm_mSender m) \<and> clock_ok (bm_clock m) \<and> estimates_ok m"

lemma f32_ok_units: "f32_ok (F_Fin 0)" "f32_ok (F_Fin 1)" "f32_ok (F_Fin (- 1))"
  using f32_ok_small [of 0] f32_ok_small [of 1] f32_ok_small [of "- 1"] by simp_all

lemma bm_inv_new:
  assumes "bandwidth_config_ok cfg" "clock_ok clk"
  shows "bm_inv (newBandwidthManager mtu mode ms mx cfg sclk clk)"
  using assms by (simp add: bm_inv_def configs_ok_def stream_inv_def newBandwidthManager_def defaultStreamConfig_def
      stream_config_ok_def f32_ok_units f_within_def reported_multiplier_def reported_drop_def sender_inv_new
      estimates_ok_def)

section \<open>Targets and changes\<close>

lemma target_within:
  assumes "stream_config_ok (bm_mStreamConfigs m i)"
  shows "\<exists>v. getTargetMultiplier i h m = Some v \<and>
    f_within (sc_mMinMultiplier (bm_mStreamConfigs m i)) v (sc_mMaxMultiplier (bm_mStreamConfigs m i))"
proof -
  have nan: "f_round x \<noteq> F_NaN" for x using f_round_cases [of x] by auto
  show ?thesis using assms unfolding getTargetMultiplier_def Let_def
    by (intro f_clamp_within) (auto simp: stream_config_ok_def nan split: NetworkHealth.splits)
qed

text \<open>What a change of the multiplier of one stream keeps.\<close>

lemma change_multiplier_keeps:
  "bm_mStreamConfigs (change_multiplier i v m) = bm_mStreamConfigs m" "bm_mConfig (change_multiplier i v m) = bm_mConfig m"
  "bm_mManualMultiplier (change_multiplier i v m) = bm_mManualMultiplier m" "bm_mSender (change_multiplier i v m) = bm_mSender m"
  "bm_mStreamDropped (change_multiplier i v m) = bm_mStreamDropped m" "bm_clock (change_multiplier i v m) = bm_clock m"
  "bm_mCurrentHealth (change_multiplier i v m) = bm_mCurrentHealth m" "estimates_ok (change_multiplier i v m) = estimates_ok m"
  "v \<noteq> F_NaN \<Longrightarrow> bm_mCurrentMultipliers (change_multiplier i v m) = (bm_mCurrentMultipliers m)(i := v)"
  by (auto simp: change_multiplier_def notifyBandwidthChange_def set_multiplier_def f_eq_def estimates_ok_def)

lemma change_multiplier_inv:
  assumes "\<And>j. j \<noteq> i \<Longrightarrow> stream_inv m j" "reported_multiplier i (bm_calls m) = bm_mCurrentMultipliers m i"
    "reported_drop i (bm_calls m) = bm_mStreamDropped m i"
    "f_within (sc_mMinMultiplier (bm_mStreamConfigs m i)) v (sc_mMaxMultiplier (bm_mStreamConfigs m i))"
  shows "stream_inv (change_multiplier i v m) j"
proof (cases "j = i")
  case True
  with assms(2-4) show ?thesis
    by (auto simp: stream_inv_def change_multiplier_def notifyBandwidthChange_def set_multiplier_def f_eq_def)
next
  case False
  with assms(1) [OF False] show ?thesis
    by (auto simp: stream_inv_def change_multiplier_def notifyBandwidthChange_def set_multiplier_def)
qed

lemma bm_inv_change:
  assumes "bm_inv m" "f_within (sc_mMinMultiplier (bm_mStreamConfigs m i)) v (sc_mMaxMultiplier (bm_mStreamConfigs m i))"
  shows "bm_inv (change_multiplier i v m)"
proof -
  have "stream_inv (change_multiplier i v m) j" for j
    using assms by (intro change_multiplier_inv) (auto simp: bm_inv_def stream_inv_def)
  with assms(1) show ?thesis by (simp add: bm_inv_def configs_ok_def change_multiplier_keeps)
qed

lemma bm_inv_drop:
  assumes "bm_inv m"
  shows "bm_inv (m\<lparr>bm_mStreamDropped := (bm_mStreamDropped m)(i := d), bm_mStreamsDropped := n, bm_calls := bm_calls m @ [StreamDrop i d]\<rparr>)"
    "bm_inv (m\<lparr>bm_mStreamDropped := (bm_mStreamDropped m)(i := d), bm_calls := bm_calls m @ [StreamDrop i d]\<rparr>)"
  using assms by (auto simp: bm_inv_def configs_ok_def stream_inv_def estimates_ok_def)

text \<open>The fields the invariant reads.\<close>

lemma bm_inv_cong:
  assumes "bm_inv m" "bm_mStreamConfigs n = bm_mStreamConfigs m" "bm_mConfig n = bm_mConfig m" "bm_mSender n = bm_mSender m"
    "bm_mStreamDropped n = bm_mStreamDropped m" "clock_ok (bm_clock n)" "bm_calls n = bm_calls m"
    "bm_mCurrentMultipliers n = bm_mCurrentMultipliers m" "estimates_ok n"
  shows "bm_inv n"
  using assms by (simp add: bm_inv_def configs_ok_def stream_inv_def)

lemma bm_nowUs_inv: "bm_inv m \<Longrightarrow> bm_nowUs m = (t, n) \<Longrightarrow> bm_inv n \<and> 0 \<le> t \<and> t < 2 ^ 62"
  by (auto simp: bm_nowUs_def nowUs_def bm_inv_def configs_ok_def stream_inv_def clock_ok_def estimates_ok_def)

section \<open>Every operation keeps the invariant\<close>

lemma updateStreamMultiplier_inv:
  assumes ok: "configs_ok m" "\<And>j. j \<noteq> i \<Longrightarrow> stream_inv m j" "reported_multiplier i (bm_calls m) = bm_mCurrentMultipliers m i"
    "reported_drop i (bm_calls m) = bm_mStreamDropped m i" and rest: "sender_inv (bm_mSender m)" "clock_ok (bm_clock m)" "estimates_ok m"
  shows "\<exists>n. updateStreamMultiplier i m = Some n \<and> bm_inv n"
proof -
  let ?lo = "sc_mMinMultiplier (bm_mStreamConfigs m i)" and ?hi = "sc_mMaxMultiplier (bm_mStreamConfigs m i)"
  have c: "stream_config_ok (bm_mStreamConfigs m i)" using ok(1) by (simp add: configs_ok_def)
  have inv: "bm_inv (change_multiplier i v m)" if "f_within ?lo v ?hi" for v
    using ok rest change_multiplier_inv [OF ok(2-4) that] by (simp add: bm_inv_def configs_ok_def change_multiplier_keeps)
  show ?thesis
  proof (cases "f_geq (bm_mManualMultiplier m i) (F_Fin 0)")
    case True
    then have "bm_mManualMultiplier m i \<noteq> F_NaN" by (auto simp: f_geq_def f_eq_def)
    then obtain v where "f_clamp (bm_mManualMultiplier m i) ?lo ?hi = Some v" "f_within ?lo v ?hi"
      using f_clamp_within c by (metis stream_config_ok_def)
    with inv True show ?thesis by (simp add: updateStreamMultiplier_def)
  next
    case False
    from target_within [OF c] obtain v where "getTargetMultiplier i (bm_mCurrentHealth m) m = Some v" "f_within ?lo v ?hi" by blast
    with inv False show ?thesis by (simp add: updateStreamMultiplier_def)
  qed
qed

lemma setStreamConfig_inv:
  assumes "bm_inv m" "stream_config_ok c"
  shows "\<exists>n. setStreamConfig i c m = Some n \<and> bm_inv n"
  unfolding setStreamConfig_def using assms
  by (intro updateStreamMultiplier_inv) (auto simp: bm_inv_def configs_ok_def stream_inv_def estimates_ok_def)

lemma manual_inv:
  assumes "bm_inv m"
  shows "\<exists>n. setManualMultiplier i v m = Some n \<and> bm_inv n" "\<exists>n. clearManualMultiplier i m = Some n \<and> bm_inv n"
proof -
  have u: "\<exists>n. updateStreamMultiplier i (m\<lparr>bm_mManualMultiplier := x\<rparr>) = Some n \<and> bm_inv n" for x
    using assms by (intro updateStreamMultiplier_inv) (auto simp: bm_inv_def configs_ok_def stream_inv_def estimates_ok_def)
  then show "\<exists>n. clearManualMultiplier i m = Some n \<and> bm_inv n" by (simp add: clearManualMultiplier_def)
  show "\<exists>n. setManualMultiplier i v m = Some n \<and> bm_inv n" using u by (simp add: setManualMultiplier_def f_clamp_def)
qed

lemma decrease_stream_inv:
  assumes "bm_inv m"
  shows "\<exists>n. decrease_stream h i m = Some n \<and> bm_inv n"
proof -
  have "stream_config_ok (bm_mStreamConfigs m i)" using assms by (simp add: bm_inv_def configs_ok_def)
  from target_within [OF this] obtain v where v: "getTargetMultiplier i h m = Some v"
    "f_within (sc_mMinMultiplier (bm_mStreamConfigs m i)) v (sc_mMaxMultiplier (bm_mStreamConfigs m i))" by blast
  have "bm_inv (if f_less v (bm_mCurrentMultipliers m i) then notifyBandwidthChange i (set_multiplier i v m) else m)"
  proof (cases "f_less v (bm_mCurrentMultipliers m i)")
    case True
    then have "\<not> f_eq v (bm_mCurrentMultipliers m i)" by (auto simp: f_eq_def)
    with bm_inv_change [OF assms v(2)] True show ?thesis by (simp add: change_multiplier_def)
  qed (simp add: assms)
  then show ?thesis using assms by (simp add: decrease_stream_def v(1) Let_def bm_inv_drop)
qed

lemma f_add_nan: "a \<noteq> F_NaN \<Longrightarrow> f_add a (F_Fin b) \<noteq> F_NaN"
  using f_round_cases by (cases a) (auto, metis f32.distinct(1,3))

lemma increase_stream_inv:
  assumes "bm_inv m"
  shows "\<exists>n. increase_stream h i m = Some n \<and> bm_inv n"
proof -
  let ?lo = "sc_mMinMultiplier (bm_mStreamConfigs m i)" and ?hi = "sc_mMaxMultiplier (bm_mStreamConfigs m i)"
  let ?sum = "f_add (bm_mCurrentMultipliers m i) (bc_mAdditiveIncrease (bm_mConfig m))"
  have c: "stream_config_ok (bm_mStreamConfigs m i)" and s: "bm_mCurrentMultipliers m i \<noteq> F_NaN"
    using assms by (simp_all add: bm_inv_def configs_ok_def stream_inv_def f_within_def)
  from target_within [OF c] obtain v where v: "getTargetMultiplier i h m = Some v" "f_within ?lo v ?hi" by blast
  obtain b where "bc_mAdditiveIncrease (bm_mConfig m) = F_Fin b"
    using assms by (auto simp: bm_inv_def configs_ok_def bandwidth_config_ok_def)
  then have "f_min ?sum v \<noteq> F_NaN" using v(2) f_add_nan [OF s] by (simp add: f_min_def f_within_def)
  then obtain w where w: "f_clamp (f_min ?sum v) ?lo ?hi = Some w" "f_within ?lo w ?hi"
    using f_clamp_within c by (metis stream_config_ok_def)
  from bm_inv_change [OF assms w(2)] show ?thesis
    by (simp add: increase_stream_def v(1) w(1) Let_def bm_inv_drop assms)
qed

lemma for_streams_keeps:
  assumes "\<And>i m. P m \<Longrightarrow> \<exists>n. body i m = Some n \<and> P n" "P m"
  shows "\<exists>n. for_streams body js m = Some n \<and> P n"
  using assms(2)
proof (induction js arbitrary: m)
  case (Cons i js)
  from assms(1) [OF Cons.prems, of i] obtain n where "body i m = Some n" "P n" by blast
  with Cons.IH [of n] show ?case by simp
qed simp

lemma streams_inv:
  assumes "bm_inv m"
  shows "\<exists>n. for_streams (decrease_stream h) js m = Some n \<and> bm_inv n"
    "\<exists>n. for_streams (increase_stream h) js m = Some n \<and> bm_inv n"
  using for_streams_keeps [where P = bm_inv and body = "decrease_stream h", OF _ assms]
    for_streams_keeps [where P = bm_inv and body = "increase_stream h", OF _ assms]
    decrease_stream_inv increase_stream_inv by blast+

lemma reset_recovery_eq:
  "reset_recovery m = m\<lparr>bm_mStableRttSamples := 0, bm_clock := snd (nowUs (bm_clock m)), bm_mRecoveryStartUs := fst (nowUs (bm_clock m))\<rparr>"
  by (simp add: reset_recovery_def Let_def bm_nowUs_def split: prod.split)

lemma reset_recovery_inv: "bm_inv m \<Longrightarrow> bm_inv (reset_recovery m)"
  unfolding reset_recovery_eq by (rule bm_inv_cong) (simp_all add: bm_inv_def clock_ok_def nowUs_def estimates_ok_def)

lemma handleHealthChange_inv:
  assumes "bm_inv m"
  shows "\<exists>n. handleHealthChange h m = Some n \<and> bm_inv n"
proof -
  have inv: "bm_inv (m\<lparr>bm_mCurrentHealth := h\<rparr>)" "bm_inv (m\<lparr>bm_mCurrentHealth := h, bm_mBandwidthReductions := x\<rparr>)"
    "bm_inv (m\<lparr>bm_mCurrentHealth := h, bm_mBandwidthIncreases := x\<rparr>)" for x
    by (rule bm_inv_cong [OF assms]; use assms in \<open>simp add: bm_inv_def estimates_ok_def\<close>)+
  show ?thesis
    using inv(1) streams_inv(1) [OF inv(2) [of "bm_mBandwidthReductions m + 1"], of h all_streams]
      streams_inv(2) [OF inv(3) [of "bm_mBandwidthIncreases m + 1"], of h all_streams]
    by (cases h "bm_mCurrentHealth m" rule: linorder_cases)
      (auto simp: handleHealthChange_def Let_def intro: reset_recovery_inv)
qed

lemma tryBandwidthIncrease_inv:
  assumes "bm_inv m"
  shows "\<exists>n. tryBandwidthIncrease m = Some n \<and> bm_inv n"
proof (cases "better_health (bm_mCurrentHealth m)")
  case None
  with assms show ?thesis by (simp add: tryBandwidthIncrease_def)
next
  case (Some h)
  have "bm_inv (m\<lparr>bm_mCurrentHealth := h, bm_mBandwidthIncreases := bm_mBandwidthIncreases m + 1\<rparr>)"
    by (rule bm_inv_cong [OF assms]) (use assms in \<open>simp_all add: bm_inv_def estimates_ok_def\<close>)
  from streams_inv(2) [OF this] obtain n where "for_streams (increase_stream h) all_streams
      (m\<lparr>bm_mCurrentHealth := h, bm_mBandwidthIncreases := bm_mBandwidthIncreases m + 1\<rparr>) = Some n" "bm_inv n" by blast
  with Some show ?thesis by (simp add: tryBandwidthIncrease_def reset_recovery_inv)
qed

lemma processProbing_inv:
  assumes "bm_inv m"
  shows "\<exists>n. processProbing t m = Some n \<and> bm_inv n"
proof -
  have "bc_mProbeIntervalMs (bm_mConfig m) \<noteq> 0" using assms by (simp add: bm_inv_def configs_ok_def bandwidth_config_ok_def)
  with assms tryBandwidthIncrease_inv [OF assms] show ?thesis by (simp add: processProbing_def udiv32_def)
qed

lemma bm_update_inv:
  assumes "bm_inv m"
  shows "\<exists>n. bm_update m = Some n \<and> bm_inv n"
proof -
  obtain t n where n: "bm_nowUs m = (t, n)" by (cases "bm_nowUs m")
  have inv: "bm_inv n" using bm_nowUs_inv [OF assms n] by simp
  have upd: "bm_inv (n\<lparr>bm_mLastUpdateUs := a, bm_mRecentNackCount := b, bm_mSmoothedNackRate := c\<rparr>)" for a b c
    by (rule bm_inv_cong [OF inv]) (use inv in \<open>simp_all add: bm_inv_def estimates_ok_def\<close>)
  have "\<exists>w. (if q then handleHealthChange h u else Some u) \<bind>
      (\<lambda>m. if bm_mCurrentHealth m \<noteq> HEALTHY then processProbing t m else Some m) = Some w \<and> bm_inv w" if u: "bm_inv u" for q h u
  proof -
    obtain v where "(if q then handleHealthChange h u else Some u) = Some v" "bm_inv v"
      using u handleHealthChange_inv [OF u] by (cases q) auto
    with processProbing_inv show ?thesis by simp
  qed
  from this [OF upd] inv show ?thesis by (simp add: bm_update_def n Let_def)
qed

text \<open>
  The smoothed jitter and round trip time stay between their old values and the sample, so the next
  update cannot overflow.
\<close>

lemma updateJitter_average:
  assumes "0 \<le> bm_mSmoothedJitterUs m" "bm_mSmoothedJitterUs m < 2 ^ 63" "\<bar>j\<bar> < 2 ^ 63"
  shows "\<exists>v. bm_updateJitter j m = Some (m\<lparr>bm_mSmoothedJitterUs := v\<rparr>) \<and>
    min (bm_mSmoothedJitterUs m) \<bar>j\<bar> \<le> v \<and> v \<le> max (bm_mSmoothedJitterUs m) \<bar>j\<bar>"
proof -
  let ?v = "bm_mSmoothedJitterUs m + (\<bar>j\<bar> - bm_mSmoothedJitterUs m) sdiv 16"
  note avg = average_between [of 16 "bm_mSmoothedJitterUs m" "\<bar>j\<bar>"]
  have "(if j < 0 then int64 (- j) else Some j) = Some \<bar>j\<bar>" using assms(3) by (auto simp: int64_def)
  moreover have "int64 (\<bar>j\<bar> - bm_mSmoothedJitterUs m) = Some (\<bar>j\<bar> - bm_mSmoothedJitterUs m)" "int64 ?v = Some ?v"
    using assms avg by (auto simp: int64_def)
  ultimately show ?thesis using avg by (intro exI [of _ ?v]) (simp add: bm_updateJitter_def)
qed

lemma updateRtt_average:
  assumes "- (2 ^ 62) \<le> bm_mSmoothedRttUs m" "bm_mSmoothedRttUs m < 2 ^ 62" "- (2 ^ 62) \<le> r" "r < 2 ^ 62"
  shows "\<exists>n. updateRtt r m = Some n \<and> bm_mSmoothedRttUs n = bm_mSmoothedRttUs m + (r - bm_mSmoothedRttUs m) sdiv 8 \<and>
    min (bm_mSmoothedRttUs m) r \<le> bm_mSmoothedRttUs n \<and> bm_mSmoothedRttUs n \<le> max (bm_mSmoothedRttUs m) r"
proof -
  let ?v = "bm_mSmoothedRttUs m + (r - bm_mSmoothedRttUs m) sdiv 8"
  note avg = average_between [of 8 "bm_mSmoothedRttUs m" r]
  have "int64 (r - bm_mSmoothedRttUs m) = Some (r - bm_mSmoothedRttUs m)" "int64 ?v = Some ?v"
    using assms avg by (auto simp: int64_def)
  with avg show ?thesis by (simp add: updateRtt_def Let_def)
qed

lemma estimates_inv:
  assumes "bm_inv m"
  shows "\<bar>j\<bar> < 2 ^ 63 \<Longrightarrow> \<exists>n. bm_updateJitter j m = Some n \<and> bm_inv n"
    "- (2 ^ 62) \<le> r \<Longrightarrow> r < 2 ^ 62 \<Longrightarrow> \<exists>n. updateRtt r m = Some n \<and> bm_inv n"
    "bm_inv (snd (buildRttProbe m))"
proof -
  have e: "0 \<le> bm_mSmoothedJitterUs m" "bm_mSmoothedJitterUs m < 2 ^ 63" "- (2 ^ 62) \<le> bm_mSmoothedRttUs m" "bm_mSmoothedRttUs m < 2 ^ 62"
    using assms by (simp_all add: bm_inv_def estimates_ok_def)
  show "\<exists>n. bm_updateJitter j m = Some n \<and> bm_inv n" if j: "\<bar>j\<bar> < 2 ^ 63"
  proof -
    obtain v where v: "bm_updateJitter j m = Some (m\<lparr>bm_mSmoothedJitterUs := v\<rparr>)" "min (bm_mSmoothedJitterUs m) \<bar>j\<bar> \<le> v"
      "v \<le> max (bm_mSmoothedJitterUs m) \<bar>j\<bar>" using updateJitter_average [OF e(1,2) j] by blast
    have "bm_inv (m\<lparr>bm_mSmoothedJitterUs := v\<rparr>)"
      by (rule bm_inv_cong [OF assms]) (use assms v(2,3) e j in \<open>auto simp: bm_inv_def estimates_ok_def\<close>)
    with v(1) show ?thesis by simp
  qed
  show "\<exists>n. updateRtt r m = Some n \<and> bm_inv n" if r: "- (2 ^ 62) \<le> r" "r < 2 ^ 62"
  proof -
    obtain n where n: "updateRtt r m = Some n" "min (bm_mSmoothedRttUs m) r \<le> bm_mSmoothedRttUs n"
      "bm_mSmoothedRttUs n \<le> max (bm_mSmoothedRttUs m) r" using updateRtt_average [OF e(3,4) r] by blast
    then have "estimates_ok n" using e r by (auto simp: estimates_ok_def updateRtt_def Let_def split: bind_splits if_splits)
    moreover have "bm_mStreamConfigs n = bm_mStreamConfigs m" "bm_mConfig n = bm_mConfig m" "bm_mSender n = bm_mSender m"
      "bm_mStreamDropped n = bm_mStreamDropped m" "bm_clock n = bm_clock m" "bm_calls n = bm_calls m"
      "bm_mCurrentMultipliers n = bm_mCurrentMultipliers m"
      using n(1) by (auto simp: updateRtt_def Let_def split: bind_splits if_splits)
    ultimately have "bm_inv n" using assms by (intro bm_inv_cong [OF assms]) (simp_all add: bm_inv_def)
    with n(1) show ?thesis by simp
  qed
  obtain t n where n: "bm_nowUs m = (t, n)" by (cases "bm_nowUs m")
  have "bm_inv n" using bm_nowUs_inv [OF assms n] by simp
  then show "bm_inv (snd (buildRttProbe m))"
    by (auto simp: buildRttProbe_def n intro!: bm_inv_cong [of n]) (simp_all add: bm_inv_def estimates_ok_def)
qed

text \<open>A time stamp that cannot overflow the subtraction from a reading of the clock.\<close>

definition stamp_ok :: "bytes \<Rightarrow> bool" where
  "stamp_ok d \<longleftrightarrow> - (2 ^ 62) \<le> sint (rr_mTimestampUs (dec_rttResponse d))"

lemma stamp_difference:
  assumes "0 \<le> t" "t < 2 ^ 62" "- (2 ^ 62) \<le> sint (w :: u64)"
  shows "int64 (t - sint w) = Some (t - sint w)"
proof -
  have "sint w < 2 ^ 63" using sint_lt [of w] by simp
  with assms show ?thesis by (simp add: int64_def)
qed

lemma processRttResponse_inv:
  assumes "bm_inv m" "stamp_ok d"
  shows "\<exists>r n. processRttResponse d m = Some (r, n) \<and> bm_inv n"
proof (cases "length d < 20")
  case True
  with assms(1) show ?thesis by (simp add: processRttResponse_def)
next
  case False
  then have d: "mem_load 20 d 0 = Some (take 20 d)" "dec_rttResponse (take 20 d) = dec_rttResponse d"
    by (simp_all add: mem_load_def rttResponse.dec_take)
  obtain t n where n: "bm_nowUs m = (t, n)" by (cases "bm_nowUs m")
  note inv = bm_nowUs_inv [OF assms(1) n]
  then have diff: "int64 (t - sint (rr_mTimestampUs (dec_rttResponse d))) = Some (t - sint (rr_mTimestampUs (dec_rttResponse d)))"
    using assms(2) by (intro stamp_difference) (simp_all add: stamp_ok_def)
  have "\<exists>w. updateRtt r n = Some w \<and> bm_inv w" if "0 < r" "r < 30000000" for r
    using inv that by (intro estimates_inv(2)) simp_all
  then have "\<exists>w. (if 0 < r \<and> r < 30000000 then updateRtt r n else Some n) = Some w \<and> bm_inv w" for r
    using inv by auto
  from this [of "t - sint (rr_mTimestampUs (dec_rttResponse d))"] obtain w where
    "(if 0 < t - sint (rr_mTimestampUs (dec_rttResponse d)) \<and> t - sint (rr_mTimestampUs (dec_rttResponse d)) < 30000000
      then updateRtt (t - sint (rr_mTimestampUs (dec_rttResponse d))) n else Some n) = Some w" "bm_inv w" by blast
  then show ?thesis using diff False assms(1) by (simp add: processRttResponse_def d n Let_def del: diff_gt_0_iff_gt)
qed

lemma bm_inv_sender: "bm_inv m \<Longrightarrow> sender_inv s \<Longrightarrow> bm_inv (m\<lparr>bm_mSender := s\<rparr>)"
  by (simp add: bm_inv_def configs_ok_def stream_inv_def estimates_ok_def)

lemma wrapped_inv:
  assumes "bm_inv m"
  shows "\<exists>r n. bm_send d ptype pts dts code st flags m = Some (r, n) \<and> bm_inv n"
    "\<exists>r n. bm_receiveNack k m = Some (r, n) \<and> bm_inv n"
    "bm_inv (snd (bm_processRetransmits c m))"
proof -
  have s: "sender_inv (bm_mSender m)" using assms by (simp add: bm_inv_def)
  obtain q t where "send d ptype pts dts code st flags (bm_mSender m) = Some (q, t)" "sender_inv t"
    using send_total [OF s] by blast
  with assms show "\<exists>r n. bm_send d ptype pts dts code st flags m = Some (r, n) \<and> bm_inv n"
    by (simp add: bm_send_def bm_inv_sender)
  from receiveNack_total [OF s, of k] obtain r t where "receiveNack k (bm_mSender m) = Some (r, t)" "sender_inv t" by blast
  moreover from bm_inv_sender [OF assms this(2)] have "bm_inv (m\<lparr>bm_mSender := t, bm_mRecentNackCount := x\<rparr>)" for x
    by (rule bm_inv_cong) (use assms in \<open>simp_all add: bm_inv_def estimates_ok_def\<close>)
  ultimately show "\<exists>r n. bm_receiveNack k m = Some (r, n) \<and> bm_inv n"
    by (simp add: bm_receiveNack_def Let_def bm_inv_sender [OF assms])
  show "bm_inv (snd (bm_processRetransmits c m))"
    using processRetransmits_total [OF s] bm_inv_sender [OF assms] by (auto simp: bm_processRetransmits_def split: prod.split)
qed

section \<open>The manager as a machine\<close>

datatype BandwidthOp =
    SetStreamConfig u8 StreamBandwidthConfig
  | SetManualMultiplier u8 f32
  | ClearManualMultiplier u8
  | Update
  | UpdateJitter int
  | UpdateRtt int
  | BuildRttProbe
  | ProcessRttResponse bytes
  | ManagedSend bytes u8 u64 u64 u32 u8 u8
  | ManagedNack bytes
  | ManagedRetransmits nat

fun bandwidth_step :: "BandwidthOp \<Rightarrow> BandwidthManager \<Rightarrow> (Result \<times> BandwidthManager) option" where
  "bandwidth_step (SetStreamConfig i c) m = map_option (Pair OK) (setStreamConfig i c m)"
| "bandwidth_step (SetManualMultiplier i v) m = map_option (Pair OK) (setManualMultiplier i v m)"
| "bandwidth_step (ClearManualMultiplier i) m = map_option (Pair OK) (clearManualMultiplier i m)"
| "bandwidth_step Update m = map_option (Pair OK) (bm_update m)"
| "bandwidth_step (UpdateJitter j) m = map_option (Pair OK) (bm_updateJitter j m)"
| "bandwidth_step (UpdateRtt r) m = map_option (Pair OK) (updateRtt r m)"
| "bandwidth_step BuildRttProbe m = Some (OK, snd (buildRttProbe m))"
| "bandwidth_step (ProcessRttResponse d) m = processRttResponse d m"
| "bandwidth_step (ManagedSend d ptype pts dts code st flags) m = bm_send d ptype pts dts code st flags m"
| "bandwidth_step (ManagedNack d) m = bm_receiveNack d m"
| "bandwidth_step (ManagedRetransmits n) m = Some (OK, snd (bm_processRetransmits n m))"

text \<open>
  The contract of the caller: a range that is not empty for a stream, a jitter that can be negated, round trip
  times and time stamps of a magnitude of at most \<open>2 ^ 62\<close> microseconds.
\<close>

fun bandwidth_op_ok :: "BandwidthOp \<Rightarrow> bool" where
  "bandwidth_op_ok (SetStreamConfig i c) \<longleftrightarrow> stream_config_ok c"
| "bandwidth_op_ok (SetManualMultiplier i v) \<longleftrightarrow> f32_ok v"
| "bandwidth_op_ok (UpdateJitter j) \<longleftrightarrow> - (2 ^ 63) < j \<and> j < 2 ^ 63"
| "bandwidth_op_ok (UpdateRtt r) \<longleftrightarrow> - (2 ^ 62) \<le> r \<and> r < 2 ^ 62"
| "bandwidth_op_ok (ProcessRttResponse d) \<longleftrightarrow> stamp_ok d"
| "bandwidth_op_ok x \<longleftrightarrow> True"

text \<open>An operation outside the contract is skipped; runs within the contract skip none.\<close>

definition guarded_step :: "BandwidthOp \<Rightarrow> BandwidthManager \<Rightarrow> (Result \<times> BandwidthManager) option" where
  "guarded_step x m = (if bandwidth_op_ok x then bandwidth_step x m else Some (OK, m))"

lemma run_guarded: "list_all bandwidth_op_ok xs \<Longrightarrow> run_ops guarded_step xs m = run_ops bandwidth_step xs m"
  by (induction xs arbitrary: m) (simp_all add: guarded_step_def split: option.split)

lemma bandwidth_step_inv:
  assumes "bm_inv m" "bandwidth_op_ok x"
  shows "\<exists>r n. bandwidth_step x m = Some (r, n) \<and> bm_inv n"
proof (cases x)
  case (SetStreamConfig i c)
  with assms setStreamConfig_inv [OF assms(1), of c i] show ?thesis by auto
next
  case (SetManualMultiplier i v)
  with manual_inv(1) [OF assms(1), of i v] show ?thesis by auto
next
  case (ClearManualMultiplier i)
  with manual_inv(2) [OF assms(1), of i] show ?thesis by auto
next
  case Update
  with bm_update_inv [OF assms(1)] show ?thesis by auto
next
  case (UpdateJitter j)
  with assms(2) estimates_inv(1) [OF assms(1), of j] show ?thesis by auto
next
  case (UpdateRtt r)
  with assms(2) estimates_inv(2) [OF assms(1), of r] show ?thesis by auto
next
  case (ProcessRttResponse d)
  with assms processRttResponse_inv [OF assms(1), of d] show ?thesis by auto
next
  case (ManagedSend d ptype pts dts code st flags)
  with wrapped_inv(1) [OF assms(1)] show ?thesis by simp
next
  case (ManagedNack d)
  with wrapped_inv(2) [OF assms(1)] show ?thesis by simp
qed (use estimates_inv(3) [OF assms(1)] wrapped_inv(3) [OF assms(1)] in simp_all)

interpretation managed: safe_machine bm_inv guarded_step
  by unfold_locales (auto simp: guarded_step_def dest: bandwidth_step_inv)

lemma managed_run:
  assumes "bm_inv m" "list_all bandwidth_op_ok ops"
  shows "\<exists>n. run_ops bandwidth_step ops m = Some n \<and> bm_inv n"
  using managed.run_safe [OF assms(1), of ops] run_guarded [OF assms(2), of m] by simp

end
