(* ===== verification/Efp_BandwidthSpec.thy ===== *)
theory Efp_BandwidthSpec
  imports Efp_BandwidthInv
begin

text \<open>
  What a change of health does to every stream: the loops over all streams against the effect on one
  stream, and the ceiling that the health puts on the multiplier of an automatic stream.
\<close>

section \<open>Loops over all streams\<close>

lemma all_streams_UNIV: "set all_streams = UNIV"
proof -
  have "i \<in> set all_streams" for i
    unfolding all_streams_def set_map set_upt using unat_bounds(1) [of i] by (intro image_eqI [of _ _ "unat i"]) simp_all
  then show ?thesis by blast
qed

lemma distinct_all_streams: "distinct all_streams"
proof -
  have "inj_on (word_of_nat :: nat \<Rightarrow> u8) {0 ..< 256}"
  proof (rule inj_onI)
    fix x y assume "x \<in> {0 ..< 256 :: nat}" "y \<in> {0 ..< 256}" "(word_of_nat x :: u8) = word_of_nat y"
    then have "unat (word_of_nat x :: u8) = unat (word_of_nat y :: u8)" "x < 256" "y < 256" by simp_all
    then show "x = y" by (simp add: unat_of_nat take_bit_eq_mod)
  qed
  then show ?thesis by (simp add: all_streams_def distinct_map)
qed

definition same_settings :: "BandwidthManager \<Rightarrow> BandwidthManager \<Rightarrow> bool" where
  "same_settings m n \<longleftrightarrow> bm_mStreamConfigs n = bm_mStreamConfigs m \<and> bm_mManualMultiplier n = bm_mManualMultiplier m \<and>
     bm_mConfig n = bm_mConfig m \<and> bm_mCurrentHealth n = bm_mCurrentHealth m \<and>
     bm_mSmoothedNackRate n = bm_mSmoothedNackRate m \<and> bm_mRecentNackCount n = bm_mRecentNackCount m \<and>
     bm_mSmoothedJitterUs n = bm_mSmoothedJitterUs m"

lemma same_settings_trans: "same_settings a b \<Longrightarrow> same_settings b c \<Longrightarrow> same_settings a c"
  by (simp add: same_settings_def)

definition stream_view :: "BandwidthManager \<Rightarrow> u8 \<Rightarrow> f32 \<times> bool" where
  "stream_view m i = (bm_mCurrentMultipliers m i, bm_mStreamDropped m i)"

text \<open>A loop body whose effect on its stream is \<open>effect\<close> and that leaves the other streams alone.\<close>

locale stream_loop =
  fixes body :: "u8 \<Rightarrow> BandwidthManager \<Rightarrow> BandwidthManager option"
    and effect :: "BandwidthManager \<Rightarrow> u8 \<Rightarrow> f32 \<times> bool"
  assumes body_settings: "body i m = Some n \<Longrightarrow> same_settings m n"
    and body_effect: "body i m = Some n \<Longrightarrow> stream_view n i = effect m i"
    and body_others: "body i m = Some n \<Longrightarrow> j \<noteq> i \<Longrightarrow> stream_view n j = stream_view m j"
    and effect_cong: "same_settings m n \<Longrightarrow> stream_view n i = stream_view m i \<Longrightarrow> effect n i = effect m i"
begin

lemma loop_effect:
  assumes "distinct js" "for_streams body js m = Some n"
  shows "same_settings m n \<and> (\<forall>i. stream_view n i = (if i \<in> set js then effect m i else stream_view m i))"
  using assms
proof (induction js arbitrary: m)
  case (Cons i js)
  from Cons.prems(2) obtain u where u: "body i m = Some u" "for_streams body js u = Some n" by (auto split: bind_splits)
  note b = body_settings [OF u(1)] body_effect [OF u(1)] body_others [OF u(1)] and ih = Cons.IH [OF _ u(2)]
  then have s: "same_settings m n" using Cons.prems(1) same_settings_trans by auto
  have "stream_view n j = (if j \<in> set (i # js) then effect m j else stream_view m j)" for j
    using b ih Cons.prems(1) effect_cong [of m u j] by (cases "j = i") auto
  with s show ?case by blast
qed (simp add: same_settings_def)

lemma all_effect:
  assumes "for_streams body all_streams m = Some n"
  shows "same_settings m n" "stream_view n i = effect m i"
  using loop_effect [OF distinct_all_streams assms] by (simp_all add: all_streams_UNIV)

end

section \<open>The effect on one stream\<close>

definition automatic :: "BandwidthManager \<Rightarrow> u8 \<Rightarrow> bool" where
  "automatic m i \<longleftrightarrow> f_less (bm_mManualMultiplier m i) (F_Fin 0)"

definition lowered :: "NetworkHealth \<Rightarrow> BandwidthManager \<Rightarrow> u8 \<Rightarrow> f32 \<times> bool" where
  "lowered h m i =
     (if automatic m i
      then (let t = the (getTargetMultiplier i h m); c = bm_mCurrentMultipliers m i
            in (if f_less t c then t else c,
                bm_mStreamDropped m i \<or> h = SEVERE \<and> sc_mDropOnSevereCongestion (bm_mStreamConfigs m i)))
      else stream_view m i)"

definition raised :: "NetworkHealth \<Rightarrow> BandwidthManager \<Rightarrow> u8 \<Rightarrow> f32 \<times> bool" where
  "raised h m i =
     (if automatic m i
      then (let t = the (getTargetMultiplier i h m); c = bm_mCurrentMultipliers m i;
                v = the (f_clamp (f_min (f_add c (bc_mAdditiveIncrease (bm_mConfig m))) t)
                  (sc_mMinMultiplier (bm_mStreamConfigs m i)) (sc_mMaxMultiplier (bm_mStreamConfigs m i)))
            in (if f_eq v c then c else v, bm_mStreamDropped m i \<and> h = SEVERE))
      else stream_view m i)"

lemma getTarget_cong: "bm_mStreamConfigs n = bm_mStreamConfigs m \<Longrightarrow> getTargetMultiplier i h n = getTargetMultiplier i h m"
  by (simp add: getTargetMultiplier_def)

lemma effects_cong:
  assumes "same_settings m n" "stream_view n i = stream_view m i"
  shows "lowered h n i = lowered h m i" "raised h n i = raised h m i"
  using assms getTarget_cong [of n m] by (auto simp: lowered_def raised_def same_settings_def stream_view_def automatic_def)

lemmas stream_step_defs = change_multiplier_def notifyBandwidthChange_def set_multiplier_def same_settings_def stream_view_def

interpretation lower: stream_loop "decrease_stream h" "lowered h" for h
proof
  fix i j m n assume run: "decrease_stream h i m = Some n"
  then show "same_settings m n" "stream_view n i = lowered h m i"
    by (auto simp: decrease_stream_def stream_step_defs lowered_def automatic_def Let_def split: bind_splits if_splits)
  show "stream_view n j = stream_view m j" if "j \<noteq> i"
    using run that by (auto simp: decrease_stream_def stream_step_defs Let_def split: bind_splits if_splits)
qed (rule effects_cong)

interpretation rise: stream_loop "increase_stream h" "raised h" for h
proof
  fix i j m n assume run: "increase_stream h i m = Some n"
  then show "same_settings m n" "stream_view n i = raised h m i"
    by (auto simp: increase_stream_def stream_step_defs raised_def automatic_def Let_def f_eq_def split: bind_splits if_splits)
  show "stream_view n j = stream_view m j" if "j \<noteq> i"
    using run that by (auto simp: increase_stream_def stream_step_defs Let_def split: bind_splits if_splits)
qed (rule effects_cong)

lemma handleHealthChange_view:
  assumes "handleHealthChange h m = Some n"
  shows "bm_mCurrentHealth n = h" "bm_mStreamConfigs n = bm_mStreamConfigs m" "bm_mManualMultiplier n = bm_mManualMultiplier m"
    "bm_mConfig n = bm_mConfig m" "bm_mCurrentHealth m < h \<Longrightarrow> stream_view n i = lowered h m i"
    "h < bm_mCurrentHealth m \<Longrightarrow> stream_view n i = raised h m i" "h = bm_mCurrentHealth m \<Longrightarrow> stream_view n i = stream_view m i"
    "bm_mSmoothedNackRate n = bm_mSmoothedNackRate m" "bm_mRecentNackCount n = bm_mRecentNackCount m"
    "bm_mSmoothedJitterUs n = bm_mSmoothedJitterUs m"
proof -
  let ?d = "m\<lparr>bm_mCurrentHealth := h, bm_mBandwidthReductions := bm_mBandwidthReductions m + 1\<rparr>"
  let ?i = "m\<lparr>bm_mCurrentHealth := h, bm_mBandwidthIncreases := bm_mBandwidthIncreases m + 1\<rparr>"
  have c: "lowered h ?d = lowered h m" "raised h ?i = raised h m"
    by (simp_all add: fun_eq_iff lowered_def raised_def automatic_def stream_view_def getTargetMultiplier_def)
  have "bm_mCurrentHealth n = h \<and> bm_mStreamConfigs n = bm_mStreamConfigs m \<and> bm_mManualMultiplier n = bm_mManualMultiplier m \<and>
    bm_mConfig n = bm_mConfig m \<and> (bm_mCurrentHealth m < h \<longrightarrow> stream_view n i = lowered h m i) \<and>
    (h < bm_mCurrentHealth m \<longrightarrow> stream_view n i = raised h m i) \<and> (h = bm_mCurrentHealth m \<longrightarrow> stream_view n i = stream_view m i) \<and>
    bm_mSmoothedNackRate n = bm_mSmoothedNackRate m \<and> bm_mRecentNackCount n = bm_mRecentNackCount m \<and>
    bm_mSmoothedJitterUs n = bm_mSmoothedJitterUs m"
  proof (cases h "bm_mCurrentHealth m" rule: linorder_cases)
    case less
    with assms less_not_sym [OF less] obtain u where u: "for_streams (increase_stream h) all_streams ?i = Some u" "n = reset_recovery u"
      by (auto simp: handleHealthChange_def Let_def split: bind_splits)
    from rise.all_effect [OF u(1)] c less less_not_sym [OF less] less_imp_neq [OF less] show ?thesis by (simp add: u(2) reset_recovery_eq same_settings_def stream_view_def)
  next
    case greater
    with assms obtain u where u: "for_streams (decrease_stream h) all_streams ?d = Some u" "n = reset_recovery u"
      by (auto simp: handleHealthChange_def Let_def split: bind_splits)
    from lower.all_effect [OF u(1)] c greater less_not_sym [OF greater] less_imp_neq [OF greater] show ?thesis by (simp add: u(2) reset_recovery_eq same_settings_def stream_view_def)
  qed (use assms in \<open>auto simp: handleHealthChange_def Let_def reset_recovery_eq stream_view_def\<close>)
  then show "bm_mCurrentHealth n = h" "bm_mStreamConfigs n = bm_mStreamConfigs m" "bm_mManualMultiplier n = bm_mManualMultiplier m"
    "bm_mConfig n = bm_mConfig m" "bm_mCurrentHealth m < h \<Longrightarrow> stream_view n i = lowered h m i"
    "h < bm_mCurrentHealth m \<Longrightarrow> stream_view n i = raised h m i" "h = bm_mCurrentHealth m \<Longrightarrow> stream_view n i = stream_view m i"
    "bm_mSmoothedNackRate n = bm_mSmoothedNackRate m" "bm_mRecentNackCount n = bm_mRecentNackCount m"
    "bm_mSmoothedJitterUs n = bm_mSmoothedJitterUs m"
    by simp_all
qed

lemma tryBandwidthIncrease_view:
  assumes "tryBandwidthIncrease m = Some n"
  shows "case better_health (bm_mCurrentHealth m) of None \<Rightarrow> n = m
    | Some h \<Rightarrow> bm_mCurrentHealth n = h \<and> bm_mStreamConfigs n = bm_mStreamConfigs m \<and> bm_mManualMultiplier n = bm_mManualMultiplier m \<and>
        bm_mConfig n = bm_mConfig m \<and> (\<forall>i. stream_view n i = raised h m i)"
proof (cases "better_health (bm_mCurrentHealth m)")
  case (Some h)
  let ?i = "m\<lparr>bm_mCurrentHealth := h, bm_mBandwidthIncreases := bm_mBandwidthIncreases m + 1\<rparr>"
  have c: "raised h ?i = raised h m" by (simp add: fun_eq_iff raised_def automatic_def stream_view_def getTargetMultiplier_def)
  from assms Some obtain u where u: "for_streams (increase_stream h) all_streams ?i = Some u" "n = reset_recovery u"
    by (auto simp: tryBandwidthIncrease_def split: bind_splits)
  from rise.all_effect [OF u(1)] c show ?thesis by (simp add: Some u(2) reset_recovery_eq same_settings_def stream_view_def)
qed (use assms in \<open>simp add: tryBandwidthIncrease_def\<close>)

section \<open>The ceiling of a health state\<close>

definition target :: "BandwidthManager \<Rightarrow> NetworkHealth \<Rightarrow> u8 \<Rightarrow> f32" where
  "target m h i = the (getTargetMultiplier i h m)"

definition ceiling :: "BandwidthManager \<Rightarrow> bool" where
  "ceiling m \<longleftrightarrow> (\<forall>i. f32_ok (bm_mCurrentMultipliers m i) \<and> f32_ok (bm_mManualMultiplier m i) \<and>
     (automatic m i \<longrightarrow> \<not> f_less (target m (bm_mCurrentHealth m) i) (bm_mCurrentMultipliers m i)))"

lemma bm_inv_stream:
  assumes "bm_inv m"
  shows "stream_config_ok (bm_mStreamConfigs m i)" "bm_mCurrentMultipliers m i \<noteq> F_NaN"
    "getTargetMultiplier i h m = Some (target m h i)" "target m h i \<noteq> F_NaN"
    "f_within (sc_mMinMultiplier (bm_mStreamConfigs m i)) (target m h i) (sc_mMaxMultiplier (bm_mStreamConfigs m i))"
proof -
  show c: "stream_config_ok (bm_mStreamConfigs m i)" "bm_mCurrentMultipliers m i \<noteq> F_NaN"
    using assms by (auto simp: bm_inv_def configs_ok_def stream_inv_def f_within_def)
  from target_within [OF c(1), of h] show "getTargetMultiplier i h m = Some (target m h i)" "target m h i \<noteq> F_NaN"
    "f_within (sc_mMinMultiplier (bm_mStreamConfigs m i)) (target m h i) (sc_mMaxMultiplier (bm_mStreamConfigs m i))"
    by (auto simp: target_def f_within_def)
qed

lemma seven_tenths: "\<exists>x. f_round (7 / 10) = F_Fin x \<and> 1 / 2 \<le> x \<and> x \<le> 1"
proof -
  have half: "rep (1 / 2)" unfolding rep_def by (rule exI [of _ 1], rule exI [of _ "- 1"]) simp
  have "1 / 2 \<le> rnd (7 / 10)" "rnd (7 / 10) \<le> 1"
    using rnd_ge [OF half, of "7 / 10"] rnd_le [of 1 "7 / 10"] rep_ints [of 1] by simp_all
  moreover from this f_round_cases [of "7 / 10"] have "f_round (7 / 10) = F_Fin (rnd (7 / 10))" by (auto simp: f32_max_def)
  ultimately show ?thesis by blast
qed

lemma half_ok: "f32_ok (F_Fin (1 / 2))"
proof -
  have "rep (1 / 2)" unfolding rep_def by (rule exI [of _ 1], rule exI [of _ "- 1"]) simp
  then show ?thesis by (simp add: f32_ok_def f32_max_def)
qed

lemma target_ok:
  assumes "bm_inv m"
  shows "f32_ok (target m h i)"
proof -
  note s = bm_inv_stream [OF assms, where i = i]
  have "f32_ok (case h of HEALTHY \<Rightarrow> F_Fin 1 | DEGRADED \<Rightarrow> f_round (7 / 10) | CONGESTED \<Rightarrow> F_Fin (1 / 2)
      | SEVERE \<Rightarrow> sc_mMinMultiplier (bm_mStreamConfigs m i))"
    using s(1) f32_ok_units(2) half_ok by (cases h) (simp_all add: stream_config_ok_def)
  from f32_ok_choice(2) [OF s(3) [of h, unfolded getTargetMultiplier_def Let_def] this] s(1) show ?thesis
    by (simp add: stream_config_ok_def)
qed

text \<open>A better health never has a lower target.\<close>

lemma target_mono:
  assumes "bm_inv m" "h \<le> k"
  shows "\<not> f_less (target m h i) (target m k i)"
proof -
  note s = bm_inv_stream [OF assms(1), where i = i]
  let ?lo = "sc_mMinMultiplier (bm_mStreamConfigs m i)" and ?hi = "sc_mMaxMultiplier (bm_mStreamConfigs m i)"
  obtain x where x: "f_round (7 / 10) = F_Fin x" "1 / 2 \<le> x" "x \<le> 1" using seven_tenths by blast
  show ?thesis
  proof (cases "k = SEVERE")
    case True
    then have "target m k i = ?lo" using s(1) by (simp add: target_def getTargetMultiplier_def Let_def f_clamp_def stream_config_ok_def)
    with s(5) [of h] show ?thesis by (simp add: f_within_def)
  next
    case False
    let ?t = "\<lambda>h. case h of HEALTHY \<Rightarrow> F_Fin 1 | DEGRADED \<Rightarrow> F_Fin x | CONGESTED \<Rightarrow> F_Fin (1 / 2) | SEVERE \<Rightarrow> ?lo"
    have "h \<noteq> SEVERE" using False assms(2) by (cases h; cases k) (auto simp: less_eq_NetworkHealth_def word_le_nat_alt)
    with False assms(2) x have "\<not> f_less (?t h) (?t k)" "?t h \<noteq> F_NaN" "?t k \<noteq> F_NaN"
      by (cases h; cases k; simp add: less_eq_NetworkHealth_def word_le_nat_alt)+
    moreover have "f_clamp (?t h) ?lo ?hi = Some (target m h i)" for h
      using s(3) [of h] unfolding getTargetMultiplier_def Let_def x(1) by simp
    ultimately show ?thesis using s(1) f_clamp_mono unfolding stream_config_ok_def by blast
  qed
qed

lemma lowered_ceiling:
  assumes "bm_inv m" "f32_ok (bm_mCurrentMultipliers m i)" "lowered h m i = (v, d)"
  shows "f32_ok v" "\<not> f_less (bm_mCurrentMultipliers m i) v" "automatic m i \<Longrightarrow> \<not> f_less (target m h i) v"
proof -
  note s = bm_inv_stream [OF assms(1), where i = i]
  show "f32_ok v" "automatic m i \<Longrightarrow> \<not> f_less (target m h i) v"
    using assms(2,3) target_ok [OF assms(1)] s(3) [of h]
    by (auto simp: lowered_def stream_view_def Let_def split: if_splits)
  show "\<not> f_less (bm_mCurrentMultipliers m i) v"
    using assms(3) s(3) [of h] by (auto simp: lowered_def stream_view_def Let_def dest: f_less_asym split: if_splits)
qed

text \<open>The size of an improvement: by the increment, up to the target. The range of the stream has no effect on it.\<close>

lemma f_not_less_trans:
  "\<not> f_less b a \<Longrightarrow> \<not> f_less c b \<Longrightarrow> a \<noteq> F_NaN \<Longrightarrow> b \<noteq> F_NaN \<Longrightarrow> \<not> f_less c a"
  using f_less_total [of a b] f_less_trans [of c a b] by metis

lemma raised_value:
  assumes inv: "bm_inv m" "ceiling m" and better: "h \<le> bm_mCurrentHealth m" and auto: "automatic m i"
  shows "fst (raised h m i) = f_min (f_add (bm_mCurrentMultipliers m i) (bc_mAdditiveIncrease (bm_mConfig m))) (target m h i)"
    "\<not> f_less (fst (raised h m i)) (bm_mCurrentMultipliers m i)" "\<not> f_less (target m h i) (fst (raised h m i))"
    "f32_ok (fst (raised h m i))"
proof -
  note s = bm_inv_stream [OF inv(1), where i = i]
  let ?c = "bm_mCurrentMultipliers m i" and ?t = "target m h i" and ?inc = "bc_mAdditiveIncrease (bm_mConfig m)"
  let ?lo = "sc_mMinMultiplier (bm_mStreamConfigs m i)" and ?hi = "sc_mMaxMultiplier (bm_mStreamConfigs m i)"
  let ?w = "f_min (f_add ?c ?inc) ?t"
  have c: "f32_ok ?c" using inv(2) by (simp add: ceiling_def)
  obtain b where b: "?inc = F_Fin b" "0 \<le> b" using inv(1) by (auto simp: bm_inv_def configs_ok_def bandwidth_config_ok_def)
  have sum: "f_add ?c ?inc \<noteq> F_NaN" "\<not> f_less (f_add ?c ?inc) ?c"
    using f_add_nan [OF s(2)] f_add_increases_ok [OF c s(2) b(2)] b(1) by simp_all
  have "\<not> f_less (target m (bm_mCurrentHealth m) i) ?c" using inv(2) auto by (simp add: ceiling_def)
  then have ct: "\<not> f_less ?t ?c" using target_mono [OF inv(1) better] f_not_less_trans s(2,4) by blast
  have w: "?w \<noteq> F_NaN" "\<not> f_less ?w ?c" "\<not> f_less ?t ?w" "f32_ok ?w"
    using sum ct s(4) f32_ok_choice(1) f32_ok_add target_ok [OF inv(1)] f_less_total f_less_irrefl f_less_trans
    by (auto simp: f_min_def)
  have cfg: "?lo \<noteq> F_NaN" "?hi \<noteq> F_NaN" "\<not> f_less ?hi ?lo" using s(1) by (simp_all add: stream_config_ok_def)
  have "\<not> f_less ?c ?lo" "\<not> f_less ?hi ?t" using inv(1) s(5) [of h] by (simp_all add: bm_inv_def stream_inv_def f_within_def)
  then have "\<not> f_less ?w ?lo" "\<not> f_less ?hi ?w" using w f_not_less_trans cfg s(2,4) by blast+
  then have "f_clamp ?w ?lo ?hi = Some ?w" using cfg(3) by (simp add: f_clamp_def)
  then have "fst (raised h m i) = ?w" using auto s(3) [of h] by (auto simp: raised_def Let_def f_eq_def)
  with w show "fst (raised h m i) = ?w" "\<not> f_less (fst (raised h m i)) ?c" "\<not> f_less ?t (fst (raised h m i))"
    "f32_ok (fst (raised h m i))" by simp_all
qed

lemma lowered_value:
  "bm_inv m \<Longrightarrow> automatic m i \<Longrightarrow> fst (lowered h m i) = f_min (bm_mCurrentMultipliers m i) (target m h i)"
  using bm_inv_stream(3) [of m i h] by (simp add: lowered_def Let_def f_min_def)

lemma raised_ceiling:
  assumes inv: "bm_inv m" "ceiling m" and better: "h \<le> bm_mCurrentHealth m" and v: "raised h m i = (v, d)"
  shows "f32_ok v" "\<not> f_less v (bm_mCurrentMultipliers m i)" "automatic m i \<Longrightarrow> \<not> f_less (target m h i) v"
proof -
  have "v = bm_mCurrentMultipliers m i" if "\<not> automatic m i" using v that by (simp add: raised_def stream_view_def)
  moreover have "f32_ok (bm_mCurrentMultipliers m i)" using inv(2) by (simp add: ceiling_def)
  ultimately show "f32_ok v" "\<not> f_less v (bm_mCurrentMultipliers m i)" "automatic m i \<Longrightarrow> \<not> f_less (target m h i) v"
    using raised_value [OF inv better, of i] v f_less_irrefl by (cases "automatic m i"; fastforce)+
qed

section \<open>Every operation keeps the ceiling\<close>

lemma ceiling_cong:
  assumes "ceiling m" "bm_mStreamConfigs n = bm_mStreamConfigs m" "bm_mManualMultiplier n = bm_mManualMultiplier m"
    "bm_mCurrentMultipliers n = bm_mCurrentMultipliers m" "bm_mCurrentHealth n = bm_mCurrentHealth m"
  shows "ceiling n"
  using assms by (simp add: ceiling_def automatic_def target_def getTargetMultiplier_def)

lemma ceiling_new: "ceiling (newBandwidthManager mtu mode ms mx cfg sclk clk)"
  by (simp add: ceiling_def automatic_def target_def getTargetMultiplier_def newBandwidthManager_def defaultStreamConfig_def
      f_clamp_def f32_ok_units)

lemma updateStreamMultiplier_ceiling:
  assumes run: "updateStreamMultiplier i m = Some n" and c: "stream_config_ok (bm_mStreamConfigs m i)"
    and ok: "\<And>j. f32_ok (bm_mCurrentMultipliers m j) \<and> f32_ok (bm_mManualMultiplier m j)"
    and others: "\<And>j. j \<noteq> i \<Longrightarrow> automatic m j \<Longrightarrow> \<not> f_less (target m (bm_mCurrentHealth m) j) (bm_mCurrentMultipliers m j)"
  shows "ceiling n"
proof -
  let ?lo = "sc_mMinMultiplier (bm_mStreamConfigs m i)" and ?hi = "sc_mMaxMultiplier (bm_mStreamConfigs m i)"
  have base: "f32_ok (case h of HEALTHY \<Rightarrow> F_Fin 1 | DEGRADED \<Rightarrow> f_round (7 / 10) | CONGESTED \<Rightarrow> F_Fin (1 / 2) | SEVERE \<Rightarrow> ?lo)" for h
    using c f32_ok_units(2) half_ok by (cases h) (simp_all add: stream_config_ok_def)
  obtain v where v: "n = change_multiplier i v m" "f32_ok v" "v \<noteq> F_NaN"
    "automatic m i \<Longrightarrow> target m (bm_mCurrentHealth m) i = v"
  proof (cases "f_geq (bm_mManualMultiplier m i) (F_Fin 0)")
    case True
    with run obtain v where v: "f_clamp (bm_mManualMultiplier m i) ?lo ?hi = Some v" "n = change_multiplier i v m"
      by (auto simp: updateStreamMultiplier_def Let_def split: bind_splits)
    have "\<not> automatic m i" "bm_mManualMultiplier m i \<noteq> F_NaN"
      using True by (auto simp: automatic_def f_geq_def f_eq_def dest: f_less_asym)
    moreover from this v(1) c have "v \<noteq> F_NaN" by (auto simp: f_clamp_def stream_config_ok_def split: if_splits)
    ultimately show ?thesis using that [of v] v f32_ok_choice(2) [OF v(1)] ok c by (simp add: stream_config_ok_def)
  next
    case False
    with run obtain v where v: "getTargetMultiplier i (bm_mCurrentHealth m) m = Some v" "n = change_multiplier i v m"
      by (auto simp: updateStreamMultiplier_def Let_def split: bind_splits)
    from target_within [OF c, of "bm_mCurrentHealth m"] v(1) have "v \<noteq> F_NaN" by (auto simp: f_within_def)
    with that [of v] v f32_ok_choice(2) [OF v(1) [unfolded getTargetMultiplier_def Let_def] base] c show ?thesis
      by (simp add: stream_config_ok_def target_def)
  qed
  have "target n h j = target m h j" for h j by (simp add: target_def getTargetMultiplier_def v(1) change_multiplier_keeps)
  with v ok others show ?thesis
    by (auto simp: ceiling_def change_multiplier_keeps automatic_def)
qed

lemma settings_ceiling:
  assumes "ceiling m" "bm_inv m"
  shows "stream_config_ok c \<Longrightarrow> setStreamConfig i c m = Some n \<Longrightarrow> ceiling n"
    "f32_ok v \<Longrightarrow> setManualMultiplier i v m = Some n \<Longrightarrow> ceiling n"
    "clearManualMultiplier i m = Some n \<Longrightarrow> ceiling n"
proof -
  have ok: "f32_ok (bm_mCurrentMultipliers m j)" "f32_ok (bm_mManualMultiplier m j)" "stream_config_ok (bm_mStreamConfigs m j)" for j
    using assms bm_inv_stream(1) by (simp_all add: ceiling_def)
  have others: "\<not> f_less (target m (bm_mCurrentHealth m) j) (bm_mCurrentMultipliers m j)" if "automatic m j" for j
    using assms(1) that by (simp add: ceiling_def)
  show "ceiling n" if "stream_config_ok c" "setStreamConfig i c m = Some n"
    using that(2) unfolding setStreamConfig_def
    by (rule updateStreamMultiplier_ceiling) (use ok others that(1) in \<open>auto simp: automatic_def target_def getTargetMultiplier_def\<close>)
  have manual: "ceiling n" if "updateStreamMultiplier i (m\<lparr>bm_mManualMultiplier := (bm_mManualMultiplier m)(i := w)\<rparr>) = Some n" "f32_ok w" for w
    using that(1)
    by (rule updateStreamMultiplier_ceiling) (use ok others that(2) in \<open>auto simp: automatic_def target_def getTargetMultiplier_def\<close>)
  show "ceiling n" if "clearManualMultiplier i m = Some n"
    using that manual f32_ok_units(3) by (simp add: clearManualMultiplier_def)
  show "ceiling n" if "f32_ok v" "setManualMultiplier i v m = Some n"
    using that manual f32_ok_choice(2) [OF _ that(1) f32_ok_units(1,2)]
    by (auto simp: setManualMultiplier_def split: bind_splits)
qed

lemma health_ceiling:
  assumes "ceiling m" "bm_inv m" "bm_mStreamConfigs n = bm_mStreamConfigs m" "bm_mManualMultiplier n = bm_mManualMultiplier m"
    "\<And>i. stream_view n i = lowered (bm_mCurrentHealth n) m i \<or>
      bm_mCurrentHealth n \<le> bm_mCurrentHealth m \<and> stream_view n i = raised (bm_mCurrentHealth n) m i"
  shows "ceiling n"
proof -
  have "f32_ok (bm_mCurrentMultipliers n i) \<and> (automatic m i \<longrightarrow> \<not> f_less (target m (bm_mCurrentHealth n) i) (bm_mCurrentMultipliers n i))" for i
  proof -
    have view: "stream_view n i = (bm_mCurrentMultipliers n i, bm_mStreamDropped n i)" by (simp add: stream_view_def)
    have "f32_ok (bm_mCurrentMultipliers m i)" using assms(1) by (simp add: ceiling_def)
    from lowered_ceiling [OF assms(2) this] raised_ceiling [OF assms(2,1)] assms(5) [of i] view show ?thesis by metis
  qed
  with assms(1,3,4) show ?thesis by (simp add: ceiling_def automatic_def target_def getTargetMultiplier_def)
qed

lemma handleHealthChange_ceiling:
  assumes "ceiling m" "bm_inv m" "handleHealthChange h m = Some n"
  shows "ceiling n"
proof (cases "h = bm_mCurrentHealth m")
  case True
  have "bm_mCurrentMultipliers n i = bm_mCurrentMultipliers m i" for i
    using handleHealthChange_view(7) [OF assms(3) True, of i] by (simp add: stream_view_def)
  with handleHealthChange_view(1-3) [OF assms(3)] True show ?thesis
    by (intro ceiling_cong [OF assms(1)]) auto
next
  case False
  then have "bm_mCurrentHealth m < h \<or> h < bm_mCurrentHealth m" by (auto simp: neq_iff)
  with handleHealthChange_view [OF assms(3)] show ?thesis by (intro health_ceiling [OF assms(1,2)]) auto
qed

lemma better_health_less: "better_health h = Some k \<Longrightarrow> k < h"
  by (cases h) (auto simp: less_NetworkHealth_def word_less_nat_alt)

lemma tryBandwidthIncrease_ceiling:
  assumes "ceiling m" "bm_inv m" "tryBandwidthIncrease m = Some n"
  shows "ceiling n"
proof (cases "better_health (bm_mCurrentHealth m)")
  case None
  with assms show ?thesis by (simp add: tryBandwidthIncrease_def)
next
  case (Some h)
  from tryBandwidthIncrease_view [OF assms(3)] Some less_imp_le [OF better_health_less [OF Some]] show ?thesis
    by (intro health_ceiling [OF assms(1,2)]) simp_all
qed

end
