(* ===== verification/Efp_BandwidthProps.thy ===== *)
theory Efp_BandwidthProps
  imports Efp_BandwidthSpec
begin

text \<open>
  The properties of the bandwidth manager, over runs of its public operations and of its parts.
\<close>

section \<open>Runs\<close>

definition managed_inv :: "BandwidthManager \<Rightarrow> bool" where
  "managed_inv m \<longleftrightarrow> bm_inv m \<and> ceiling m"

lemma bm_update_ceiling:
  assumes "bm_inv m" "ceiling m" "bm_update m = Some n"
  shows "ceiling n"
proof -
  obtain t u where u: "bm_nowUs m = (t, u)" by (cases "bm_nowUs m")
  have ui: "bm_inv u" using bm_nowUs_inv [OF assms(1) u] by simp
  have uc: "ceiling u" by (rule ceiling_cong [OF assms(2)]) (use u in \<open>auto simp: bm_nowUs_def nowUs_def\<close>)
  let ?v = "\<lambda>a b c. u\<lparr>bm_mLastUpdateUs := a, bm_mRecentNackCount := b, bm_mSmoothedNackRate := c\<rparr>"
  have vi: "bm_inv (?v a b c)" for a b c by (rule bm_inv_cong [OF ui]) (use ui in \<open>simp_all add: bm_inv_def estimates_ok_def\<close>)
  have vc: "ceiling (?v a b c)" for a b c by (rule ceiling_cong [OF uc]) simp_all
  have tail: "ceiling y" if "bm_inv x" "ceiling x" "(if bm_mCurrentHealth x \<noteq> HEALTHY then processProbing t x else Some x) = Some y" for x y
    using that tryBandwidthIncrease_ceiling [OF that(2,1)]
    by (auto simp: processProbing_def split: if_splits bind_splits)
  have "ceiling n" if run: "(if q then handleHealthChange h (?v a b c) else Some (?v a b c)) \<bind>
      (\<lambda>m. if bm_mCurrentHealth m \<noteq> HEALTHY then processProbing t m else Some m) = Some n" for q h a b c
  proof -
    from run obtain x where x: "(if q then handleHealthChange h (?v a b c) else Some (?v a b c)) = Some x"
      "(if bm_mCurrentHealth x \<noteq> HEALTHY then processProbing t x else Some x) = Some n" by (cases "if q then handleHealthChange h (?v a b c) else Some (?v a b c)") auto
    have "bm_inv x \<and> ceiling x"
    proof (cases q)
      case True
      then have h: "handleHealthChange h (?v a b c) = Some x" using x(1) by simp
      from handleHealthChange_inv [OF vi [where a = a and b = b and c = c], of h] h handleHealthChange_ceiling [OF vc vi h] show ?thesis by simp
    next
      case False
      with x(1) vi [where a = a and b = b and c = c] vc [where a = a and b = b and c = c] show ?thesis by simp
    qed
    with tail x(2) show ?thesis by blast
  qed
  with assms(3) uc show ?thesis unfolding bm_update_def u Let_def by (auto split: if_splits)
qed

lemma bandwidth_step_managed:
  assumes "managed_inv m" "bandwidth_op_ok x"
  shows "\<exists>r n. bandwidth_step x m = Some (r, n) \<and> managed_inv n"
proof -
  have inv: "bm_inv m" and c: "ceiling m" using assms(1) by (simp_all add: managed_inv_def)
  from bandwidth_step_inv [OF inv assms(2)] obtain r n where run: "bandwidth_step x m = Some (r, n)" and n: "bm_inv n" by blast
  have "ceiling n"
  proof (cases x)
    case (SetStreamConfig i k)
    with run assms(2) settings_ceiling(1) [OF c inv] show ?thesis by auto
  next
    case (SetManualMultiplier i v)
    with run assms(2) settings_ceiling(2) [OF c inv] show ?thesis by auto
  next
    case (ClearManualMultiplier i)
    with run settings_ceiling(3) [OF c inv] show ?thesis by auto
  next
    case Update
    with run bm_update_ceiling [OF inv c] show ?thesis by auto
  qed (use run in \<open>auto simp: bm_updateJitter_def updateRtt_def buildRttProbe_def processRttResponse_def bm_send_def
      bm_receiveNack_def bm_processRetransmits_def bm_nowUs_def nowUs_def Let_def
      intro!: ceiling_cong [OF c] split: if_splits bind_splits prod.splits\<close>)
  with run n show ?thesis by (simp add: managed_inv_def)
qed

interpretation ceilinged: safe_machine managed_inv guarded_step
proof
  show "\<exists>r n. guarded_step x m = Some (r, n) \<and> managed_inv n" if "managed_inv m" for x m
    using that bandwidth_step_managed [OF that] by (simp add: guarded_step_def)
qed

section \<open>A stream that is set by hand\<close>

definition held_drop :: "u8 \<Rightarrow> BandwidthManager \<Rightarrow> bool" where
  "held_drop i m \<longleftrightarrow> \<not> automatic m i \<and> bm_mStreamDropped m i"

lemma held_drop_cong:
  "held_drop i m \<Longrightarrow> bm_mManualMultiplier n = bm_mManualMultiplier m \<Longrightarrow> bm_mStreamDropped n = bm_mStreamDropped m \<Longrightarrow> held_drop i n"
  by (simp add: held_drop_def automatic_def)

lemma held_drop_change: "held_drop i (change_multiplier j v m) = held_drop i m"
  by (simp add: held_drop_def automatic_def change_multiplier_keeps)

lemma held_drop_updateStream: "updateStreamMultiplier j m = Some n \<Longrightarrow> held_drop i n = held_drop i m"
  by (auto simp: updateStreamMultiplier_def Let_def held_drop_change split: if_splits bind_splits)

lemma held_drop_view:
  "held_drop i m \<Longrightarrow> bm_mManualMultiplier n = bm_mManualMultiplier m \<Longrightarrow>
     stream_view n i \<in> {lowered h m i, raised h m i, stream_view m i} \<Longrightarrow> held_drop i n"
  by (auto simp: held_drop_def automatic_def lowered_def raised_def stream_view_def split: if_splits)

lemma held_drop_health:
  assumes "held_drop i m" "handleHealthChange h m = Some n"
  shows "held_drop i n"
proof -
  note v = handleHealthChange_view [OF assms(2)]
  have "stream_view n i \<in> {lowered h m i, raised h m i, stream_view m i}"
    using v(5-7) [of i] by (cases h "bm_mCurrentHealth m" rule: linorder_cases) auto
  with held_drop_view [OF assms(1) v(3)] show ?thesis .
qed

lemma held_drop_probing:
  assumes "held_drop i m" "processProbing t m = Some n"
  shows "held_drop i n"
proof -
  have "held_drop i n" if "tryBandwidthIncrease m = Some n"
    using tryBandwidthIncrease_view [OF that] held_drop_view [OF assms(1), of n] assms(1)
    by (cases "better_health (bm_mCurrentHealth m)") auto
  with assms show ?thesis by (auto simp: processProbing_def split: if_splits bind_splits)
qed

lemma held_drop_update:
  assumes "held_drop i m" "bm_update m = Some n"
  shows "held_drop i n"
proof -
  obtain t u where u: "bm_nowUs m = (t, u)" by (cases "bm_nowUs m")
  have uc: "held_drop i u" by (rule held_drop_cong [OF assms(1)]) (use u in \<open>auto simp: bm_nowUs_def nowUs_def\<close>)
  let ?v = "\<lambda>a b c. u\<lparr>bm_mLastUpdateUs := a, bm_mRecentNackCount := b, bm_mSmoothedNackRate := c\<rparr>"
  have vc: "held_drop i (?v a b c)" for a b c by (rule held_drop_cong [OF uc]) simp_all
  have "held_drop i n" if run: "(if q then handleHealthChange h (?v a b c) else Some (?v a b c)) \<bind>
      (\<lambda>m. if bm_mCurrentHealth m \<noteq> HEALTHY then processProbing t m else Some m) = Some n" for q h a b c
  proof -
    from run obtain x where x: "(if q then handleHealthChange h (?v a b c) else Some (?v a b c)) = Some x"
      "(if bm_mCurrentHealth x \<noteq> HEALTHY then processProbing t x else Some x) = Some n"
      by (cases "if q then handleHealthChange h (?v a b c) else Some (?v a b c)") auto
    have "held_drop i x" using x(1) vc held_drop_health [OF vc] by (auto split: if_splits)
    with held_drop_probing x(2) show ?thesis by (auto split: if_splits)
  qed
  with assms(2) uc show ?thesis unfolding bm_update_def u Let_def by (auto split: if_splits)
qed

lemma held_drop_step:
  assumes "held_drop i m" "bandwidth_step x m = Some (r, n)" "x \<noteq> ClearManualMultiplier i"
  shows "held_drop i n"
proof (cases x)
  case (SetStreamConfig j c)
  with assms show ?thesis
    by (auto simp: setStreamConfig_def held_drop_def automatic_def dest: held_drop_updateStream [of j _ _ i, unfolded held_drop_def automatic_def])
next
  case (SetManualMultiplier j v)
  with assms(2) obtain w where w: "f_clamp v (F_Fin 0) (F_Fin 1) = Some w"
    "updateStreamMultiplier j (m\<lparr>bm_mManualMultiplier := (bm_mManualMultiplier m)(j := w)\<rparr>) = Some n"
    by (auto simp: setManualMultiplier_def split: bind_splits)
  have "\<not> f_less w (F_Fin 0)" using w(1) by (auto simp: f_clamp_def split: if_splits)
  with assms(1) have "held_drop i (m\<lparr>bm_mManualMultiplier := (bm_mManualMultiplier m)(j := w)\<rparr>)"
    by (auto simp: held_drop_def automatic_def)
  with held_drop_updateStream [OF w(2)] show ?thesis by simp
next
  case (ClearManualMultiplier j)
  with assms(1,3) have "held_drop i (m\<lparr>bm_mManualMultiplier := (bm_mManualMultiplier m)(j := F_Fin (- 1))\<rparr>)"
    by (auto simp: held_drop_def automatic_def)
  with ClearManualMultiplier assms(2) held_drop_updateStream show ?thesis
    by (auto simp: clearManualMultiplier_def)
next
  case Update
  with assms held_drop_update show ?thesis by auto
qed (use assms(2) in \<open>auto simp: bm_updateJitter_def updateRtt_def buildRttProbe_def processRttResponse_def bm_send_def
      bm_receiveNack_def bm_processRetransmits_def bm_nowUs_def nowUs_def Let_def
      intro!: held_drop_cong [OF assms(1)] split: if_splits bind_splits prod.splits\<close>)

lemma held_drop_run:
  assumes "held_drop i m" "ClearManualMultiplier i \<notin> set ops" "run_ops bandwidth_step ops m = Some n"
  shows "held_drop i n"
  using assms
proof (induction ops arbitrary: m)
  case (Cons x ops)
  then obtain r u where u: "bandwidth_step x m = Some (r, u)" "run_ops bandwidth_step ops u = Some n"
    by (auto split: option.splits)
  have "held_drop i u" using held_drop_step [OF Cons.prems(1) u(1)] Cons.prems(2) by auto
  with Cons u(2) show ?case by simp
qed simp

section \<open>Round trip times\<close>

lemma ratio_grows:
  assumes "18750 \<le> s" "s \<le> (80000 :: int)"
  shows "\<not> f_geq (f_round (12 / 10)) (f_div (f_of_int s) (f_of_int 10000))"
proof -
  have fin: "f_of_int k = F_Fin (of_int k)" if "\<bar>k\<bar> \<le> 2 ^ 24" for k
  proof -
    have "\<bar>of_int k :: rat\<bar> \<le> of_int (2 ^ 24)" using that by (simp only: of_int_abs [symmetric] of_int_le_iff)
    then show ?thesis using rnd_rep [OF rep_ints [OF that]] by (simp add: f_of_int_def f_round_def f32_max_def Let_def)
  qed
  let ?q = "of_int s / 10000 :: rat"
  have s: "(18750 :: rat) \<le> of_int s" "of_int s \<le> (80000 :: rat)" using assms by linarith+
  have "rep (15 / 8)" unfolding rep_def by (rule exI [of _ 15], rule exI [of _ "- 3"]) (simp add: power_int_def power3_eq_cube)
  from rnd_ge [OF this, of ?q] rnd_le [OF rep_ints [of 8], of ?q] s
  have q: "15 / 8 \<le> rnd ?q" "rnd ?q \<le> 8" by (simp_all add: field_simps)
  then have div: "f_div (f_of_int s) (f_of_int 10000) = F_Fin (rnd ?q)"
    using fin [of s] fin [of 10000] assms by (simp add: f_round_def f32_max_def Let_def)
  have "rep (3 / 2)" unfolding rep_def by (rule exI [of _ 3], rule exI [of _ "- 1"]) simp
  from rnd_le [OF this, of "12 / 10"] rnd_nonneg [of "12 / 10"] have t: "rnd (12 / 10) \<le> 3 / 2" "0 \<le> rnd (12 / 10)" by simp_all
  then have "f_round (12 / 10) = F_Fin (rnd (12 / 10))" by (simp add: f_round_def f32_max_def Let_def)
  with div q(1) t show ?thesis by (auto simp: f_geq_def f_eq_def)
qed

lemma constant_rtt:
  assumes m: "bm_mBaselineRttUs m = 10000" "10000 \<le> bm_mSmoothedRttUs m" "bm_mSmoothedRttUs m \<le> 80000" "bm_mStableRttSamples m = 0"
  shows "\<exists>n. updateRtt 80000 m = Some n \<and> bm_mBaselineRttUs n = 10000 \<and> 10000 \<le> bm_mSmoothedRttUs n \<and> bm_mSmoothedRttUs n \<le> 80000 \<and>
    bm_mStableRttSamples n = 0"
proof -
  let ?s = "bm_mSmoothedRttUs m" and ?t = "bm_mSmoothedRttUs m + (80000 - bm_mSmoothedRttUs m) sdiv 8"
  have "(80000 - ?s) sdiv 8 = (80000 - ?s) div 8" using m(3) by (simp add: signed_divide_int_def sgn_if)
  then have t: "18750 \<le> ?t" "?t \<le> 80000" using m(2,3) by linarith+
  have "int64 (80000 - ?s) = Some (80000 - ?s)" "int64 ?t = Some ?t" using m(2,3) t by (simp_all add: int64_def)
  with ratio_grows [OF t] m t show ?thesis by (auto simp: updateRtt_def Let_def)
qed

section \<open>A quiet manager\<close>

text \<open>Healthy, without a NACK since the last update, and with estimates below every threshold.\<close>

definition quiet :: "BandwidthManager \<Rightarrow> bool" where
  "quiet m \<longleftrightarrow> bm_mCurrentHealth m = HEALTHY \<and> bm_mRecentNackCount m = 0 \<and> 0 < bc_mUpdateIntervalMs (bm_mConfig m) \<and>
     bm_mSmoothedJitterUs m < bc_mJitterCongestedUs (bm_mConfig m) \<and> bm_mSmoothedJitterUs m < bc_mJitterDegradedUs (bm_mConfig m) \<and>
     (\<exists>r. bm_mSmoothedNackRate m = F_Fin r \<and> rep r \<and> 0 \<le> r \<and> r \<le> f32_max \<and>
        \<not> f_geq (F_Fin r) (bc_mNackRateSevere (bm_mConfig m)) \<and> \<not> f_geq (F_Fin r) (bc_mNackRateCongested (bm_mConfig m)) \<and>
        \<not> f_geq (F_Fin r) (bc_mNackRateDegraded (bm_mConfig m)))"

lemma f_geq_down: "\<not> f_geq (F_Fin r) x \<Longrightarrow> q \<le> r \<Longrightarrow> \<not> f_geq (F_Fin q) x"
  by (cases x) (auto simp: f_geq_def f_eq_def)

lemma f_round_pos: "rep z \<Longrightarrow> 0 < z \<Longrightarrow> z \<le> x \<Longrightarrow> (\<exists>y. f_round x = F_Fin y \<and> z \<le> y) \<or> f_round x = F_Inf False"
proof -
  assume "rep z" "0 < z" "z \<le> x"
  then have "z \<le> rnd x" by (intro rnd_ge)
  with \<open>0 < z\<close> show ?thesis by (auto simp: f_round_def Let_def)
qed

lemma no_nacks:
  assumes "1000 \<le> e"
  shows "f_mul (f_div (f_of_int 0) (f_div (f_div (f_of_int e) (F_Fin 1000)) (F_Fin 1000))) (f_round (3 / 10)) = F_Fin 0"
proof -
  have k: "rep 1000" "rep 1" using rep_ints [of 1000] rep_ints [of 1] by simp_all
  have "rep (1 / 1024)" unfolding rep_def by (rule exI [of _ 1], rule exI [of _ "- 10"]) (simp add: power_int_def power_divide)
  note tiny = f_round_pos [OF this]
  have e: "(1000 :: rat) \<le> of_int e" using assms by linarith
  have "(\<exists>y. f_div (f_of_int e) (F_Fin 1000) = F_Fin y \<and> 1 \<le> y) \<or> f_div (f_of_int e) (F_Fin 1000) = F_Inf False"
  proof (cases "f_round (of_int e) = F_Inf False")
    case False
    with f_round_pos [OF k(1) _ e] obtain y where y: "f_round (of_int e) = F_Fin y" "1000 \<le> y" by auto
    then have "1 \<le> y / 1000" by simp
    from f_round_pos [OF k(2) _ this] y(1) show ?thesis by (auto simp: f_of_int_def)
  qed (simp add: f_of_int_def)
  then have "(\<exists>y. f_div (f_div (f_of_int e) (F_Fin 1000)) (F_Fin 1000) = F_Fin y \<and> 0 < y) \<or>
      f_div (f_div (f_of_int e) (F_Fin 1000)) (F_Fin 1000) = F_Inf False"
  proof
    assume "\<exists>y. f_div (f_of_int e) (F_Fin 1000) = F_Fin y \<and> 1 \<le> y"
    then obtain y where y: "f_div (f_of_int e) (F_Fin 1000) = F_Fin y" "1 \<le> y" by blast
    from tiny [of "y / 1000"] y show ?thesis by (auto simp: field_simps)
  qed simp
  moreover have zero: "f_round 0 = F_Fin 0" by (simp add: f_round_def f32_max_def)
  ultimately have z: "f_div (f_of_int 0) (f_div (f_div (f_of_int e) (F_Fin 1000)) (F_Fin 1000)) = F_Fin 0"
    by (auto simp: f_of_int_def)
  have "rnd (3 / 10) \<le> 1" "0 \<le> rnd (3 / 10)" using rnd_le [OF k(2), of "3 / 10"] rnd_nonneg [of "3 / 10"] by simp_all
  then have "f_round (3 / 10) = F_Fin (rnd (3 / 10))" by (simp add: f_round_def f32_max_def Let_def)
  with z zero show ?thesis by simp
qed

lemma decayed_rate:
  assumes "rep r" "0 \<le> r" "r \<le> f32_max"
  shows "\<exists>q. f_add (f_mul (F_Fin r) (f_round (7 / 10))) (F_Fin 0) = F_Fin q \<and> rep q \<and> 0 \<le> q \<and> q \<le> r"
proof -
  obtain x where x: "f_round (7 / 10) = F_Fin x" "1 / 2 \<le> x" "x \<le> 1" using seven_tenths by blast
  have "r * x \<le> r" using assms(2) x by (simp add: mult_left_le)
  with rnd_le [OF assms(1)] have q: "rnd (r * x) \<le> r" by blast
  moreover have "0 \<le> rnd (r * x)" using assms(2) x by (intro rnd_nonneg) simp
  ultimately have "f_add (f_mul (F_Fin r) (F_Fin x)) (F_Fin 0) = F_Fin (rnd (r * x))"
    using assms(3) rnd_rep [OF rep_rnd] by (simp add: f_round_def Let_def)
  with x(1) q \<open>0 \<le> rnd (r * x)\<close> rep_rnd show ?thesis by metis
qed

lemma quiet_update:
  assumes "quiet m"
  shows "\<exists>n. bm_update m = Some n \<and> quiet n \<and> bm_mCurrentMultipliers n = bm_mCurrentMultipliers m \<and>
    bm_mStreamDropped n = bm_mStreamDropped m \<and> bm_calls n = bm_calls m"
proof -
  obtain t u where u: "bm_nowUs m = (t, u)" by (cases "bm_nowUs m")
  then have u': "u = m\<lparr>bm_clock := bm_clock u\<rparr>" by (auto simp: bm_nowUs_def nowUs_def)
  have qu: "quiet u" using assms by (subst u') (simp add: quiet_def)
  have same: "bm_mCurrentMultipliers u = bm_mCurrentMultipliers m" "bm_mStreamDropped u = bm_mStreamDropped m" "bm_calls u = bm_calls m"
    by (subst u', simp)+
  from qu obtain r where r: "bm_mSmoothedNackRate u = F_Fin r" "rep r" "0 \<le> r" "r \<le> f32_max"
    "\<not> f_geq (F_Fin r) (bc_mNackRateSevere (bm_mConfig u))" "\<not> f_geq (F_Fin r) (bc_mNackRateCongested (bm_mConfig u))"
    "\<not> f_geq (F_Fin r) (bc_mNackRateDegraded (bm_mConfig u))" by (auto simp: quiet_def)
  let ?e = "t - bm_mLastUpdateUs u" and ?iv = "uint (bc_mUpdateIntervalMs (bm_mConfig u)) * 1000"
  show ?thesis
  proof (cases "?e < ?iv")
    case True
    with qu same show ?thesis by (simp add: bm_update_def u Let_def)
  next
    case False
    have "0 < uint (bc_mUpdateIntervalMs (bm_mConfig u))"
      using qu unsigned_greater_eq [where ?'a = int] by (simp add: quiet_def word_less_def)
    with False have "1000 \<le> ?e" by linarith
    note z = no_nacks [OF this]
    from decayed_rate [OF r(2-4)] obtain q where q: "f_add (f_mul (F_Fin r) (f_round (7 / 10))) (F_Fin 0) = F_Fin q"
      "rep q" "0 \<le> q" "q \<le> r" by blast
    let ?v = "u\<lparr>bm_mLastUpdateUs := t, bm_mRecentNackCount := 0, bm_mSmoothedNackRate := F_Fin q\<rparr>"
    have qv: "quiet ?v" using qu q r f_geq_down [OF _ q(4)] by (auto simp: quiet_def)
    have health: "evaluateHealth ?v = HEALTHY"
      using qu f_geq_down [OF r(5) q(4)] f_geq_down [OF r(6) q(4)] f_geq_down [OF r(7) q(4)]
      by (simp add: evaluateHealth_def evaluateNackHealth_def evaluateDelayHealth_def quiet_def)
    have "bm_mRecentNackCount u = 0" "bm_mCurrentHealth u = HEALTHY" using qu by (simp_all add: quiet_def)
    with False q(1) z health r(1) have "bm_update m = Some ?v" by (simp add: bm_update_def u Let_def)
    with qv same show ?thesis by simp
  qed
qed

interpretation quieted: safe_machine "\<lambda>m. quiet m \<and> bm_mCurrentMultipliers m = c \<and> bm_mStreamDropped m = d \<and> bm_calls m = k"
  "\<lambda>_ m. map_option (Pair OK) (bm_update m)" for c d k
proof
  fix m assume m: "quiet m \<and> bm_mCurrentMultipliers m = c \<and> bm_mStreamDropped m = d \<and> bm_calls m = k"
  from quiet_update [of m] m show "\<exists>r n. map_option (Pair OK) (bm_update m) = Some (r, n) \<and>
      (quiet n \<and> bm_mCurrentMultipliers n = c \<and> bm_mStreamDropped n = d \<and> bm_calls n = k)" by auto
qed

lemma run_updates: "run_ops bandwidth_step (replicate n Update) m = run_ops (\<lambda>_ m. map_option (Pair OK) (bm_update m)) (replicate n ()) m"
  by (induction n arbitrary: m) (simp_all split: option.split)

section \<open>Properties\<close>

definition new_manager :: BandwidthManager where
  "new_manager = newBandwidthManager 1500 SINGLE 1000 1000000 defaultBandwidthConfig (\<lambda>_. 0) (\<lambda>n. int (min n 1000) * 100000)"

text \<open>
  C9. Under a valid configuration no sequence of operations of the bandwidth manager within the caller's
  contract (\<open>bandwidth_op_ok\<close>: ranges of streams that are not empty, a jitter other than the least 64-bit
  integer, round trip times and time stamps of at most 2^62 microseconds) is undefined: no signed overflow,
  no clamp between crossed bounds, no division by zero. In every such run the multiplier of each stream
  lies in the stream's range, the callbacks have reported it and whether the stream is dropped, and for a
  stream that is not set by hand it is at most the target of the current health.
\<close>

theorem bandwidth_runs_safely:
  assumes "bandwidth_config_ok cfg" "clock_ok clk" "list_all bandwidth_op_ok ops"
  shows "\<exists>m. run_ops bandwidth_step ops (newBandwidthManager mtu mode ms mx cfg sclk clk) = Some m \<and>
    (\<forall>i. f_within (sc_mMinMultiplier (bm_mStreamConfigs m i)) (bm_mCurrentMultipliers m i) (sc_mMaxMultiplier (bm_mStreamConfigs m i)) \<and>
      reported_multiplier i (bm_calls m) = bm_mCurrentMultipliers m i \<and> reported_drop i (bm_calls m) = bm_mStreamDropped m i) \<and>
    (\<forall>i. automatic m i \<longrightarrow> \<not> f_less (target m (bm_mCurrentHealth m) i) (bm_mCurrentMultipliers m i))"
proof -
  have "managed_inv (newBandwidthManager mtu mode ms mx cfg sclk clk)"
    using bm_inv_new [OF assms(1,2)] ceiling_new by (simp add: managed_inv_def)
  from ceilinged.run_safe [OF this, of ops] run_guarded [OF assms(3)] show ?thesis
    by (auto simp: managed_inv_def bm_inv_def stream_inv_def ceiling_def)
qed


text \<open>
  C35. A stream that was dropped and then gets a manual multiplier stays dropped, whatever the health
  does and whatever is configured, until the manual multiplier is cleared; its payloads are accepted
  with \<open>OK\<close> and not sent.
\<close>

theorem manual_multiplier_keeps_stream_dropped:
  assumes "\<not> automatic m i" "bm_mStreamDropped m i" "ClearManualMultiplier i \<notin> set ops" "run_ops bandwidth_step ops m = Some n"
  shows "bm_mStreamDropped n i \<and> bm_send d ptype pts dts code i flags n = Some (OK, n)"
  using held_drop_run [OF _ assms(3,4)] assms(1,2) by (simp add: held_drop_def bm_send_def)

lemma bind_result: "x \<bind> (\<lambda>m. Some (OK, m)) = map_option (Pair OK) x"
  by (cases x) simp_all

text \<open>
  C33. The answer to an RTT probe brings its time stamp back: the manager's estimate is updated with the
  time between building the probe and processing the answer, when that is positive and below 30 s: it
  moves by an eighth of the difference.
\<close>

theorem rtt_round_trip:
  assumes "clock_ok (bm_clock m)" "buildRttProbe m = (p, u)"
  shows "\<exists>q. buildRttResponse now p = Some q \<and> length q = 20 \<and>
    (let rtt = bm_clock m 1 - bm_clock m 0; v = snd (bm_nowUs u)
     in processRttResponse q u = map_option (Pair OK) (if 0 < rtt \<and> rtt < 30000000 then updateRtt rtt v else Some v) \<and>
       (estimates_ok m \<longrightarrow> 0 < rtt \<longrightarrow> rtt < 30000000 \<longrightarrow> (\<exists>w. updateRtt rtt v = Some w \<and>
         bm_mSmoothedRttUs w = bm_mSmoothedRttUs m + (rtt - bm_mSmoothedRttUs m) sdiv 8)))"
proof -
  obtain x y where xy: "bm_nowUs u = (x, y)" by (cases "bm_nowUs u")
  let ?p = "\<lparr>rp_mFrameType = makeFrameTypeByte TYPE0 0, rp_mSubtype = type0SubtypeValue RTT_PROBE,
      rp_mSequenceNo = bm_mProbeSequenceNo m, rp_mTimestampUs = word_of_int (bm_clock m 0)\<rparr>"
  let ?q = "\<lparr>rr_mFrameType = makeFrameTypeByte TYPE0 0, rr_mSubtype = type0SubtypeValue RTT_RESPONSE,
      rr_mSequenceNo = bm_mProbeSequenceNo m, rr_mTimestampUs = word_of_int (bm_clock m 0), rr_mReceiverTimeUs = word_of_int now\<rparr>"
  have p: "p = enc_rttProbe ?p" and x: "x = bm_clock m 1"
    using assms(2) xy by (auto simp: buildRttProbe_def bm_nowUs_def nowUs_def)
  have t: "0 \<le> bm_clock m 0" "bm_clock m 0 < 2 ^ 62" "0 \<le> bm_clock m 1" "bm_clock m 1 < 2 ^ 62"
    using assms(1) by (simp_all add: clock_ok_def)
  have "sint (word_of_int (bm_clock m 0) :: u64) = signed_take_bit 63 (bm_clock m 0)" by (simp only: signed_of_int) simp
  also have "\<dots> = bm_clock m 0" using t(1,2) by (simp add: signed_take_bit_int_eq_self_iff)
  finally have s: "sint (word_of_int (bm_clock m 0) :: u64) = bm_clock m 0" .
  have sub: "int64 (bm_clock m 1 - bm_clock m 0) = Some (bm_clock m 1 - bm_clock m 0)"
    using t by (simp add: int64_def)
  have r: "buildRttResponse now p = Some (enc_rttResponse ?q)"
    by (simp add: buildRttResponse_def p mem_load_def rttProbe.length_enc rttProbe.dec_enc_id)
  let ?rtt = "bm_clock m 1 - bm_clock m 0"
  have "processRttResponse (enc_rttResponse ?q) u = map_option (Pair OK) (if 0 < ?rtt \<and> ?rtt < 30000000 then updateRtt ?rtt y else Some y)"
    by (simp add: processRttResponse_def mem_load_def rttResponse.length_enc rttResponse.dec_enc_id xy s x sub [unfolded One_nat_def]
        bind_result Let_def)
  moreover have "\<exists>w. updateRtt ?rtt y = Some w \<and> bm_mSmoothedRttUs w = bm_mSmoothedRttUs m + (?rtt - bm_mSmoothedRttUs m) sdiv 8"
    if "estimates_ok m" "0 < ?rtt" "?rtt < 30000000"
  proof -
    have "bm_mSmoothedRttUs y = bm_mSmoothedRttUs m" using assms(2) xy by (auto simp: buildRttProbe_def bm_nowUs_def nowUs_def)
    with updateRtt_average [of y ?rtt] that show ?thesis by (auto simp: estimates_ok_def)
  qed
  ultimately show ?thesis using r by (simp add: xy rttResponse.length_enc Let_def del: diff_gt_0_iff_gt)
qed

text \<open>
  C34. Additive increase stops once the manager is healthy: as long as no NACK arrives and the estimates
  stay below the thresholds, updates change no multiplier and call no callback, however low the
  multipliers still are.
\<close>

theorem healthy_manager_stops_increasing:
  assumes "quiet m"
  shows "\<exists>u. run_ops bandwidth_step (replicate n Update) m = Some u \<and> quiet u \<and>
    bm_mCurrentMultipliers u = bm_mCurrentMultipliers m \<and> bm_calls u = bm_calls m"
  using quieted.run_safe [of m "bm_mCurrentMultipliers m" "bm_mStreamDropped m" "bm_calls m" "replicate n ()"] assms
  by (auto simp: run_updates)

section \<open>Witnesses\<close>

lemma new_manager_ok: "bandwidth_config_ok defaultBandwidthConfig" "clock_ok (bm_clock new_manager)" "managed_inv new_manager"
proof -
  have "\<exists>b. f_round (1 / 10) = F_Fin b \<and> 0 \<le> b"
  proof -
    have "rnd (1 / 10) \<le> 1" "0 \<le> rnd (1 / 10)"
      using rnd_le [OF rep_ints [of 1], of "1 / 10"] rnd_nonneg [of "1 / 10"] by simp_all
    then show ?thesis by (simp add: f_round_def f32_max_def Let_def)
  qed
  then show cfg: "bandwidth_config_ok defaultBandwidthConfig" by (simp add: bandwidth_config_ok_def defaultBandwidthConfig_def)
  have "int (min n 1000) * 100000 < 2 ^ 62" for n
  proof -
    have "int (min n 1000) \<le> 1000" by simp
    then have "int (min n 1000) * 100000 \<le> 1000 * 100000" by (rule mult_right_mono) simp
    also have "\<dots> < 2 ^ 62" by simp
    finally show ?thesis .
  qed
  then show clk: "clock_ok (bm_clock new_manager)"
    unfolding clock_ok_def new_manager_def newBandwidthManager_def by (simp del: of_nat_min)
  show "managed_inv new_manager"
    using bm_inv_new [OF cfg] clk ceiling_new by (simp add: managed_inv_def new_manager_def newBandwidthManager_def)
qed

theorem bandwidth_runs_safely_witness:
  "\<exists>m. run_ops bandwidth_step [SetManualMultiplier 3 (F_Fin 1), Update, BuildRttProbe, ManagedNack [], Update, ClearManualMultiplier 3]
      new_manager = Some m \<and> reported_multiplier 3 (bm_calls m) = bm_mCurrentMultipliers m 3"
  using bandwidth_runs_safely [OF new_manager_ok(1), of "\<lambda>n. int (min n 1000) * 100000"
    "[SetManualMultiplier 3 (F_Fin 1), Update, BuildRttProbe, ManagedNack [], Update, ClearManualMultiplier 3]"
    1500 SINGLE 1000 1000000 "\<lambda>_. 0"] new_manager_ok(2) f32_ok_units(2)
  by (auto simp: new_manager_def [symmetric]) (auto simp: new_manager_def newBandwidthManager_def)

lemma severe_manager:
  obtains m where "handleHealthChange SEVERE new_manager = Some m" "managed_inv m" "bm_mCurrentHealth m = SEVERE"
    "\<And>i. bm_mCurrentMultipliers m i = F_Fin 0" "\<And>i. automatic m i" "quiet (m\<lparr>bm_mCurrentHealth := HEALTHY\<rparr>)"
proof -
  have inv: "bm_inv new_manager" "ceiling new_manager" using new_manager_ok(3) by (simp_all add: managed_inv_def)
  from handleHealthChange_inv [OF inv(1)] obtain m where m: "handleHealthChange SEVERE new_manager = Some m" "bm_inv m" by blast
  note v = handleHealthChange_view [OF m(1)]
  have new: "bm_mCurrentHealth new_manager = HEALTHY" "automatic new_manager i" "getTargetMultiplier i SEVERE new_manager = Some (F_Fin 0)"
    "bm_mCurrentMultipliers new_manager i = F_Fin 1" for i
    by (simp_all add: new_manager_def newBandwidthManager_def automatic_def getTargetMultiplier_def defaultStreamConfig_def f_clamp_def)
  have "bm_mCurrentHealth new_manager < SEVERE" by (simp add: new less_NetworkHealth_def word_less_nat_alt)
  from v(5) [OF this] have "bm_mCurrentMultipliers m i = F_Fin 0" for i
    by (simp add: lowered_def new Let_def stream_view_def split: if_splits)
  moreover have "automatic m i" for i using new(2) v(3) by (simp add: automatic_def)
  moreover have "managed_inv m" using m(2) handleHealthChange_ceiling [OF inv(2,1) m(1)] by (simp add: managed_inv_def)
  moreover have "quiet (m\<lparr>bm_mCurrentHealth := HEALTHY\<rparr>)"
    using v(4,8,9,10) rep_ints [of 0]
    by (simp add: quiet_def new_manager_def newBandwidthManager_def defaultBandwidthConfig_def f_geq_def f_eq_def f32_max_def)
  ultimately show ?thesis using that m(1) v(1) by blast
qed


theorem manual_multiplier_keeps_stream_dropped_witness:
  "let m = new_manager\<lparr>bm_mStreamDropped := (\<lambda>_. True), bm_mManualMultiplier := (\<lambda>_. F_Fin 1)\<rparr> in
   \<exists>n. run_ops bandwidth_step [UpdateRtt 100, UpdateJitter 5] m = Some n \<and> bm_send [1, 2] 0 0 0 0 3 0 n = Some (OK, n)"
proof -
  let ?m = "new_manager\<lparr>bm_mStreamDropped := (\<lambda>_. True), bm_mManualMultiplier := (\<lambda>_. F_Fin 1)\<rparr>"
  obtain n where n: "run_ops bandwidth_step [UpdateRtt 100, UpdateJitter 5] ?m = Some n"
    by (simp add: updateRtt_def bm_updateJitter_def int64_def new_manager_def newBandwidthManager_def Let_def signed_divide_int_def)
  have "\<not> automatic ?m 3" "bm_mStreamDropped ?m 3" "ClearManualMultiplier 3 \<notin> set [UpdateRtt 100, UpdateJitter 5]"
    by (simp_all add: automatic_def)
  from manual_multiplier_keeps_stream_dropped [OF this n] n show ?thesis by (auto simp: Let_def)
qed

theorem rtt_round_trip_witness:
  "\<exists>p u q v. buildRttProbe new_manager = (p, u) \<and> buildRttResponse 77 p = Some q \<and>
     processRttResponse q u = Some (OK, v) \<and> bm_mSmoothedRttUs v = 12500"
proof -
  obtain p u where pu: "buildRttProbe new_manager = (p, u)" by (cases "buildRttProbe new_manager")
  have n: "bm_clock new_manager 0 = 0" "bm_clock new_manager (Suc 0) = 100000" "estimates_ok new_manager" "bm_mSmoothedRttUs new_manager = 0"
    by (simp_all add: new_manager_def newBandwidthManager_def estimates_ok_def)
  from rtt_round_trip [OF new_manager_ok(2) pu, of 77] obtain q where q: "buildRttResponse 77 p = Some q"
    "processRttResponse q u = map_option (Pair OK) (updateRtt 100000 (snd (bm_nowUs u)))"
    "\<exists>w. updateRtt 100000 (snd (bm_nowUs u)) = Some w \<and> bm_mSmoothedRttUs w = 100000 sdiv 8" by (auto simp: Let_def n)
  have "100000 sdiv 8 = (12500 :: int)" by (simp add: signed_divide_int_def)
  with q pu show ?thesis by auto
qed

theorem healthy_manager_stops_increasing_witness:
  "\<exists>m n u. handleHealthChange SEVERE new_manager = Some m \<and> handleHealthChange HEALTHY m = Some n \<and>
     run_ops bandwidth_step (replicate 1000 Update) n = Some u \<and> bm_mCurrentMultipliers u 7 = f_round (1 / 10)"
proof -
  obtain m where m: "handleHealthChange SEVERE new_manager = Some m" "managed_inv m" "bm_mCurrentHealth m = SEVERE"
    "\<And>i. bm_mCurrentMultipliers m i = F_Fin 0" "\<And>i. automatic m i" "quiet (m\<lparr>bm_mCurrentHealth := HEALTHY\<rparr>)"
    using severe_manager by blast
  from m(2) handleHealthChange_inv [of m HEALTHY] obtain n where n: "handleHealthChange HEALTHY m = Some n" by (auto simp: managed_inv_def)
  note v = handleHealthChange_view [OF n] and u = handleHealthChange_view [OF m(1)]
  have less: "HEALTHY < bm_mCurrentHealth m" by (simp add: m(3) less_NetworkHealth_def word_less_nat_alt)
  have q: "quiet n" using m(6) v(1,4,8,9,10) by (simp add: quiet_def)
  have "rnd (1 / 10) \<le> 1" "0 \<le> rnd (1 / 10)"
    using rnd_le [OF rep_ints [of 1], of "1 / 10"] rnd_nonneg [of "1 / 10"] by simp_all
  with rnd_rep [OF rep_rnd, of "1 / 10"] obtain y where y: "f_round (1 / 10) = F_Fin y" "f_round y = F_Fin y" "0 \<le> y" "y \<le> 1"
    by (simp add: f_round_def f32_max_def Let_def)
  have t: "getTargetMultiplier i HEALTHY m = Some (F_Fin 1)" "bm_mStreamConfigs m i = defaultStreamConfig"
    "bc_mAdditiveIncrease (bm_mConfig m) = f_round (1 / 10)" for i
    using u(2,4) by (simp_all add: getTargetMultiplier_def new_manager_def newBandwidthManager_def defaultStreamConfig_def
        f_clamp_def defaultBandwidthConfig_def)
  have "raised HEALTHY m 7 = (f_round (1 / 10), False)"
    using y(2-4) by (auto simp: raised_def m(4,5) t y(1) Let_def f_min_def f_clamp_def defaultStreamConfig_def f_eq_def)
  then have "bm_mCurrentMultipliers n 7 = f_round (1 / 10)" using v(6) [OF less, of 7] by (simp add: stream_view_def)
  with healthy_manager_stops_increasing [OF q, of 1000] m(1) n show ?thesis by metis
qed

section \<open>Where the manager falls short\<close>

text \<open>
  The smoothed round trip time starts at zero, and the baseline is taken after its first step: an eighth
  of the first sample. Under a constant round trip time of 80 ms no sample is ever counted as stable,
  so the recovery by probing never starts.
\<close>

theorem constant_rtt_is_never_stable:
  "\<exists>m. run_ops bandwidth_step (replicate n (UpdateRtt 80000)) new_manager = Some m \<and> bm_mStableRttSamples m = 0"
proof (cases n)
  case 0
  then show ?thesis by (simp add: new_manager_def newBandwidthManager_def)
next
  case (Suc k)
  let ?P = "\<lambda>m. bm_mBaselineRttUs m = 10000 \<and> 10000 \<le> bm_mSmoothedRttUs m \<and> bm_mSmoothedRttUs m \<le> 80000 \<and> bm_mStableRttSamples m = 0"
  have run: "\<exists>u. run_ops bandwidth_step (replicate k (UpdateRtt 80000)) m = Some u \<and> ?P u" if "?P m" for m
    using that
  proof (induction k arbitrary: m)
    case (Suc k)
    then obtain u where "updateRtt 80000 m = Some u" "?P u" using constant_rtt [of m] by auto
    with Suc.IH [of u] show ?case by simp
  qed simp
  obtain m where "updateRtt 80000 new_manager = Some m" "?P m"
    by (simp add: updateRtt_def new_manager_def newBandwidthManager_def signed_divide_int_def int64_def)
  with run [of m] Suc show ?thesis by auto
qed

text \<open>
  Inputs with undefined behaviour: a stream configuration whose bounds are crossed, a probe interval of
  zero, a time stamp from the network far in the past, a jitter whose negation overflows, and a round trip
  time too far below the estimate.
\<close>

theorem unchecked_inputs_are_undefined:
  "setStreamConfig i (defaultStreamConfig\<lparr>sc_mMinMultiplier := F_Fin 1, sc_mMaxMultiplier := F_Fin 0\<rparr>) new_manager = None \<and>
   processProbing 2000000 (new_manager\<lparr>bm_mConfig := defaultBandwidthConfig\<lparr>bc_mProbeIntervalMs := 0\<rparr>\<rparr>) = None \<and>
   processRttResponse (enc_rttResponse \<lparr>rr_mFrameType = makeFrameTypeByte TYPE0 0, rr_mSubtype = 3, rr_mSequenceNo = 0,
      rr_mTimestampUs = 0x8000000000000000, rr_mReceiverTimeUs = 0\<rparr>) new_manager = None \<and>
   bm_updateJitter (- (2 ^ 63)) new_manager = None \<and>
   run_ops bandwidth_step [UpdateRtt 8, UpdateRtt (- (2 ^ 63))] new_manager = None"
  by (simp add: setStreamConfig_def updateStreamMultiplier_def getTargetMultiplier_def defaultStreamConfig_def f_clamp_def
      processProbing_def udiv32_def defaultBandwidthConfig_def new_manager_def newBandwidthManager_def f_geq_def f_eq_def
      processRttResponse_def mem_load_def rttResponse.length_enc rttResponse.dec_enc_id bm_nowUs_def nowUs_def int64_def
      bm_updateJitter_def updateRtt_def Let_def signed_divide_int_def)

end
