(* ===== verification/Efp_CEmbedded.thy ===== *)
theory Efp_CEmbedded
  imports Efp_Delivery
begin

text \<open>
  Embedded data (\<^verbatim>\<open>efp_c_api.cpp\<close>): sections of typed data in front of a payload, how they are
  added and extracted, and the wrapper that hands a frame to the C callbacks and takes its sections
  apart. A function pointer is a number, a null pointer \<open>None\<close>; a call is a value of \<open>CCall\<close>. The
  data of a call are the cells the pointer and the size describe: a range outside of the frame's
  buffer is undefined (\<open>None\<close>).
\<close>

section \<open>Calls and constants\<close>

type_synonym fnptr = "nat option"

datatype CCall =
    SendCall nat bytes u8 nat
  | EmbeddedCall nat "cell list" u8 u64 nat
  | FrameCall nat "cell list" u8 u8 u64 u64 u32 u8 u8 u8 nat

definition EFP_OK :: int where "EFP_OK = 0"
definition EFP_INVALID_PARAMETER :: int where "EFP_INVALID_PARAMETER = - 4"
definition EFP_BUFFER_OUT_OF_BOUNDS :: int where "EFP_BUFFER_OUT_OF_BOUNDS = - 9"
definition EFP_EMBEDDED_LAST :: u8 where "EFP_EMBEDDED_LAST = 0x80"

record efp_receiver_s =
  cr_mpReceiver :: "Receiver option"
  cr_mCallback :: fnptr
  cr_mEmbeddedCallback :: fnptr
  cr_mNackCallback :: fnptr
  cr_mpCtx :: nat

section \<open>The wrapper of the receive callback\<close>

definition frame_byte :: "SuperFrame \<Rightarrow> nat \<Rightarrow> u8 option" where
  "frame_byte f off = do { m \<leftarrow> sf_mpData f; c \<leftarrow> mem_load 1 m off; hd c }"

definition frame_range :: "SuperFrame \<Rightarrow> nat \<Rightarrow> nat \<Rightarrow> cell list option" where
  "frame_range f off n = (case sf_mpData f of
       None \<Rightarrow> (if off = 0 \<and> n = 0 then Some [] else None)
     | Some m \<Rightarrow> mem_load n m off)"

text \<open>The two size bytes of a section.\<close>

definition section_size :: "u8 \<Rightarrow> u8 \<Rightarrow> nat" where
  "section_size b1 b2 = unat (ucast b1 OR push_bit 8 (ucast b2) :: u16)"

text \<open>The loop over the sections; its result is \<open>lPayloadOffset\<close> and the calls made.\<close>

function embedded_loop :: "nat \<Rightarrow> nat \<Rightarrow> SuperFrame \<Rightarrow> nat \<Rightarrow> CCall list \<Rightarrow> (nat \<times> CCall list) option" where
  "embedded_loop cb ctx f lOffset calls =
     (if \<not> lOffset + 3 \<le> sf_mSize f then Some (0, calls)
      else do {
        lType \<leftarrow> frame_byte f lOffset;
        if lType = 0 then Some (0, calls)
        else do {
          b1 \<leftarrow> frame_byte f (lOffset + 1);
          b2 \<leftarrow> frame_byte f (lOffset + 2);
          calls \<leftarrow> (if lOffset + 3 + section_size b1 b2 \<le> sf_mSize f
            then do {
              d \<leftarrow> frame_range f (lOffset + 3) (section_size b1 b2);
              Some (calls @ [EmbeddedCall cb d (lType AND 0x7F) (sf_mPts f) ctx])
            }
            else Some calls);
          if lType AND 0x80 \<noteq> 0 then Some (lOffset + (3 + section_size b1 b2), calls)
          else embedded_loop cb ctx f (lOffset + (3 + section_size b1 b2)) calls
        }
      })"
  by pat_completeness auto
termination
  by (relation "measure (\<lambda>(cb, ctx, f, off, calls). sf_mSize f - off)") auto

declare embedded_loop.simps [simp del]

definition receiveCallbackWrapper :: "efp_receiver_s \<Rightarrow> SuperFrame \<Rightarrow> CCall list option" where
  "receiveCallbackWrapper rx f = (case cr_mCallback rx of
       None \<Rightarrow> Some []
     | Some cb \<Rightarrow> do {
         (lPayloadOffset, calls) \<leftarrow> (case cr_mEmbeddedCallback rx of
             Some ecb \<Rightarrow>
               (if sf_mFlags f AND FLAG_INLINE_PAYLOAD \<noteq> 0 \<and> \<not> sf_mBroken f
                then embedded_loop ecb (cr_mpCtx rx) f 0 [] else Some (0, []))
           | None \<Rightarrow> Some (0, []));
         d \<leftarrow> frame_range f lPayloadOffset (size_sub (sf_mSize f) lPayloadOffset);
         Some (calls @ [FrameCall cb d (sf_mPayloadType f) (if sf_mBroken f then 1 else 0) (sf_mPts f) (sf_mDts f)
           (sf_mPayloadCode f) (sf_mStreamId f) (sf_mSourceId f) (sf_mFlags f) (cr_mpCtx rx)])
       })"

definition nackCallbackWrapper :: "efp_receiver_s \<Rightarrow> bytes \<Rightarrow> CCall list" where
  "nackCallbackWrapper rx aData = (case cr_mNackCallback rx of
       None \<Rightarrow> []
     | Some cb \<Rightarrow> [SendCall cb aData 0 (cr_mpCtx rx)])"

section \<open>Adding and extracting\<close>

definition efp_embedded_calc_size :: "nat \<Rightarrow> nat \<Rightarrow> nat" where
  "efp_embedded_calc_size aEmbeddedSize aPayloadSize = size_add (size_add 3 aEmbeddedSize) aPayloadSize"

text \<open>\<open>memcpy\<close> from a pointer that may be null.\<close>

definition copy_in :: "bytes \<Rightarrow> nat \<Rightarrow> bytes option \<Rightarrow> nat \<Rightarrow> bytes option" where
  "copy_in dst off src n = (case src of
       None \<Rightarrow> Some dst
     | Some p \<Rightarrow> if n > 0 then do { d \<leftarrow> mem_load n p 0; mem_write dst off d } else Some dst)"

definition efp_add_embedded_data :: "bytes option \<Rightarrow> bytes option \<Rightarrow> bytes option \<Rightarrow> nat \<Rightarrow> nat \<Rightarrow> u8 \<Rightarrow> u8 \<Rightarrow>
    (nat \<times> bytes option) option" where
  "efp_add_embedded_data apDst apEmbeddedData apPayloadData aEmbeddedSize aPayloadSize aType aIsLast =
     (let lTotalSize = efp_embedded_calc_size aEmbeddedSize aPayloadSize
      in case apDst of
           None \<Rightarrow> Some (lTotalSize, None)
         | Some dst \<Rightarrow> do {
             let lTypeByte = (if aIsLast \<noteq> 0 then aType OR EFP_EMBEDDED_LAST else aType);
             dst \<leftarrow> mem_write dst 0 [lTypeByte];
             dst \<leftarrow> mem_write dst 1 [word_of_nat aEmbeddedSize];
             dst \<leftarrow> mem_write dst 2 [word_of_nat (aEmbeddedSize div 256)];
             dst \<leftarrow> copy_in dst 3 apEmbeddedData aEmbeddedSize;
             dst \<leftarrow> copy_in dst (3 + aEmbeddedSize) apPayloadData aPayloadSize;
             Some (0, Some dst)
           })"

text \<open>The output parameters: a buffer, which may be null, and three values; \<open>None\<close> is not written.\<close>

record Extracted =
  ex_apEmbeddedOut :: "bytes option"
  ex_apEmbeddedSizeOut :: "nat option"
  ex_apTypeOut :: "u8 option"
  ex_apPayloadOffsetOut :: "nat option"

definition efp_extract_embedded_data :: "bytes option \<Rightarrow> nat \<Rightarrow> bytes option \<Rightarrow> bool \<Rightarrow> bool \<Rightarrow> bool \<Rightarrow>
    (int \<times> Extracted) option" where
  "efp_extract_embedded_data apFrameData aFrameSize apEmbeddedOut haveSize haveType haveOffset =
     (let nothing = \<lparr>ex_apEmbeddedOut = apEmbeddedOut, ex_apEmbeddedSizeOut = None, ex_apTypeOut = None,
            ex_apPayloadOffsetOut = None\<rparr>
      in case apFrameData of
           None \<Rightarrow> Some (EFP_INVALID_PARAMETER, nothing)
         | Some d \<Rightarrow>
             if aFrameSize < 3 then Some (EFP_INVALID_PARAMETER, nothing)
             else do {
               h \<leftarrow> mem_load 3 d 0;
               let lType = h ! 0;
               if lType = 0 then Some (EFP_OK, nothing
                 \<lparr>ex_apPayloadOffsetOut := (if haveOffset then Some 0 else None),
                  ex_apEmbeddedSizeOut := (if haveSize then Some 0 else None)\<rparr>)
               else
                 let lEmbSize = section_size (h ! 1) (h ! 2)
                 in if 3 + lEmbSize > aFrameSize then Some (EFP_BUFFER_OUT_OF_BOUNDS, nothing)
                    else do {
                      emb \<leftarrow> (case apEmbeddedOut of
                          None \<Rightarrow> Some None
                        | Some out \<Rightarrow> if lEmbSize > 0
                            then do { e \<leftarrow> mem_load lEmbSize d 3; out \<leftarrow> mem_write out 0 e; Some (Some out) }
                            else Some (Some out));
                      Some (EFP_OK, \<lparr>ex_apEmbeddedOut = emb, ex_apEmbeddedSizeOut = (if haveSize then Some lEmbSize else None),
                        ex_apTypeOut = (if haveType then Some (lType AND 0x7F) else None),
                        ex_apPayloadOffsetOut = (if haveOffset then Some (3 + lEmbSize) else None)\<rparr>)
                    }
             })"

section \<open>Sections as bytes\<close>

text \<open>What the sections of a frame look like, with the payload behind them.\<close>

definition section_header :: "u8 \<Rightarrow> nat \<Rightarrow> bytes" where
  "section_header t n = [t, word_of_nat n, word_of_nat (n div 256)]"

fun embed :: "(u8 \<times> bytes) list \<Rightarrow> bytes \<Rightarrow> bytes" where
  "embed [] p = p"
| "embed ((t, d) # ss) p = section_header (if ss = [] then t OR EFP_EMBEDDED_LAST else t) (length d) @ d @ embed ss p"

definition section_ok :: "u8 \<times> bytes \<Rightarrow> bool" where
  "section_ok s \<longleftrightarrow> fst s \<noteq> 0 \<and> fst s AND 0x80 = 0 \<and> length (snd s) < 65536"

lemma two_bytes: "ucast (word_of_nat n :: u8) OR push_bit 8 (ucast (word_of_nat (n div 256) :: u8)) = (word_of_nat n :: u16)"
proof -
  have "n div 256 = drop_bit 8 n" by (simp add: drop_bit_eq_div)
  then show ?thesis by (auto intro!: bit_word_eqI simp: bit_simps)
qed

lemma section_size_bytes: "section_size (word_of_nat n) (word_of_nat (n div 256)) = n mod 65536"
  unfolding section_size_def two_bytes by (simp add: unat_of_nat take_bit_eq_mod)

lemma type_byte:
  assumes "t AND 0x80 = (0 :: u8)"
  shows "(t OR 0x80) AND 0x7F = t" "t AND 0x7F = t" "(t OR 0x80) AND 0x80 \<noteq> 0" "t OR 0x80 \<noteq> 0"
proof -
  have "(0x80 OR 0x7F :: u8) = - 1" by simp
  then have "t = t AND (0x80 OR 0x7F)" by (simp only: bit.conj_one_right)
  also have "\<dots> = (t AND 0x80) OR (t AND 0x7F)" by (simp only: bit.conj_disj_distrib)
  finally show t: "t AND 0x7F = t" using assms by simp
  then show "(t OR 0x80) AND 0x7F = t" by (simp add: bit.conj_disj_distrib2)
  show "(t OR 0x80) AND 0x80 \<noteq> 0" using assms by (simp add: bit.conj_disj_distrib2)
  then show "t OR 0x80 \<noteq> 0" by (metis bit.conj_zero_left)
qed

lemma length_section_header [simp]: "length (section_header t n) = 3"
  by (simp add: section_header_def)

section \<open>The loop takes the sections apart\<close>

text \<open>A frame whose first \<open>mSize\<close> cells are initialised.\<close>

lemma contents_read:
  assumes "sf_contents f = Some xs"
  shows "length xs = sf_mSize f" "off < length xs \<Longrightarrow> frame_byte f off = Some (xs ! off)"
    "off + n \<le> length xs \<Longrightarrow> frame_range f off n = Some (map Some (take n (drop off xs)))"
proof -
  from assms obtain m cs where m: "sf_mpData f = Some m" "mem_load (sf_mSize f) m 0 = Some cs" "None \<notin> set cs" "xs = map the cs"
    by (auto simp: sf_contents_def split: bind_splits if_splits)
  from m(2) have cs: "cs = take (sf_mSize f) m" "sf_mSize f \<le> length m" by (auto simp: mem_load_def split: if_splits)
  then show len: "length xs = sf_mSize f" by (simp add: m(4))
  have "map (\<lambda>c. Some (the c)) cs = cs" using m(3) by (intro map_idI) (metis option.collapse)
  then have "cs = map Some xs" by (simp add: m(4) comp_def)
  then have xs: "take (sf_mSize f) m = map Some xs" using cs(1) by simp
  then have region: "take n (drop off m) = map Some (take n (drop off xs))" if "off + n \<le> length xs" for off n
  proof -
    have "take n (drop off m) = take n (drop off (take (sf_mSize f) m))" using that len by (simp add: drop_take min_def)
    then show ?thesis by (simp add: xs take_map drop_map)
  qed
  show "frame_range f off n = Some (map Some (take n (drop off xs)))" if "off + n \<le> length xs"
    using that len cs(2) region [OF that] by (simp add: frame_range_def m(1) mem_load_def)
  show "frame_byte f off = Some (xs ! off)" if "off < length xs"
  proof -
    have "take 1 (drop off m) = [Some (xs ! off)]" using region [of off 1] that by (simp add: take_Suc_conv_app_nth hd_drop_conv_nth take_Suc)
    then show ?thesis using that len cs(2) by (simp add: frame_byte_def m(1) mem_load_def)
  qed
qed

lemma nth_header: "(xs @ section_header t n @ ys) ! length xs = t"
  "(xs @ section_header t n @ ys) ! Suc (length xs) = word_of_nat n"
  "(xs @ section_header t n @ ys) ! Suc (Suc (length xs)) = word_of_nat (n div 256)"
  by (simp_all add: section_header_def nth_append)

lemma embedded_loop_sections:
  assumes "sf_contents f = Some (pre @ embed ss p)" "ss \<noteq> []" "list_all section_ok ss"
  shows "embedded_loop cb ctx f (length pre) calls =
    Some (length pre + (length (embed ss p) - length p),
      calls @ map (\<lambda>(t, d). EmbeddedCall cb (map Some d) t (sf_mPts f) ctx) ss)"
  using assms
proof (induction ss arbitrary: pre calls)
  case (Cons s ss)
  obtain t d where s: "s = (t, d)" by (cases s)
  have t: "t \<noteq> 0" "t AND 0x80 = 0" and d: "length d < 65536" using Cons.prems(3) by (simp_all add: s section_ok_def)
  let ?b = "if ss = [] then t OR EFP_EMBEDDED_LAST else t" and ?n = "length pre"
  let ?xs = "pre @ embed (s # ss) p"
  have xs: "?xs = pre @ section_header ?b (length d) @ d @ embed ss p" by (simp add: s)
  note R = contents_read [OF Cons.prems(1)]
  have size: "sf_mSize f = ?n + 3 + length d + length (embed ss p)" using R(1) by (simp add: s)
  have b: "frame_byte f ?n = Some ?b" "frame_byte f (?n + 1) = Some (word_of_nat (length d))"
    "frame_byte f (?n + 2) = Some (word_of_nat (length d div 256))"
    using R(2) [of ?n] R(2) [of "?n + 1"] R(2) [of "?n + 2"] unfolding xs by (simp_all add: nth_header)
  have sz: "section_size (word_of_nat (length d)) (word_of_nat (length d div 256)) = length d"
    using d by (simp add: section_size_bytes)
  have r: "frame_range f (?n + 3) (length d) = Some (map Some d)"
    using R(3) [of "?n + 3" "length d"] unfolding xs by simp
  have b0: "?b \<noteq> 0" "?b AND 0x7F = t" "?b AND 0x80 \<noteq> 0 \<longleftrightarrow> ss = []"
    using t type_byte [OF t(2)] by (simp_all add: EFP_EMBEDDED_LAST_def)
  let ?calls = "calls @ [EmbeddedCall cb (map Some d) t (sf_mPts f) ctx]"
  have step: "embedded_loop cb ctx f ?n calls =
      (if ss = [] then Some (?n + (3 + length d), ?calls) else embedded_loop cb ctx f (?n + (3 + length d)) ?calls)"
    using size b b0 by (subst embedded_loop.simps) (simp add: sz r)
  show ?case
  proof (cases "ss = []")
    case True
    then show ?thesis unfolding step by (simp add: s)
  next
    case False
    let ?pre = "pre @ section_header ?b (length d) @ d"
    have "sf_contents f = Some (?pre @ embed ss p)" using Cons.prems(1) by (simp add: s)
    moreover have "length ?pre = ?n + (3 + length d)" by simp
    moreover have "length p \<le> length (embed ss p)" by (induction ss) auto
    ultimately show ?thesis using Cons.IH [of ?pre ?calls] Cons.prems(3) False unfolding step by (simp add: s)
  qed
qed simp

text \<open>\<open>efp_add_embedded_data\<close> puts one section in front of a payload.\<close>

lemma copy_in_at:
  "length src = n \<Longrightarrow> length pre = off \<Longrightarrow> n \<le> length post \<Longrightarrow>
     copy_in (pre @ post) off (Some src) n = Some (pre @ src @ drop n post)"
  by (auto simp: copy_in_def mem_load_def mem_write_def)

lemma add_embedded_bytes:
  assumes "length dst = 3 + length e + length p"
  shows "efp_add_embedded_data (Some dst) (Some e) (Some p) (length e) (length p) t l =
    Some (0, Some (section_header (if l \<noteq> 0 then t OR EFP_EMBEDDED_LAST else t) (length e) @ e @ p))"
proof -
  obtain a b c d where dst: "dst = a # b # c # d" "length d = length e + length p"
    using assms by (cases dst; cases "tl dst"; cases "tl (tl dst)") auto
  let ?h = "section_header (if l \<noteq> 0 then t OR EFP_EMBEDDED_LAST else t) (length e)"
  have "copy_in (?h @ d) 3 (Some e) (length e) = Some (?h @ e @ drop (length e) d)"
    using dst(2) by (intro copy_in_at) simp_all
  moreover have "copy_in ((?h @ e) @ drop (length e) d) (3 + length e) (Some p) (length p) = Some ((?h @ e) @ p @ [])"
    using dst(2) copy_in_at [of p "length p" "?h @ e" "3 + length e" "drop (length e) d"] by simp
  ultimately show ?thesis
    by (simp add: efp_add_embedded_data_def dst(1) mem_write_def section_header_def Let_def)
qed

lemma extract_section:
  assumes "t \<noteq> 0" "3 + length e mod 65536 \<le> n" "n = length (section_header t (length e) @ e @ p)"
  shows "efp_extract_embedded_data (Some (section_header t (length e) @ e @ p)) n None True True True =
    Some (EFP_OK, \<lparr>ex_apEmbeddedOut = None, ex_apEmbeddedSizeOut = Some (length e mod 65536), ex_apTypeOut = Some (t AND 0x7F),
      ex_apPayloadOffsetOut = Some (3 + length e mod 65536)\<rparr>)"
  using assms by (simp add: efp_extract_embedded_data_def mem_load_def section_header_def section_size_bytes Let_def)

end
