(* ===== verification/Efp_CApi.thy ===== *)
theory Efp_CApi
  imports Efp_CEmbedded Efp_ReceiverMachine Efp_SenderMachine
begin

text \<open>
  The C interface (\<^verbatim>\<open>efp_c_api.cpp\<close>): sender and receiver objects on the heap, reached by pointers or,
  in the legacy interface, by handles. An object is an entry of a partial map from addresses; using or
  deleting an address without an object is undefined (\<open>None\<close>). Addresses are not reused, so a dangling
  pointer never becomes valid again. What the environment decides is a parameter of the state: whether
  the allocations of the object with a given address succeed, its clock, and its frame allocator.
  Every call of a C callback is appended to \<open>l_calls\<close>.
\<close>

section \<open>State\<close>

record SendCallbackWrapper =
  sw_mpCallback :: fnptr
  sw_mpCtx :: nat

record efp_sender_s =
  cs_mpSender :: "Sender option"
  cs_wrapper :: SendCallbackWrapper
  cs_mCallback :: fnptr
  cs_mpCtx :: nat
  cs_mMtu :: u16

record CLib =
  l_senders :: "nat \<rightharpoonup> efp_sender_s"
  l_receivers :: "nat \<rightharpoonup> efp_receiver_s"
  l_next :: nat
  l_gSenderHandles :: "(u64 \<times> nat) list"
  l_gReceiverHandles :: "(u64 \<times> nat) list"
  l_gNextHandle :: u64
  l_new :: "nat \<Rightarrow> bool"
  l_clock :: "nat \<Rightarrow> clock"
  l_alloc :: "nat \<Rightarrow> nat \<Rightarrow> bool"
  l_calls :: "CCall list"

definition newCLib :: "(nat \<Rightarrow> bool) \<Rightarrow> (nat \<Rightarrow> clock) \<Rightarrow> (nat \<Rightarrow> nat \<Rightarrow> bool) \<Rightarrow> CLib" where
  "newCLib nw clk al = \<lparr>l_senders = Map.empty, l_receivers = Map.empty, l_next = 1, l_gSenderHandles = [],
     l_gReceiverHandles = [], l_gNextHandle = 1, l_new = nw, l_clock = clk, l_alloc = al, l_calls = []\<rparr>"

definition sendCallbackWrapper :: "SendCallbackWrapper \<Rightarrow> bytes \<times> u8 \<Rightarrow> CCall list" where
  "sendCallbackWrapper w p = (case sw_mpCallback w of
       None \<Rightarrow> []
     | Some cb \<Rightarrow> [SendCall cb (fst p) (snd p) (sw_mpCtx w)])"

definition efp_version :: u16 where "efp_version = VERSION"

section \<open>Senders\<close>

text \<open>The constructor with its defaults: no bundles, no retention.\<close>

definition makeCSender :: "u16 \<Rightarrow> clock \<Rightarrow> Sender" where
  "makeCSender aMtu clk = newSender aMtu SINGLE 0 (50 * 1024 * 1024) clk"

definition efp_sender_create_with_callback :: "u16 \<Rightarrow> fnptr \<Rightarrow> nat \<Rightarrow> CLib \<Rightarrow> nat option \<times> CLib" where
  "efp_sender_create_with_callback aMtu aCallback apCtx L =
     (let a = l_next L; L = L\<lparr>l_next := Suc a\<rparr>
      in if l_new L a
         then (Some a, L\<lparr>l_senders := (l_senders L)(a \<mapsto> \<lparr>cs_mpSender = Some (makeCSender aMtu (l_clock L a)),
             cs_wrapper = \<lparr>sw_mpCallback = aCallback, sw_mpCtx = apCtx\<rparr>, cs_mCallback = aCallback,
             cs_mpCtx = apCtx, cs_mMtu = aMtu\<rparr>)\<rparr>)
         else (None, L))"

definition efp_sender_create :: "u16 \<Rightarrow> CLib \<Rightarrow> nat option \<times> CLib" where
  "efp_sender_create aMtu L = efp_sender_create_with_callback aMtu None 0 L"

definition efp_sender_destroy :: "nat option \<Rightarrow> CLib \<Rightarrow> CLib option" where
  "efp_sender_destroy apSender L = (case apSender of
       None \<Rightarrow> Some L
     | Some a \<Rightarrow> do { x \<leftarrow> l_senders L a; Some (L\<lparr>l_senders := (l_senders L)(a := None)\<rparr>) })"

text \<open>The sender is created anew, since its callback is fixed at construction.\<close>

definition efp_sender_set_callback :: "nat option \<Rightarrow> fnptr \<Rightarrow> nat \<Rightarrow> CLib \<Rightarrow> CLib option" where
  "efp_sender_set_callback apSender aCallback apCtx L = (case apSender of
       None \<Rightarrow> Some L
     | Some a \<Rightarrow> do {
         x \<leftarrow> l_senders L a;
         let x = x\<lparr>cs_mCallback := aCallback, cs_mpCtx := apCtx,
                   cs_mpSender := Some (makeCSender (cs_mMtu x) (l_clock L a)),
                   cs_wrapper := \<lparr>sw_mpCallback = aCallback, sw_mpCtx = apCtx\<rparr>\<rparr>;
         Some (L\<lparr>l_senders := (l_senders L)(a \<mapsto> x)\<rparr>)
       })"

definition efp_sender_send :: "nat option \<Rightarrow> bytes \<Rightarrow> u8 \<Rightarrow> u64 \<Rightarrow> u64 \<Rightarrow> u32 \<Rightarrow> u8 \<Rightarrow> u8 \<Rightarrow> CLib \<Rightarrow> (int \<times> CLib) option" where
  "efp_sender_send apSender apData aPayloadType aPts aDts aPayloadCode aStreamId aFlags L = (case apSender of
       None \<Rightarrow> Some (EFP_INVALID_PARAMETER, L)
     | Some a \<Rightarrow> do {
         x \<leftarrow> l_senders L a;
         case cs_mpSender x of
           None \<Rightarrow> Some (EFP_INVALID_PARAMETER, L)
         | Some s \<Rightarrow> do {
             (lResult, t) \<leftarrow> send apData aPayloadType aPts aDts aPayloadCode aStreamId aFlags s;
             Some (resultCode lResult, L\<lparr>l_senders := (l_senders L)(a \<mapsto> x\<lparr>cs_mpSender := Some t\<rparr>),
               l_calls := l_calls L @ concat (map (sendCallbackWrapper (cs_wrapper x)) (drop (length (s_out s)) (s_out t)))\<rparr>)
           }
       })"

text \<open>Its body discards both arguments.\<close>

definition efp_sender_set_superframe_no :: "nat option \<Rightarrow> u16 \<Rightarrow> CLib \<Rightarrow> CLib" where
  "efp_sender_set_superframe_no apSender aSuperframeNo L = L"

section \<open>Receivers\<close>

definition efp_receiver_create_with_callback :: "u32 \<Rightarrow> u32 \<Rightarrow> u32 \<Rightarrow> fnptr \<Rightarrow> nat \<Rightarrow> CLib \<Rightarrow> nat option \<times> CLib" where
  "efp_receiver_create_with_callback aTimeoutMs aHolTimeoutMs aMode aCallback apCtx L =
     (let a = l_next L; L = L\<lparr>l_next := Suc a\<rparr>;
          lRecvMode = (if aMode = 2 then RUN_TO_COMPLETION else THREADED)
      in if \<not> l_new L a then (None, L)
         else case newReceiver DEFAULT_BUFFER_SIZE aTimeoutMs aHolTimeoutMs 3 0 lRecvMode (l_clock L a) (l_alloc L a) of
           Inl _ \<Rightarrow> (None, L)
         | Inr r \<Rightarrow> (Some a, L\<lparr>l_receivers := (l_receivers L)(a \<mapsto> \<lparr>cr_mpReceiver = Some r, cr_mCallback = aCallback,
             cr_mEmbeddedCallback = None, cr_mNackCallback = None, cr_mpCtx = apCtx\<rparr>)\<rparr>))"

definition efp_receiver_create :: "u32 \<Rightarrow> u32 \<Rightarrow> u32 \<Rightarrow> CLib \<Rightarrow> nat option \<times> CLib" where
  "efp_receiver_create aTimeoutMs aHolTimeoutMs aMode L = efp_receiver_create_with_callback aTimeoutMs aHolTimeoutMs aMode None 0 L"

definition efp_receiver_set_callback :: "nat option \<Rightarrow> fnptr \<Rightarrow> nat \<Rightarrow> CLib \<Rightarrow> CLib option" where
  "efp_receiver_set_callback apReceiver aCallback apCtx L = (case apReceiver of
       None \<Rightarrow> Some L
     | Some a \<Rightarrow> do {
         x \<leftarrow> l_receivers L a;
         Some (L\<lparr>l_receivers := (l_receivers L)(a \<mapsto> x\<lparr>cr_mCallback := aCallback, cr_mpCtx := apCtx\<rparr>)\<rparr>)
       })"

definition efp_receiver_set_embedded_callback :: "nat option \<Rightarrow> fnptr \<Rightarrow> nat \<Rightarrow> CLib \<Rightarrow> CLib option" where
  "efp_receiver_set_embedded_callback apReceiver aCallback apCtx L = (case apReceiver of
       None \<Rightarrow> Some L
     | Some a \<Rightarrow> do {
         x \<leftarrow> l_receivers L a;
         Some (L\<lparr>l_receivers := (l_receivers L)(a \<mapsto> x\<lparr>cr_mEmbeddedCallback := aCallback\<rparr>)\<rparr>)
       })"

fun wrap_frames :: "efp_receiver_s \<Rightarrow> SuperFrame list \<Rightarrow> CCall list option" where
  "wrap_frames x [] = Some []"
| "wrap_frames x (f # fs) = do { cs \<leftarrow> receiveCallbackWrapper x f; ds \<leftarrow> wrap_frames x fs; Some (cs @ ds) }"

text \<open>
  An operation of the receiver object at \<open>a\<close>, with the callbacks it makes: first the NACKs, then the
  frames, in the order in which \<open>processTimeouts\<close> makes them.
\<close>

definition on_receiver :: "nat \<Rightarrow> efp_receiver_s \<Rightarrow> Receiver \<Rightarrow> Receiver \<Rightarrow> CLib \<Rightarrow> CLib option" where
  "on_receiver a x r s L = do {
     fs \<leftarrow> wrap_frames x (drop (length (r_delivered r)) (r_delivered s));
     Some (L\<lparr>l_receivers := (l_receivers L)(a \<mapsto> x\<lparr>cr_mpReceiver := Some s\<rparr>),
       l_calls := l_calls L @ concat (map (nackCallbackWrapper x) (drop (length (r_nacks r)) (r_nacks s))) @ fs\<rparr>)
   }"

definition efp_receiver_receive :: "nat option \<Rightarrow> bytes \<Rightarrow> u8 \<Rightarrow> CLib \<Rightarrow> (int \<times> CLib) option" where
  "efp_receiver_receive apReceiver apData aSourceId L = (case apReceiver of
       None \<Rightarrow> Some (EFP_INVALID_PARAMETER, L)
     | Some a \<Rightarrow> do {
         x \<leftarrow> l_receivers L a;
         case cr_mpReceiver x of
           None \<Rightarrow> Some (EFP_INVALID_PARAMETER, L)
         | Some r \<Rightarrow> do {
             (lResult, s) \<leftarrow> receive apData aSourceId r;
             L \<leftarrow> on_receiver a x r s L;
             Some (resultCode lResult, L)
           }
       })"

definition receiver_method :: "(Receiver \<Rightarrow> Receiver option) \<Rightarrow> nat option \<Rightarrow> CLib \<Rightarrow> CLib option" where
  "receiver_method f apReceiver L = (case apReceiver of
       None \<Rightarrow> Some L
     | Some a \<Rightarrow> do {
         x \<leftarrow> l_receivers L a;
         case cr_mpReceiver x of None \<Rightarrow> Some L | Some r \<Rightarrow> do { s \<leftarrow> f r; on_receiver a x r s L }
       })"

definition efp_receiver_poll :: "nat option \<Rightarrow> CLib \<Rightarrow> CLib option" where
  "efp_receiver_poll = receiver_method poll"

definition efp_receiver_stop :: "nat option \<Rightarrow> CLib \<Rightarrow> CLib option" where
  "efp_receiver_stop = receiver_method (\<lambda>r. Some (stop r))"

text \<open>
  The joins of \<open>stop\<close> are immediate here: a turn of a thread that ends during them counts as taken before.
\<close>

definition efp_receiver_destroy :: "nat option \<Rightarrow> CLib \<Rightarrow> CLib option" where
  "efp_receiver_destroy apReceiver L = (case apReceiver of
       None \<Rightarrow> Some L
     | Some a \<Rightarrow> do {
         x \<leftarrow> l_receivers L a;
         L \<leftarrow> efp_receiver_stop (Some a) L;
         Some (L\<lparr>l_receivers := (l_receivers L)(a := None)\<rparr>)
       })"

text \<open>Turns of the two threads of a receiver object.\<close>

definition receiver_worker_turn :: "nat \<Rightarrow> CLib \<Rightarrow> CLib option" where
  "receiver_worker_turn a = receiver_method workerTick (Some a)"

definition receiver_delivery_turn :: "nat \<Rightarrow> CLib \<Rightarrow> CLib option" where
  "receiver_delivery_turn a = receiver_method (\<lambda>r. Some (deliveryTick r)) (Some a)"

section \<open>Handles\<close>

definition efp_init_send :: "u64 \<Rightarrow> fnptr \<Rightarrow> nat \<Rightarrow> CLib \<Rightarrow> (u64 \<times> CLib) option" where
  "efp_init_send aMtu aCallback apCtx L =
     (let (lpSender, L) = efp_sender_create (ucast aMtu) L
      in case lpSender of
           None \<Rightarrow> Some (0, L)
         | Some a \<Rightarrow> do {
             L \<leftarrow> efp_sender_set_callback (Some a) aCallback apCtx L;
             let lHandle = l_gNextHandle L;
             Some (lHandle, L\<lparr>l_gNextHandle := lHandle + 1, l_gSenderHandles := om_update lHandle a (l_gSenderHandles L)\<rparr>)
           })"

definition efp_init_receive :: "u32 \<Rightarrow> u32 \<Rightarrow> fnptr \<Rightarrow> fnptr \<Rightarrow> nat \<Rightarrow> u32 \<Rightarrow> CLib \<Rightarrow> (u64 \<times> CLib) option" where
  "efp_init_receive aBucketTimeout aHolTimeout aCallback aEmbeddedCallback apCtx aMode L =
     (let (lpReceiver, L) = efp_receiver_create aBucketTimeout aHolTimeout aMode L
      in case lpReceiver of
           None \<Rightarrow> Some (0, L)
         | Some a \<Rightarrow> do {
             L \<leftarrow> efp_receiver_set_callback (Some a) aCallback apCtx L;
             L \<leftarrow> efp_receiver_set_embedded_callback (Some a) aEmbeddedCallback apCtx L;
             let lHandle = l_gNextHandle L;
             Some (lHandle, L\<lparr>l_gNextHandle := lHandle + 1, l_gReceiverHandles := om_update lHandle a (l_gReceiverHandles L)\<rparr>)
           })"

definition efp_end_send :: "u64 \<Rightarrow> CLib \<Rightarrow> (int \<times> CLib) option" where
  "efp_end_send aEfpObject L = (case map_of (l_gSenderHandles L) aEfpObject of
       None \<Rightarrow> Some (EFP_INVALID_PARAMETER, L)
     | Some a \<Rightarrow> do {
         L \<leftarrow> efp_sender_destroy (Some a) L;
         Some (EFP_OK, L\<lparr>l_gSenderHandles := om_erase aEfpObject (l_gSenderHandles L)\<rparr>)
       })"

definition efp_end_receive :: "u64 \<Rightarrow> CLib \<Rightarrow> (int \<times> CLib) option" where
  "efp_end_receive aEfpObject L = (case map_of (l_gReceiverHandles L) aEfpObject of
       None \<Rightarrow> Some (EFP_INVALID_PARAMETER, L)
     | Some a \<Rightarrow> do {
         L \<leftarrow> efp_receiver_destroy (Some a) L;
         Some (EFP_OK, L\<lparr>l_gReceiverHandles := om_erase aEfpObject (l_gReceiverHandles L)\<rparr>)
       })"

definition efp_send_data :: "u64 \<Rightarrow> bytes \<Rightarrow> u8 \<Rightarrow> u64 \<Rightarrow> u64 \<Rightarrow> u32 \<Rightarrow> u8 \<Rightarrow> u8 \<Rightarrow> CLib \<Rightarrow> (int \<times> CLib) option" where
  "efp_send_data aEfpObject apData aDataContent aPts aDts aCode aStreamId aFlags L =
     (case map_of (l_gSenderHandles L) aEfpObject of
        None \<Rightarrow> Some (EFP_INVALID_PARAMETER, L)
      | Some a \<Rightarrow> efp_sender_send (Some a) apData aDataContent aPts aDts aCode aStreamId aFlags L)"

definition efp_receive_fragment :: "u64 \<Rightarrow> bytes \<Rightarrow> u8 \<Rightarrow> CLib \<Rightarrow> (int \<times> CLib) option" where
  "efp_receive_fragment aEfpObject apFragment aFromSource L =
     (case map_of (l_gReceiverHandles L) aEfpObject of
        None \<Rightarrow> Some (EFP_INVALID_PARAMETER, L)
      | Some a \<Rightarrow> efp_receiver_receive (Some a) apFragment aFromSource L)"

end
