(* ===== verification/Efp_CApiInv.thy ===== *)
theory Efp_CApiInv
  imports Efp_CApi
begin

text \<open>
  The handle tables of the C interface: every handle owns one live object and every live object has a
  handle, so the legacy operations neither use nor delete a dead object, and leak none. Only the C callbacks
  can then leave the memory they are given: an operation that is undefined hands a frame to a callback for
  embedded data.
\<close>

section \<open>A table of handles\<close>

lemma om_map:
  assumes "om_wf hs"
  shows "map_of (om_update h a hs) = (map_of hs)(h \<mapsto> a)" "map_of (om_erase h hs) = (map_of hs)(h := None)"
  using map_of_om_update [OF assms] map_of_om_erase [OF assms] by (auto simp: fun_eq_iff)

text \<open>\<open>m\<close> are the live objects, \<open>nx\<close> the next address.\<close>

definition handles_ok :: "(nat \<rightharpoonup> 'o) \<Rightarrow> (u64 \<times> nat) list \<Rightarrow> nat \<Rightarrow> bool" where
  "handles_ok m hs nx \<longleftrightarrow> om_wf hs \<and> inj_on (map_of hs) (dom (map_of hs)) \<and> ran (map_of hs) = dom m \<and> dom m \<subseteq> {..<nx}"

lemma handles_ok_live: "handles_ok m hs nx \<Longrightarrow> map_of hs h = Some a \<Longrightarrow> \<exists>x. m a = Some x"
  by (auto simp: handles_ok_def ran_def)

lemma handles_ok_insert:
  assumes "handles_ok m hs nx" "map_of hs h = None"
  shows "handles_ok (m(nx \<mapsto> x)) (om_update h nx hs) (Suc nx)"
proof -
  have wf: "om_wf hs" and inj: "inj_on (map_of hs) (dom (map_of hs))" and ran: "ran (map_of hs) = dom m" and less: "dom m \<subseteq> {..<nx}"
    using assms(1) by (simp_all add: handles_ok_def)
  have fresh: "map_of hs k \<noteq> Some nx" for k using ran less by (force simp: ran_def)
  have "inj_on ((map_of hs)(h \<mapsto> nx)) (dom ((map_of hs)(h \<mapsto> nx)))"
    using inj fresh by (auto simp: inj_on_def dom_def)
  moreover have "ran ((map_of hs)(h \<mapsto> nx)) = dom (m(nx \<mapsto> x))" using assms(2) ran by (auto simp: ran_map_upd)
  ultimately show ?thesis using wf less by (auto simp: handles_ok_def om_map om_wf_update)
qed

lemma handles_ok_remove:
  assumes "handles_ok m hs nx" "map_of hs h = Some a"
  shows "handles_ok (m(a := None)) (om_erase h hs) nx"
proof -
  have wf: "om_wf hs" and inj: "inj_on (map_of hs) (dom (map_of hs))" and ran: "ran (map_of hs) = dom m" and less: "dom m \<subseteq> {..<nx}"
    using assms(1) by (simp_all add: handles_ok_def)
  have other: "k = h" if "map_of hs k = Some a" for k
    using inj assms(2) that by (metis domI inj_onD)
  have "inj_on ((map_of hs)(h := None)) (dom ((map_of hs)(h := None)))" using inj by (auto simp: inj_on_def)
  moreover have "b \<in> ran ((map_of hs)(h := None)) \<longleftrightarrow> b \<in> ran (map_of hs) \<and> b \<noteq> a" for b
  proof
    assume "b \<in> ran ((map_of hs)(h := None))"
    then obtain k where "k \<noteq> h" "map_of hs k = Some b" by (auto simp: ran_def split: if_splits)
    with other show "b \<in> ran (map_of hs) \<and> b \<noteq> a" using ranI by metis
  next
    assume "b \<in> ran (map_of hs) \<and> b \<noteq> a"
    then obtain k where "map_of hs k = Some b" "k \<noteq> h" using assms(2) by (force simp: ran_def)
    then show "b \<in> ran ((map_of hs)(h := None))" by (intro ranI [of _ k]) simp
  qed
  then have "ran ((map_of hs)(h := None)) = dom (m(a := None))" unfolding ran by auto
  ultimately show ?thesis using wf less by (auto simp: handles_ok_def om_map om_wf_erase)
qed

lemma handles_ok_update: "handles_ok m hs nx \<Longrightarrow> m a = Some x \<Longrightarrow> handles_ok (m(a \<mapsto> y)) hs nx"
  by (simp add: handles_ok_def insert_absorb domI)

lemma handles_ok_next: "handles_ok m hs nx \<Longrightarrow> handles_ok m hs (Suc nx)"
  by (auto simp: handles_ok_def)

section \<open>The invariant\<close>

definition sender_object_ok :: "efp_sender_s \<Rightarrow> bool" where
  "sender_object_ok x \<longleftrightarrow> (\<exists>s. cs_mpSender x = Some s \<and> sender_inv s)"

text \<open>\<open>E\<close> are the callbacks for embedded data that are in use.\<close>

definition receiver_object_ok :: "fnptr set \<Rightarrow> efp_receiver_s \<Rightarrow> bool" where
  "receiver_object_ok E x \<longleftrightarrow> (\<exists>r. cr_mpReceiver x = Some r \<and> recv_inv r) \<and> cr_mEmbeddedCallback x \<in> E"

text \<open>\<open>n\<close> more handles can be given out before their numbers repeat.\<close>

definition legacy_inv :: "fnptr set \<Rightarrow> nat \<Rightarrow> CLib \<Rightarrow> bool" where
  "legacy_inv E n L \<longleftrightarrow> handles_ok (l_senders L) (l_gSenderHandles L) (l_next L) \<and>
     handles_ok (l_receivers L) (l_gReceiverHandles L) (l_next L) \<and>
     (\<forall>h. map_of (l_gSenderHandles L) h \<noteq> None \<or> map_of (l_gReceiverHandles L) h \<noteq> None \<longrightarrow> h < l_gNextHandle L) \<and>
     unat (l_gNextHandle L) + n < 2 ^ 64 \<and>
     (\<forall>x \<in> ran (l_senders L). sender_object_ok x) \<and> (\<forall>x \<in> ran (l_receivers L). receiver_object_ok E x)"

lemma legacy_inv_fewer: "legacy_inv E (Suc n) L \<Longrightarrow> legacy_inv E n L"
  by (simp add: legacy_inv_def)

lemma legacy_inv_new: "legacy_inv E (2 ^ 63) (newCLib nw clk al)"
  by (simp add: legacy_inv_def newCLib_def handles_ok_def)

lemma sender_object_new: "sender_object_ok \<lparr>cs_mpSender = Some (makeCSender m clk), cs_wrapper = w, cs_mCallback = c, cs_mpCtx = x, cs_mMtu = u\<rparr>"
  by (simp add: sender_object_ok_def makeCSender_def sender_inv_new)

text \<open>A handle that was never given out.\<close>

lemma next_handle:
  assumes "legacy_inv E (Suc n) L"
  shows "map_of (l_gSenderHandles L) (l_gNextHandle L) = None" "map_of (l_gReceiverHandles L) (l_gNextHandle L) = None"
    "unat (l_gNextHandle L + 1) = unat (l_gNextHandle L) + 1" "h < l_gNextHandle L \<Longrightarrow> h < l_gNextHandle L + 1"
    "l_gNextHandle L < l_gNextHandle L + 1"
proof -
  have bound: "unat (l_gNextHandle L) + Suc n < 2 ^ 64" using assms by (simp add: legacy_inv_def)
  show "map_of (l_gSenderHandles L) (l_gNextHandle L) = None" "map_of (l_gReceiverHandles L) (l_gNextHandle L) = None"
    using assms unfolding legacy_inv_def by (metis less_irrefl)+
  show inc: "unat (l_gNextHandle L + 1) = unat (l_gNextHandle L) + 1" using bound by (simp add: unat_word_ariths)
  then show "l_gNextHandle L < l_gNextHandle L + 1" "h < l_gNextHandle L \<Longrightarrow> h < l_gNextHandle L + 1"
    by (simp_all add: word_less_nat_alt)
qed

lemma ran_update: "x \<in> ran (m(a \<mapsto> y)) \<Longrightarrow> x = y \<or> x \<in> ran m"
  by (auto simp: ran_def split: if_splits)

lemma ran_remove: "x \<in> ran (m(a := None)) \<Longrightarrow> x \<in> ran m"
  by (auto simp: ran_def split: if_splits)

lemma init_send_inv:
  assumes "legacy_inv E (Suc n) L"
  shows "\<exists>h M. efp_init_send mtu cb ctx L = Some (h, M) \<and> legacy_inv E n M"
proof (cases "l_new L (l_next L)")
  case False
  with legacy_inv_fewer [OF assms] show ?thesis
    by (simp add: efp_init_send_def efp_sender_create_def efp_sender_create_with_callback_def legacy_inv_def handles_ok_next)
next
  case True
  note N = next_handle [OF assms]
  have inv: "handles_ok (l_senders L) (l_gSenderHandles L) (l_next L)" "handles_ok (l_receivers L) (l_gReceiverHandles L) (l_next L)"
    "\<forall>h. map_of (l_gSenderHandles L) h \<noteq> None \<or> map_of (l_gReceiverHandles L) h \<noteq> None \<longrightarrow> h < l_gNextHandle L"
    "unat (l_gNextHandle L) + Suc n < 2 ^ 64" "\<forall>x \<in> ran (l_senders L). sender_object_ok x" "\<forall>x \<in> ran (l_receivers L). receiver_object_ok E x"
    using assms by (simp_all add: legacy_inv_def)
  have wf: "om_wf (l_gSenderHandles L)" using inv(1) by (simp add: handles_ok_def)
  show ?thesis using True inv(2-6) N handles_ok_insert [OF inv(1) N(1)] handles_ok_next [OF inv(2)]
    by (auto simp: efp_init_send_def efp_sender_create_def efp_sender_create_with_callback_def efp_sender_set_callback_def
        legacy_inv_def om_map(1) [OF wf] sender_object_new Let_def dest!: ran_update)
qed

lemma init_receive_inv:
  assumes "legacy_inv E (Suc n) L" "ecb \<in> E"
  shows "\<exists>h M. efp_init_receive tmo hol cb ecb ctx mode L = Some (h, M) \<and> legacy_inv E n M"
proof -
  let ?new = "newReceiver DEFAULT_BUFFER_SIZE tmo hol 3 0 (if mode = 2 then RUN_TO_COMPLETION else THREADED)
      (l_clock L (l_next L)) (l_alloc L (l_next L))"
  note defs = efp_init_receive_def efp_receiver_create_def efp_receiver_create_with_callback_def
  show ?thesis
  proof (cases "l_new L (l_next L) \<and> (\<exists>r. ?new = Inr r)")
    case False
    then have "efp_init_receive tmo hol cb ecb ctx mode L = Some (0, L\<lparr>l_next := Suc (l_next L)\<rparr>)"
      by (cases ?new) (auto simp: defs Let_def)
    with legacy_inv_fewer [OF assms(1)] show ?thesis by (simp add: legacy_inv_def handles_ok_next)
  next
    case True
    then obtain r where r: "?new = Inr r" "l_new L (l_next L)" by blast
    have ri: "recv_inv r" by (rule recv_inv_new [OF r(1)]) simp
    note N = next_handle [OF assms(1)]
    have inv: "handles_ok (l_senders L) (l_gSenderHandles L) (l_next L)" "handles_ok (l_receivers L) (l_gReceiverHandles L) (l_next L)"
      "\<forall>h. map_of (l_gSenderHandles L) h \<noteq> None \<or> map_of (l_gReceiverHandles L) h \<noteq> None \<longrightarrow> h < l_gNextHandle L"
      "unat (l_gNextHandle L) + Suc n < 2 ^ 64" "\<forall>x \<in> ran (l_senders L). sender_object_ok x" "\<forall>x \<in> ran (l_receivers L). receiver_object_ok E x"
      using assms(1) by (simp_all add: legacy_inv_def)
    have wf: "om_wf (l_gReceiverHandles L)" using inv(2) by (simp add: handles_ok_def)
    show ?thesis using r ri assms(2) inv(1,3-6) N handles_ok_insert [OF inv(2) N(2)] handles_ok_next [OF inv(1)]
      by (auto simp: defs efp_receiver_set_callback_def efp_receiver_set_embedded_callback_def
          legacy_inv_def om_map(1) [OF wf] receiver_object_ok_def Let_def dest!: ran_update)
  qed
qed

lemma legacy_objects:
  assumes "legacy_inv E n L"
  shows "map_of (l_gSenderHandles L) h = Some a \<Longrightarrow> \<exists>x s. l_senders L a = Some x \<and> cs_mpSender x = Some s \<and> sender_inv s"
    "map_of (l_gReceiverHandles L) h = Some a \<Longrightarrow> \<exists>x r. l_receivers L a = Some x \<and> cr_mpReceiver x = Some r \<and> recv_inv r \<and>
       cr_mEmbeddedCallback x \<in> E"
  using assms handles_ok_live ranI unfolding legacy_inv_def sender_object_ok_def receiver_object_ok_def by metis+

lemma end_send_inv:
  assumes "legacy_inv E n L"
  shows "\<exists>c M. efp_end_send h L = Some (c, M) \<and> legacy_inv E n M"
proof (cases "map_of (l_gSenderHandles L) h")
  case None
  with assms show ?thesis by (simp add: efp_end_send_def)
next
  case (Some a)
  have ok: "handles_ok (l_senders L) (l_gSenderHandles L) (l_next L)" and wf: "om_wf (l_gSenderHandles L)"
    using assms by (simp_all add: legacy_inv_def handles_ok_def)
  from legacy_objects(1) [OF assms Some] handles_ok_remove [OF ok Some] assms Some show ?thesis
    by (auto simp: efp_end_send_def efp_sender_destroy_def legacy_inv_def om_map(2) [OF wf] dest!: ran_remove)
qed

lemma send_data_inv:
  assumes "legacy_inv E n L"
  shows "\<exists>c M. efp_send_data h d ptype pts dts code st flags L = Some (c, M) \<and> legacy_inv E n M"
proof (cases "map_of (l_gSenderHandles L) h")
  case None
  with assms show ?thesis by (simp add: efp_send_data_def)
next
  case (Some a)
  from legacy_objects(1) [OF assms Some] obtain x s where x: "l_senders L a = Some x" "cs_mpSender x = Some s" "sender_inv s" by blast
  from send_total [OF x(3)] obtain q t where t: "send d ptype pts dts code st flags s = Some (q, t)" "sender_inv t" by blast
  have "legacy_inv E n (L\<lparr>l_senders := (l_senders L)(a \<mapsto> x\<lparr>cs_mpSender := Some t\<rparr>), l_calls := k\<rparr>)" for k
    using assms x(1) t(2) by (auto simp: legacy_inv_def handles_ok_update sender_object_ok_def dest!: ran_update)
  with Some x t(1) show ?thesis by (simp add: efp_send_data_def efp_sender_send_def)
qed

section \<open>Callbacks\<close>

lemma wrapper_defined:
  "frame_fits f \<Longrightarrow> cr_mEmbeddedCallback x = None \<or> sf_mFlags f AND FLAG_INLINE_PAYLOAD = 0 \<or> sf_mBroken f \<Longrightarrow>
     \<exists>cs. receiveCallbackWrapper x f = Some cs"
  by (auto simp: receiveCallbackWrapper_def frame_range_def frame_fits_def mem_load_def split: option.split)

lemma wrap_frames_undefined: "wrap_frames x fs = None \<longleftrightarrow> (\<exists>f \<in> set fs. receiveCallbackWrapper x f = None)"
  by (induction fs) (auto split: bind_splits)

text \<open>The change of the receiver object \<open>x\<close> from \<open>r\<close> to \<open>s\<close> hands over \<open>f\<close>, and its wrapper is undefined.\<close>

definition bad_frame :: "efp_receiver_s \<Rightarrow> Receiver \<Rightarrow> Receiver \<Rightarrow> SuperFrame \<Rightarrow> bool" where
  "bad_frame x r s f \<longleftrightarrow> f \<in> set (drop (length (r_delivered r)) (r_delivered s)) \<and> frame_fits f \<and> receiveCallbackWrapper x f = None"

lemma on_receiver_cases:
  assumes "legacy_inv E n L" "l_receivers L a = Some x" "cr_mEmbeddedCallback x \<in> E" "recv_inv s"
  obtains M where "on_receiver a x r s L = Some M" "legacy_inv E n M" "l_gReceiverHandles M = l_gReceiverHandles L"
  | f where "on_receiver a x r s L = None" "bad_frame x r s f"
proof (cases "wrap_frames x (drop (length (r_delivered r)) (r_delivered s))")
  case None
  then obtain f where f: "f \<in> set (drop (length (r_delivered r)) (r_delivered s))" "receiveCallbackWrapper x f = None"
    unfolding wrap_frames_undefined by blast
  moreover have "frame_fits f" using f(1) recv_invD(6) [OF assms(4)] by (auto simp: list_all_iff dest: in_set_dropD)
  ultimately show ?thesis using that(2) None by (simp add: on_receiver_def bad_frame_def)
next
  case (Some cs)
  have "legacy_inv E n (L\<lparr>l_receivers := (l_receivers L)(a \<mapsto> x\<lparr>cr_mpReceiver := Some s\<rparr>), l_calls := k\<rparr>)" for k
    using assms by (auto simp: legacy_inv_def handles_ok_update receiver_object_ok_def dest!: ran_update)
  with Some show ?thesis using that(1) by (simp add: on_receiver_def)
qed

text \<open>A frame that the object \<open>a\<close> hands over makes its wrapper undefined, when \<open>g\<close> is the receiver's operation.\<close>

definition hands_bad_frame :: "(Receiver \<Rightarrow> Receiver option) \<Rightarrow> nat \<Rightarrow> CLib \<Rightarrow> bool" where
  "hands_bad_frame g a L \<longleftrightarrow> (\<exists>x r s f. l_receivers L a = Some x \<and> cr_mpReceiver x = Some r \<and> g r = Some s \<and> bad_frame x r s f)"

lemma receive_fragment_cases:
  assumes "legacy_inv E n L"
  obtains c M where "efp_receive_fragment h d src L = Some (c, M)" "legacy_inv E n M"
  | a where "efp_receive_fragment h d src L = None" "map_of (l_gReceiverHandles L) h = Some a"
      "hands_bad_frame (\<lambda>r. map_option snd (receive d src r)) a L"
proof (cases "map_of (l_gReceiverHandles L) h")
  case None
  with assms that(1) show ?thesis by (simp add: efp_receive_fragment_def)
next
  case (Some a)
  from legacy_objects(2) [OF assms Some] obtain x r where x: "l_receivers L a = Some x" "cr_mpReceiver x = Some r" "recv_inv r"
    "cr_mEmbeddedCallback x \<in> E" by blast
  from receiver.step_safe [OF x(3), of "Receive d src"] obtain q s where s: "receive d src r = Some (q, s)" "recv_inv s" by auto
  from on_receiver_cases [OF assms x(1,4) s(2), of r] show ?thesis
  proof cases
    case (1 M)
    with Some x s(1) that(1) show ?thesis by (simp add: efp_receive_fragment_def efp_receiver_receive_def)
  next
    case (2 f)
    with x s(1) have "hands_bad_frame (\<lambda>r. map_option snd (receive d src r)) a L" by (auto simp: hands_bad_frame_def)
    with 2 Some x s(1) that(2) show ?thesis by (simp add: efp_receive_fragment_def efp_receiver_receive_def)
  qed
qed

lemma receiver_method_cases:
  assumes "legacy_inv E n L" "map_of (l_gReceiverHandles L) h = Some a" "\<And>r. recv_inv r \<Longrightarrow> \<exists>s. g r = Some s \<and> recv_inv s"
  obtains M where "receiver_method g (Some a) L = Some M" "legacy_inv E n M" "l_gReceiverHandles M = l_gReceiverHandles L"
  | "receiver_method g (Some a) L = None" "hands_bad_frame g a L"
proof -
  from legacy_objects(2) [OF assms(1,2)] obtain x r where x: "l_receivers L a = Some x" "cr_mpReceiver x = Some r" "recv_inv r"
    "cr_mEmbeddedCallback x \<in> E" by blast
  from assms(3) [OF x(3)] obtain s where s: "g r = Some s" "recv_inv s" by blast
  from on_receiver_cases [OF assms(1) x(1,4) s(2), of r] show ?thesis
  proof cases
    case (1 M)
    with x s(1) that(1) show ?thesis by (simp add: receiver_method_def)
  next
    case (2 f)
    with x s(1) have "hands_bad_frame g a L" by (auto simp: hands_bad_frame_def)
    with 2 x s(1) that(2) show ?thesis by (simp add: receiver_method_def)
  qed
qed

lemma end_receive_inv:
  assumes "legacy_inv E n L"
  shows "\<exists>c M. efp_end_receive h L = Some (c, M) \<and> legacy_inv E n M"
proof (cases "map_of (l_gReceiverHandles L) h")
  case None
  with assms show ?thesis by (simp add: efp_end_receive_def)
next
  case (Some a)
  have stop: "\<exists>s. Some (stop r) = Some s \<and> recv_inv s" if "recv_inv r" for r using that receiver.step_safe [of r Stop] by auto
  have "\<not> hands_bad_frame (\<lambda>r. Some (stop r)) a L" by (simp add: hands_bad_frame_def bad_frame_def stop_def)
  with receiver_method_cases [where g = "\<lambda>r. Some (stop r)", OF assms Some stop] obtain M where
    M: "efp_receiver_stop (Some a) L = Some M" "legacy_inv E n M" "l_gReceiverHandles M = l_gReceiverHandles L"
    unfolding efp_receiver_stop_def by metis
  have ok: "handles_ok (l_receivers M) (l_gReceiverHandles L) (l_next M)" and wf: "om_wf (l_gReceiverHandles L)"
    using M(2,3) by (simp_all add: legacy_inv_def handles_ok_def)
  from legacy_objects(2) [OF assms Some] obtain x where "l_receivers L a = Some x" by blast
  with handles_ok_remove [OF ok Some] M Some show ?thesis
    by (auto simp: efp_end_receive_def efp_receiver_destroy_def legacy_inv_def om_map(2) [OF wf] dest!: ran_remove)
qed

section \<open>The legacy interface as a machine\<close>

text \<open>Threads run on live objects only; they are named by the object's handle.\<close>

datatype LegacyOp =
    InitSend u64 fnptr nat
  | InitReceive u32 u32 fnptr fnptr nat u32
  | EndSend u64
  | EndReceive u64
  | SendData u64 bytes u8 u64 u64 u32 u8 u8
  | ReceiveFragment u64 bytes u8
  | WorkerTurn u64
  | DeliveryTurn u64

definition thread_turn :: "(nat \<Rightarrow> CLib \<Rightarrow> CLib option) \<Rightarrow> u64 \<Rightarrow> CLib \<Rightarrow> (u64 \<times> CLib) option" where
  "thread_turn f h L = (case map_of (l_gReceiverHandles L) h of None \<Rightarrow> Some (0, L) | Some a \<Rightarrow> map_option (Pair 0) (f a L))"

fun legacy_step :: "LegacyOp \<Rightarrow> CLib \<Rightarrow> (u64 \<times> CLib) option" where
  "legacy_step (InitSend mtu cb ctx) L = efp_init_send mtu cb ctx L"
| "legacy_step (InitReceive tmo hol cb ecb ctx mode) L = efp_init_receive tmo hol cb ecb ctx mode L"
| "legacy_step (EndSend h) L = map_option (map_prod word_of_int id) (efp_end_send h L)"
| "legacy_step (EndReceive h) L = map_option (map_prod word_of_int id) (efp_end_receive h L)"
| "legacy_step (SendData h d ptype pts dts code st flags) L =
     map_option (map_prod word_of_int id) (efp_send_data h d ptype pts dts code st flags L)"
| "legacy_step (ReceiveFragment h d src) L = map_option (map_prod word_of_int id) (efp_receive_fragment h d src L)"
| "legacy_step (WorkerTurn h) L = thread_turn receiver_worker_turn h L"
| "legacy_step (DeliveryTurn h) L = thread_turn receiver_delivery_turn h L"

text \<open>The callbacks for embedded data of a sequence of operations.\<close>

fun embedded_callbacks :: "LegacyOp \<Rightarrow> fnptr set" where
  "embedded_callbacks (InitReceive tmo hol cb ecb ctx mode) = {ecb}"
| "embedded_callbacks x = {}"

text \<open>What an operation does to the receiver its handle stands for.\<close>

fun receiver_part :: "LegacyOp \<Rightarrow> (u64 \<times> (Receiver \<Rightarrow> Receiver option)) option" where
  "receiver_part (ReceiveFragment h d src) = Some (h, \<lambda>r. map_option snd (receive d src r))"
| "receiver_part (WorkerTurn h) = Some (h, workerTick)"
| "receiver_part (DeliveryTurn h) = Some (h, \<lambda>r. Some (deliveryTick r))"
| "receiver_part x = None"

lemma thread_turn_cases:
  assumes "legacy_inv E n L" "\<And>r. recv_inv r \<Longrightarrow> \<exists>s. g r = Some s \<and> recv_inv s" "f = (\<lambda>a. receiver_method g (Some a))"
  obtains c M where "thread_turn f h L = Some (c, M)" "legacy_inv E n M"
  | a where "thread_turn f h L = None" "map_of (l_gReceiverHandles L) h = Some a" "hands_bad_frame g a L"
proof (cases "map_of (l_gReceiverHandles L) h")
  case None
  with assms(1) that(1) show ?thesis by (simp add: thread_turn_def)
next
  case (Some a)
  from receiver_method_cases [where g = g, OF assms(1) Some assms(2)] that show ?thesis
    by cases (simp_all add: thread_turn_def Some assms(3))
qed

lemma legacy_step_cases:
  assumes "legacy_inv E (Suc n) L" "embedded_callbacks x \<subseteq> E"
  obtains c M where "legacy_step x L = Some (c, M)" "legacy_inv E n M"
  | h g a where "legacy_step x L = None" "receiver_part x = Some (h, g)" "map_of (l_gReceiverHandles L) h = Some a"
      "hands_bad_frame g a L"
proof -
  note inv = legacy_inv_fewer [OF assms(1)]
  show ?thesis
  proof (cases x)
    case (InitSend mtu cb ctx)
    with init_send_inv [OF assms(1), of mtu cb ctx] that(1) show ?thesis by auto
  next
    case (InitReceive tmo hol cb ecb ctx mode)
    with init_receive_inv [OF assms(1), of ecb tmo hol cb ctx mode] assms(2) that(1) show ?thesis by auto
  next
    case (EndSend h)
    with end_send_inv [OF inv, of h] that(1) show ?thesis by auto
  next
    case (EndReceive h)
    with end_receive_inv [OF inv, of h] that(1) show ?thesis by auto
  next
    case (SendData h d ptype pts dts code st flags)
    with send_data_inv [OF inv, of h d ptype pts dts code st flags] that(1) show ?thesis by auto
  next
    case (ReceiveFragment h d src)
    show ?thesis by (rule receive_fragment_cases [OF inv, of h d src]) (use that ReceiveFragment in auto)
  next
    case (WorkerTurn h)
    have "\<exists>s. workerTick r = Some s \<and> recv_inv s" if "recv_inv r" for r
      using receiver.step_safe [OF that, of WorkerTick] by auto
    then show ?thesis
      by (rule thread_turn_cases [where g = workerTick and f = receiver_worker_turn, OF inv, of h])
        (use that(1) that(2) [of h workerTick] WorkerTurn in \<open>auto simp: receiver_worker_turn_def\<close>)
  next
    case (DeliveryTurn h)
    have "\<exists>s. Some (deliveryTick r) = Some s \<and> recv_inv s" if "recv_inv r" for r
      using receiver.step_safe [OF that, of DeliveryTick] by auto
    then show ?thesis
      by (rule thread_turn_cases [where g = "\<lambda>r. Some (deliveryTick r)" and f = receiver_delivery_turn, OF inv, of h])
        (use that(1) that(2) [of h "\<lambda>r. Some (deliveryTick r)"] DeliveryTurn in \<open>auto simp: receiver_delivery_turn_def\<close>)
  qed
qed

lemma legacy_step_inv: "legacy_inv E (Suc n) L \<Longrightarrow> embedded_callbacks x \<subseteq> E \<Longrightarrow> legacy_step x L = Some (c, M) \<Longrightarrow> legacy_inv E n M"
  by (erule (1) legacy_step_cases) auto

lemma legacy_run_cases:
  assumes "legacy_inv E n L" "length ops \<le> n" "\<Union> (embedded_callbacks ` set ops) \<subseteq> E"
  obtains M where "run_ops legacy_step ops L = Some M" "legacy_inv E (n - length ops) M"
  | pre x post M h g a k where "run_ops legacy_step ops L = None" "ops = pre @ x # post" "run_ops legacy_step pre L = Some M"
      "legacy_inv E k M" "legacy_step x M = None" "receiver_part x = Some (h, g)" "map_of (l_gReceiverHandles M) h = Some a" "hands_bad_frame g a M"
  using assms
proof (induction ops arbitrary: n L thesis)
  case (Cons x ops)
  have "0 < n" using Cons.prems(4) by simp
  then obtain k where n: "n = Suc k" using gr0_implies_Suc by blast
  have xs: "legacy_inv E (Suc k) L" "embedded_callbacks x \<subseteq> E" "length ops \<le> k" "\<Union> (embedded_callbacks ` set ops) \<subseteq> E"
    using Cons.prems n by auto
  from legacy_step_cases [OF xs(1,2)] show ?case
  proof cases
    case (1 c M)
    show ?thesis
    proof (rule Cons.IH [OF _ _ 1(2) xs(3,4)])
      fix N assume "run_ops legacy_step ops M = Some N" "legacy_inv E (k - length ops) N"
      with 1(1) n show ?thesis by (intro Cons.prems(1) [of N]) simp_all
    next
      fix pre y post N h g a j
      assume y: "run_ops legacy_step ops M = None" "ops = pre @ y # post" "run_ops legacy_step pre M = Some N" "legacy_inv E j N"
        "legacy_step y N = None" "receiver_part y = Some (h, g)" "map_of (l_gReceiverHandles N) h = Some a" "hands_bad_frame g a N"
      show ?thesis by (rule Cons.prems(2) [of "x # pre" y post N j h g a]) (use 1(1) y in simp_all)
    qed
  next
    case (2 h g a)
    show ?thesis by (rule Cons.prems(2) [of "[]" x ops L "Suc k" h g a]) (use 2 xs(1) in simp_all)
  qed
qed simp

end
