(* ===== verification/Efp_CApiProps.thy ===== *)
theory Efp_CApiProps
  imports Efp_CApiInv
begin

text \<open>
  Properties of the C interface: the legacy handles own their objects, sections of embedded data reach
  their callback, and where the wrapper leaves the frame's buffer.
\<close>

section \<open>Handles\<close>

text \<open>A handle that was given out and is not in its table any more.\<close>

definition closed_handles :: "u64 set \<Rightarrow> u64 set \<Rightarrow> CLib \<Rightarrow> bool" where
  "closed_handles S R L \<longleftrightarrow> (\<forall>h \<in> S. map_of (l_gSenderHandles L) h = None \<and> h < l_gNextHandle L) \<and>
     (\<forall>h \<in> R. map_of (l_gReceiverHandles L) h = None \<and> h < l_gNextHandle L)"

text \<open>What an operation does to the tables.\<close>

lemma receiver_method_tables:
  "receiver_method f x L = Some M \<Longrightarrow> l_gSenderHandles M = l_gSenderHandles L \<and> l_gReceiverHandles M = l_gReceiverHandles L \<and>
     l_gNextHandle M = l_gNextHandle L"
  by (auto simp: receiver_method_def on_receiver_def split: option.splits bind_splits)

lemma send_tables:
  "efp_send_data h d ptype pts dts code st flags L = Some (c, M) \<Longrightarrow> l_gSenderHandles M = l_gSenderHandles L \<and>
     l_gReceiverHandles M = l_gReceiverHandles L \<and> l_gNextHandle M = l_gNextHandle L"
  by (auto simp: efp_send_data_def efp_sender_send_def split: option.splits bind_splits)

lemma receive_tables:
  "efp_receive_fragment h d src L = Some (c, M) \<Longrightarrow> l_gSenderHandles M = l_gSenderHandles L \<and>
     l_gReceiverHandles M = l_gReceiverHandles L \<and> l_gNextHandle M = l_gNextHandle L"
  by (auto simp: efp_receive_fragment_def efp_receiver_receive_def on_receiver_def split: option.splits bind_splits)

lemma turn_tables:
  "thread_turn receiver_worker_turn h L = Some (c, M) \<or> thread_turn receiver_delivery_turn h L = Some (c, M) \<Longrightarrow>
     l_gSenderHandles M = l_gSenderHandles L \<and> l_gReceiverHandles M = l_gReceiverHandles L \<and> l_gNextHandle M = l_gNextHandle L"
  using receiver_method_tables
  by (fastforce simp: thread_turn_def receiver_worker_turn_def receiver_delivery_turn_def split: option.splits)

lemma init_tables:
  "efp_init_send mtu cb ctx L = Some (c, M) \<Longrightarrow> l_gReceiverHandles M = l_gReceiverHandles L \<and>
     (l_gSenderHandles M = l_gSenderHandles L \<and> l_gNextHandle M = l_gNextHandle L \<or>
      (\<exists>a. l_gSenderHandles M = om_update (l_gNextHandle L) a (l_gSenderHandles L)) \<and> l_gNextHandle M = l_gNextHandle L + 1)"
  "efp_init_receive tmo hol cb ecb ctx mode L = Some (c, M) \<Longrightarrow> l_gSenderHandles M = l_gSenderHandles L \<and>
     (l_gReceiverHandles M = l_gReceiverHandles L \<and> l_gNextHandle M = l_gNextHandle L \<or>
      (\<exists>a. l_gReceiverHandles M = om_update (l_gNextHandle L) a (l_gReceiverHandles L)) \<and> l_gNextHandle M = l_gNextHandle L + 1)"
  by (auto simp: efp_init_send_def efp_sender_create_def efp_sender_create_with_callback_def efp_sender_set_callback_def
      efp_init_receive_def efp_receiver_create_def efp_receiver_create_with_callback_def efp_receiver_set_callback_def
      efp_receiver_set_embedded_callback_def Let_def split: if_splits sum.splits)

lemma end_tables:
  "efp_end_send h L = Some (c, M) \<Longrightarrow> l_gReceiverHandles M = l_gReceiverHandles L \<and> l_gNextHandle M = l_gNextHandle L \<and>
     l_gSenderHandles M \<in> {l_gSenderHandles L, om_erase h (l_gSenderHandles L)}"
  "efp_end_receive h L = Some (c, M) \<Longrightarrow> l_gSenderHandles M = l_gSenderHandles L \<and> l_gNextHandle M = l_gNextHandle L \<and>
     l_gReceiverHandles M \<in> {l_gReceiverHandles L, om_erase h (l_gReceiverHandles L)}"
  using receiver_method_tables
  by (fastforce simp: efp_end_send_def efp_sender_destroy_def efp_end_receive_def efp_receiver_destroy_def efp_receiver_stop_def
      split: option.splits bind_splits)+

lemma closed_handles_step:
  assumes "legacy_inv UNIV (Suc n) L" "closed_handles S R L" "legacy_step x L = Some (c, M)"
  shows "closed_handles S R M"
proof -
  have wf: "om_wf (l_gSenderHandles L)" "om_wf (l_gReceiverHandles L)" using assms(1) by (simp_all add: legacy_inv_def handles_ok_def)
  note tables = om_map [OF wf(1)] om_map [OF wf(2)]
  have up: "h < l_gNextHandle L \<Longrightarrow> h < l_gNextHandle L + 1" for h by (rule next_handle(4) [OF assms(1)])
  have same: ?thesis if "l_gSenderHandles M = l_gSenderHandles L" "l_gReceiverHandles M = l_gReceiverHandles L" "l_gNextHandle M = l_gNextHandle L"
    using assms(2) that by (simp add: closed_handles_def)
  show ?thesis
  proof (cases x)
    case (InitSend mtu cb ctx)
    with assms(3) have "efp_init_send mtu cb ctx L = Some (c, M)" by simp
    from init_tables(1) [OF this] assms(2) up show ?thesis by (auto simp: closed_handles_def tables)
  next
    case (InitReceive tmo hol cb ecb ctx mode)
    with assms(3) have "efp_init_receive tmo hol cb ecb ctx mode L = Some (c, M)" by simp
    from init_tables(2) [OF this] assms(2) up show ?thesis by (auto simp: closed_handles_def tables)
  next
    case (EndSend h)
    with assms(3) obtain k where "efp_end_send h L = Some (k, M)" by auto
    from end_tables(1) [OF this] assms(2) show ?thesis by (auto simp: closed_handles_def tables)
  next
    case (EndReceive h)
    with assms(3) obtain k where "efp_end_receive h L = Some (k, M)" by auto
    from end_tables(2) [OF this] assms(2) show ?thesis by (auto simp: closed_handles_def tables)
  next
    case (WorkerTurn h)
    with assms(3) turn_tables [of h L c M] same show ?thesis by simp
  next
    case (DeliveryTurn h)
    with assms(3) turn_tables [of h L c M] same show ?thesis by simp
  qed (use assms(3) send_tables receive_tables same in auto)
qed

lemma closed_handles_run:
  "legacy_inv UNIV n L \<Longrightarrow> length ops \<le> n \<Longrightarrow> closed_handles S R L \<Longrightarrow> run_ops legacy_step ops L = Some N \<Longrightarrow> closed_handles S R N"
proof (induction ops arbitrary: n L)
  case (Cons x ops)
  have "0 < n" using Cons.prems(2) by simp
  then obtain k where n: "n = Suc k" using gr0_implies_Suc by blast
  from Cons.prems(4) obtain c M where M: "legacy_step x L = Some (c, M)" "run_ops legacy_step ops M = Some N"
    by (auto split: option.splits)
  have "legacy_inv UNIV k M" by (rule legacy_step_inv [OF _ _ M(1)]) (use Cons.prems(1) n in auto)
  from Cons.IH [OF this _ _ M(2)] closed_handles_step [of k L S R x c M] Cons.prems n M(1) show ?case by simp
qed simp

text \<open>
  C26. A closed handle stays closed: whatever happens after a handle has been ended, sending, receiving
  or ending with it again is refused as an invalid parameter and changes nothing, and no new object
  gets its number.
\<close>

theorem closed_handle_is_refused:
  assumes "legacy_inv UNIV n L" "length ops \<le> n" "run_ops legacy_step ops L = Some N" "h < l_gNextHandle L"
  shows "(map_of (l_gSenderHandles L) h = None \<longrightarrow>
      efp_send_data h d ptype pts dts code st flags N = Some (EFP_INVALID_PARAMETER, N) \<and> efp_end_send h N = Some (EFP_INVALID_PARAMETER, N)) \<and>
    (map_of (l_gReceiverHandles L) h = None \<longrightarrow>
      efp_receive_fragment h d src N = Some (EFP_INVALID_PARAMETER, N) \<and> efp_end_receive h N = Some (EFP_INVALID_PARAMETER, N))"
proof -
  let ?S = "{h. map_of (l_gSenderHandles L) h = None \<and> h < l_gNextHandle L}" and ?R = "{h. map_of (l_gReceiverHandles L) h = None \<and> h < l_gNextHandle L}"
  have "closed_handles ?S ?R N" using closed_handles_run [OF assms(1,2) _ assms(3), of ?S ?R] by (simp add: closed_handles_def)
  with assms(4) show ?thesis
    by (simp add: closed_handles_def efp_send_data_def efp_end_send_def efp_receive_fragment_def efp_end_receive_def)
qed

theorem closed_handle_is_refused_witness:
  "\<exists>L M N. efp_init_send 1456 (Some 1) 2 (newCLib (\<lambda>_. True) (\<lambda>_ _. 0) (\<lambda>_ _. True)) = Some (1, L) \<and> efp_end_send 1 L = Some (EFP_OK, M) \<and>
     run_ops legacy_step [InitSend 1456 None 3, EndSend 2] M = Some N \<and>
     efp_send_data 1 [7, 8] 0 0 0 0 0 0 N = Some (EFP_INVALID_PARAMETER, N)"
proof -
  let ?L = "newCLib (\<lambda>_. True) (\<lambda>_ _. 0) (\<lambda>_ _. True)"
  note defs = efp_init_send_def efp_sender_create_def efp_sender_create_with_callback_def efp_sender_set_callback_def
    efp_end_send_def efp_sender_destroy_def newCLib_def
  obtain L where L: "efp_init_send 1456 (Some 1) 2 ?L = Some (1, L)" by (simp add: defs Let_def)
  then obtain M where M: "efp_end_send 1 L = Some (EFP_OK, M)" "map_of (l_gSenderHandles M) 1 = None" "l_gNextHandle M = 2"
    by (auto simp: defs Let_def)
  have new: "legacy_inv UNIV (Suc (2 ^ 63 - 1)) ?L" using legacy_inv_new by simp
  have "legacy_inv UNIV (2 ^ 63 - 1) L" by (rule legacy_step_inv [OF new, of "InitSend 1456 (Some 1) 2"]) (use L in simp_all)
  from end_send_inv [OF this, of 1] M(1) have inv: "legacy_inv UNIV (2 ^ 63 - 1) M" by simp
  have len: "length [InitSend 1456 None 3, EndSend 2] \<le> 2 ^ 63 - 1" by simp
  obtain N where N: "run_ops legacy_step [InitSend 1456 None 3, EndSend 2] M = Some N"
  proof (rule legacy_run_cases [OF inv len])
    fix pre x post K h g a k
    assume ops: "[InitSend 1456 None 3, EndSend 2] = pre @ x # post" and part: "receiver_part x = Some (h, g)"
    have "x \<in> set [InitSend 1456 None 3, EndSend 2]" unfolding ops by simp
    with part show thesis by auto
  qed (simp_all add: that del: run_ops.simps)
  have "1 < l_gNextHandle M" by (simp add: M(3))
  from closed_handle_is_refused [OF inv len N this] M(2) L M(1) N show ?thesis by blast
qed

section \<open>The walk over the sections\<close>

text \<open>The last section ends beyond the data.\<close>

function overruns :: "bytes \<Rightarrow> bool" where
  "overruns xs =
     (if length xs < 3 \<or> xs ! 0 = 0 then False
      else if xs ! 0 AND 0x80 \<noteq> 0 then length xs < 3 + section_size (xs ! 1) (xs ! 2)
      else overruns (drop (3 + section_size (xs ! 1) (xs ! 2)) xs))"
  by pat_completeness auto
termination by (relation "measure length") auto

declare overruns.simps [simp del]

lemma embedded_loop_end:
  assumes "sf_contents f = Some xs"
  shows "\<exists>e cs. embedded_loop cb ctx f off calls = Some (e, cs) \<and> (length xs < e \<longleftrightarrow> overruns (drop off xs))"
proof (induction "length xs - off" arbitrary: off calls rule: less_induct)
  case less
  note R = contents_read [OF assms]
  show ?case
  proof (cases "off + 3 \<le> length xs")
    case False
    then have "embedded_loop cb ctx f off calls = Some (0, calls)" by (subst embedded_loop.simps) (simp add: R(1))
    moreover have "\<not> overruns (drop off xs)" using False by (subst overruns.simps) auto
    ultimately show ?thesis by simp
  next
    case True
    let ?sz = "section_size (xs ! Suc off) (xs ! Suc (Suc off))" and ?off = "off + (3 + section_size (xs ! Suc off) (xs ! Suc (Suc off)))"
    have b: "frame_byte f off = Some (xs ! off)" "frame_byte f (Suc off) = Some (xs ! Suc off)"
      "frame_byte f (Suc (Suc off)) = Some (xs ! Suc (Suc off))"
      using R(2) True by simp_all
    obtain cs where cs: "(if off + 3 + ?sz \<le> sf_mSize f
        then do { d \<leftarrow> frame_range f (off + 3) ?sz; Some (calls @ [EmbeddedCall cb d (xs ! off AND 0x7F) (sf_mPts f) ctx]) }
        else Some calls) = Some cs"
      using R(3) [of "off + 3" ?sz] R(1) by (cases "off + 3 + ?sz \<le> length xs") simp_all
    have step: "embedded_loop cb ctx f off calls = (if xs ! off = 0 then Some (0, calls)
        else if xs ! off AND 0x80 \<noteq> 0 then Some (?off, cs) else embedded_loop cb ctx f ?off cs)"
      using True R(1) cs by (subst embedded_loop.simps) (simp add: b)
    have over: "overruns (drop off xs) \<longleftrightarrow> xs ! off \<noteq> 0 \<and>
        (if xs ! off AND 0x80 \<noteq> 0 then length xs < ?off else overruns (drop ?off xs))"
      using True by (subst overruns.simps) (auto simp: add.commute)
    show ?thesis
    proof (cases "xs ! off = 0 \<or> xs ! off AND 0x80 \<noteq> 0")
      case False
      have "length xs - ?off < length xs - off" using True by simp
      from less [OF this, of cs] False show ?thesis by (simp add: step over)
    qed (auto simp: step over)
  qed
qed

lemma wrapper_defined_iff:
  assumes "sf_contents f = Some xs" "frame_fits f"
    and "cr_mCallback rx = Some cb" "cr_mEmbeddedCallback rx = Some ecb"
    and "sf_mFlags f AND FLAG_INLINE_PAYLOAD \<noteq> 0" "\<not> sf_mBroken f"
  shows "receiveCallbackWrapper rx f \<noteq> None \<longleftrightarrow> \<not> overruns xs"
proof -
  from embedded_loop_end [OF assms(1), of ecb "cr_mpCtx rx" 0 "[]"] obtain e cs where
    loop: "embedded_loop ecb (cr_mpCtx rx) f 0 [] = Some (e, cs)" "length xs < e \<longleftrightarrow> overruns xs" by auto
  note R = contents_read [OF assms(1)]
  have "frame_range f e (size_sub (sf_mSize f) e) \<noteq> None \<longleftrightarrow> e \<le> length xs"
  proof (cases "e \<le> length xs")
    case True
    with R(3) [of e "length xs - e"] R(1) show ?thesis by simp
  next
    case False
    with assms(2) R(1) show ?thesis
      by (auto simp: frame_fits_def frame_range_def size_sub_def mem_load_def MAX_SUPERFRAME_SIZE_def)
  qed
  with loop assms(3-) show ?thesis by (auto simp: receiveCallbackWrapper_def)
qed






lemma wrapper_sections:
  assumes "sf_contents f = Some (embed ss p)" "ss \<noteq> []" "list_all section_ok ss"
    and "cr_mCallback rx = Some cb" "cr_mEmbeddedCallback rx = Some ecb"
    and "sf_mFlags f AND FLAG_INLINE_PAYLOAD \<noteq> 0" "\<not> sf_mBroken f"
  shows "receiveCallbackWrapper rx f = Some (map (\<lambda>(t, d). EmbeddedCall ecb (map Some d) t (sf_mPts f) (cr_mpCtx rx)) ss @
    [FrameCall cb (map Some p) (sf_mPayloadType f) 0 (sf_mPts f) (sf_mDts f) (sf_mPayloadCode f) (sf_mStreamId f)
      (sf_mSourceId f) (sf_mFlags f) (cr_mpCtx rx)])"
proof -
  let ?n = "length (embed ss p) - length p"
  have "\<exists>q. embed ss p = q @ p" for ss
  proof (induction ss)
    case (Cons s ss)
    then show ?case by (cases s) force
  qed simp
  then obtain q where q: "embed ss p = q @ p" by blast
  have "embedded_loop ecb (cr_mpCtx rx) f 0 [] = Some (?n, map (\<lambda>(t, d). EmbeddedCall ecb (map Some d) t (sf_mPts f) (cr_mpCtx rx)) ss)"
    using embedded_loop_sections [of f "[]" ss p ecb "cr_mpCtx rx" "[]"] assms(1-3) by simp
  moreover have "frame_range f ?n (size_sub (sf_mSize f) ?n) = Some (map Some p)"
    using contents_read(1,3) [OF assms(1)] by (simp add: q)
  ultimately show ?thesis using assms(4-) by (simp add: receiveCallbackWrapper_def)
qed

lemma add_extract:
  assumes "length dst = efp_embedded_calc_size (length e) (length p)" "3 + length e + length p < 2 ^ 64"
    and "length e < 65536" "t \<noteq> 0" "t AND 0x80 = 0" "length out = length e"
  shows "\<exists>d. efp_add_embedded_data (Some dst) (Some e) (Some p) (length e) (length p) t l = Some (0, Some d) \<and>
    length d = length dst \<and> drop (3 + length e) d = p \<and>
    efp_extract_embedded_data (Some d) (length d) (Some out) True True True =
      Some (EFP_OK, \<lparr>ex_apEmbeddedOut = Some e, ex_apEmbeddedSizeOut = Some (length e), ex_apTypeOut = Some t,
        ex_apPayloadOffsetOut = Some (3 + length e)\<rparr>)"
proof -
  let ?t = "if l \<noteq> 0 then t OR EFP_EMBEDDED_LAST else t"
  let ?d = "section_header ?t (length e) @ e @ p"
  have len: "length dst = 3 + length e + length p" using assms(1,2) by (simp add: efp_embedded_calc_size_def)
  have t: "?t \<noteq> 0" "?t AND 0x7F = t" using assms(4) type_byte [OF assms(5)] by (simp_all add: EFP_EMBEDDED_LAST_def)
  have "efp_extract_embedded_data (Some ?d) (length ?d) (Some out) True True True =
      Some (EFP_OK, \<lparr>ex_apEmbeddedOut = Some e, ex_apEmbeddedSizeOut = Some (length e), ex_apTypeOut = Some t,
        ex_apPayloadOffsetOut = Some (3 + length e)\<rparr>)"
    using t assms(3,6) section_size_bytes [of "length e"]
    by (auto simp: efp_extract_embedded_data_def mem_load_def mem_write_def section_header_def Let_def)
  then show ?thesis using add_embedded_bytes [OF len, of t l] len
    by (intro exI [of _ ?d]) simp
qed

section \<open>Embedded data\<close>

text \<open>
  C36. A complete frame whose contents are sections of embedded data in front of a payload comes apart
  into its sections, one call each, in order and with their types, followed by the frame's call with
  the payload alone.
\<close>

theorem embedded_sections_are_called_back:
  assumes "sf_contents f = Some (embed ss p)" "ss \<noteq> []" "list_all section_ok ss"
    and "cr_mCallback rx = Some cb" "cr_mEmbeddedCallback rx = Some ecb"
    and "sf_mFlags f AND FLAG_INLINE_PAYLOAD \<noteq> 0" "\<not> sf_mBroken f"
  shows "receiveCallbackWrapper rx f = Some (map (\<lambda>(t, d). EmbeddedCall ecb (map Some d) t (sf_mPts f) (cr_mpCtx rx)) ss @
    [FrameCall cb (map Some p) (sf_mPayloadType f) 0 (sf_mPts f) (sf_mDts f) (sf_mPayloadCode f) (sf_mStreamId f)
      (sf_mSourceId f) (sf_mFlags f) (cr_mpCtx rx)])"
  using assms by (rule wrapper_sections)

theorem embedded_sections_are_called_back_witness:
  "\<exists>f cs. sf_contents f = Some (embed [(1, [7, 8]), (2, [])] [9]) \<and>
     receiveCallbackWrapper \<lparr>cr_mpReceiver = None, cr_mCallback = Some 1, cr_mEmbeddedCallback = Some 2, cr_mNackCallback = None, cr_mpCtx = 3\<rparr> f =
       Some ([EmbeddedCall 2 [Some 7, Some 8] 1 0 3, EmbeddedCall 2 [] 2 0 3] @ cs) \<and> length cs = 1"
proof -
  let ?xs = "embed [(1, [7, 8]), (2, [])] [9 :: u8]"
  let ?f = "\<lparr>sf_mpData = Some (map Some ?xs), sf_mSize = 9, sf_mPayloadType = 0, sf_mPayloadCode = 0, sf_mPts = 0, sf_mDts = 0,
    sf_mStreamId = 0, sf_mSourceId = 0, sf_mFlags = 0x10, sf_mSuperFrameNo = 0, sf_mBroken = False\<rparr>"
  have c: "sf_contents ?f = Some ?xs" by (simp add: sf_contents_def mem_load_def section_header_def comp_def)
  show ?thesis
    using embedded_sections_are_called_back [OF c, of
      "\<lparr>cr_mpReceiver = None, cr_mCallback = Some 1, cr_mEmbeddedCallback = Some 2, cr_mNackCallback = None, cr_mpCtx = 3\<rparr>" 1 2] c
    by (intro exI [of _ ?f]) (simp add: section_ok_def FLAG_INLINE_PAYLOAD_def)
qed

text \<open>
  C25. \<open>efp_add_embedded_data\<close> and \<open>efp_extract_embedded_data\<close> are inverse to each other, for embedded data
  of less than 64 KiB and a type between 1 and 127: the extraction finds the data, its size and type,
  and the offset at which the payload starts.
\<close>

theorem embedded_data_round_trip:
  assumes "length dst = efp_embedded_calc_size (length e) (length p)" "3 + length e + length p < 2 ^ 64"
    and "length e < 65536" "t \<noteq> 0" "t AND 0x80 = 0" "length out = length e"
  shows "\<exists>d. efp_add_embedded_data (Some dst) (Some e) (Some p) (length e) (length p) t l = Some (0, Some d) \<and>
    length d = length dst \<and> drop (3 + length e) d = p \<and>
    efp_extract_embedded_data (Some d) (length d) (Some out) True True True =
      Some (EFP_OK, \<lparr>ex_apEmbeddedOut = Some e, ex_apEmbeddedSizeOut = Some (length e), ex_apTypeOut = Some t,
        ex_apPayloadOffsetOut = Some (3 + length e)\<rparr>)"
  using assms by (rule add_extract)

theorem embedded_data_round_trip_witness:
  "\<exists>d. efp_add_embedded_data (Some (replicate 7 0)) (Some [1, 2]) (Some [3, 4]) 2 2 5 1 = Some (0, Some d) \<and>
     efp_extract_embedded_data (Some d) 7 (Some [0, 0]) True True True =
       Some (EFP_OK, \<lparr>ex_apEmbeddedOut = Some [1, 2], ex_apEmbeddedSizeOut = Some 2, ex_apTypeOut = Some 5, ex_apPayloadOffsetOut = Some 5\<rparr>)"
  using embedded_data_round_trip [of "replicate 7 0" "[1, 2]" "[3, 4]" 5 "[0, 0]" 1]
  by (simp add: efp_embedded_calc_size_def numeral_2_eq_2 [symmetric]) (auto simp: numeral_2_eq_2)

text \<open>
  C24. The wrapper of the receive callback stays within the frame exactly when the section marked as the
  last one ends within it. Nothing checks this: the frame \<open>81 FF FF\<close> makes it read beyond the buffer.
\<close>

theorem wrapper_stays_in_bounds:
  assumes "sf_contents f = Some xs" "frame_fits f"
    and "cr_mCallback rx = Some cb" "cr_mEmbeddedCallback rx = Some ecb"
    and "sf_mFlags f AND FLAG_INLINE_PAYLOAD \<noteq> 0" "\<not> sf_mBroken f"
  shows "receiveCallbackWrapper rx f \<noteq> None \<longleftrightarrow> \<not> overruns xs"
  using assms by (rule wrapper_defined_iff)

theorem wrapper_stays_in_bounds_witness:
  "\<exists>f. sf_contents f = Some [0x81, 0xFF, 0xFF] \<and>
     receiveCallbackWrapper \<lparr>cr_mpReceiver = None, cr_mCallback = Some 1, cr_mEmbeddedCallback = Some 2, cr_mNackCallback = None, cr_mpCtx = 3\<rparr> f = None"
proof -
  let ?f = "\<lparr>sf_mpData = Some (map Some [0x81, 0xFF, 0xFF]), sf_mSize = 3, sf_mPayloadType = 0, sf_mPayloadCode = 0, sf_mPts = 0, sf_mDts = 0,
    sf_mStreamId = 0, sf_mSourceId = 0, sf_mFlags = 0x10, sf_mSuperFrameNo = 0, sf_mBroken = False\<rparr>"
  have c: "sf_contents ?f = Some [0x81, 0xFF, 0xFF]" by (simp add: sf_contents_def mem_load_def comp_def)
  have f: "frame_fits ?f" by (simp add: frame_fits_def MAX_SUPERFRAME_SIZE_def)
  have o: "overruns [0x81, 0xFF, 0xFF]" by (subst overruns.simps) (simp add: section_size_def)
  show ?thesis
    using wrapper_stays_in_bounds [OF c f, of
      "\<lparr>cr_mpReceiver = None, cr_mCallback = Some 1, cr_mEmbeddedCallback = Some 2, cr_mNackCallback = None, cr_mpCtx = 3\<rparr>" 1 2] c o
    by (intro exI [of _ ?f]) (simp add: FLAG_INLINE_PAYLOAD_def)
qed

section \<open>Surprises\<close>

text \<open>Embedded data of 64 KiB or more is accepted, but its size field wraps.\<close>

theorem embedded_size_wraps:
  assumes "65536 \<le> length e" "length dst = 3 + length e + length p" "t \<noteq> 0" "t AND 0x80 = 0"
  shows "\<exists>d. efp_add_embedded_data (Some dst) (Some e) (Some p) (length e) (length p) t 0 = Some (0, Some d) \<and>
    (\<exists>x. efp_extract_embedded_data (Some d) (length d) None True True True = Some (EFP_OK, x) \<and>
      ex_apEmbeddedSizeOut x = Some (length e mod 65536))"
proof -
  let ?d = "section_header t (length e) @ e @ p"
  have "length e mod 65536 \<le> length e" by simp
  then have "3 + length e mod 65536 \<le> length ?d" by simp
  from extract_section [OF assms(3) this refl] add_embedded_bytes [OF assms(2), of t 0] show ?thesis by simp
qed

text \<open>The MTU of \<open>efp_init_send\<close> is 64 bits wide and is cut to 16 bits.\<close>

theorem init_send_cuts_mtu:
  "efp_init_send (mtu + 65536) cb ctx L = efp_init_send mtu cb ctx L"
proof -
  have "(unat mtu + 65536) mod 2 ^ 64 mod 2 ^ 16 = (unat mtu + 65536) mod 2 ^ 16" by (rule mod_mod_cancel) simp
  then have "(ucast (mtu + 65536) :: u16) = ucast mtu"
    by (intro word_unat_eq_iff [THEN iffD2]) (simp add: unsigned_ucast_eq take_bit_eq_mod unat_word_ariths)
  then show ?thesis by (simp add: efp_init_send_def)
qed

text \<open>Setting the callback of a sender makes a new sender, whose superframe numbers start again.\<close>

theorem set_callback_restarts_sender:
  assumes "l_senders L a = Some x"
  shows "\<exists>M y s. efp_sender_set_callback (Some a) cb ctx L = Some M \<and> l_senders M a = Some y \<and>
    cs_mpSender y = Some s \<and> s_mSuperFrameNo s = 0"
  using assms by (simp add: efp_sender_set_callback_def makeCSender_def newSender_def Let_def)

end
