(* ===== verification/Efp_CDelivery.thy ===== *)
theory Efp_CDelivery
  imports Efp_CApiProps Efp_ReceiverProps Efp_Requeue Efp_EndToEnd
begin

text \<open>
  The legacy C interface end to end: its operations on a receiver handle do what the receiver's
  operations do, so a payload sent through one handle reaches the callback of the other.
\<close>

section \<open>Through a handle\<close>

text \<open>The handle stands for an object like \<open>y\<close> around the receiver \<open>r\<close>.\<close>

definition receiver_at :: "u64 \<Rightarrow> efp_receiver_s \<Rightarrow> Receiver \<Rightarrow> CLib \<Rightarrow> bool" where
  "receiver_at h y r L \<longleftrightarrow>
     (\<exists>b. map_of (l_gReceiverHandles L) h = Some b \<and> l_receivers L b = Some (y\<lparr>cr_mpReceiver := Some r\<rparr>))"

lemma wrapper_object [simp]: "receiveCallbackWrapper (y\<lparr>cr_mpReceiver := z\<rparr>) = receiveCallbackWrapper y"
proof -
  have fields: "cr_mCallback (y\<lparr>cr_mpReceiver := z\<rparr>) = cr_mCallback y" "cr_mpCtx (y\<lparr>cr_mpReceiver := z\<rparr>) = cr_mpCtx y"
    "cr_mEmbeddedCallback (y\<lparr>cr_mpReceiver := z\<rparr>) = cr_mEmbeddedCallback y" by simp_all
  show ?thesis unfolding receiveCallbackWrapper_def fields ..
qed

lemma wrap_frames_object [simp]: "wrap_frames (y\<lparr>cr_mpReceiver := z\<rparr>) fs = wrap_frames y fs"
  by (induction fs) simp_all

lemma on_receiver_frames:
  assumes "r_delivered s = r_delivered r @ fs" "cr_mNackCallback x = None" "wrap_frames x fs = Some cs"
  shows "on_receiver b x r s L =
    Some (L\<lparr>l_receivers := (l_receivers L)(b \<mapsto> x\<lparr>cr_mpReceiver := Some s\<rparr>), l_calls := l_calls L @ cs\<rparr>)"
proof -
  have "concat (map (nackCallbackWrapper x) ns) = []" for ns
    using assms(2) by (induction ns) (simp_all add: nackCallbackWrapper_def)
  with assms(1,3) show ?thesis by (simp add: on_receiver_def)
qed

lemma receive_same_world:
  assumes "receive p src r = Some (res, s)" "r_mMode r = THREADED"
  shows "same_world r s"
proof (cases "p = [] \<or> \<not> named_type (getFrameType (hd p))")
  case True
  with assms(1) show ?thesis by (auto simp: receive_def same_world_def split: if_splits)
next
  case False
  with assms(1) obtain q u where u: "dispatch p src r = Some (q, u)" by (auto simp: receive_def split: bind_splits)
  from same_world_dispatch [OF u] assms u False show ?thesis by (auto simp: receive_def same_world_def)
qed

lemma arrivals_same_world:
  "run_ops receiver_step (arrivals qs) r = Some u \<Longrightarrow> r_mMode r = THREADED \<Longrightarrow> same_world r u"
proof (induction qs arbitrary: r)
  case Nil
  then show ?case by (simp add: arrivals_def same_world_def)
next
  case (Cons x qs)
  obtain p i where x: "x = (p, i)" by (cases x)
  with Cons.prems(1) obtain q s where s: "receive p i r = Some (q, s)" "run_ops receiver_step (arrivals qs) s = Some u"
    by (auto simp: arrivals_def split: bind_splits option.splits)
  have w: "same_world r s" by (rule receive_same_world [OF s(1) Cons.prems(2)])
  then have "r_mMode s = THREADED" using Cons.prems(2) by (simp add: same_world_def)
  from same_world_trans [OF w Cons.IH [OF s(2) this]] show ?case .
qed

lemma fragment_through:
  assumes "receiver_at h y r L" "cr_mNackCallback y = None" "receive p src r = Some (res, s)" "r_mMode r = THREADED"
  shows "\<exists>c M. legacy_step (ReceiveFragment h p src) L = Some (c, M) \<and> receiver_at h y s M \<and> l_calls M = l_calls L"
proof -
  have "r_delivered s = r_delivered r @ []" using receive_same_world [OF assms(3,4)] by (simp add: same_world_def)
  note run = on_receiver_frames [OF this, of "y\<lparr>cr_mpReceiver := Some r\<rparr>" "[]"]
  from assms(1-3) run show ?thesis
    by (auto simp: receiver_at_def efp_receive_fragment_def efp_receiver_receive_def)
qed

lemma fragments_through:
  "receiver_at h y r L \<Longrightarrow> cr_mNackCallback y = None \<Longrightarrow> r_mMode r = THREADED \<Longrightarrow> run_ops receiver_step (arrivals qs) r = Some u \<Longrightarrow>
   \<exists>M. run_ops legacy_step (map (\<lambda>(p, i). ReceiveFragment h p i) qs) L = Some M \<and> receiver_at h y u M \<and> l_calls M = l_calls L"
proof (induction qs arbitrary: r L)
  case Nil
  then show ?case by (simp add: arrivals_def)
next
  case (Cons x qs)
  obtain p i where x: "x = (p, i)" by (cases x)
  with Cons.prems(4) obtain q s where s: "receive p i r = Some (q, s)" "run_ops receiver_step (arrivals qs) s = Some u"
    by (auto simp: arrivals_def split: bind_splits option.splits)
  from fragment_through [OF Cons.prems(1,2) s(1) Cons.prems(3)] obtain c K where
    K: "legacy_step (ReceiveFragment h p i) L = Some (c, K)" "receiver_at h y s K" "l_calls K = l_calls L" by blast
  have "r_mMode s = THREADED" using receive_same_world [OF s(1) Cons.prems(3)] Cons.prems(3) by (simp add: same_world_def)
  from Cons.IH [OF K(2) Cons.prems(2) this s(2)] K(1,3) x show ?case by (auto simp del: legacy_step.simps)
qed

lemma worker_queue:
  assumes "recv_inv r" "workerTick r = Some s" "r_mMode r = THREADED" "r_mDeliveryQueue r = []"
  shows "r_delivered s = r_delivered r" "r_mRunning s = r_mRunning r" "r_mDeliveryQueue s \<noteq> [] \<Longrightarrow> r_mDeliveryReady s"
proof -
  have "r_delivered s = r_delivered r \<and> r_mRunning s = r_mRunning r \<and> (r_mDeliveryQueue s \<noteq> [] \<longrightarrow> r_mDeliveryReady s)"
  proof (cases "r_mRunning r")
    case False
    with assms(2,4) show ?thesis by (simp add: workerTick_def)
  next
    case True
    obtain t u where t: "r_nowUs r = (t, u)" by (cases "r_nowUs r")
    then have u: "recv_inv u" "r_mMode u = THREADED" "r_mDeliveryQueue u = []" "r_delivered u = r_delivered r" "r_mRunning u = r_mRunning r"
      using assms(1,3,4) by (auto simp: r_nowUs_def nowUs_def recv_inv_def)
    from processNacks_safe [OF u(1)] obtain v where v: "processNacks u = Some v" "nacked u v" by blast
    with True assms(2) t obtain js where js: "deliver_loop js v = Some s"
      by (auto simp: workerTick_def processTimeouts_def Let_def)
    have m: "r_mMode v = THREADED" using u(2) v(2) by (simp add: nacked_def)
    obtain fs where fs: "length fs = length js" "s = requeue (r_mDeliveryQueue v @ fs) (r_mDeliveryReady v \<or> js \<noteq> []) (r_delivered v) s"
      by (rule deliver_loop_frames [OF m js]) blast
    have "r_mDeliveryQueue s = r_mDeliveryQueue v @ fs" "r_mDeliveryReady s = (r_mDeliveryReady v \<or> js \<noteq> [])" "r_delivered s = r_delivered v"
      by (subst fs(2), simp)+
    with fs(1) deliver_loop_running [OF m js] u v(2) show ?thesis by (auto simp: nacked_def)
  qed
  then show "r_delivered s = r_delivered r" "r_mRunning s = r_mRunning r" "r_mDeliveryQueue s \<noteq> [] \<Longrightarrow> r_mDeliveryReady s" by blast+
qed

lemma turn_through:
  assumes "receiver_at h y r L" "cr_mNackCallback y = None" "f r = Some s" "r_delivered s = r_delivered r @ fs" "wrap_frames y fs = Some cs"
  shows "\<exists>M. thread_turn (\<lambda>b. receiver_method f (Some b)) h L = Some (0, M) \<and> receiver_at h y s M \<and> l_calls M = l_calls L @ cs"
  using assms on_receiver_frames [OF assms(4), of "y\<lparr>cr_mpReceiver := Some r\<rparr>" cs]
  by (auto simp: receiver_at_def thread_turn_def receiver_method_def)

lemma delivery_through:
  "receiver_at h y r L \<Longrightarrow> cr_mNackCallback y = None \<Longrightarrow> r_mRunning r \<Longrightarrow> (q \<noteq> [] \<Longrightarrow> r_mDeliveryReady r) \<Longrightarrow>
   r_mDeliveryQueue r = q \<Longrightarrow> wrap_frames y q = Some cs \<Longrightarrow>
   \<exists>M. run_ops legacy_step (replicate (length q) (DeliveryTurn h)) L = Some M \<and> l_calls M = l_calls L @ cs"
proof (induction q arbitrary: r L cs)
  case (Cons f q)
  let ?s = "r\<lparr>r_mDeliveryQueue := q, r_mDeliveryReady := (q \<noteq> []), r_delivered := r_delivered r @ [f]\<rparr>"
  from Cons.prems(6) obtain c d where cs: "wrap_frames y [f] = Some c" "wrap_frames y q = Some d" "cs = c @ d"
    by (auto split: bind_splits)
  have turn: "receiver_delivery_turn = (\<lambda>b. receiver_method (\<lambda>r. Some (deliveryTick r)) (Some b))"
    by (simp add: receiver_delivery_turn_def fun_eq_iff)
  have "deliveryTick r = ?s" using Cons.prems(3-5) by (simp add: deliveryTick_def)
  then obtain K where K: "thread_turn receiver_delivery_turn h L = Some (0, K)" "receiver_at h y ?s K" "l_calls K = l_calls L @ c"
    using turn_through [OF Cons.prems(1,2), of "\<lambda>r. Some (deliveryTick r)" ?s "[f]" c] cs(1)
    unfolding turn by auto
  from Cons.IH [OF K(2) Cons.prems(2) _ _ _ cs(2)] Cons.prems(3) K(1,3) cs(3) show ?case by auto
qed simp

section \<open>From handle to handle\<close>

lemma resultCode_OK: "resultCode q = 0 \<longleftrightarrow> q = OK"
  by (cases q) simp_all

lemma wrap_single:
  assumes "cr_mCallback y = Some cb" "cr_mEmbeddedCallback y = None" "list_all frame_fits fs"
  obtains cs where "wrap_frames y fs = Some cs" "list_all2 (\<lambda>f c. receiveCallbackWrapper y f = Some [c]) fs cs"
proof -
  have one: "\<exists>c. receiveCallbackWrapper y f = Some [c]" if "frame_fits f" for f
    using wrapper_defined [OF that, of y] assms(1,2) by (auto simp: receiveCallbackWrapper_def split: bind_splits)
  have "\<exists>cs. wrap_frames y fs = Some cs \<and> list_all2 (\<lambda>f c. receiveCallbackWrapper y f = Some [c]) fs cs" using assms(3)
  proof (induction fs)
    case (Cons f fs)
    with one [of f] show ?case by force
  qed simp
  with that show ?thesis by blast
qed

lemma delivered_call:
  assumes "delivers d ptype pts dts code st flags src f" "cr_mCallback y = Some cb" "cr_mEmbeddedCallback y = None"
  shows "receiveCallbackWrapper y f = Some [FrameCall cb (map Some d) ptype 0 pts (carried_dts pts dts) code st src (flags AND 0xF0) (cr_mpCtx y)]"
proof -
  have c: "sf_contents f = Some d" using assms(1) by (simp add: delivers_def)
  note R = contents_read [OF c]
  have "frame_range f 0 (size_sub (sf_mSize f) 0) = Some (map Some d)"
    using R(3) [of 0 "length d"] R(1) by (simp add: size_sub_le)
  with assms show ?thesis by (simp add: receiveCallbackWrapper_def delivers_def)
qed

lemma send_through:
  assumes "legacy_inv UNIV n L" "map_of (l_gSenderHandles L) h = Some a" "l_senders L a = Some x" "cs_mpSender x = Some s"
    and "s_mRetransmitQueue s = []" "cs_wrapper x = \<lparr>sw_mpCallback = Some cb, sw_mpCtx = ctx\<rparr>"
    and "efp_send_data h d ptype pts dts code st flags L = Some (EFP_OK, M)"
  shows "\<exists>t ps. sender_inv s \<and> send d ptype pts dts code st flags s = Some (OK, t) \<and> s_out t = s_out s @ ps \<and>
    l_calls M = l_calls L @ map (\<lambda>(p, i). SendCall cb p i ctx) ps \<and>
    l_gReceiverHandles M = l_gReceiverHandles L \<and> l_receivers M = l_receivers L"
proof -
  have inv: "sender_inv s" using legacy_objects(1) [OF assms(1,2)] assms(3,4) by auto
  obtain q t where t: "send d ptype pts dts code st flags s = Some (q, t)" using send_total [OF inv] by blast
  have q: "q = OK" using assms(2-4,7) t resultCode_OK by (auto simp: efp_send_data_def efp_sender_send_def EFP_OK_def)
  from send_carries(2) [OF inv t q] obtain ps where ps: "s_out t = s_out s @ ps" by (auto simp: carries_def)
  have "concat (map (sendCallbackWrapper (cs_wrapper x)) zs) = map (\<lambda>(p, i). SendCall cb p i ctx) zs" for zs
    by (induction zs) (auto simp: sendCallbackWrapper_def assms(6))
  with inv t q ps assms(2-4,7) show ?thesis by (auto simp: efp_send_data_def efp_sender_send_def)
qed

text \<open>
  C11. A payload sent through one legacy handle reaches the callback of another: the packets leave through
  the callback of the sender, and once all of them have been passed to the receiving handle, in any
  order, repeated and among packets of other superframes, the turns of the two threads make exactly one
  call for the superframe, with the payload, its metadata and the context the application gave.
\<close>

theorem legacy_handles_deliver:
  assumes "legacy_inv UNIV n L"
    and "map_of (l_gSenderHandles L) hs = Some a" "l_senders L a = Some x" "cs_mpSender x = Some s"
    and "s_mRetransmitQueue s = []" "cs_wrapper x = \<lparr>sw_mpCallback = Some cb, sw_mpCtx = ctx\<rparr>"
    and "map_of (l_gReceiverHandles L) hr = Some b" "l_receivers L b = Some y" "cr_mpReceiver y = Some r"
    and "cr_mCallback y = Some rcb" "cr_mEmbeddedCallback y = None" "cr_mNackCallback y = None"
    and "can_open (s_mSuperFrameNo s) r" "r_mMode r = THREADED" "r_mRunning r" "r_mDeliveryQueue r = []"
    and "efp_send_data hs d ptype pts dts code st flags L = Some (EFP_OK, M)" "length d + 131072 \<le> MAX_SUPERFRAME_SIZE"
  shows "\<exists>ps. l_calls M = l_calls L @ map (\<lambda>(p, i). SendCall cb p i ctx) ps \<and>
    (\<forall>qs. network (s_mSuperFrameNo s) src ps qs \<longrightarrow>
      (\<exists>k N fs cs f. run_ops legacy_step (map (\<lambda>(p, i). ReceiveFragment hr p i) qs @ WorkerTurn hr # replicate k (DeliveryTurn hr)) M = Some N \<and>
        l_calls N = l_calls M @ cs \<and> list_all2 (\<lambda>f c. receiveCallbackWrapper y f = Some [c]) fs cs \<and>
        filter (\<lambda>f. sf_mSuperFrameNo f = s_mSuperFrameNo s) fs = [f] \<and>
        receiveCallbackWrapper y f =
          Some [FrameCall rcb (map Some d) ptype 0 pts (carried_dts pts dts) code st src (flags AND 0xF0) (cr_mpCtx y)]))"
proof -
  from send_through [OF assms(1-6,17)] obtain t ps where
    t: "sender_inv s" "send d ptype pts dts code st flags s = Some (OK, t)" "s_out t = s_out s @ ps"
      "l_calls M = l_calls L @ map (\<lambda>(p, i). SendCall cb p i ctx) ps" "l_gReceiverHandles M = l_gReceiverHandles L"
      "l_receivers M = l_receivers L" by blast
  have y: "recv_inv r" using legacy_objects(2) [OF assms(1,7)] assms(8,9) by auto
  have "y\<lparr>cr_mpReceiver := Some r\<rparr> = y" using assms(9) by simp
  then have at: "receiver_at hr y r M" using t(5,6) assms(7,8) by (simp add: receiver_at_def)
  have "\<exists>k N fs cs f. run_ops legacy_step (map (\<lambda>(p, i). ReceiveFragment hr p i) qs @ WorkerTurn hr # replicate k (DeliveryTurn hr)) M = Some N \<and>
      l_calls N = l_calls M @ cs \<and> list_all2 (\<lambda>f c. receiveCallbackWrapper y f = Some [c]) fs cs \<and>
      filter (\<lambda>f. sf_mSuperFrameNo f = s_mSuperFrameNo s) fs = [f] \<and>
      receiveCallbackWrapper y f =
        Some [FrameCall rcb (map Some d) ptype 0 pts (carried_dts pts dts) code st src (flags AND 0xF0) (cr_mpCtx y)]"
    if net: "network (s_mSuperFrameNo s) src ps qs" for qs
  proof -
    from sent_is_delivered [OF t(1) assms(5) t(2,3) assms(18) y assms(13-15) net] obtain u v fs f where
      u: "run_ops receiver_step (arrivals qs) r = Some u" "r_mDeliveryQueue u = []" "workerTick u = Some v" "r_mDeliveryQueue v = fs"
        "filter (\<lambda>f. sf_mSuperFrameNo f = s_mSuperFrameNo s) fs = [f]" "delivers d ptype pts dts code st flags src f"
      using assms(16) by auto
    from receiver.run_safe [OF y, of "arrivals qs"] u(1) have ui: "recv_inv u" by simp
    from workerTick_safe [OF ui] u(3) have vi: "recv_inv v" by simp
    have world: "r_mMode u = THREADED" "r_mRunning u" using arrivals_same_world [OF u(1) assms(14)] assms(14,15) by (simp_all add: same_world_def)
    note w = worker_queue [OF ui u(3) world(1) u(2)]
    from fragments_through [OF at assms(12,14) u(1)] obtain K where
      K: "run_ops legacy_step (map (\<lambda>(p, i). ReceiveFragment hr p i) qs) M = Some K" "receiver_at hr y u K" "l_calls K = l_calls M" by blast
    have "receiver_worker_turn = (\<lambda>b. receiver_method workerTick (Some b))" by (simp add: receiver_worker_turn_def fun_eq_iff)
    with turn_through [OF K(2) assms(12), of workerTick v "[]" "[]"] u(3) w(1) obtain J where
      J: "legacy_step (WorkerTurn hr) K = Some (0, J)" "receiver_at hr y v J" "l_calls J = l_calls K" by auto
    have "list_all frame_fits fs" using recv_invD(5) [OF vi] u(4) by simp
    from wrap_single [OF assms(10) assms(11) this] obtain cs where
      cs: "wrap_frames y fs = Some cs" "list_all2 (\<lambda>f c. receiveCallbackWrapper y f = Some [c]) fs cs" by blast
    from delivery_through [OF J(2) assms(12) _ _ u(4) cs(1)] w(2,3) world(2) u(4) obtain N where
      N: "run_ops legacy_step (replicate (length fs) (DeliveryTurn hr)) J = Some N" "l_calls N = l_calls J @ cs" by auto
    have "run_ops legacy_step (map (\<lambda>(p, i). ReceiveFragment hr p i) qs @ WorkerTurn hr # replicate (length fs) (DeliveryTurn hr)) M = Some N"
      using K(1) J(1) N(1) by (simp add: run_ops_append del: legacy_step.simps)
    with N(2) J(3) K(3) cs(2) u(5) delivered_call [OF u(6) assms(10) assms(11)] show ?thesis by metis
  qed
  with t(4) show ?thesis by blast
qed

section \<open>Witnesses\<close>

lemma sample_handles:
  obtains L where "legacy_inv UNIV 0 L" "run_ops legacy_step [InitSend 256 (Some 1) 5, InitReceive 100 0 (Some 2) None 6 1]
      (newCLib (\<lambda>_. True) (\<lambda>_ _. 0) (\<lambda>_ _. True)) = Some L" "l_calls L = []"
    "map_of (l_gSenderHandles L) 1 = Some 1" "map_of (l_gReceiverHandles L) 2 = Some 2"
    "l_senders L 1 = Some \<lparr>cs_mpSender = Some (makeCSender 256 (\<lambda>_. 0)), cs_wrapper = \<lparr>sw_mpCallback = Some 1, sw_mpCtx = 5\<rparr>,
       cs_mCallback = Some 1, cs_mpCtx = 5, cs_mMtu = 256\<rparr>"
    "l_receivers L 2 = Some \<lparr>cr_mpReceiver = Some (default_receiver (\<lambda>_. True)), cr_mCallback = Some 2,
       cr_mEmbeddedCallback = None, cr_mNackCallback = None, cr_mpCtx = 6\<rparr>"
proof -
  let ?ops = "[InitSend 256 (Some 1) 5, InitReceive 100 0 (Some 2) None 6 1]" and ?L = "newCLib (\<lambda>_. True) (\<lambda>_ _. 0) (\<lambda>_ _. True)"
  have len: "length ?ops \<le> 2 ^ 63" by simp
  obtain L where L: "run_ops legacy_step ?ops ?L = Some L" "legacy_inv UNIV (2 ^ 63 - length ?ops) L"
  proof (rule legacy_run_cases [OF legacy_inv_new len, of UNIV "\<lambda>_. True" "\<lambda>_ _. 0" "\<lambda>_ _. True"])
    fix pre x post K h g a k
    assume ops: "?ops = pre @ x # post" and part: "receiver_part x = Some (h, g)"
    have "x \<in> set ?ops" unfolding ops by simp
    with part show thesis by auto
  qed (simp_all add: that del: run_ops.simps)
  have new: "newReceiver DEFAULT_BUFFER_SIZE 100 0 3 0 THREADED (\<lambda>_. 0) (\<lambda>_. True) = Inr (default_receiver (\<lambda>_. True))"
    using default_receiver_new by (simp add: DEFAULT_BUFFER_SIZE_def)
  from L(1) new show ?thesis
    by (intro that [of L])
      (use L(2) in \<open>auto simp: efp_init_send_def efp_sender_create_def efp_sender_create_with_callback_def efp_sender_set_callback_def
        efp_init_receive_def efp_receiver_create_def efp_receiver_create_with_callback_def efp_receiver_set_callback_def
        efp_receiver_set_embedded_callback_def newCLib_def legacy_inv_def Let_def\<close>)
qed

lemma c_sender_accepts: "send_outcome (replicate 300 7) (makeCSender 256 clk) = OK"
  by (simp add: send_outcome_def sent_total_def makeCSender_def newSender_def type1_frame_size_def fragmentPlan_def
      MAX_SUPERFRAME_SIZE_def MAX_FRAGMENTS_PER_SUPERFRAME_def Let_def)

theorem legacy_handles_deliver_witness:
  "\<exists>L M ps k N. run_ops legacy_step [InitSend 256 (Some 1) 5, InitReceive 100 0 (Some 2) None 6 1] (newCLib (\<lambda>_. True) (\<lambda>_ _. 0) (\<lambda>_ _. True)) = Some L \<and>
     efp_send_data 1 (replicate 300 7) 1 90 80 5 3 0x10 L = Some (EFP_OK, M) \<and> l_calls M = map (\<lambda>(p, i). SendCall 1 p i 5) ps \<and>
     run_ops legacy_step (map (\<lambda>(p, i). ReceiveFragment 2 p 9) (rev ps @ ps) @ WorkerTurn 2 # replicate k (DeliveryTurn 2)) M = Some N \<and>
     FrameCall 2 (replicate 300 (Some 7)) 1 0 90 80 5 3 9 0x10 6 \<in> set (l_calls N)"
proof -
  let ?s = "makeCSender 256 (\<lambda>_. 0)" and ?r = "default_receiver (\<lambda>_. True)" and ?d = "replicate 300 (7 :: u8)"
  let ?y = "\<lparr>cr_mpReceiver = Some ?r, cr_mCallback = Some 2, cr_mEmbeddedCallback = None, cr_mNackCallback = None, cr_mpCtx = 6\<rparr>"
  obtain L where L: "legacy_inv UNIV 0 L" "run_ops legacy_step [InitSend 256 (Some 1) 5, InitReceive 100 0 (Some 2) None 6 1]
      (newCLib (\<lambda>_. True) (\<lambda>_ _. 0) (\<lambda>_ _. True)) = Some L" "l_calls L = []"
    "map_of (l_gSenderHandles L) 1 = Some 1" "map_of (l_gReceiverHandles L) 2 = Some 2"
    "l_senders L 1 = Some \<lparr>cs_mpSender = Some ?s, cs_wrapper = \<lparr>sw_mpCallback = Some 1, sw_mpCtx = 5\<rparr>,
       cs_mCallback = Some 1, cs_mpCtx = 5, cs_mMtu = 256\<rparr>" "l_receivers L 2 = Some ?y"
    by (rule sample_handles)
  have s: "sender_inv ?s" "s_mRetransmitQueue ?s = []" "s_mSuperFrameNo ?s = 0"
    by (simp_all add: makeCSender_def sender_inv_new) (simp_all add: newSender_def Let_def)
  obtain q t where t: "send ?d 1 90 80 5 3 0x10 ?s = Some (q, t)" using send_total [OF s(1)] by blast
  have q: "q = OK" using send_carries(1) [OF s(1) t] c_sender_accepts by simp
  with t L(4,6) obtain M where M: "efp_send_data 1 ?d 1 90 80 5 3 0x10 L = Some (EFP_OK, M)"
    by (simp add: efp_send_data_def efp_sender_send_def EFP_OK_def)
  note new = new_can_open [OF default_receiver_new [of "\<lambda>_. True"]]
  have r: "r_mDeliveryQueue ?r = []" by (simp add: default_receiver_def newReceiver_def)
  have size: "length ?d + 131072 \<le> MAX_SUPERFRAME_SIZE" by (simp add: MAX_SUPERFRAME_SIZE_def)
  from send_through [OF L(1,4,6) _ s(2) _ M, where cb = 1 and ctx = 5] obtain t ps where
    ps: "send ?d 1 90 80 5 3 0x10 ?s = Some (OK, t)" "s_out t = s_out ?s @ ps" "l_calls M = map (\<lambda>(p, i). SendCall 1 p i 5) ps"
    using L(3) by auto
  have inj: "xs = ps" if "map (\<lambda>(p, i). SendCall 1 p i 5) xs = map (\<lambda>(p, i). SendCall 1 p i 5) ps" for xs
    by (rule map_injective [OF that]) (auto simp: inj_def)
  have net: "network 0 9 ps (map (\<lambda>(p, i). (p, 9)) (rev ps @ ps))" using turned_round [OF s(1,2) ps(1,2)] s(3) by simp
  from legacy_handles_deliver [OF L(1,4,6) _ s(2) _ L(5,7) _ _ _ _ new(1) new(2) new(3) r M size, where cb = 1 and ctx = 5 and rcb = 2 and src = 9]
  obtain xs where xs: "l_calls M = l_calls L @ map (\<lambda>(p, i). SendCall 1 p i 5) xs" "network 0 9 xs qs \<Longrightarrow> \<exists>k N fs cs f.
      run_ops legacy_step (map (\<lambda>(p, i). ReceiveFragment 2 p i) qs @ WorkerTurn 2 # replicate k (DeliveryTurn 2)) M = Some N \<and>
        l_calls N = l_calls M @ cs \<and> list_all2 (\<lambda>f c. receiveCallbackWrapper ?y f = Some [c]) fs cs \<and>
        filter (\<lambda>f. sf_mSuperFrameNo f = 0) fs = [f] \<and>
        receiveCallbackWrapper ?y f = Some [FrameCall 2 (map Some ?d) 1 0 90 (carried_dts 90 80) 5 3 9 (0x10 AND 0xF0) 6]" for qs
    unfolding s(3) by auto
  from xs(1) ps(3) L(3) inj [of xs] have "xs = ps" by simp
  from xs(2) [unfolded this, OF net] obtain k N fs cs f where N:
    "run_ops legacy_step (map (\<lambda>(p, i). ReceiveFragment 2 p i) (map (\<lambda>(p, i). (p, 9)) (rev ps @ ps)) @ WorkerTurn 2 # replicate k (DeliveryTurn 2)) M = Some N"
    "l_calls N = l_calls M @ cs" "list_all2 (\<lambda>f c. receiveCallbackWrapper ?y f = Some [c]) fs cs"
    "filter (\<lambda>f. sf_mSuperFrameNo f = 0) fs = [f]"
    "receiveCallbackWrapper ?y f = Some [FrameCall 2 (map Some ?d) 1 0 90 (carried_dts 90 80) 5 3 9 (0x10 AND 0xF0) 6]"
    by blast
  have "f \<in> set fs" using arg_cong [OF N(4), of set] by auto
  then obtain i where i: "i < length fs" "f = fs ! i" unfolding in_set_conv_nth by blast
  with list_all2_nthD [OF N(3) i(1)] N(5) have
    "cs ! i = FrameCall 2 (map Some ?d) 1 0 90 (carried_dts 90 80) 5 3 9 (0x10 AND 0xF0) 6" by simp
  with i(1) list_all2_lengthD [OF N(3)] nth_mem [of i cs] N(2) have "FrameCall 2 (replicate 300 (Some 7)) 1 0 90 80 5 3 9 0x10 6 \<in> set (l_calls N)" by (simp add: carried_dts_def)
  moreover have "map (\<lambda>(p, i). ReceiveFragment 2 p i) (map (\<lambda>(p, i). (p, 9)) (rev ps @ ps)) = map (\<lambda>(p, i). ReceiveFragment 2 p 9) (rev ps @ ps)"
    by (simp add: case_prod_beta comp_def)
  ultimately show ?thesis using L(2) M ps(3) N(1) by metis
qed

end
