(* ===== verification/Efp_Declarations.thy ===== *)
theory Efp_Declarations
  imports Efp_Bandwidth Efp_CEmbedded
begin

text \<open>
  What the headers declare for applications: the constants of \<open>src/efp_c_api.h\<close> and
  \<open>src/efp_media_types.h\<close>, and the factory functions of \<open>src/efp.h\<close> and
  \<open>src/bandwidth_manager.h\<close>, with their default arguments. An argument the caller leaves out is \<open>None\<close>.
\<close>

section \<open>Constants of the C interface\<close>

definition EFP_MODE_THREADED :: u32 where "EFP_MODE_THREADED = 1"
definition EFP_MODE_RUN_TO_COMPLETION :: u32 where "EFP_MODE_RUN_TO_COMPLETION = 2"

definition EFP_FLAG_NONE :: u8 where "EFP_FLAG_NONE = 0x00"
definition EFP_FLAG_INLINE_PAYLOAD :: u8 where "EFP_FLAG_INLINE_PAYLOAD = 0x10"
definition EFP_FLAG_PRIORITY_0 :: u8 where "EFP_FLAG_PRIORITY_0 = 0x00"
definition EFP_FLAG_PRIORITY_1 :: u8 where "EFP_FLAG_PRIORITY_1 = 0x20"
definition EFP_FLAG_PRIORITY_2 :: u8 where "EFP_FLAG_PRIORITY_2 = 0x40"
definition EFP_FLAG_PRIORITY_3 :: u8 where "EFP_FLAG_PRIORITY_3 = 0x60"

definition EFP_DUPLICATE_FRAGMENT :: int where "EFP_DUPLICATE_FRAGMENT = 1"
definition EFP_FRAGMENT_TOO_OLD :: int where "EFP_FRAGMENT_TOO_OLD = 2"
definition EFP_FRAME_TIMEOUT :: int where "EFP_FRAME_TIMEOUT = 3"
definition EFP_NOT_IMPLEMENTED :: int where "EFP_NOT_IMPLEMENTED = - 1"
definition EFP_INTERNAL_ERROR :: int where "EFP_INTERNAL_ERROR = - 2"
definition EFP_RECEIVER_NOT_RUNNING :: int where "EFP_RECEIVER_NOT_RUNNING = - 3"
definition EFP_TOO_LARGE_EMBEDDED :: int where "EFP_TOO_LARGE_EMBEDDED = - 5"
definition EFP_TOO_LARGE_FRAME :: int where "EFP_TOO_LARGE_FRAME = - 6"
definition EFP_FRAME_SIZE_MISMATCH :: int where "EFP_FRAME_SIZE_MISMATCH = - 7"
definition EFP_BUFFER_OUT_OF_RESOURCES :: int where "EFP_BUFFER_OUT_OF_RESOURCES = - 8"
definition EFP_MEMORY_ALLOCATION_ERROR :: int where "EFP_MEMORY_ALLOCATION_ERROR = - 10"

definition EFP_EMBEDDED_ILLEGAL :: u8 where "EFP_EMBEDDED_ILLEGAL = 0x00"
definition EFP_EMBEDDED_PRIVATE_DATA :: u8 where "EFP_EMBEDDED_PRIVATE_DATA = 0x01"
definition EFP_EMBEDDED_H222_PMT :: u8 where "EFP_EMBEDDED_H222_PMT = 0x02"
definition EFP_EMBEDDED_MP4_FRAG_BOX :: u8 where "EFP_EMBEDDED_MP4_FRAG_BOX = 0x03"

definition EFP_CODE :: "u32 \<Rightarrow> u32 \<Rightarrow> u32 \<Rightarrow> u32 \<Rightarrow> u32" where
  "EFP_CODE c0 c1 c2 c3 = ((push_bit 24 c0 OR push_bit 16 c1) OR push_bit 8 c2) OR c3"

section \<open>Media types\<close>

text \<open>The macro of \<open>efp_media_types.h\<close>; \<open>fourcc\<close> applies it to the characters of a literal.\<close>

definition EFP_FOURCC :: "u32 \<Rightarrow> u32 \<Rightarrow> u32 \<Rightarrow> u32 \<Rightarrow> u32" where
  "EFP_FOURCC c0 c1 c2 c3 = ((push_bit 24 c0 OR push_bit 16 c1) OR push_bit 8 c2) OR c3"

fun fourcc :: "string \<Rightarrow> u32" where
  "fourcc [a, b, c, d] = EFP_FOURCC (of_char a) (of_char b) (of_char c) (of_char d)"
| "fourcc _ = 0"

datatype PayloadType =
    PT_UNKNOWN | PT_PRIVATE_DATA | PT_ADTS | PT_MPEGTS | PT_MPEGPES | PT_JPEG2000 | PT_JPEG | PT_JPEGXS | PT_PCM_AUDIO
  | PT_NDI | PT_JSON | PT_EFP_SIGNAL | PT_DID_SDID | PT_SDI | PT_H264 | PT_H265 | PT_H266 | PT_AV1 | PT_MP4 | PT_AAC
  | PT_OPUS | PT_FLAC

fun payloadTypeValue :: "PayloadType \<Rightarrow> u8" where
  "payloadTypeValue PT_UNKNOWN = 0x00"
| "payloadTypeValue PT_PRIVATE_DATA = 0x01"
| "payloadTypeValue PT_ADTS = 0x02"
| "payloadTypeValue PT_MPEGTS = 0x03"
| "payloadTypeValue PT_MPEGPES = 0x04"
| "payloadTypeValue PT_JPEG2000 = 0x05"
| "payloadTypeValue PT_JPEG = 0x06"
| "payloadTypeValue PT_JPEGXS = 0x07"
| "payloadTypeValue PT_PCM_AUDIO = 0x08"
| "payloadTypeValue PT_NDI = 0x09"
| "payloadTypeValue PT_JSON = 0x0A"
| "payloadTypeValue PT_EFP_SIGNAL = 0x80"
| "payloadTypeValue PT_DID_SDID = 0x81"
| "payloadTypeValue PT_SDI = 0x82"
| "payloadTypeValue PT_H264 = 0x83"
| "payloadTypeValue PT_H265 = 0x84"
| "payloadTypeValue PT_H266 = 0x85"
| "payloadTypeValue PT_AV1 = 0x86"
| "payloadTypeValue PT_MP4 = 0x87"
| "payloadTypeValue PT_AAC = 0x88"
| "payloadTypeValue PT_OPUS = 0x89"
| "payloadTypeValue PT_FLAC = 0x8A"

datatype PayloadCode = PC_NONE | PC_ANXB | PC_AVCC | PC_XOBU | PC_ADTS | PC_XRAW | PC_JSON | PC_BINR

fun payloadCodeValue :: "PayloadCode \<Rightarrow> u32" where
  "payloadCodeValue PC_NONE = - 1"
| "payloadCodeValue PC_ANXB = fourcc ''ANXB''"
| "payloadCodeValue PC_AVCC = fourcc ''AVCC''"
| "payloadCodeValue PC_XOBU = fourcc ''XOBU''"
| "payloadCodeValue PC_ADTS = fourcc ''ADTS''"
| "payloadCodeValue PC_XRAW = fourcc ''XRAW''"
| "payloadCodeValue PC_JSON = fourcc ''JSON''"
| "payloadCodeValue PC_BINR = fourcc ''BINR''"

datatype EmbeddedType = ET_ILLEGAL | ET_PRIVATE_DATA | ET_H222_PMT | ET_MP4_FRAG_BOX | ET_LAST_MARKER

fun embeddedTypeValue :: "EmbeddedType \<Rightarrow> u8" where
  "embeddedTypeValue ET_ILLEGAL = 0x00"
| "embeddedTypeValue ET_PRIVATE_DATA = 0x01"
| "embeddedTypeValue ET_H222_PMT = 0x02"
| "embeddedTypeValue ET_MP4_FRAG_BOX = 0x03"
| "embeddedTypeValue ET_LAST_MARKER = 0x80"

section \<open>Factory functions\<close>

definition arg_or :: "'a \<Rightarrow> 'a option \<Rightarrow> 'a" where
  "arg_or d x = (case x of None \<Rightarrow> d | Some y \<Rightarrow> y)"

definition makeSender :: "u16 \<Rightarrow> SubFragmentMode option \<Rightarrow> u32 option \<Rightarrow> nat option \<Rightarrow> clock \<Rightarrow> Sender" where
  "makeSender aMtu aSubFragmentMode aRetentionMs aRetentionMaxBytes clk =
     newSender aMtu (arg_or SINGLE aSubFragmentMode) (arg_or 0 aRetentionMs) (arg_or (50 * 1024 * 1024) aRetentionMaxBytes) clk"

definition makeReceiver :: "u32 option \<Rightarrow> u32 option \<Rightarrow> u8 option \<Rightarrow> u32 option \<Rightarrow> ReceiverMode option \<Rightarrow> clock \<Rightarrow> (nat \<Rightarrow> bool) \<Rightarrow>
    InvalidArgument + Receiver" where
  "makeReceiver aTimeoutMs aHolTimeoutMs aMaxNackRetries aNackIntervalMs aMode clk alloc =
     newReceiver DEFAULT_BUFFER_SIZE (arg_or 100 aTimeoutMs) (arg_or 0 aHolTimeoutMs) (arg_or 3 aMaxNackRetries)
       (arg_or 0 aNackIntervalMs) (arg_or THREADED aMode) clk alloc"

definition makeBandwidthManager :: "u16 \<Rightarrow> SubFragmentMode option \<Rightarrow> u32 option \<Rightarrow> nat option \<Rightarrow> BandwidthManagerConfig option \<Rightarrow>
    clock \<Rightarrow> clock \<Rightarrow> BandwidthManager" where
  "makeBandwidthManager aMtu aSubFragmentMode aRetentionMs aRetentionMaxBytes aConfig sclk clk =
     newBandwidthManager aMtu (arg_or SINGLE aSubFragmentMode) (arg_or 1000 aRetentionMs)
       (arg_or (50 * 1024 * 1024) aRetentionMaxBytes) (arg_or defaultBandwidthConfig aConfig) sclk clk"

section \<open>Agreement\<close>

lemmas c_result_defs = EFP_OK_def EFP_DUPLICATE_FRAGMENT_def EFP_FRAGMENT_TOO_OLD_def EFP_FRAME_TIMEOUT_def EFP_NOT_IMPLEMENTED_def
  EFP_INTERNAL_ERROR_def EFP_RECEIVER_NOT_RUNNING_def EFP_INVALID_PARAMETER_def EFP_TOO_LARGE_EMBEDDED_def EFP_TOO_LARGE_FRAME_def
  EFP_FRAME_SIZE_MISMATCH_def EFP_BUFFER_OUT_OF_RESOURCES_def EFP_BUFFER_OUT_OF_BOUNDS_def EFP_MEMORY_ALLOCATION_ERROR_def

text \<open>The C constants are the values of the C++ enumerations.\<close>

lemma c_results_agree:
  "map resultCode [OK, DUPLICATE_FRAGMENT, FRAGMENT_TOO_OLD, FRAME_TIMEOUT, NOT_IMPLEMENTED, INTERNAL_ERROR, RECEIVER_NOT_RUNNING,
       INVALID_PARAMETER, TOO_LARGE_EMBEDDED_DATA, TOO_LARGE_FRAME, FRAME_SIZE_MISMATCH, BUFFER_OUT_OF_RESOURCES,
       BUFFER_OUT_OF_BOUNDS, MEMORY_ALLOCATION_ERROR] =
   [EFP_OK, EFP_DUPLICATE_FRAGMENT, EFP_FRAGMENT_TOO_OLD, EFP_FRAME_TIMEOUT, EFP_NOT_IMPLEMENTED, EFP_INTERNAL_ERROR,
    EFP_RECEIVER_NOT_RUNNING, EFP_INVALID_PARAMETER, EFP_TOO_LARGE_EMBEDDED, EFP_TOO_LARGE_FRAME, EFP_FRAME_SIZE_MISMATCH,
    EFP_BUFFER_OUT_OF_RESOURCES, EFP_BUFFER_OUT_OF_BOUNDS, EFP_MEMORY_ALLOCATION_ERROR]"
  by (simp add: c_result_defs)

lemma c_flags_agree:
  "[EFP_FLAG_NONE, EFP_FLAG_INLINE_PAYLOAD, EFP_FLAG_PRIORITY_0, EFP_FLAG_PRIORITY_1, EFP_FLAG_PRIORITY_2, EFP_FLAG_PRIORITY_3] =
   [FLAG_NONE, FLAG_INLINE_PAYLOAD, FLAG_PRIORITY_0, FLAG_PRIORITY_1, FLAG_PRIORITY_2, FLAG_PRIORITY_3]"
  by (simp add: EFP_FLAG_NONE_def EFP_FLAG_INLINE_PAYLOAD_def EFP_FLAG_PRIORITY_0_def EFP_FLAG_PRIORITY_1_def EFP_FLAG_PRIORITY_2_def
      EFP_FLAG_PRIORITY_3_def FLAG_NONE_def FLAG_INLINE_PAYLOAD_def FLAG_PRIORITY_0_def FLAG_PRIORITY_1_def FLAG_PRIORITY_2_def
      FLAG_PRIORITY_3_def)

lemma c_embedded_types_agree:
  "map embeddedTypeValue [ET_ILLEGAL, ET_PRIVATE_DATA, ET_H222_PMT, ET_MP4_FRAG_BOX, ET_LAST_MARKER] =
   [EFP_EMBEDDED_ILLEGAL, EFP_EMBEDDED_PRIVATE_DATA, EFP_EMBEDDED_H222_PMT, EFP_EMBEDDED_MP4_FRAG_BOX, EFP_EMBEDDED_LAST]"
  by (simp add: EFP_EMBEDDED_ILLEGAL_def EFP_EMBEDDED_PRIVATE_DATA_def EFP_EMBEDDED_H222_PMT_def EFP_EMBEDDED_MP4_FRAG_BOX_def
      EFP_EMBEDDED_LAST_def)

lemma code_macros_agree: "EFP_CODE = EFP_FOURCC"
  by (intro ext) (simp add: EFP_CODE_def EFP_FOURCC_def)

text \<open>A code of four bytes can be read back, so codes of different bytes differ.\<close>

lemma byte_high_bit: "8 \<le> n \<Longrightarrow> \<not> bit (c :: u8) n"
  using bit_imp_le_length [of c n] by auto

lemma fourcc_bytes:
  fixes c0 c1 c2 c3 :: u8
  defines "x \<equiv> EFP_FOURCC (ucast c0) (ucast c1) (ucast c2) (ucast c3)"
  shows "ucast (drop_bit 24 x) = c0" "ucast (drop_bit 16 x) = c1" "ucast (drop_bit 8 x) = c2" "ucast x = c3"
  unfolding x_def EFP_FOURCC_def by (rule bit_word_eqI; simp add: bit_simps byte_high_bit)+

lemma fourcc_inject:
  fixes c0 c1 c2 c3 d0 d1 d2 d3 :: u8
  shows "EFP_FOURCC (ucast c0) (ucast c1) (ucast c2) (ucast c3) = EFP_FOURCC (ucast d0) (ucast d1) (ucast d2) (ucast d3) \<longleftrightarrow>
    c0 = d0 \<and> c1 = d1 \<and> c2 = d2 \<and> c3 = d3"
  by (metis fourcc_bytes)

lemma payload_codes_distinct: "payloadCodeValue c = payloadCodeValue d \<longleftrightarrow> c = d"
  by (cases c; cases d; simp add: EFP_FOURCC_def)

lemma payload_types_distinct: "payloadTypeValue t = payloadTypeValue u \<longleftrightarrow> t = u"
  by (cases t; simp; cases u; simp)

text \<open>The types whose high bit is set are the ones that need a payload code.\<close>

lemma payload_type_needs_code:
  "payloadTypeValue t AND 0x80 \<noteq> 0 \<longleftrightarrow>
   t \<in> {PT_EFP_SIGNAL, PT_DID_SDID, PT_SDI, PT_H264, PT_H265, PT_H266, PT_AV1, PT_MP4, PT_AAC, PT_OPUS, PT_FLAC}"
  by (cases t) simp_all

text \<open>The defaults of \<open>makeReceiver\<close> pass the checks of the constructor; a longer timeout always does.\<close>

lemma makeReceiver_default:
  assumes "tmo = None \<or> tmo = Some t \<and> 0 < t"
  shows "\<exists>r. makeReceiver tmo None retries None mode clk alloc = Inr r"
  using assms by (auto simp: makeReceiver_def arg_or_def newReceiver_def)

end
