(* ===== verification/Efp_Origin.thy ===== *)
theory Efp_Origin
  imports Efp_EndToEnd
begin

text \<open>
  Where the bytes of a sender come from: every retained copy is a fragment of an accepted payload, and
  every packet handed to the transport, retransmissions and mixed bundles included, is made of such
  fragments.
\<close>

section \<open>Fragments of a set of payloads\<close>

definition fragments :: "FragArgs set \<Rightarrow> bytes set" where
  "fragments A = (\<Union>a \<in> A. fragment a ` {..unat (fa_aOfFragmentNo a)})"

definition packet_from :: "FragArgs set \<Rightarrow> bytes \<Rightarrow> bool" where
  "packet_from A p \<longleftrightarrow> set (unpack p) \<subseteq> fragments A"

definition retained_from :: "FragArgs set \<Rightarrow> Sender \<Rightarrow> bool" where
  "retained_from A s \<longleftrightarrow> (\<forall>k f. s_mRetentionBuffer s k = Some f \<longrightarrow> rf_mData f \<in> fragments A)"

definition sends_from :: "FragArgs set \<Rightarrow> Sender \<Rightarrow> bool" where
  "sends_from A s \<longleftrightarrow> retained_from A s \<and> (\<forall>x \<in> set (s_out s). packet_from A (fst x))"

lemma fragments_mono: "A \<subseteq> B \<Longrightarrow> fragments A \<subseteq> fragments B"
  by (auto simp: fragments_def)

lemma sends_from_mono: "sends_from A s \<Longrightarrow> A \<subseteq> B \<Longrightarrow> sends_from B s"
  using fragments_mono [of A B] by (fastforce simp: sends_from_def retained_from_def packet_from_def)

lemma sends_from_new: "sends_from A (newSender mtu mode ms mx clk)"
  by (simp add: sends_from_def retained_from_def newSender_def Let_def)

lemma sends_from_update [simp]:
  "sends_from A (s\<lparr>s_mSendBuffer := b\<rparr>) = sends_from A s" "sends_from A (s\<lparr>s_mBundleBuffer := b\<rparr>) = sends_from A s"
  "sends_from A (s\<lparr>s_mSuperFrameNo := m\<rparr>) = sends_from A s" "sends_from A (s\<lparr>s_mStatistics := x\<rparr>) = sends_from A s"
  by (simp_all add: sends_from_def retained_from_def)

lemma sends_from_shrink:
  "sends_from A s \<Longrightarrow> s_mRetentionBuffer t \<subseteq>\<^sub>m s_mRetentionBuffer s \<Longrightarrow> s_out t = s_out s \<Longrightarrow> sends_from A t"
  unfolding sends_from_def retained_from_def map_le_def dom_def by fastforce

lemma sends_from_evict: "sends_from A s \<Longrightarrow> sends_from A (evictOldRetention r s)"
proof (erule sends_from_shrink)
  show "s_out (evictOldRetention r s) = s_out s" using evictOldRetention_frame(1) [of s r] by (simp add: same_sender_def)
qed (rule evictOldRetention_frame(4))

lemma sends_from_retain:
  assumes "sends_from A s" "d \<in> fragments A"
  shows "sends_from A (retainFragment sf fn st d s)"
proof (cases "s_mRetentionMs s = 0 \<or> s_mRetentionMaxBytes s < length d")
  case True
  with assms show ?thesis by (simp add: retainFragment_off)
next
  case False
  then have on: "s_mRetentionMs s \<noteq> 0" "length d \<le> s_mRetentionMaxBytes s" by auto
  have "retained_from A (evictOldRetention (retain_required sf fn d s) s)"
    using sends_from_evict [OF assms(1)] by (simp add: sends_from_def)
  then have "retained_from A (retainFragment sf fn st d s)"
    using assms(2) by (simp add: retained_from_def retainFragment_on(3) [OF on])
  moreover have "s_out (retainFragment sf fn st d s) = s_out s"
    using retainFragment_frame [of s] by (simp add: same_sender_def)
  ultimately show ?thesis using assms(1) by (simp add: sends_from_def)
qed

lemma sends_from_pop: "sends_from A s \<Longrightarrow> sends_from A (pop_request s)"
  by (simp add: sends_from_def retained_from_def pop_request_def)

lemma retained_from_bump: "retained_from A s \<Longrightarrow> s_mRetentionBuffer s (rq_mKey q) = Some f \<Longrightarrow> retained_from A (retransmit_bump q f s)"
  by (auto simp: retained_from_def retransmit_bump_def)

lemma sends_from_get:
  assumes "sends_from A s"
  shows "sends_from A (getRetransmit_state s)"
proof (cases rule: getRetransmitFragment_cases [of s])
  case (3 q rest f)
  have "sends_from A (pop_request s)" using assms by (rule sends_from_pop)
  moreover have "s_mRetentionBuffer (pop_request s) (rq_mKey q) = Some f" using 3(2) by (simp add: pop_request_def)
  ultimately show ?thesis using 3(3) retained_from_bump
    by (simp add: getRetransmit_state_def sends_from_def retransmit_bump_frame)
qed (use assms sends_from_pop in \<open>simp_all add: getRetransmit_state_def\<close>)

text \<open>A copy in the store is a packet by itself.\<close>

lemma retained_packet:
  assumes "sender_inv s" "retained_from A s" "s_mRetentionBuffer s k = Some f"
  shows "rf_mData f \<in> fragments A" "packet_from A (rf_mData f)"
proof -
  show r: "rf_mData f \<in> fragments A" using assms(2,3) by (simp add: retained_from_def)
  have "frame_ok (unat (s_mMtu s)) (rf_mSuperFrameNo f) (rf_mFragmentNo f) (rf_mStreamId f) (rf_mData f)"
    using assms(1,3) by (simp add: sender_inv_def)
  from unpack_frame [OF this] r show "packet_from A (rf_mData f)" by (simp add: packet_from_def)
qed

interpretation origin: sender_content "\<lambda>n. sends_from A" "\<lambda>d. d \<in> fragments A" "packet_from A" for A
proof (unfold_locales, goal_cases)
  case (4 s n d st)
  then show ?case
    using retained_packet [of s A] by (cases rule: getRetransmitFragment_cases [of s]) (auto simp: sends_from_def)
next
  case (10 mtu sf fn st d)
  then show ?case by (simp add: packet_from_def unpack_frame)
next
  case (11 mtu a i k y)
  then have "unpack (bundle_packet a y (type1_frames a i k)) = (case y of None \<Rightarrow> [] | Some d \<Rightarrow> [d]) @ map snd (type1_frames a i k)"
    by (intro unpack_packet) auto
  with 11(5,6) show ?case by (cases y) (auto simp: packet_from_def)
qed (simp_all add: sends_from_retain sends_from_evict sends_from_get, auto simp: sends_from_def retained_from_def)

section \<open>The payloads an operation adds\<close>

text \<open>A payload within 128 KiB of the receiver's size limit needs more room than the receiver grants.\<close>

fun has_room :: "SenderOp \<Rightarrow> bool" where
  "has_room (Send d ptype pts dts code st flags) = (length d + 131072 \<le> MAX_SUPERFRAME_SIZE)"
| "has_room _ = True"

fun accepted :: "SenderOp \<Rightarrow> Sender \<Rightarrow> FragArgs list" where
  "accepted (Send d ptype pts dts code st flags) s =
     (if send_outcome d s = OK then [payload_args d ptype pts dts code st flags s] else [])"
| "accepted _ s = []"

lemma accepted_ok:
  assumes "sender_inv s" "has_room x" "a \<in> set (accepted x s)"
  shows "asm_ok a" "fa_aSuperFrameNo a = s_mSuperFrameNo s"
  using assms payload_asm_ok [OF assms(1)] by (cases x; auto simp: payload_fields split: if_splits)+

lemma sent_frames_from:
  assumes "asm_ok (payload_args d ptype pts dts code st flags s)" "(fn, p) \<in> set (sent_frames d ptype pts dts code st flags s)"
  shows "p \<in> fragments {payload_args d ptype pts dts code st flags s}"
proof -
  have "p \<in> set (map snd (sent_frames d ptype pts dts code st flags s))" using assms(2) by force
  then show ?thesis unfolding sent_are_fragments [OF assms(1)] fragments_def
    by (auto simp: atLeast0LessThan lessThan_Suc_atMost simp del: upt_Suc)
qed

lemma send_from:
  assumes inv: "sender_inv s" and made: "sends_from A s" and run: "send d ptype pts dts code st flags s = Some (r, t)"
    and room: "length d + 131072 \<le> MAX_SUPERFRAME_SIZE"
  shows "sends_from (A \<union> set (accepted (Send d ptype pts dts code st flags) s)) t"
    "s_mSuperFrameNo t = s_mSuperFrameNo s + of_nat (length (accepted (Send d ptype pts dts code st flags) s))"
proof -
  let ?B = "A \<union> set (accepted (Send d ptype pts dts code st flags) s)"
  note out = send_carries [OF inv run]
  have frames: "p \<in> fragments ?B" if "send_outcome d s = OK" "(fn, p) \<in> set (sent_frames d ptype pts dts code st flags s)" for fn p
    using sent_frames_from [OF payload_asm_ok [OF inv that(1) room] that(2)] that(1)
      fragments_mono [of "{payload_args d ptype pts dts code st flags s}" ?B] by auto
  have "sends_from ?B s" using made by (rule sends_from_mono) simp
  then have "origin.R ?B (0 + 8194) s" using inv by (simp add: origin.R_def)
  then have "\<exists>r t. send d ptype pts dts code st flags s = Some (r, t) \<and> origin.R ?B 0 t"
    by (rule origin.R_send) (rule frames)
  then show "sends_from ?B t" using run by (auto simp: origin.R_def)
  show "s_mSuperFrameNo t = s_mSuperFrameNo s + of_nat (length (accepted (Send d ptype pts dts code st flags) s))"
    using out by (cases "r = OK") (auto simp: carries_def)
qed

lemma sender_step_from:
  assumes inv: "sender_inv s" and made: "sends_from A s" and run: "sender_step x s = Some (r, t)" and room: "has_room x"
  shows "sends_from (A \<union> set (accepted x s)) t"
    "s_mSuperFrameNo t = s_mSuperFrameNo s + of_nat (length (accepted x s))"
proof -
  have "sends_from (A \<union> set (accepted x s)) t \<and> s_mSuperFrameNo t = s_mSuperFrameNo s + of_nat (length (accepted x s))"
  proof (cases x)
    case (Send d ptype pts dts code st flags)
    with send_from [OF inv made] run room show ?thesis by (simp del: accepted.simps)
  next
    case (ReceiveNack d)
    with run have "receiveNack d s = Some (r, t)" by simp
    from receiveNack_keeps(1) [OF this] made ReceiveNack show ?thesis
      by (simp add: sends_from_def retained_from_def same_store_def)
  next
    case (ProcessRetransmits n)
    with run have loop: "retransmit_loop n 0 s = (fst (processRetransmits n s), t)"
      by (simp add: processRetransmits_def prod_eq_iff)
    have kept: "retained_from A t \<and> s_mSuperFrameNo t = s_mSuperFrameNo s"
      by (rule retransmit_loop_keeps [where P = "\<lambda>u. retained_from A u \<and> s_mSuperFrameNo u = s_mSuperFrameNo s", OF loop])
        (use made in \<open>auto simp: sends_from_def retained_from_def pop_request_def retransmit_bump_def\<close>)
    have copy: "packet_from A (fst (request_copy s q))" if "live_request s q" for q
    proof -
      from live_request_Some [OF that] obtain f where "s_mRetentionBuffer s (rq_mKey q) = Some f" by blast
      with retained_packet(2) [OF inv _ this] made show ?thesis by (simp add: sends_from_def request_copy_def)
    qed
    have "packet_from A (fst y)" if "y \<in> set (s_out t)" for y
    proof -
      have "set (take (n - 0) (filter (live_request s) (s_mRetransmitQueue s))) \<subseteq> {q. live_request s q}"
        using set_take_subset by fastforce
      with that have "y \<in> set (s_out s) \<or> (\<exists>q. live_request s q \<and> y = request_copy s q)"
        using retransmit_loop_out [OF loop] by auto
      with made copy show ?thesis by (auto simp: sends_from_def)
    qed
    with kept ProcessRetransmits show ?thesis by (simp add: sends_from_def)
  qed (use run made in simp)
  then show "sends_from (A \<union> set (accepted x s)) t"
    "s_mSuperFrameNo t = s_mSuperFrameNo s + of_nat (length (accepted x s))" by simp_all
qed

end
