(* ===== verification/Efp_Integrity.thy ===== *)
theory Efp_Integrity
  imports Efp_Origin Efp_ReceiverRuns
begin

text \<open>
  Integrity of reassembly under a hostile network: as long as packets that claim the source of a sender
  are made of fragments of its payloads, the open buckets of that source assemble these payloads, and
  a complete frame of that source is one of them. Packets of other sources are arbitrary: they cannot
  touch the buckets of the source.
\<close>

section \<open>Packets of one source touch the buckets of that source\<close>

lemma source_refl [simp]: "by_source x r r"
  by (simp add: by_source_def)

lemma source_trans: "by_source x r s \<Longrightarrow> by_source x s t \<Longrightarrow> by_source x r t"
  unfolding by_source_def by metis

lemma type4_loop_source: "type4_loop d z x n off r = Some (res, s) \<Longrightarrow> by_source x r s"
proof (induction n arbitrary: off r)
  case (Suc n)
  then show ?case using handleType1_source source_trans
    by (auto split: bind_splits if_splits) blast+
qed simp

lemma dispatch_source:
  assumes "dispatch d x r = Some (res, s)"
  shows "by_source x r s"
proof -
  have u: "by_source x (r\<lparr>r_mStatistics := y\<rparr>) s = by_source x r s" "by_source x r (r\<lparr>r_mStatistics := y\<rparr>)" for y
    by (simp_all add: by_source_def)
  have "by_source x r s" if "handleType4 d x r = Some (res, s)"
    using that u by (auto simp: handleType4_def Let_def split: if_splits bind_splits dest: type4_loop_source)
  with assms handleType1_source handleType2_source handleType3_source show ?thesis
    by (auto simp: dispatch_def handleType0_def split: FrameType.splits)
qed

section \<open>Genuine buckets\<close>

definition payloads :: "FragArgs set \<Rightarrow> bool" where
  "payloads A \<longleftrightarrow> (\<forall>a \<in> A. asm_ok a) \<and> inj_on fa_aSuperFrameNo A"

definition genuine :: "FragArgs set \<Rightarrow> u8 \<Rightarrow> Receiver \<Rightarrow> bool" where
  "genuine A src r \<longleftrightarrow> (\<forall>j. b_mActive (r_mpBuckets r j) \<longrightarrow> b_mSourceId (r_mpBuckets r j) = src \<longrightarrow>
     (\<exists>a \<in> A. \<exists>S. assembling a src S (r_mpBuckets r j)))"

lemma genuine_mono: "genuine A src r \<Longrightarrow> A \<subseteq> B \<Longrightarrow> genuine B src r"
  unfolding genuine_def by blast

lemma genuine_other:
  assumes "genuine A src r" "by_source x r s" "x \<noteq> src"
  shows "genuine A src s"
  using assms unfolding genuine_def by_source_def by metis

text \<open>A free slot that a fragment cannot open stays free.\<close>

lemma can_open_arrival:
  assumes "r_nowUs r = (t, u)"
  shows "can_open sf (updateJitter t u) = can_open sf r"
  using assms by (auto simp: r_nowUs_def nowUs_def updateJitter_def Let_def can_open_def bucketIndex_def recalculateSuperFrameNo_def)

lemma openBucket_refused:
  assumes "openBucket idx b tot off payload r = Some (res, s)" "\<not> r_alloc r 0"
  shows "\<not> b_mActive (r_mpBuckets s idx)"
  using assms by (auto simp: openBucket_def allocSuperFrame_def newSuperFrame_def count_received_def set_bucket_def Let_def)

lemma recalculate_frame:
  assumes "recalculateSuperFrameNo sf r = (n, v)"
  shows "r_mpBuckets v = r_mpBuckets r" "r_alloc v = r_alloc r"
  using assms by (auto simp: recalculateSuperFrameNo_def Let_def split: if_splits)

lemma refused_open:
  assumes free: "\<not> b_mActive (r_mpBuckets r (bucketIndex sf r))" and shut: "\<not> can_open sf r"
  shows "handleType1_open t h1 p1 src r = Some (res, s) \<Longrightarrow> t1_mSuperFrameNo h1 = sf \<Longrightarrow> \<not> b_mActive (r_mpBuckets s (bucketIndex sf r))"
    "handleType2_open t h2 p2 src r = Some (res, s) \<Longrightarrow> t2_mSuperFrameNo h2 = sf \<Longrightarrow> \<not> b_mActive (r_mpBuckets s (bucketIndex sf r))"
    "handleType3_open t h3 fn p3 src r = Some (res, s) \<Longrightarrow> t3_mSuperFrameNo h3 = sf \<Longrightarrow> \<not> b_mActive (r_mpBuckets s (bucketIndex sf r))"
proof -
  obtain n v where v: "recalculateSuperFrameNo sf r = (n, v)" by (cases "recalculateSuperFrameNo sf r")
  note fr = recalculate_frame [OF v]
  have no: "n = b_mDeliveryOrder (r_mpBuckets r (bucketIndex sf r)) \<or> \<not> r_alloc v 0"
    using shut free v fr by (auto simp: can_open_def Let_def)
  have al: "r_alloc (cache_stream h2 v) = r_alloc v" "r_mpBuckets (cache_stream h2 v) = r_mpBuckets v" by (simp_all add: cache_stream_def)
  show "handleType1_open t h1 p1 src r = Some (res, s) \<Longrightarrow> t1_mSuperFrameNo h1 = sf \<Longrightarrow> \<not> b_mActive (r_mpBuckets s (bucketIndex sf r))"
    using no free fr openBucket_refused
    by (auto simp: handleType1_open_def v Let_def split: if_splits bind_splits dest: openBucket_refused)
  show "handleType2_open t h2 p2 src r = Some (res, s) \<Longrightarrow> t2_mSuperFrameNo h2 = sf \<Longrightarrow> \<not> b_mActive (r_mpBuckets s (bucketIndex sf r))"
    using no free fr al
    by (auto simp: handleType2_open_def v Let_def split: if_splits bind_splits dest: openBucket_refused)
  show "handleType3_open t h3 fn p3 src r = Some (res, s) \<Longrightarrow> t3_mSuperFrameNo h3 = sf \<Longrightarrow> \<not> b_mActive (r_mpBuckets s (bucketIndex sf r))"
    using no free fr
    by (auto simp: handleType3_open_def v Let_def split: if_splits bind_splits dest: openBucket_refused)
qed

lemma handlers_refused:
  assumes free: "\<not> b_mActive (r_mpBuckets r (bucketIndex sf r))" and shut: "\<not> can_open sf r"
  shows "handleType1 d src r = Some (res, s) \<Longrightarrow> rd16 2 d = sf \<Longrightarrow> \<not> b_mActive (r_mpBuckets s (bucketIndex sf r))"
    "handleType2 d src r = Some (res, s) \<Longrightarrow> rd16 5 d = sf \<Longrightarrow> \<not> b_mActive (r_mpBuckets s (bucketIndex sf r))"
    "handleType3 d src r = Some (res, s) \<Longrightarrow> rd16 2 d = sf \<Longrightarrow> \<not> b_mActive (r_mpBuckets s (bucketIndex sf r))"
proof -
  obtain t u where t: "r_nowUs r = (t, u)" by (cases "r_nowUs r")
  let ?r = "updateJitter t u"
  have same: "bucketIndex sf ?r = bucketIndex sf r" "r_mpBuckets ?r = r_mpBuckets r" for sf
    using t by (auto simp: r_nowUs_def nowUs_def updateJitter_def Let_def bucketIndex_def)
  have "\<not> b_mActive (r_mpBuckets ?r (bucketIndex sf ?r))" "\<not> can_open sf ?r"
    using free shut can_open_arrival [OF t] by (simp_all add: same)
  note R = refused_open [OF this, unfolded same(1)]
  have sf: "t1_mSuperFrameNo (dec_type1 d) = rd16 2 d" "t2_mSuperFrameNo (dec_type2 d) = rd16 5 d"
    "t3_mSuperFrameNo (dec_type3 d) = rd16 2 d" by (simp_all add: dec_type1_def dec_type2_def dec_type3_def)
  note [simp] = t mem_simps Let_def same sf
  show "handleType1 d src r = Some (res, s) \<Longrightarrow> rd16 2 d = sf \<Longrightarrow> \<not> b_mActive (r_mpBuckets s (bucketIndex sf r))"
    using free by (auto simp: handleType1_def split: if_splits dest: R(1))
  show "handleType2 d src r = Some (res, s) \<Longrightarrow> rd16 5 d = sf \<Longrightarrow> \<not> b_mActive (r_mpBuckets s (bucketIndex sf r))"
    using free by (auto simp: handleType2_def split: if_splits dest: R(2))
  show "handleType3 d src r = Some (res, s) \<Longrightarrow> rd16 2 d = sf \<Longrightarrow> \<not> b_mActive (r_mpBuckets s (bucketIndex sf r))"
    using free by (auto simp: handleType3_def split: if_splits dest: R(3))
qed

lemma fragment_number:
  "rd16 2 (type1_frame a i) = fa_aSuperFrameNo a" "rd16 5 (type2_frame a) = fa_aSuperFrameNo a"
  "rd16 2 (type3_frame a) = fa_aSuperFrameNo a"
  by (simp_all add: type1_frame_def type2_frame_def type3_frame_def enc_defs type1_header_def type2_header_def type3_header_def wire_simps)

lemma fragment_dispatch:
  assumes "asm_ok a" "dispatch (fragment a i) src r = Some (res, s)"
  obtains (one) "handleType1 (fragment a i) src r = Some (res, s)" "rd16 2 (fragment a i) = fa_aSuperFrameNo a"
    | (two) "handleType2 (fragment a i) src r = Some (res, s)" "rd16 5 (fragment a i) = fa_aSuperFrameNo a"
    | (three) "handleType3 (fragment a i) src r = Some (res, s)" "rd16 2 (fragment a i) = fa_aSuperFrameNo a"
proof -
  have ty: "getFrameType (hd (type1_frame a i)) = TYPE1" "getFrameType (hd (type2_frame a)) = TYPE2"
    "getFrameType (hd (type3_frame a)) = TYPE3"
    by (simp_all add: type1_frame_def type2_frame_def type3_frame_def enc_defs type1_header_def type2_header_def type3_header_def)
  show thesis
    using assms(2) that ty fragment_number by (auto simp: fragment_def dispatch_def split: if_splits)
qed

lemma fragment_touches:
  assumes "asm_ok a" "dispatch (fragment a i) src r = Some (res, s)"
  shows "touches src (fa_aSuperFrameNo a) (fst (recalculateSuperFrameNo (fa_aSuperFrameNo a) r)) r s"
  using fragment_dispatch [OF assms] handleType1_touches handleType2_touches handleType3_touches by metis

lemma fragment_refused:
  assumes "asm_ok a" "dispatch (fragment a i) src r = Some (res, s)"
    "\<not> b_mActive (r_mpBuckets r (bucketIndex (fa_aSuperFrameNo a) r))" "\<not> can_open (fa_aSuperFrameNo a) r"
  shows "\<not> b_mActive (r_mpBuckets s (bucketIndex (fa_aSuperFrameNo a) r))"
  using fragment_dispatch [OF assms(1,2)] handlers_refused [OF assms(3,4)] by metis

text \<open>A fragment of one of the payloads keeps every bucket of the source genuine.\<close>

lemma genuine_fragment:
  assumes A: "payloads A" "a \<in> A" and i: "i \<le> unat (fa_aOfFragmentNo a)" and inv: "recv_inv r" and g: "genuine A src r"
    and run: "dispatch (fragment a i) src r = Some (res, s)"
  shows "genuine A src s"
proof -
  let ?sf = "fa_aSuperFrameNo a" and ?j = "bucketIndex (fa_aSuperFrameNo a) r"
  let ?b = "r_mpBuckets r ?j"
  have ok: "asm_ok a" using A by (simp add: payloads_def)
  have tch: "touches src ?sf (fst (recalculateSuperFrameNo ?sf r)) r s" by (rule fragment_touches [OF ok run])
  have j: "bucketIndex ?sf s = ?j" using tch by (simp add: touches_def same_world_def bucketIndex_def)
  have collect: "\<exists>S. assembling a src S (r_mpBuckets s ?j)" if "collecting a src S r" for S
    using collect_fragment [OF ok that i] run j by (auto simp: collecting_def)
  have slot: "r_mpBuckets s ?j = ?b \<or> \<not> b_mActive (r_mpBuckets s ?j) \<or> (\<exists>S. assembling a src S (r_mpBuckets s ?j))"
  proof (cases "b_mActive ?b")
    case True
    show ?thesis
    proof (cases "b_mSavedFrameNo ?b = ?sf \<and> b_mSourceId ?b = src")
      case True
      with \<open>b_mActive ?b\<close> g obtain c S where c: "c \<in> A" "assembling c src S ?b" unfolding genuine_def by blast
      then have "fa_aSuperFrameNo c = ?sf" using True by (simp add: assembling_def)
      then have "c = a" using A c(1) by (simp add: payloads_def inj_on_def)
      with c(2) inv have "collecting a src S r" by (auto simp: collecting_def assembling_def)
      then show ?thesis using collect by blast
    next
      case False
      with True tch show ?thesis unfolding touches_def may_become_def by metis
    qed
  next
    case False
    show ?thesis
    proof (cases "can_open ?sf r")
      case True
      with inv have "collecting a src {} r" by (simp add: collecting_def)
      then show ?thesis using collect by blast
    next
      case shut: False
      from fragment_refused [OF ok run False shut] show ?thesis by simp
    qed
  qed
  show ?thesis
    unfolding genuine_def
  proof (intro allI impI)
    fix k assume k: "b_mActive (r_mpBuckets s k)" "b_mSourceId (r_mpBuckets s k) = src"
    show "\<exists>a \<in> A. \<exists>S. assembling a src S (r_mpBuckets s k)"
    proof (cases "r_mpBuckets s k = r_mpBuckets r k")
      case True
      with g k show ?thesis by (simp add: genuine_def)
    next
      case False
      then have "k = ?j" using tch unfolding touches_def by blast
      with False slot k A(2) show ?thesis by blast
    qed
  qed
qed

section \<open>Packets made of fragments\<close>

lemma fragmentsE:
  assumes "p \<in> fragments A"
  obtains a i where "a \<in> A" "i \<le> unat (fa_aOfFragmentNo a)" "p = fragment a i"
  using assms by (auto simp: fragments_def)

text \<open>What every fragment of the payloads keeps, every packet made of such fragments keeps.\<close>

lemma loop_keeps:
  assumes frag: "\<And>a i r res s. a \<in> A \<Longrightarrow> i \<le> unat (fa_aOfFragmentNo a) \<Longrightarrow> recv_inv r \<Longrightarrow> Q r \<Longrightarrow>
      dispatch (fragment a i) src r = Some (res, s) \<Longrightarrow> Q s"
    and z: "0 < z" and fit: "off + n * z \<le> length p"
    and chunks: "\<And>k. k < n \<Longrightarrow> take z (drop (off + k * z) p) \<in> fragments A"
    and inv: "recv_inv r" and Q: "Q r" and run: "type4_loop p z src n off r = Some (res, s)"
  shows "Q s"
  using fit chunks inv Q run
proof (induction n arbitrary: off r)
  case (Suc n)
  let ?q = "take z (drop off p)"
  have load: "mem_load 1 p off = Some [hd (drop off p)]" "mem_load z p off = Some ?q"
    using Suc.prems(1) z by (simp_all add: mem_load_def take_Suc)
  have hd: "hd (drop off p) = hd ?q" using z by (metis hd_take)
  show ?case
  proof (cases "getFrameType (hd ?q) = TYPE1")
    case False
    with Suc.prems(4,5) load hd show ?thesis by simp
  next
    case True
    with Suc.prems(5) load hd obtain x u where u: "handleType1 ?q src r = Some (x, u)"
      "u = s \<or> type4_loop p z src n (off + z) u = Some (res, s)"
      by (auto split: bind_splits if_splits)
    obtain a i where a: "a \<in> A" "i \<le> unat (fa_aOfFragmentNo a)" "?q = fragment a i"
      using Suc.prems(2) [of 0] by (auto elim: fragmentsE)
    have "dispatch (fragment a i) src r = Some (x, u)" using u(1) True by (simp add: dispatch_def a(3))
    from frag [OF a(1,2) Suc.prems(3,4) this] have Qu: "Q u" .
    have iu: "recv_inv u" using handleType1_safe [OF Suc.prems(3), of ?q src] u(1) by (simp add: safe_result_def)
    have "take z (drop (off + z + k * z) p) \<in> fragments A" if "k < n" for k
      using Suc.prems(2) [of "Suc k"] that by (simp add: add.assoc)
    moreover have "off + z + n * z \<le> length p" using Suc.prems(1) by simp
    ultimately show ?thesis using Suc.IH [of "off + z" u] iu Qu u(2) by blast
  qed
qed simp

lemma packet_keeps:
  assumes frag: "\<And>a i r res s. a \<in> A \<Longrightarrow> i \<le> unat (fa_aOfFragmentNo a) \<Longrightarrow> recv_inv r \<Longrightarrow> Q r \<Longrightarrow>
      dispatch (fragment a i) src r = Some (res, s) \<Longrightarrow> Q s"
    and stats: "\<And>r y. Q r \<Longrightarrow> Q (r\<lparr>r_mStatistics := y\<rparr>)"
    and p: "packet_from A p" "p \<noteq> []" and inv: "recv_inv r" and Q: "Q r" and run: "dispatch p src r = Some (res, s)"
  shows "Q s"
proof (cases "getFrameType (hd p) = TYPE4")
  case False
  then have "p \<in> fragments A" using p by (simp add: packet_from_def unpack_def)
  then obtain a i where "a \<in> A" "i \<le> unat (fa_aOfFragmentNo a)" "p = fragment a i" by (rule fragmentsE)
  with frag [OF _ _ inv Q] run show ?thesis by blast
next
  case True
  define n where "n = unat (t4_mFrameCount (dec_type4 p))"
  define z where "z = (length p - 2) div n"
  have chunks: "take z (drop (2 + k * z) p) \<in> fragments A" if "k < n" for k
    using p True that by (auto simp: packet_from_def unpack_def n_def [symmetric] z_def [symmetric] Let_def)
  have fit: "2 + n * z \<le> length p" if "2 \<le> length p"
    using that times_div_less_eq_dividend [of n "length p - 2"] unfolding z_def [symmetric] by linarith
  have inv': "recv_inv (r\<lparr>r_mStatistics := y\<rparr>)" for y using inv by (simp add: recv_inv_def)
  note loop = loop_keeps [where Q = Q, OF frag _ _ chunks inv' stats [OF Q]]
  have "Q s" if "handleType4 p src r = Some (res, s)"
    using that Q stats [OF Q] loop fit
    by (auto simp: handleType4_def mem_simps n_def [symmetric] z_def [symmetric] Let_def split: if_splits)
  with run True show ?thesis by (simp add: dispatch_def)
qed

lemma genuine_packet:
  assumes "payloads A" "packet_from A p" "p \<noteq> []" "recv_inv r" "genuine A src r" "dispatch p src r = Some (res, s)"
  shows "genuine A src s"
  by (rule packet_keeps [where Q = "genuine A src", OF genuine_fragment _ assms(2-6)])
    (use assms(1) in \<open>simp_all add: genuine_def\<close>)

section \<open>The frames handed over\<close>

definition delivery_ok :: "FragArgs set \<Rightarrow> u8 \<Rightarrow> SuperFrame \<Rightarrow> bool" where
  "delivery_ok A src f \<longleftrightarrow> (\<not> sf_mBroken f \<longrightarrow> sf_mSourceId f = src \<longrightarrow> (\<exists>a \<in> A. is_delivery a src f))"

definition integral :: "FragArgs set \<Rightarrow> u8 \<Rightarrow> Receiver \<Rightarrow> bool" where
  "integral A src r \<longleftrightarrow> recv_inv r \<and> genuine A src r \<and> (\<forall>f \<in> set (handed r). delivery_ok A src f)"

lemma integral_mono: "integral A src r \<Longrightarrow> A \<subseteq> B \<Longrightarrow> integral B src r"
  using genuine_mono [of A src r B] unfolding integral_def delivery_ok_def by blast

lemma ready_delivery:
  assumes A: "payloads A" and inv: "recv_inv r" and g: "genuine A src r" and active: "b_mActive (r_mpBuckets r idx)"
  shows "delivery_ok A src (ready_frame r idx)"
  unfolding delivery_ok_def
proof (intro impI)
  let ?b = "r_mpBuckets r idx"
  assume "\<not> sf_mBroken (ready_frame r idx)" "sf_mSourceId (ready_frame r idx) = src"
  then have b: "bucket_complete ?b" "b_mSourceId ?b = src" by (simp_all add: ready_frame_def finishedFrame_def)
  from g active b(2) obtain a S where a: "a \<in> A" "assembling a src S ?b" unfolding genuine_def by blast
  let ?of = "unat (fa_aOfFragmentNo a)"
  have S: "S \<subseteq> {..?of}" "b_mReceivedFragments ?b = S" "b_mOfFragmentNo ?b = fa_aOfFragmentNo a"
    using a(2) by (simp_all add: assembling_def)
  have "card S = Suc ?of" using recv_invD(1) [OF inv active] b(1) S by (auto simp: bucket_ok_def layout_def bucket_complete_def)
  then have "S = {..?of}" using S(1) by (intro card_subset_eq) simp_all
  moreover have "asm_ok a" using A a(1) by (simp add: payloads_def)
  ultimately show "\<exists>a \<in> A. is_delivery a src (ready_frame r idx)" using assembled(2) [OF _ inv] a by blast
qed

lemma assembling_nack:
  assumes "without_nack b = without_nack c"
  shows "assembling a src S b = assembling a src S c" "b_mActive b = b_mActive c" "b_mSourceId b = b_mSourceId c"
  using assms by (cases b; cases c; simp add: without_nack_def assembling_def)+

lemma integral_timeouts:
  assumes A: "payloads A" and int: "integral A src r" and run: "processTimeouts r = Some s"
  shows "integral A src s"
proof -
  have inv: "recv_inv r" and g: "genuine A src r" and fs: "\<forall>f \<in> set (handed r). delivery_ok A src f"
    using int by (simp_all add: integral_def)
  from processTimeouts_spec [OF inv] run have s: "recv_inv s" "hands_over r s (map (ready_frame r) (due r))"
    and b: "\<forall>i. if i \<in> set (due r) then \<not> b_mActive (r_mpBuckets s i) \<and> b_mDeliveryOrder (r_mpBuckets s i) = b_mDeliveryOrder (r_mpBuckets r i)
         else without_nack (r_mpBuckets s i) = without_nack (r_mpBuckets r i)" by auto
  have "genuine A src s"
    unfolding genuine_def
  proof (intro allI impI)
    fix j assume j: "b_mActive (r_mpBuckets s j)" "b_mSourceId (r_mpBuckets s j) = src"
    with b have "without_nack (r_mpBuckets s j) = without_nack (r_mpBuckets r j)" by metis
    from assembling_nack [OF this] j g show "\<exists>a \<in> A. \<exists>S. assembling a src S (r_mpBuckets s j)" by (simp add: genuine_def)
  qed
  moreover have "delivery_ok A src f" if "f \<in> set (handed s)" for f
  proof -
    have "set (handed s) = set (handed r) \<union> ready_frame r ` set (due r)"
      using s(2) by (auto simp: hands_over_def handed_def split: if_splits)
    with that fs ready_delivery [OF A inv g] due_facts(1) [OF inv] show ?thesis by auto
  qed
  ultimately show ?thesis using s(1) by (simp add: integral_def)
qed

lemma integral_dispatch:
  assumes A: "payloads A" and int: "integral A src r" and run: "dispatch p x r = Some (res, s)"
    and p: "x = src \<Longrightarrow> packet_from A p" "p \<noteq> []"
  shows "integral A src s"
proof -
  have inv: "recv_inv r" "genuine A src r" using int by (simp_all add: integral_def)
  have "recv_inv s" using dispatch_safe [OF inv(1), of p x] run by (simp add: safe_result_def)
  moreover have "genuine A src s"
  proof (cases "x = src")
    case True
    with genuine_packet [OF A p(1) p(2) inv] run show ?thesis by blast
  next
    case False
    with genuine_other [OF inv(2) dispatch_source [OF run]] show ?thesis by blast
  qed
  moreover have "handed s = handed r" using same_world_dispatch [OF run] by (simp add: same_world_def handed_def)
  ultimately show ?thesis using int by (simp add: integral_def)
qed

lemma integral_receive:
  assumes A: "payloads A" and int: "integral A src r" and run: "receive p x r = Some (res, s)"
    and p: "x = src \<Longrightarrow> packet_from A p"
  shows "integral A src s"
proof (cases "p = [] \<or> \<not> named_type (getFrameType (hd p))")
  case True
  with run int show ?thesis by (auto simp: receive_def split: if_splits)
next
  case False
  with run obtain u where u: "dispatch p x r = Some (res, u)" "s = u \<or> processTimeouts u = Some s"
    by (auto simp: receive_def split: if_splits bind_splits)
  have "integral A src u" using integral_dispatch [OF A int u(1) p] False by blast
  with u(2) integral_timeouts [OF A] show ?thesis by blast
qed

lemma integral_step:
  assumes A: "payloads A" and int: "integral A src r" and run: "receiver_step x r = Some (res, s)"
    and x: "\<And>p. x = Receive p src \<Longrightarrow> packet_from A p"
  shows "integral A src s"
proof (cases x)
  case (Receive p y)
  with run x integral_receive [OF A int, of p y] show ?thesis by auto
next
  case Poll
  with run int integral_timeouts [OF A int] show ?thesis by (auto simp: poll_def split: if_splits)
next
  case WorkerTick
  with run int integral_timeouts [OF A int] show ?thesis by (auto simp: workerTick_def split: if_splits)
next
  case DeliveryTick
  have "recv_inv (deliveryTick r)" using deliveryTick_inv int by (simp add: integral_def)
  moreover have "r_mpBuckets (deliveryTick r) = r_mpBuckets r" "set (handed (deliveryTick r)) = set (handed r)"
    by (auto simp: deliveryTick_def handed_def split: list.splits)
  ultimately show ?thesis using DeliveryTick run int by (simp add: integral_def genuine_def)
next
  case Stop
  with run int show ?thesis by (auto simp: stop_def integral_def genuine_def handed_def recv_inv_def)
qed (use run int in simp)

lemma integral_new:
  assumes "newReceiver n tmo hol retries iv mode clk alloc = Inr r" "retries \<le> 64"
  shows "integral A src r"
proof -
  have "recv_inv r" using assms by (rule recv_inv_new)
  moreover have "\<not> b_mActive (r_mpBuckets r j)" "handed r = []" for j
    using assms(1) by (auto simp: newReceiver_def emptyBucket_def handed_def split: if_splits)
  ultimately show ?thesis by (simp add: integral_def genuine_def)
qed

end
