(* ===== verification/Efp_System.thy ===== *)
theory Efp_System
  imports Efp_Integrity Efp_SenderProps Efp_ReceiverProps
begin

text \<open>
  A sender and a receiver with a hostile network between them. The network keeps every packet the
  sender ever handed to its transport and may carry any of them at any time, any number of times, or
  never; it may feed the sender arbitrary bytes as NACKs, and the receiver arbitrary packets of other
  sources. The threads and callers of both objects take their turns in any order.
\<close>

section \<open>The system\<close>

record World =
  w_sender :: Sender
  w_receiver :: Receiver

datatype WorldOp =
    AtSender SenderOp
  | AtReceiver ReceiverOp
  | Carry nat

text \<open>\<open>Carry n\<close> hands the \<open>n\<close>-th packet that was ever sent to the receiver, as coming from \<open>src\<close>.\<close>

fun world_step :: "u8 \<Rightarrow> WorldOp \<Rightarrow> World \<Rightarrow> (Result \<times> World) option" where
  "world_step src (AtSender x) w = map_option (\<lambda>(r, s). (r, w\<lparr>w_sender := s\<rparr>)) (sender_step x (w_sender w))"
| "world_step src (AtReceiver x) w = map_option (\<lambda>(r, v). (r, w\<lparr>w_receiver := v\<rparr>)) (receiver_step x (w_receiver w))"
| "world_step src (Carry n) w =
     (if n < length (s_out (w_sender w))
      then map_option (\<lambda>(r, v). (r, w\<lparr>w_receiver := v\<rparr>)) (receive (fst (s_out (w_sender w) ! n)) src (w_receiver w))
      else Some (OK, w))"

text \<open>
  What the theorem asks of a run: packets made up by the network come from other sources, and payloads
  leave the receiver the room it needs.
\<close>

fun world_op_ok :: "u8 \<Rightarrow> WorldOp \<Rightarrow> bool" where
  "world_op_ok src (AtSender x) = has_room x"
| "world_op_ok src (AtReceiver x) = (case x of Receive p y \<Rightarrow> y \<noteq> src | _ \<Rightarrow> True)"
| "world_op_ok src (Carry n) = True"

fun is_submit :: "WorldOp \<Rightarrow> bool" where
  "is_submit (AtSender (Send d ptype pts dts code st flags)) = True"
| "is_submit _ = False"

section \<open>The invariant\<close>

text \<open>After \<open>n\<close> accepted payloads, the set \<open>A\<close>, their superframe numbers are below \<open>n\<close>.\<close>

definition world_inv :: "u8 \<Rightarrow> FragArgs set \<Rightarrow> nat \<Rightarrow> World \<Rightarrow> bool" where
  "world_inv src A n w \<longleftrightarrow> payloads A \<and> fa_aSuperFrameNo ` A \<subseteq> word_of_nat ` {..<n} \<and>
     s_mSuperFrameNo (w_sender w) = word_of_nat n \<and> sender_inv (w_sender w) \<and> sends_from A (w_sender w) \<and>
     integral A src (w_receiver w)"

fun submitted :: "WorldOp \<Rightarrow> World \<Rightarrow> FragArgs list" where
  "submitted (AtSender x) w = accepted x (w_sender w)"
| "submitted _ w = []"

lemma fresh_number:
  assumes "n < 65536"
  shows "(word_of_nat n :: u16) \<notin> word_of_nat ` {..<n}"
proof
  assume "(word_of_nat n :: u16) \<in> word_of_nat ` {..<n}"
  then obtain k where "k < n" "(word_of_nat n :: u16) = word_of_nat k" by auto
  with assms show False by (metis less_irrefl less_trans unat_u16)
qed

lemma accepted_length: "length (accepted x s) \<le> (if is_submit (AtSender x) then 1 else 0)"
  by (cases x) simp_all

lemma payloads_accepted:
  assumes A: "payloads A" "fa_aSuperFrameNo ` A \<subseteq> word_of_nat ` {..<n}"
    and s: "sender_inv s" "s_mSuperFrameNo s = word_of_nat n" "has_room x" and n: "n + length (accepted x s) \<le> 65536"
  shows "payloads (A \<union> set (accepted x s))"
    "fa_aSuperFrameNo ` (A \<union> set (accepted x s)) \<subseteq> word_of_nat ` {..<n + length (accepted x s)}"
proof -
  note acc = accepted_ok [OF s(1,3)]
  have one: "length (accepted x s) \<le> 1" using accepted_length [of x s] by (cases "is_submit (AtSender x)") simp_all
  have "payloads (A \<union> set (accepted x s)) \<and>
    fa_aSuperFrameNo ` (A \<union> set (accepted x s)) \<subseteq> word_of_nat ` {..<n + length (accepted x s)}"
  proof (cases "accepted x s")
    case Nil
    with A show ?thesis by simp
  next
    case (Cons a as)
    with one have a: "accepted x s = [a]" by simp
    with acc [of a] s(2) have a': "asm_ok a" "fa_aSuperFrameNo a = word_of_nat n" by simp_all
    have "fa_aSuperFrameNo a \<notin> fa_aSuperFrameNo ` A" using fresh_number [of n] A(2) a'(2) n a by auto
    moreover have "fa_aSuperFrameNo ` A \<subseteq> word_of_nat ` {..<Suc n}" using A(2) by fastforce
    ultimately show ?thesis using A(1) a' a by (auto simp: payloads_def)
  qed
  then show "payloads (A \<union> set (accepted x s))"
    "fa_aSuperFrameNo ` (A \<union> set (accepted x s)) \<subseteq> word_of_nat ` {..<n + length (accepted x s)}" by simp_all
qed

lemma world_step_inv:
  assumes inv: "world_inv src A n w" and x: "world_op_ok src x" and n: "n + length (submitted x w) \<le> 65536"
  shows "\<exists>r w'. world_step src x w = Some (r, w') \<and> world_inv src (A \<union> set (submitted x w)) (n + length (submitted x w)) w'"
proof -
  let ?s = "w_sender w" and ?v = "w_receiver w"
  have I: "payloads A" "fa_aSuperFrameNo ` A \<subseteq> word_of_nat ` {..<n}" "s_mSuperFrameNo ?s = word_of_nat n"
    "sender_inv ?s" "sends_from A ?s" "integral A src ?v" using inv by (simp_all add: world_inv_def)
  have rinv: "recv_inv ?v" using I(6) by (simp add: integral_def)
  show ?thesis
  proof (cases x)
    case (AtSender y)
    from sender.step_safe [OF I(4), of y] obtain r t where t: "sender_step y ?s = Some (r, t)" "sender_inv t" by blast
    have room: "has_room y" using x AtSender by simp
    have le: "n + length (accepted y ?s) \<le> 65536" using n AtSender by simp
    note new = payloads_accepted [OF I(1,2,4,3) room le] and from_t = sender_step_from [OF I(4,5) t(1) room]
    have "integral (A \<union> set (accepted y ?s)) src ?v" by (rule integral_mono [OF I(6)]) simp
    with new from_t t I(3) AtSender show ?thesis by (simp add: world_inv_def)
  next
    case (AtReceiver y)
    from receiver.step_safe [OF rinv, of y] obtain r v where v: "receiver_step y ?v = Some (r, v)" by blast
    have "integral A src v" by (rule integral_step [OF I(1,6) v]) (use x AtReceiver in auto)
    with v I AtReceiver show ?thesis by (simp add: world_inv_def)
  next
    case (Carry k)
    show ?thesis
    proof (cases "k < length (s_out ?s)")
      case False
      with Carry inv show ?thesis by simp
    next
      case True
      let ?p = "fst (s_out ?s ! k)"
      from receive_safe [OF rinv, of ?p src] obtain r v where v: "receive ?p src ?v = Some (r, v)" by (auto simp: safe_result_def)
      have "packet_from A ?p" using I(5) True by (simp add: sends_from_def)
      then have "integral A src v" by (intro integral_receive [OF I(1,6) v])
      with v I Carry True show ?thesis by (simp add: world_inv_def)
    qed
  qed
qed

text \<open>The payloads of a run are those of its \<open>Send\<close> operations.\<close>

definition sent_in :: "WorldOp list \<Rightarrow> FragArgs \<Rightarrow> bool" where
  "sent_in ops a \<longleftrightarrow> (\<exists>d ptype pts dts code st flags s.
     AtSender (Send d ptype pts dts code st flags) \<in> set ops \<and> a = payload_args d ptype pts dts code st flags s)"

lemma submitted_sent:
  assumes "a \<in> set (submitted x w)"
  shows "sent_in [x] a"
proof -
  from assms obtain y where y: "x = AtSender y" "a \<in> set (accepted y (w_sender w))" by (cases x) simp_all
  then show ?thesis by (cases y) (auto simp: sent_in_def split: if_splits)
qed

lemma submitted_length: "length (submitted x w) \<le> length (filter is_submit [x])"
proof (cases x)
  case (AtSender y)
  then show ?thesis using accepted_length [of y "w_sender w"] by (simp split: if_splits)
qed simp_all

lemma world_run_inv:
  assumes "world_inv src A n w" "list_all (world_op_ok src) ops" "n + length (filter is_submit ops) \<le> 65536"
  shows "\<exists>w' B m. run_ops (world_step src) ops w = Some w' \<and> world_inv src B m w' \<and> (\<forall>b \<in> B. b \<in> A \<or> sent_in ops b)"
  using assms
proof (induction ops arbitrary: A n w)
  case Nil
  then show ?case by auto
next
  case (Cons x ops)
  have le: "length (submitted x w) \<le> length (filter is_submit [x])" by (rule submitted_length)
  have ok: "world_op_ok src x" "n + length (submitted x w) \<le> 65536" using Cons.prems(2,3) le by (simp_all split: if_splits)
  from world_step_inv [OF Cons.prems(1) ok] obtain r v where v: "world_step src x w = Some (r, v)"
    "world_inv src (A \<union> set (submitted x w)) (n + length (submitted x w)) v" by blast
  have "n + length (submitted x w) + length (filter is_submit ops) \<le> 65536" using Cons.prems(3) le by (simp split: if_splits)
  from Cons.IH [OF v(2) _ this] Cons.prems(2) obtain w' B m where
    w: "run_ops (world_step src) ops v = Some w'" "world_inv src B m w'" "\<forall>b \<in> B. b \<in> A \<union> set (submitted x w) \<or> sent_in ops b" by auto
  have "\<forall>b \<in> B. b \<in> A \<or> sent_in (x # ops) b" using w(3) submitted_sent [of _ x w] by (fastforce simp: sent_in_def)
  with v(1) w(1,2) show ?case by auto
qed

section \<open>Only what was sent is delivered\<close>

lemma world_inv_new:
  assumes "newReceiver n tmo hol retries iv rmode clk alloc = Inr r" "retries \<le> 64"
  shows "world_inv src {} 0 \<lparr>w_sender = newSender mtu mode ms mx sclk, w_receiver = r\<rparr>"
  using integral_new [OF assms] sender_inv_new sends_from_new
  by (simp add: world_inv_def payloads_def) (simp add: newSender_def Let_def)

text \<open>
  C2. Integrity of the whole system: whatever the network drops, repeats, reorders, injects from other
  sources or answers as NACKs, every run of a new sender and a new receiver is defined, and every
  complete frame that the receiver hands over for the sender's source is a payload that was sent, with
  its bytes and metadata, as long as superframe numbers do not repeat.
\<close>

theorem only_sent_payloads_delivered:
  assumes "newReceiver n tmo hol retries iv rmode clk alloc = Inr r" "retries \<le> 64"
    and "list_all (world_op_ok src) ops" "length (filter is_submit ops) \<le> 65536"
  shows "\<exists>w. run_ops (world_step src) ops \<lparr>w_sender = newSender mtu mode ms mx sclk, w_receiver = r\<rparr> = Some w \<and>
    (\<forall>f \<in> set (handed (w_receiver w)). \<not> sf_mBroken f \<longrightarrow> sf_mSourceId f = src \<longrightarrow>
      (\<exists>d ptype pts dts code st flags. AtSender (Send d ptype pts dts code st flags) \<in> set ops \<and>
         delivers d ptype pts dts code st flags src f))"
proof -
  from world_run_inv [OF world_inv_new [OF assms(1,2)], of src ops] assms(3,4) obtain w B m where
    w: "run_ops (world_step src) ops \<lparr>w_sender = newSender mtu mode ms mx sclk, w_receiver = r\<rparr> = Some w"
      "world_inv src B m w" "\<forall>b \<in> B. sent_in ops b" by force
  then have "\<forall>f \<in> set (handed (w_receiver w)). delivery_ok B src f" by (simp add: world_inv_def integral_def)
  moreover have "delivers d ptype pts dts code st flags src f" if "is_delivery (payload_args d ptype pts dts code st flags s) src f"
    for d ptype pts dts code st flags s f
    using that by (simp add: is_delivery_def delivers_def payload_fields payload_dts)
  ultimately have "\<forall>f \<in> set (handed (w_receiver w)). \<not> sf_mBroken f \<longrightarrow> sf_mSourceId f = src \<longrightarrow>
      (\<exists>d ptype pts dts code st flags. AtSender (Send d ptype pts dts code st flags) \<in> set ops \<and>
         delivers d ptype pts dts code st flags src f)"
    using w(3) unfolding delivery_ok_def sent_in_def by metis
  with w(1) show ?thesis by blast
qed

section \<open>A run\<close>

text \<open>Carried packets arrive at the receiver as the network handed them over.\<close>

lemma carry_run:
  "\<forall>k \<in> set ks. k < length (s_out (w_sender w)) \<Longrightarrow>
   run_ops (world_step src) (map Carry ks) w =
     map_option (\<lambda>v. w\<lparr>w_receiver := v\<rparr>) (run_ops receiver_step (arrivals (map (\<lambda>k. (fst (s_out (w_sender w) ! k), src)) ks)) (w_receiver w))"
proof (induction ks arbitrary: w)
  case (Cons k ks)
  show ?case
  proof (cases "receive (fst (s_out (w_sender w) ! k)) src (w_receiver w)")
    case (Some x)
    obtain res v where x: "x = (res, v)" by (cases x)
    from Cons.IH [of "w\<lparr>w_receiver := v\<rparr>"] Cons.prems Some x show ?thesis by (simp add: arrivals_def)
  qed (use Cons.prems in \<open>simp add: arrivals_def\<close>)
qed (simp add: arrivals_def)

text \<open>A payload that crosses the sample network: its packets arrive backwards and then once more.\<close>

lemma sample_crossing:
  assumes "send_outcome d (sample_sender 0) = OK"
  obtains t ps where "send d 1 90 80 5 3 0x10 (sample_sender 0) = Some (OK, t)" "s_out t = s_out (sample_sender 0) @ ps"
    "network (s_mSuperFrameNo (sample_sender 0)) 9 ps (map (\<lambda>(p, st). (p, 9)) (rev ps @ ps))"
proof -
  obtain q t where run: "send d 1 90 80 5 3 0x10 (sample_sender 0) = Some (q, t)" using send_total [OF sample_inv(1)] by blast
  have q: "q = OK" using send_carries(1) [OF sample_inv(1) run] assms by simp
  obtain ps where ps: "s_out t = s_out (sample_sender 0) @ ps"
    using send_carries(2) [OF sample_inv(1) run q] by (auto simp: carries_def)
  from that [OF _ ps turned_round [OF sample_inv(1) sample_dims(3) _ ps]] run q show ?thesis by blast
qed

definition sample_world :: World where
  "sample_world = \<lparr>w_sender = sample_sender 0, w_receiver = default_receiver (\<lambda>_. True)\<rparr>"

text \<open>A payload of two packets is sent, its packets are carried backwards and forwards, and the worker takes a turn.\<close>

definition sample_world_ops :: "nat \<Rightarrow> WorldOp list" where
  "sample_world_ops n = AtSender (Send (replicate 300 7) 1 90 80 5 3 0x10) # map Carry (rev [0 ..< n] @ [0 ..< n]) @ [AtReceiver WorkerTick]"

lemma sample_world_ok: "list_all (world_op_ok 9) (sample_world_ops n)" "length (filter is_submit (sample_world_ops n)) \<le> 65536"
  by (simp_all add: sample_world_ops_def list_all_iff MAX_SUPERFRAME_SIZE_def filter_map comp_def)

lemma sample_world_run:
  "\<exists>n w f. run_ops (world_step 9) (sample_world_ops n) sample_world = Some w \<and> f \<in> set (handed (w_receiver w)) \<and>
     \<not> sf_mBroken f \<and> sf_mSourceId f = 9 \<and> sf_mSuperFrameNo f = 0"
proof -
  let ?op = "AtSender (Send (replicate 300 7) 1 90 80 5 3 0x10)" and ?r = "default_receiver (\<lambda>_. True)"
  obtain t ps where x: "send (replicate 300 7) 1 90 80 5 3 0x10 (sample_sender 0) = Some (OK, t)" "s_out t = s_out (sample_sender 0) @ ps"
    "network (s_mSuperFrameNo (sample_sender 0)) 9 ps (map (\<lambda>(p, st). (p, 9)) (rev ps @ ps))"
    using sample_crossing [OF sample_accepts] by blast
  let ?qs = "map (\<lambda>(p, st). (p, 9 :: u8)) (rev ps @ ps)" and ?ks = "rev [0 ..< length ps] @ [0 ..< length ps]"
  note new = new_can_open [OF default_receiver_new [of "\<lambda>_. True"]]
  from sent_is_delivered [OF sample_inv(1) sample_dims(3) x(1,2) _ default_receiver_inv(1) new(1) new(2) new(3) x(3)]
  obtain u v fs f where d: "run_ops receiver_step (arrivals ?qs) ?r = Some u" "workerTick u = Some v"
    "r_mDeliveryQueue v = r_mDeliveryQueue ?r @ fs" "filter (\<lambda>f. sf_mSuperFrameNo f = s_mSuperFrameNo (sample_sender 0)) fs = [f]"
    "delivers (replicate 300 7) 1 90 80 5 3 0x10 9 f" by (auto simp: MAX_SUPERFRAME_SIZE_def)
  have qs: "map (\<lambda>k. (fst (ps ! k), 9)) ?ks = ?qs"
  proof -
    have "map (\<lambda>k. (fst (ps ! k), 9 :: u8)) [0 ..< length ps] = map (\<lambda>(p, st). (p, 9)) ps"
      by (rule nth_equalityI) (simp_all add: case_prod_beta)
    then show ?thesis by (simp only: map_append rev_map [symmetric])
  qed
  have out: "s_out t = ps" using x(2) by (simp add: sample_dims)
  have "run_ops (world_step 9) (map Carry ?ks) \<lparr>w_sender = t, w_receiver = ?r\<rparr> = Some \<lparr>w_sender = t, w_receiver = u\<rparr>"
    using d(1) by (subst carry_run) (simp_all add: out qs [simplified])
  then have run: "run_ops (world_step 9) (sample_world_ops (length ps)) sample_world = Some \<lparr>w_sender = t, w_receiver = v\<rparr>"
    using x(1) d(2) by (simp add: sample_world_ops_def sample_world_def run_ops_append [of _ "map Carry ?ks"] del: map_append)
  have "f \<in> set fs" "sf_mSuperFrameNo f = 0"
    using d(4) filter_is_subset list.set_intros(1) subsetD filter_eq_ConsD [OF d(4)] by (metis, auto simp: sample_dims)
  with run d(3,5) show ?thesis by (intro exI [of _ "length ps"]) (auto simp: handed_def delivers_def)
qed

theorem only_sent_payloads_delivered_witness:
  "\<exists>n w f. run_ops (world_step 9) (sample_world_ops n) sample_world = Some w \<and> f \<in> set (handed (w_receiver w)) \<and>
     \<not> sf_mBroken f \<and> sf_mSourceId f = 9 \<and> sf_contents f = Some (replicate 300 7) \<and> sf_mPts f = 90"
proof -
  from sample_world_run obtain n w f where run: "run_ops (world_step 9) (sample_world_ops n) sample_world = Some w"
    and f: "f \<in> set (handed (w_receiver w))" "\<not> sf_mBroken f" "sf_mSourceId f = 9" by blast
  from only_sent_payloads_delivered [OF default_receiver_new _ sample_world_ok [of n], of 256 SINGLE 0 1000 "\<lambda>_. 0" "\<lambda>_. True"] run f
  obtain d ptype pts dts code st flags where "AtSender (Send d ptype pts dts code st flags) \<in> set (sample_world_ops n)"
    "delivers d ptype pts dts code st flags 9 f" by (auto simp: sample_sender_def sample_world_def)
  then have "sf_contents f = Some (replicate 300 7)" "sf_mPts f = 90" by (auto simp: delivers_def sample_world_ops_def)
  with run f show ?thesis by blast
qed

end
