(* ===== verification/Efp_Once.thy ===== *)
theory Efp_Once
  imports Efp_System
begin

text \<open>
  Superframes are handed over at most once: the slot of a superframe remembers its delivery order after
  the hand-over, so what arrives later is refused as too old, for as long as the slot is not used for
  another superframe. With the default buffer that holds for 8192 consecutive superframes, in whatever
  order and however often the network carries their packets.
\<close>

section \<open>What a slot remembers\<close>

text \<open>The superframe number of a slot is the slot itself, for numbers below 8192.\<close>

lemma slot_of_number:
  assumes "k < 8192"
  shows "(word_of_nat k :: u16) AND 8191 = word_of_nat k"
proof -
  have "(word_of_nat k :: u16) AND 8191 = take_bit 13 (word_of_nat k)" by (simp add: take_bit_eq_mask mask_eq_exp_minus_1)
  also have "\<dots> = word_of_nat k"
    using assms by (intro unsigned_word_eqI [where ?'a = nat]) (simp add: unsigned_take_bit_eq take_bit_nat_eq_self)
  finally show ?thesis .
qed

definition never_used :: int where
  "never_used = 2 ^ 63 - 1"

text \<open>
  \<open>N\<close> superframes have been sent. A slot is untouched, or open for its superframe, or remembers that
  this has been delivered (or refused memory); the frames handed over are in slots that remember them.
\<close>

definition remembers :: "u16 \<Rightarrow> Bucket \<Rightarrow> bool" where
  "remembers j b \<longleftrightarrow> (if b_mActive b then b_mSavedFrameNo b = j \<and> b_mDeliveryOrder b = uint j
     else b_mDeliveryOrder b \<in> {never_used, uint j})"

definition closed_slot :: "u16 \<Rightarrow> Bucket \<Rightarrow> bool" where
  "closed_slot j b \<longleftrightarrow> \<not> b_mActive b \<and> b_mDeliveryOrder b = uint j"

definition numbered :: "nat \<Rightarrow> Receiver \<Rightarrow> bool" where
  "numbered N r \<longleftrightarrow> r_mFirstFrame r \<or> (\<exists>k < N. r_mOldFrameNo r = word_of_nat k \<and> r_mFrameNoRecalc r = int k)"

definition once :: "nat \<Rightarrow> Receiver \<Rightarrow> bool" where
  "once N r \<longleftrightarrow> N \<le> 8192 \<and> r_BUFFER_SIZE r = 8191 \<and> numbered N r \<and> (\<forall>j. remembers j (r_mpBuckets r j)) \<and>
     (\<forall>j \<in> sf_mSuperFrameNo ` set (handed r). closed_slot j (r_mpBuckets r j)) \<and>
     distinct (map sf_mSuperFrameNo (handed r))"

lemma once_mono: "once N r \<Longrightarrow> N \<le> M \<Longrightarrow> M \<le> 8192 \<Longrightarrow> once M r"
  by (auto simp: once_def numbered_def intro: less_le_trans)

lemma number_order:
  assumes "numbered N r" "k < N" "N \<le> 8192"
  shows "fst (recalculateSuperFrameNo (word_of_nat k) r) = int k"
proof (cases "r_mFirstFrame r")
  case True
  have "uint (word_of_nat k :: u16) = int k" using assms(2,3) by (simp add: unsigned_of_nat take_bit_eq_mod)
  with True show ?thesis by (simp add: recalculateSuperFrameNo_def)
next
  case False
  with assms(1) obtain m where m: "m < N" "r_mOldFrameNo r = word_of_nat m" "r_mFrameNoRecalc r = int m"
    by (auto simp: numbered_def)
  have "near (int m) (int k)" using m(1) assms(2,3) by (simp add: near_def)
  from recalculate_near [OF False _ _ this, of 0] m show ?thesis by simp
qed

lemma uint_number: "k < 8192 \<Longrightarrow> uint (word_of_nat k :: u16) = int k"
  by (simp add: unsigned_of_nat take_bit_eq_mod)

section \<open>Fragments\<close>

lemma once_fragment:
  assumes ok: "asm_ok a" and k: "fa_aSuperFrameNo a = word_of_nat k" "k < N" and once: "once N r"
    and run: "dispatch (fragment a i) src r = Some (res, s)"
  shows "once N s"
proof -
  let ?j = "word_of_nat k :: u16"
  have N: "N \<le> 8192" "r_BUFFER_SIZE r = 8191" "numbered N r" using once by (simp_all add: once_def)
  have slot: "bucketIndex ?j r = ?j" using slot_of_number [of k] k(2) N(1,2) by (simp add: bucketIndex_def)
  have "touches src ?j (int k) r s"
    using fragment_touches [OF ok run] number_order [OF N(3) k(2) N(1)] by (simp add: k(1))
  then have w: "same_world r s" and num: "numbering s = numbering r \<or> numbering s = (?j, int k, False)"
    and b: "\<And>i. r_mpBuckets s i = r_mpBuckets r i \<or> i = ?j \<and> may_become src ?j (int k) (r_mpBuckets r i) (r_mpBuckets s i)"
    by (simp_all add: touches_def slot)
  have order: "int k = uint ?j" using k(2) N(1) by (simp add: uint_number)
  have rem: "remembers i (r_mpBuckets s i)" for i
    using b [of i] once order by (auto simp: once_def remembers_def may_become_def split: if_splits)
  have same: "handed s = handed r" "r_BUFFER_SIZE s = 8191" using w N(2) by (simp_all add: same_world_def handed_def)
  have "closed_slot i (r_mpBuckets s i)" if "i \<in> sf_mSuperFrameNo ` set (handed s)" for i
    using that b [of i] once order by (auto simp: same once_def closed_slot_def may_become_def)
  moreover have "numbered N s" using num N(3) k(2) by (auto simp: numbering_def numbered_def)
  ultimately show ?thesis using once rem same by (simp add: once_def)
qed

section \<open>Hand-over\<close>

lemma hand_over_numbering:
  "numbering (hand_over f (count_delivered br r)) = numbering r" "r_BUFFER_SIZE (hand_over f (count_delivered br r)) = r_BUFFER_SIZE r"
  by (simp_all add: hand_over_def count_delivered_def numbering_def)

lemma deliver_loop_numbering:
  "deliver_loop is r = Some s \<Longrightarrow> numbering s = numbering r \<and> r_BUFFER_SIZE s = r_BUFFER_SIZE r"
proof (induction "is" arbitrary: r)
  case (Cons idx "is")
  then obtain u where u: "deliverFrame idx r = Some u" "deliver_loop is u = Some s" by (auto split: bind_splits)
  from u(1) have "numbering u = numbering r \<and> r_BUFFER_SIZE u = r_BUFFER_SIZE r"
    using hand_over_numbering [where r = r] by (auto simp: deliverFrame_def set_bucket_def numbering_def Let_def split: bind_splits)
  with Cons.IH [OF u(2)] show ?case by simp
qed simp

lemma processTimeouts_numbering:
  assumes "recv_inv r" "processTimeouts r = Some s"
  shows "numbering s = numbering r" "r_BUFFER_SIZE s = r_BUFFER_SIZE r"
proof -
  obtain t u where t: "r_nowUs r = (t, u)" by (cases "r_nowUs r")
  then have u: "recv_inv u" "numbering u = numbering r" "r_BUFFER_SIZE u = r_BUFFER_SIZE r"
    using assms(1) recv_inv_nowUs [OF t] by (auto simp: r_nowUs_def nowUs_def numbering_def)
  from processNacks_safe [OF u(1)] obtain v where v: "processNacks u = Some v" "nacked u v" by blast
  then have "numbering v = numbering u" "r_BUFFER_SIZE v = r_BUFFER_SIZE u" by (simp_all add: nacked_def numbering_def)
  moreover obtain l where "deliver_loop l v = Some s" using assms(2) t v(1) by (simp add: processTimeouts_def Let_def)
  ultimately show "numbering s = numbering r" "r_BUFFER_SIZE s = r_BUFFER_SIZE r"
    using deliver_loop_numbering u(2,3) by fastforce+
qed

lemma once_timeouts:
  assumes inv: "recv_inv r" and once: "once N r" and run: "processTimeouts r = Some s"
  shows "once N s"
proof -
  from processTimeouts_spec [OF inv] run have h: "hands_over r s (map (ready_frame r) (due r))"
    and b: "\<And>i. if i \<in> set (due r) then \<not> b_mActive (r_mpBuckets s i) \<and> b_mDeliveryOrder (r_mpBuckets s i) = b_mDeliveryOrder (r_mpBuckets r i)
         else without_nack (r_mpBuckets s i) = without_nack (r_mpBuckets r i)" by auto
  note D = due_facts [OF inv]
  have rem: "remembers i (r_mpBuckets r i)" for i using once by (simp add: once_def)
  have due: "b_mActive (r_mpBuckets r i)" "sf_mSuperFrameNo (ready_frame r i) = i" "b_mDeliveryOrder (r_mpBuckets r i) = uint i"
    if "i \<in> set (due r)" for i
    using that D(1) rem [of i] by (auto simp: remembers_def ready_frame_def finishedFrame_def split: if_splits)
  have num: "map sf_mSuperFrameNo (map (ready_frame r) (due r)) = due r"
    using due(2) by (simp add: map_idI)
  have rem': "remembers i (r_mpBuckets s i)" for i
  proof (cases "i \<in> set (due r)")
    case True
    with b [of i] due(3) [OF True] show ?thesis by (simp add: remembers_def)
  next
    case False
    with b [of i] have "without_nack (r_mpBuckets s i) = without_nack (r_mpBuckets r i)" by simp
    from without_nack_fields(1-3) [OF this] rem [of i] show ?thesis by (auto simp: remembers_def split: if_splits)
  qed
  have old: "closed_slot i (r_mpBuckets s i)" if "closed_slot i (r_mpBuckets r i)" for i
  proof -
    have "i \<notin> set (due r)" using that due(1) by (auto simp: closed_slot_def)
    with b [of i] have "without_nack (r_mpBuckets s i) = without_nack (r_mpBuckets r i)" by simp
    from without_nack_fields(1,2) [OF this] that show ?thesis by (simp add: closed_slot_def)
  qed
  have new: "closed_slot i (r_mpBuckets s i)" if "i \<in> set (due r)" for i
    using b [of i] due(3) [OF that] that by (simp add: closed_slot_def)
  obtain xs ys where x: "handed r = xs @ ys" "handed s = xs @ map (ready_frame r) (due r) @ ys"
    using h by (auto simp: hands_over_def handed_def split: if_splits intro: that [of _ "[]"])
  have apart: "sf_mSuperFrameNo ` set (handed r) \<inter> set (due r) = {}"
    using once due(1) by (auto simp: once_def closed_slot_def)
  have "set (map sf_mSuperFrameNo (handed s)) = sf_mSuperFrameNo ` set (handed r) \<union> set (due r)"
    unfolding x map_append num by auto
  moreover have "distinct (map sf_mSuperFrameNo (handed s))"
    using once D(2) apart unfolding once_def x map_append num by auto
  moreover have "closed_slot j (r_mpBuckets r j)" if "j \<in> sf_mSuperFrameNo ` set (handed r)" for j
    using once that by (auto simp: once_def)
  ultimately show ?thesis
    using once rem' old new processTimeouts_numbering [OF inv run] by (auto simp: once_def numbered_def numbering_def)
qed

section \<open>The system\<close>

lemma once_receive:
  assumes A: "\<And>a. a \<in> A \<Longrightarrow> asm_ok a \<and> fa_aSuperFrameNo a \<in> word_of_nat ` {..<N}"
    and inv: "recv_inv r" and once: "once N r" and p: "packet_from A p" and run: "receive p src r = Some (res, s)"
  shows "once N s"
proof (cases "p = [] \<or> \<not> named_type (getFrameType (hd p))")
  case True
  with run once show ?thesis by (auto simp: receive_def split: if_splits)
next
  case False
  with run obtain u where u: "dispatch p src r = Some (res, u)" "s = u \<or> processTimeouts u = Some s"
    by (auto simp: receive_def split: if_splits bind_splits)
  have "once N u"
  proof (rule packet_keeps [where Q = "once N", OF _ _ p _ inv once u(1)])
    show "once N y" if "a \<in> A" "dispatch (fragment a i) src x = Some (q, y)" "once N x" for a i x y q
      using A [OF that(1)] once_fragment [OF _ _ _ that(3,2)] by auto
  qed (use False in \<open>simp_all add: once_def numbered_def handed_def\<close>)
  moreover have "recv_inv u" using dispatch_safe [OF inv, of p src] u(1) by (simp add: safe_result_def)
  ultimately show ?thesis using u(2) once_timeouts by blast
qed

text \<open>Only the sender's packets reach the receiver.\<close>

fun from_sender :: "WorldOp \<Rightarrow> bool" where
  "from_sender (AtReceiver (Receive p y)) = False"
| "from_sender _ = True"

lemma once_step:
  assumes inv: "recv_inv r" and once: "once N r" and run: "receiver_step x r = Some (res, s)" and x: "from_sender (AtReceiver x)"
  shows "once N s"
proof (cases x)
  case Poll
  with run once once_timeouts [OF inv once] show ?thesis by (auto simp: poll_def split: if_splits)
next
  case WorkerTick
  with run once once_timeouts [OF inv once] show ?thesis by (auto simp: workerTick_def split: if_splits)
next
  case DeliveryTick
  have "handed (deliveryTick r) = handed r" "r_mpBuckets (deliveryTick r) = r_mpBuckets r"
    "r_BUFFER_SIZE (deliveryTick r) = r_BUFFER_SIZE r" "numbered N (deliveryTick r) = numbered N r"
    by (auto simp: deliveryTick_def handed_def numbered_def split: list.splits)
  with DeliveryTick run once show ?thesis by (simp add: once_def)
next
  case Stop
  then have "s = r\<lparr>r_mRunning := False\<rparr> \<or> s = r" using run by (auto simp: stop_def)
  moreover have "once N (r\<lparr>r_mRunning := False\<rparr>) = once N r" by (simp add: once_def numbered_def handed_def)
  ultimately show ?thesis using once by auto
qed (use assms in simp_all)

lemma world_step_once:
  assumes inv: "world_inv src A n w" and once: "once n (w_receiver w)" and x: "from_sender x"
    and n: "n + length (submitted x w) \<le> 8192" and run: "world_step src x w = Some (r, w')"
  shows "once (n + length (submitted x w)) (w_receiver w')"
proof (cases x)
  case (AtSender y)
  with run once n show ?thesis by (auto intro: once_mono)
next
  case (AtReceiver y)
  from inv have "recv_inv (w_receiver w)" by (simp add: world_inv_def integral_def)
  from once_step [OF this once] AtReceiver run x show ?thesis by auto
next
  case (Carry k)
  have I: "recv_inv (w_receiver w)" "\<And>a. a \<in> A \<Longrightarrow> asm_ok a \<and> fa_aSuperFrameNo a \<in> word_of_nat ` {..<n}" "sends_from A (w_sender w)"
    using inv by (auto simp: world_inv_def integral_def payloads_def)
  show ?thesis
  proof (cases "k < length (s_out (w_sender w))")
    case True
    then have "packet_from A (fst (s_out (w_sender w) ! k))" using I(3) by (simp add: sends_from_def)
    from once_receive [OF I(2,1) once this] Carry run True show ?thesis by auto
  qed (use Carry run once in simp)
qed

lemma world_run_once:
  assumes "world_inv src A n w" "once n (w_receiver w)" "list_all (world_op_ok src) ops" "list_all from_sender ops"
    and "n + length (filter is_submit ops) \<le> 8192"
  shows "\<exists>w' m. run_ops (world_step src) ops w = Some w' \<and> once m (w_receiver w')"
  using assms
proof (induction ops arbitrary: A n w)
  case (Cons x ops)
  have le: "length (submitted x w) \<le> length (filter is_submit [x])" by (rule submitted_length)
  have ok: "world_op_ok src x" "n + length (submitted x w) \<le> 8192" using Cons.prems(3,5) le by (simp_all split: if_splits)
  from ok(2) have "n + length (submitted x w) \<le> 65536" by simp
  from world_step_inv [OF Cons.prems(1) ok(1) this] obtain r v where v: "world_step src x w = Some (r, v)"
    "world_inv src (A \<union> set (submitted x w)) (n + length (submitted x w)) v" by blast
  have "once (n + length (submitted x w)) (w_receiver v)"
    by (rule world_step_once [OF Cons.prems(1,2) _ ok(2) v(1)]) (use Cons.prems(4) in simp)
  moreover have "n + length (submitted x w) + length (filter is_submit ops) \<le> 8192" using Cons.prems(5) le by (simp split: if_splits)
  ultimately show ?case using Cons.IH [OF v(2)] Cons.prems(3,4) v(1) by auto
qed auto

lemma once_new:
  assumes "newReceiver DEFAULT_BUFFER_SIZE tmo hol retries iv mode clk alloc = Inr r"
  shows "once 0 r"
  using assms by (auto simp: newReceiver_def once_def numbered_def remembers_def never_used_def emptyBucket_def handed_def
      DEFAULT_BUFFER_SIZE_def split: if_splits)

text \<open>
  C3. At most once: of a sender's first 8192 superframes a new receiver with the default buffer hands
  over each at most once, complete or broken, whatever the network drops, delays, repeats or reorders
  and whatever is retransmitted.
\<close>

theorem superframes_handed_over_once:
  assumes "newReceiver DEFAULT_BUFFER_SIZE tmo hol retries iv rmode clk alloc = Inr r" "retries \<le> 64"
    and "list_all (world_op_ok src) ops" "list_all from_sender ops" "length (filter is_submit ops) \<le> 8192"
  shows "\<exists>w. run_ops (world_step src) ops \<lparr>w_sender = newSender mtu mode ms mx sclk, w_receiver = r\<rparr> = Some w \<and>
    distinct (map sf_mSuperFrameNo (handed (w_receiver w)))"
  using world_run_once [OF world_inv_new [OF assms(1,2)] _ assms(3,4)] once_new [OF assms(1)] assms(5)
  by (force simp: once_def)

theorem superframes_handed_over_once_witness:
  "\<exists>n w. run_ops (world_step 9) (sample_world_ops n) sample_world = Some w \<and>
     length (filter (\<lambda>f. sf_mSuperFrameNo f = 0) (handed (w_receiver w))) = 1"
proof -
  from sample_world_run obtain n w f where run: "run_ops (world_step 9) (sample_world_ops n) sample_world = Some w"
    and f: "f \<in> set (handed (w_receiver w))" "sf_mSuperFrameNo f = 0" by blast
  have "list_all from_sender (sample_world_ops n)" "length (filter is_submit (sample_world_ops n)) \<le> 8192"
    by (simp_all add: sample_world_ops_def list_all_iff filter_map comp_def)
  from superframes_handed_over_once [OF default_receiver_new [folded DEFAULT_BUFFER_SIZE_def] _ sample_world_ok(1) this, of 256 SINGLE 0 1000 "\<lambda>_. 0" "\<lambda>_. True"] run
  have d: "distinct (map sf_mSuperFrameNo (handed (w_receiver w)))" by (auto simp: sample_world_def sample_sender_def)
  have "length (filter (\<lambda>f. sf_mSuperFrameNo f = 0) (handed (w_receiver w))) =
      length (filter (\<lambda>n. n = 0) (map sf_mSuperFrameNo (handed (w_receiver w))))" by (simp add: filter_map comp_def)
  also have "filter (\<lambda>n. n = 0) (map sf_mSuperFrameNo (handed (w_receiver w))) = [0]"
    using f d by (intro filter_distinct_one) (force, simp)
  finally show ?thesis using run by auto
qed

section \<open>Two sources\<close>

text \<open>
  All sources share the slots and the numbering of a receiver: once the superframe of one source has been
  delivered, the superframe of the same number from another source is refused as too old and is lost.
\<close>

definition small_packet :: bytes where
  "small_packet = enc_type2 \<lparr>t2_mFrameType = makeFrameTypeByte TYPE2 0, t2_mStreamId = 1, t2_mPayloadType = 0,
     t2_mSizeOfData = 1, t2_mSuperFrameNo = 0, t2_mOfFragmentNo = 0, t2_mType1PacketSize = 0, t2_mPts = 0,
     t2_mDtsPtsDiff = 0, t2_mPayloadCode = 0\<rparr> @ [7]"

theorem second_source_is_refused:
  "\<exists>s t u. receive small_packet 1 (default_receiver (\<lambda>_. True)) = Some (OK, s) \<and> workerTick s = Some t \<and>
     map sf_mSourceId (r_mDeliveryQueue t) = [1] \<and> receive small_packet 2 t = Some (FRAGMENT_TOO_OLD, u)"
  by (simp add: small_packet_def header_eval receiver_eval delivery_eval MAX_SUPERFRAME_SIZE_def)

end
