(* ===== verification/Spec2Isabelle.thy ===== *)
theory Spec2Isabelle
  imports Efp_WireProps Efp_RetentionWindow Efp_ReceiverProps Efp_Modes Efp_ThreadsProps Efp_BandwidthProps Efp_CDelivery Efp_Declarations Efp_Once
begin

text \<open>
  EFP, the Elastic Frame Protocol: a sender cuts payloads (superframes) into fragments that fit an MTU,
  single or in bundles, and keeps copies of them; a receiver puts superframes together from fragments
  that arrive in any order, asks for missing ones with NACKs and hands the frames over, in two threads
  of its own. Around them are a bandwidth manager, which wraps a sender and sets a multiplier per stream
  from the NACKs, the jitter and the round trip times it sees, and a C interface. The code is
  \<open>src/efp_internal.h\<close> (packets), \<open>src/efp.h\<close> (sender and receiver), \<open>src/bandwidth_manager.h\<close>,
  \<open>src/efp_c_api.cpp\<close> and the constants of \<open>src/efp_c_api.h\<close> and \<open>src/efp_media_types.h\<close>.

  How the state corresponds to the code. The classes \<open>Sender\<close> and \<open>Receiver\<close> are the records of the
  same name, with the members under their own names, prefixed \<open>s_\<close> and \<open>r_\<close>. Integers have their
  width (\<open>u8\<close> to \<open>u64\<close> are words); \<open>int64_t\<close> times are \<open>int\<close>, and the theorems give the bounds under
  which they do not overflow; where the application or the network chooses the operands, in the bandwidth
  manager, an overflow is \<open>None\<close>. \<open>std::chrono\<close> is a stream \<open>clock\<close> of readings, the allocator a stream of
  answers, a callback a log of its calls (\<open>s_out\<close>, \<open>r_nacks\<close>, \<open>r_delivered\<close>): the transport and the
  user of the library are parameters. A byte buffer of the code is a list; each read or write of it
  is a partial operation, and \<open>None\<close> is the access out of bounds, so a theorem that an operation
  returns \<open>Some\<close> is a memory safety theorem. Uninitialised bytes of a superframe are \<open>None\<close> cells.
  Methods under a mutex are atomic. In most theories a turn of a thread of the receiver is one operation;
  \<open>Efp_Threads\<close> interleaves the threads at their real control points, with the acquisition of the mutex, the
  test of the wait predicate, falling asleep on the condition variable, its notifications, spurious
  wake-ups and the joins of \<open>stop\<close> as steps, and \<open>threads_refine_turns\<close> shows that this adds no behaviour
  until the receiver is stopped. \<open>BandwidthManager\<close> is a record with the prefix \<open>bm_\<close>; its arrays over the 256 streams
  are functions, its two callbacks a log, its \<open>float\<close> the binary32 numbers of \<open>Efp_Float\<close>. The objects of the
  C interface live in partial maps from addresses (\<open>CLib\<close>), and an access to an address without an object
  is \<open>None\<close>.

  The theories, in the order of their imports:
    \<^item> \<open>Efp_Prelude\<close>: words, buffers, little-endian numbers, runs of operations and the locale of a
      machine that does not get stuck; \<open>Efp_Wire\<close>: the packed headers of \<open>efp_internal.h\<close> and their
      encodings, as instances of a codec locale; \<open>Efp_WireProps\<close>: a cast reads exactly what was written;
      \<open>Efp_Types\<close>: constants, results and statistics of
      \<open>efp.h\<close>.
    \<^item> \<open>Efp_Retention\<close>, \<open>Efp_RetentionInv\<close>, \<open>Efp_Retransmit\<close>: the retention store, its eviction, NACK
      packets and the retransmit queue, with the store and queue invariants; \<open>Efp_RetentionWindow\<close>: on a
      steady clock the store is a window over time.
    \<^item> \<open>Efp_Sender\<close>, \<open>Efp_Fragmentation\<close>, \<open>Efp_SenderInv\<close>, \<open>Efp_Bundle\<close>, \<open>Efp_SenderSafe\<close>,
      \<open>Efp_SenderMachine\<close>, \<open>Efp_SendSpec\<close>, \<open>Efp_SenderProps\<close>: \<open>send\<close> with its plan of fragments and the
      single and bundled loops; the abstract fragments; the invariant of a sender; \<open>send\<close> refines the
      list of abstract fragments. \<open>Efp_SenderSafe\<close> has the locale of a property of packets that every
      operation keeps, for the packets of one \<open>send\<close> (\<open>sender_content\<close>) and, as an instance of it, for any
      (\<open>sender_property\<close>).
    \<^item> \<open>Efp_Receiver\<close>, \<open>Efp_Nack\<close>, \<open>Efp_Delivery\<close>: the packet handlers, the NACK generator, delivery and the
      public operations; \<open>Efp_ReceiverInv\<close>, \<open>Efp_ReceiverMachine\<close>, \<open>Efp_ReceiverRuns\<close>: the invariant
      of the buckets, the machine of the public operations, the accounting of frames.
    \<^item> \<open>Efp_Pieces\<close>, \<open>Efp_Reassembly\<close>, \<open>Efp_Arrivals\<close>: what a bucket holds after any subset of the
      fragments of a payload, independence of the arrival order, and what is delivered;
      \<open>Efp_EndToEnd\<close> joins both sides; \<open>Efp_NackSpec\<close>: the NACK of a bucket against its missing fragments, and a round of
      recovery.
    \<^item> \<open>Efp_Origin\<close>: every packet a sender emits is made of fragments of payloads it was given;
      \<open>Efp_Integrity\<close>: an open bucket of a source holds fragments of one such payload, whatever other
      sources send; \<open>Efp_System\<close>: sender, network and receiver as one machine, and only payloads that were
      sent are delivered; \<open>Efp_Once\<close>: what a slot remembers after delivery, and no superframe is handed over
      twice.
    \<^item> \<open>Efp_Threads\<close>: \<open>workerLoop\<close>, \<open>deliveryLoop\<close> and the callers of \<open>receive\<close> and \<open>stop\<close> as one step relation;
      \<open>Efp_Unread\<close>: the locale of updates the handlers do not look at; \<open>Efp_Requeue\<close>: its instance for the
      delivery queue; \<open>Efp_Modes\<close>: its instance for the run-to-completion mode; \<open>Efp_ThreadsInv\<close>, \<open>Efp_ThreadsProps\<close>:
      the invariant, the order of frames, the match with atomic turns, no lost wake-up, and what \<open>stop\<close> waits for.
    \<^item> \<open>Efp_Float\<close>: binary32 addition, multiplication, division and comparison by exact rationals and
      rounding to nearest even; \<open>Efp_Bandwidth\<close>: the bandwidth manager; \<open>Efp_BandwidthInv\<close>,
      \<open>Efp_BandwidthSpec\<close>, \<open>Efp_BandwidthProps\<close>: its invariant, what its loops over the streams do to each
      stream, and the properties.
    \<^item> \<open>Efp_CEmbedded\<close>: embedded data and the wrapper of the receive callback; \<open>Efp_CApi\<close>: objects and
      handles; \<open>Efp_CApiInv\<close>, \<open>Efp_CApiProps\<close>: the handle tables own the objects, the only undefined step of
      a legacy run is a frame whose embedded sections overrun it, and the properties;
      \<open>Efp_CDelivery\<close>: the operations on a receiver handle do what the receiver does, and a payload gets from
      one handle to the callback of another; \<open>Efp_Declarations\<close>: the constants of the two headers, which agree
      with the C++ side, and the factory functions \<open>makeSender\<close>, \<open>makeReceiver\<close>, \<open>makeBandwidthManager\<close>.
    \<^item> \<open>Efp_RetentionWindow\<close>, \<open>Efp_SenderProps\<close>, \<open>Efp_ReceiverProps\<close>, \<open>Efp_Modes\<close>, \<open>Efp_System\<close>,
      \<open>Efp_Once\<close>, \<open>Efp_ThreadsProps\<close>, \<open>Efp_BandwidthProps\<close>, \<open>Efp_CApiProps\<close>, \<open>Efp_CDelivery\<close> and this theory, which joins sender, receiver and
      C interface, hold the properties.

  Bounds. A payload has at most 100 MiB and 8192 fragments (the bounds of the code). Loops of the code
  are structural, or functions with a measure, so they need no fuel. After \<open>stop\<close> the two threads
  and its caller make at most 65548 steps: one for each of the at most 65536 buckets and twelve more. One
  NACK names at most 255 ranges of fragments; a round of recovery brings those, further rounds the rest.
  The bandwidth manager is for readings of the clock below 2^62 us, samples of jitter that can be negated
  and round trip times of at most 2^62 us; beyond them its arithmetic overflows. The theorems
  about the legacy interface are for runs of at most 2^63 operations, so that no handle number repeats; those about generations of
  retained packets are for runs that retain fewer than 2^64.

  Superframe numbers have 16 bits, and a receiver with the default buffer has 8192 slots: integrity is for
  senders of at most 65536 payloads, so that no number repeats, at-most-once for 8192 superframes, so that
  no slot is used twice. Both are for at most 64 NACK retries, beyond which the delay shift is undefined, and
  payloads 128 KiB below the size limit, which the receiver can hold. The bound on the retries is one of
  all theorems on runs of a receiver; the size limit is one of those that deliver a payload.

  Not modelled. The examples, \<open>main.cpp\<close> and the tests, which print, sleep and open sockets around calls of
  the library; the overloads of \<open>send\<close> and \<open>receive\<close> for vectors, which are the operations themselves;
  exceptions thrown by callbacks or by \<open>new\<close> in the middle of an operation; relaxed memory (the threads are
  sequentially consistent). In the C interface the joins of \<open>efp_receiver_destroy\<close> are immediate, so a turn of
  a thread that ends during them counts as taken before. \<open>efp_sender_set_superframe_no\<close> has an empty body.
\<close>

section \<open>Sender and receiver together\<close>



text \<open>
  C12. Embedded data survives the network: when the payload is sections of embedded data in front of a
  payload of its own, sent with the inline flag, the frame that the receiver hands over to the C
  callbacks comes apart into the calls for the sections, in order, and the call for the payload.
\<close>

theorem embedded_data_survives_network:
  assumes "sender_inv s" "s_mRetransmitQueue s = []" "send (embed ss p) ptype pts dts code st flags s = Some (OK, t)"
    and "s_out t = s_out s @ ps" "length (embed ss p) + 131072 \<le> MAX_SUPERFRAME_SIZE"
    and "recv_inv r" "can_open (s_mSuperFrameNo s) r" "r_mMode r = THREADED" "r_mRunning r"
    and "network (s_mSuperFrameNo s) src ps qs"
    and "ss \<noteq> []" "list_all section_ok ss" "flags AND FLAG_INLINE_PAYLOAD \<noteq> 0"
    and "cr_mCallback rx = Some cb" "cr_mEmbeddedCallback rx = Some ecb"
  shows "\<exists>u v fs f. run_ops receiver_step (arrivals qs) r = Some u \<and> workerTick u = Some v \<and>
    r_mDeliveryQueue v = r_mDeliveryQueue r @ fs \<and> filter (\<lambda>f. sf_mSuperFrameNo f = s_mSuperFrameNo s) fs = [f] \<and>
    receiveCallbackWrapper rx f = Some (map (\<lambda>(t, d). EmbeddedCall ecb (map Some d) t pts (cr_mpCtx rx)) ss @
      [FrameCall cb (map Some p) ptype 0 pts (carried_dts pts dts) code st src (flags AND 0xF0) (cr_mpCtx rx)])"
proof -
  from sent_is_delivered [OF assms(1-10)] obtain u v fs f where
    f: "run_ops receiver_step (arrivals qs) r = Some u" "workerTick u = Some v" "r_mDeliveryQueue v = r_mDeliveryQueue r @ fs"
      "filter (\<lambda>f. sf_mSuperFrameNo f = s_mSuperFrameNo s) fs = [f]" "delivers (embed ss p) ptype pts dts code st flags src f" by blast
  have "(flags AND 0xF0) AND FLAG_INLINE_PAYLOAD = flags AND FLAG_INLINE_PAYLOAD" by (simp add: FLAG_INLINE_PAYLOAD_def and.assoc)
  with wrapper_sections [OF _ assms(11,12,14,15), of f] f(5) assms(13) have
    "receiveCallbackWrapper rx f = Some (map (\<lambda>(t, d). EmbeddedCall ecb (map Some d) t pts (cr_mpCtx rx)) ss @
      [FrameCall cb (map Some p) ptype 0 pts (carried_dts pts dts) code st src (flags AND 0xF0) (cr_mpCtx rx)])"
    by (simp add: delivers_def)
  with f(1-4) show ?thesis by blast
qed

theorem embedded_data_survives_network_witness:
  "\<exists>t ps u v f cs. send (embed [(1, [7, 8]), (2, [])] (replicate 300 7)) 1 90 80 5 3 0x10 (sample_sender 0) = Some (OK, t) \<and> s_out t = ps \<and>
     run_ops receiver_step (arrivals (map (\<lambda>(p, st). (p, 9)) (rev ps @ ps))) (default_receiver (\<lambda>_. True)) = Some u \<and>
     workerTick u = Some v \<and> [f] = filter (\<lambda>f. sf_mSuperFrameNo f = 0) (r_mDeliveryQueue v) \<and>
     receiveCallbackWrapper \<lparr>cr_mpReceiver = None, cr_mCallback = Some 1, cr_mEmbeddedCallback = Some 2, cr_mNackCallback = None, cr_mpCtx = 4\<rparr> f =
       Some ([EmbeddedCall 2 [Some 7, Some 8] 1 90 4, EmbeddedCall 2 [] 2 90 4] @ [FrameCall 1 (replicate 300 (Some 7)) 1 0 90 80 5 3 9 0x10 4])"
proof -
  let ?ss = "[(1, [7, 8]), (2, [])]" and ?p = "replicate 300 7"
  let ?rx = "\<lparr>cr_mpReceiver = None, cr_mCallback = Some 1, cr_mEmbeddedCallback = Some 2, cr_mNackCallback = None, cr_mpCtx = 4\<rparr>"
  have "send_outcome (embed ?ss ?p) (sample_sender 0) = OK"
    by (simp add: send_outcome_def sent_total_def sample_dims type1_frame_size_def fragmentPlan_def section_header_def
        MAX_SUPERFRAME_SIZE_def MAX_FRAGMENTS_PER_SUPERFRAME_def Let_def)
  from sample_crossing [OF this] obtain t ps where
    x: "send (embed ?ss ?p) 1 90 80 5 3 0x10 (sample_sender 0) = Some (OK, t)" "s_out t = s_out (sample_sender 0) @ ps"
      "network (s_mSuperFrameNo (sample_sender 0)) 9 ps (map (\<lambda>(p, st). (p, 9)) (rev ps @ ps))" by blast
  let ?r = "default_receiver (\<lambda>_. True)" and ?qs = "map (\<lambda>(p, st). (p, 9 :: u8)) (rev ps @ ps)"
  note new = new_can_open [OF default_receiver_new [of "\<lambda>_. True"]]
  have "length (embed ?ss ?p) + 131072 \<le> MAX_SUPERFRAME_SIZE" by (simp add: MAX_SUPERFRAME_SIZE_def)
  moreover have "?ss \<noteq> []" "list_all section_ok ?ss" "0x10 AND FLAG_INLINE_PAYLOAD \<noteq> 0" "cr_mCallback ?rx = Some 1" "cr_mEmbeddedCallback ?rx = Some 2"
    by (simp_all add: section_ok_def FLAG_INLINE_PAYLOAD_def)
  ultimately obtain u v fs f where f: "run_ops receiver_step (arrivals ?qs) ?r = Some u" "workerTick u = Some v"
    "r_mDeliveryQueue v = r_mDeliveryQueue ?r @ fs" "filter (\<lambda>f. sf_mSuperFrameNo f = s_mSuperFrameNo (sample_sender 0)) fs = [f]"
    "receiveCallbackWrapper ?rx f = Some (map (\<lambda>(t, d). EmbeddedCall 2 (map Some d) t 90 (cr_mpCtx ?rx)) ?ss @
      [FrameCall 1 (map Some ?p) 1 0 90 (carried_dts 90 80) 5 3 9 (0x10 AND 0xF0) (cr_mpCtx ?rx)])"
    using embedded_data_survives_network [OF sample_inv(1) sample_dims(3) x(1,2) _ default_receiver_inv(1) new(1) new(2) new(3) x(3)] by blast
  with x(1,2) show ?thesis
    by (intro exI [of _ t] exI [of _ ps] exI [of _ u] exI [of _ v] exI [of _ f])
      (simp add: sample_dims carried_dts_def default_receiver_def newReceiver_def)
qed

text \<open>
  C21. The NACK built for an incomplete bucket is accepted by the sender, and its entries name exactly
  the missing fragments of the superframe on its stream in ascending order; when they form more than
  255 ranges it names the first of them.
\<close>

theorem nack_names_missing_fragments:
  assumes "unat (b_mOfFragmentNo b) < 8192"
  shows "\<exists>d es. buildNack b = Some d \<and> nack_missing b = Some es \<and> (d = [] \<longleftrightarrow> es = []) \<and>
    concat (map entry_range es) = missing b (Suc (unat (b_mOfFragmentNo b))) \<and>
    (es \<noteq> [] \<longrightarrow> nack_asks b d (concat (map entry_range (take 255 es))))"
  using assms by (rule buildNack_spec)

lemma entries_fewer: "length es \<le> length (concat (map entry_range es))"
  by (induction es) (simp_all add: entry_range_def)

theorem nack_names_missing_fragments_witness:
  "let b = emptyBucket\<lparr>b_mOfFragmentNo := 5, b_mReceivedFragments := {1, 4}\<rparr> in
   \<exists>d. buildNack b = Some d \<and> nack_asks b d [0, 2, 3, 5]"
proof -
  let ?b = "emptyBucket\<lparr>b_mOfFragmentNo := 5, b_mReceivedFragments := {1, 4}\<rparr>"
  have m: "missing ?b (Suc (unat (b_mOfFragmentNo ?b))) = [0, 2, 3, 5]"
    by (simp add: missing_def emptyBucket_def upt_conv_Cons)
  from nack_names_missing_fragments [of ?b] obtain d es where d: "buildNack ?b = Some d" "d = [] \<longleftrightarrow> es = []"
    "concat (map entry_range es) = [0, 2, 3, 5]" "es \<noteq> [] \<longrightarrow> nack_asks ?b d (concat (map entry_range (take 255 es)))"
    unfolding m by auto
  have "length es \<le> 4" using entries_fewer [of es] d(3) by simp
  with d show ?thesis by (auto simp: Let_def)
qed

text \<open>
  C7. Lost fragments are recovered: for a partly received payload, the receiver's NACK makes a sender
  that still retains the missing fragments retransmit missing fragments and nothing else, at least one,
  each of them once, and when these have arrived the receiver has them. One NACK names at most 255 ranges:
  when no more are missing, the fragments sent are all the missing ones and the frame is handed over
  complete and with the payload; otherwise fewer are missing than before, and the next NACK asks for the rest.
\<close>

theorem nack_recovers_lost_fragments:
  assumes "asm_ok a" "collecting a src S r" "S \<noteq> {}" "S \<noteq> {..unat (fa_aOfFragmentNo a)}"
    and "r_mMode r = THREADED" "r_mRunning r"
    and "nack_missing (r_mpBuckets r (bucketIndex (fa_aSuperFrameNo a) r)) = Some es"
    and "queue_inv s" "s_mRetransmitQueue s = []" "retains a ({..unat (fa_aOfFragmentNo a)} - S) s"
  shows "\<exists>d u k t ms v. buildNack (r_mpBuckets r (bucketIndex (fa_aSuperFrameNo a) r)) = Some d \<and>
    receiveNack d s = Some (OK, u) \<and> processRetransmits (length (s_mRetransmitQueue u)) u = (k, t) \<and>
    distinct ms \<and> ms \<noteq> [] \<and> set ms \<subseteq> {..unat (fa_aOfFragmentNo a)} - S \<and>
    s_out t = s_out s @ map (\<lambda>i. (fragment a i, fa_aStreamId a)) ms \<and>
    run_ops receiver_step (arrivals (map (\<lambda>i. (fragment a i, src)) ms)) r = Some v \<and> collecting a src (S \<union> set ms) v \<and>
    (length es \<le> 255 \<longrightarrow> set ms = {..unat (fa_aOfFragmentNo a)} - S \<and>
      (\<exists>w fs f. workerTick v = Some w \<and> r_mDeliveryQueue w = r_mDeliveryQueue r @ fs \<and>
        filter (\<lambda>f. sf_mSuperFrameNo f = fa_aSuperFrameNo a) fs = [f] \<and> is_delivery a src f))"
  using assms by (rule nack_recovery)

definition sample_payload :: FragArgs where
  "sample_payload = payload_args (replicate 300 7) 1 90 80 5 3 0x10 (sample_sender 0)"

lemma sample_payload_ok:
  "asm_ok sample_payload" "unat (fa_aOfFragmentNo sample_payload) = 1" "fa_aSuperFrameNo sample_payload = 0"
  "fa_aStreamId sample_payload = 3" "length (fragment sample_payload 1) = 79"
proof -
  show ok: "asm_ok sample_payload" unfolding sample_payload_def
    by (rule payload_asm_ok [OF sample_inv(1) sample_accepts]) (simp add: MAX_SUPERFRAME_SIZE_def)
  show "unat (fa_aOfFragmentNo sample_payload) = 1" "fa_aSuperFrameNo sample_payload = 0" "fa_aStreamId sample_payload = 3"
    "length (fragment sample_payload 1) = 79"
    by (simp_all add: sample_payload_def payload_args_def sent_args_def plan_args_def sample_dims type1_frame_size_def
        fragmentPlan_def fragment_def type2_frame_def piece_def type2_offset_def type3_size_def type2.length_enc Let_def)
qed

theorem nack_recovers_lost_fragments_witness:
  "\<exists>q r d u k t v w f. dispatch (fragment sample_payload 0) 9 (default_receiver (\<lambda>_. True)) = Some (q, r) \<and>
     buildNack (r_mpBuckets r 0) = Some d \<and>
     receiveNack d (retainFragment 0 1 3 (fragment sample_payload 1) (sample_sender 500)) = Some (OK, u) \<and>
     processRetransmits (length (s_mRetransmitQueue u)) u = (k, t) \<and>
     s_out t = [(fragment sample_payload 1, 3)] \<and>
     run_ops receiver_step (arrivals [(fragment sample_payload 1, 9)]) r = Some v \<and> workerTick v = Some w \<and>
     f \<in> set (r_mDeliveryQueue w) \<and> sf_contents f = Some (replicate 300 7)"
proof -
  let ?a = sample_payload and ?r0 = "default_receiver (\<lambda>_. True)"
  let ?s = "retainFragment 0 1 3 (fragment ?a 1) (sample_sender 500)"
  note A = sample_payload_ok
  note new = new_can_open [OF default_receiver_new [of "\<lambda>_. True"]]
  have c0: "collecting ?a 9 {} ?r0" using default_receiver_inv(1) new(1) by (simp add: collecting_def)
  from collect_fragment [OF A(1) c0, of 0] obtain q r where
    r: "dispatch (fragment ?a 0) 9 ?r0 = Some (q, r)" "q \<in> {OK, DUPLICATE_FRAGMENT}" "collecting ?a 9 {0} r" by auto
  have world: "r_mMode r = THREADED" "r_mRunning r" "r_BUFFER_SIZE r = 8191" "r_mDeliveryQueue r = []"
    using same_world_dispatch [OF r(1)] by (simp_all add: same_world_def default_receiver_def newReceiver_def)
  have slot: "bucketIndex (fa_aSuperFrameNo ?a) r = 0" by (simp add: bucketIndex_def A(3))
  have "assembling ?a 9 {0} (r_mpBuckets r 0)" using r(3) by (simp add: collecting_def slot)
  then have b: "b_mReceivedFragments (r_mpBuckets r 0) = {0}" "unat (b_mOfFragmentNo (r_mpBuckets r 0)) = 1"
    using A(2) by (simp_all add: assembling_def)
  have m: "missing (r_mpBuckets r 0) (Suc (unat (b_mOfFragmentNo (r_mpBuckets r 0)))) = [1]"
    by (simp add: missing_def b upt_conv_Cons)
  have "unat (b_mOfFragmentNo (r_mpBuckets r 0)) < 8192" by (simp add: b)
  from nack_missing_spec [OF this] obtain es where
    es: "nack_missing (r_mpBuckets r 0) = Some es" "concat (map entry_range es) = [1]" unfolding m by blast
  have len: "length es \<le> 255" using entries_fewer [of es] es(2) by simp
  have qi: "queue_inv ?s"
    by (rule retainFragment_queue_inv) (simp_all add: sample_inv, simp add: sample_sender_def newSender_def Let_def)
  have empty: "s_mRetransmitQueue ?s = []" by (simp add: retainFragment_send_buffer sample_dims)
  have ret: "retains ?a ({..unat (fa_aOfFragmentNo ?a)} - {0}) ?s"
  proof -
    have "{..unat (fa_aOfFragmentNo ?a)} - {0} = {1}" by (auto simp: A(2))
    moreover have "s_mRetentionBuffer ?s (makeRetentionKey 0 1) = Some \<lparr>rf_mTimestampUs = 0, rf_mSuperFrameNo = 0, rf_mFragmentNo = 1,
        rf_mStreamId = 3, rf_mRetryCount = 0, rf_mGeneration = 1, rf_mData = fragment ?a 1\<rparr>"
      using A(5) by (simp add: retainFragment_def evictOldRetention_def sample_defs)
    ultimately show ?thesis by (simp add: retains_def A(3,4))
  qed
  have ne: "{0} \<noteq> {..unat (fa_aOfFragmentNo ?a)}" "{0 :: nat} \<noteq> {}" by (auto simp: A(2))
  from nack_recovers_lost_fragments [OF A(1) r(3) ne(2,1) world(1,2) es(1) [folded slot] qi empty ret]
  obtain d u k t ms v where d: "buildNack (r_mpBuckets r 0) = Some d" "receiveNack d ?s = Some (OK, u)"
    "processRetransmits (length (s_mRetransmitQueue u)) u = (k, t)" and ms: "distinct ms"
    and out: "s_out t = s_out ?s @ map (\<lambda>i. (fragment ?a i, fa_aStreamId ?a)) ms"
    and v: "run_ops receiver_step (arrivals (map (\<lambda>i. (fragment ?a i, 9)) ms)) r = Some v"
    and all: "length es \<le> 255 \<longrightarrow> set ms = {..unat (fa_aOfFragmentNo ?a)} - {0} \<and> (\<exists>w fs f. workerTick v = Some w \<and>
      r_mDeliveryQueue w = r_mDeliveryQueue r @ fs \<and> filter (\<lambda>f. sf_mSuperFrameNo f = fa_aSuperFrameNo ?a) fs = [f] \<and> is_delivery ?a 9 f)"
    unfolding slot by (elim exE conjE) (rule that, assumption+)
  from mp [OF all len] obtain w fs f where f: "workerTick v = Some w" "set ms = {..unat (fa_aOfFragmentNo ?a)} - {0}"
    "r_mDeliveryQueue w = fs" "filter (\<lambda>f. sf_mSuperFrameNo f = fa_aSuperFrameNo ?a) fs = [f]" "is_delivery ?a 9 f"
    unfolding world(4) append_Nil by (elim conjE exE) (rule that, assumption+)
  have "{..unat (fa_aOfFragmentNo ?a)} - {0} = {1}" by (auto simp: A(2))
  with f(2) have single: "set ms = {1}" by (rule trans)
  with distinct_card [OF ms] have "length ms = 1" by simp
  with single have one: "ms = [1]" by (cases ms) auto
  have "f \<in> set (r_mDeliveryQueue w)" using f(3,4) filter_is_subset list.set_intros(1) subsetD by metis
  moreover have "sf_contents f = Some (replicate 300 7)" using f(5) by (simp add: is_delivery_def sample_payload_def payload_fields)
  moreover have "s_out ?s = []" by (simp add: retainFragment_send_buffer sample_dims)
  ultimately show ?thesis using r(1) d out v f(1) A(4) unfolding one by (intro exI conjI) auto
qed

section \<open>The size limits of the two sides\<close>

text \<open>
  The sender admits 100 MiB; the receiver rounds the size up to whole fragments plus one and refuses
  the very first fragment of such a payload.
\<close>

lemma largest_payload:
  assumes "length d = 104857600"
  shows "send_outcome d (newSender 65535 SINGLE 0 0 clk) = OK"
    "sent_frames d ptype pts dts code st flags (newSender 65535 SINGLE 0 0 clk) =
      frames_of (sent_args d ptype pts dts code st flags (newSender 65535 SINGLE 0 0 clk))"
    "fa_aNumType1Fragments (sent_args d ptype pts dts code st flags (newSender 65535 SINGLE 0 0 clk)) = 1600"
    "fa_aType1PayloadSize (sent_args d ptype pts dts code st flags (newSender 65535 SINGLE 0 0 clk)) = 65527"
    "fa_aOfFragmentNo (sent_args d ptype pts dts code st flags (newSender 65535 SINGLE 0 0 clk)) = 1600"
  using assms by (auto simp add: send_outcome_def sent_total_def sent_frames_def sent_args_def plan_args_def newSender_def
      type1_frame_size_def fragmentPlan_def MAX_SUPERFRAME_SIZE_def MAX_FRAGMENTS_PER_SUPERFRAME_def Let_def)

theorem largest_payload_refused:
  assumes "length d = 104857600" "send d ptype pts dts code st flags (newSender 65535 SINGLE 0 0 clk) = Some (q, t)"
  shows "q = OK \<and> (\<exists>r. dispatch (hd (unpacked (s_out t))) src (default_receiver al) = Some (TOO_LARGE_FRAME, r))"
proof -
  let ?s = "newSender 65535 SINGLE 0 0 clk" and ?a = "sent_args d ptype pts dts code st flags (newSender 65535 SINGLE 0 0 clk)"
  note L = largest_payload [OF assms(1)]
  note c = send_carries [OF sender_inv_new assms(2)]
  have q: "q = OK" using c(1) L(1) by simp
  have "s_mRetransmitQueue ?s = []" "s_out ?s = []" by (simp_all add: newSender_def Let_def)
  with c(2) [OF q] have "unpacked (s_out t) = map snd (frames_of ?a)" by (auto simp: carries_def L(2))
  then have hd: "hd (unpacked (s_out t)) = type1_frame ?a 0"
    by (simp add: frames_of_def L(3) hd_append hd_map)
  have "length (piece 0 65527 (fa_apData ?a)) = 65527"
    using assms(1) by (simp add: piece_def sent_args_def plan_args_def Let_def)
  moreover have "fa_aSuperFrameNo ?a = 0" by (simp add: sent_args_def plan_args_def newSender_def Let_def)
  ultimately show ?thesis using q L(5) unfolding hd
    by (simp add: type1_frame_def type1_header_def L(4) header_eval receiver_eval MAX_SUPERFRAME_SIZE_def)
qed

end
